(* ===== verification/Prelude.thy ===== *)
theory Prelude
  imports Main "HOL-Library.Word" "HOL-Library.AList"
begin

text \<open>
  What every component shares: the exception classes of the repository and of the Python
  standard library as one type, results \<open>exn + 'a\<close> with their sequencing, byte strings and
  slices, the \<^verbatim>\<open>struct\<close> module's fixed-width integers in both byte orders, and the
  interface \<open>wire_codec\<close> that every encoder/decoder pair of the development satisfies.
  The messages the exceptions carry are not modelled.
\<close>

section \<open>Exceptions and results\<close>

text \<open>
  The first group is \<^verbatim>\<open>aicl/bin/exceptions.py\<close> with \<^verbatim>\<open>validation.VersionMismatchError\<close>;
  the second group is raised by the interpreter or its standard library in the modelled code;
  the third is \<^verbatim>\<open>aicl/transport/shared_memory_ring.py\<close>. \<open>NestingExhausted\<close> stands for the bound of a
  model's recursion and is shown never to be returned.
\<close>

datatype exn =
    AICLBinError | HeaderError | TLVError | SymbolError | EncodeError | DecodeError
  | ChecksumError | TruncatedPacketError | InvalidPacketError | VersionMismatchError
  | StructError | ValueError | PyTypeError | AttributeError | PyIndexError
  | OverflowError | UnicodeEncodeError | UnicodeDecodeError | JSONDecodeError
  | ZeroDivisionError | PyTimeoutError | NotImplementedError
  | RingFull | RingEmpty
  | NestingExhausted

text \<open>The class hierarchy: the base class each exception class derives from.\<close>

definition exn_parent :: "exn \<Rightarrow> exn option" where
  "exn_parent e =
     (if e \<in> {HeaderError, TLVError, SymbolError, EncodeError, DecodeError, ChecksumError}
        then Some AICLBinError
      else if e \<in> {TruncatedPacketError, InvalidPacketError} then Some DecodeError
      else if e = VersionMismatchError then Some HeaderError
      else if e \<in> {UnicodeEncodeError, UnicodeDecodeError, JSONDecodeError} then Some ValueError
      else None)"

text \<open>\<^verbatim>\<open>except AICLBinError\<close> catches the class and its descendants (at most two levels).\<close>

definition is_aicl_bin_error :: "exn \<Rightarrow> bool" where
  "is_aicl_bin_error e =
     (e = AICLBinError \<or> exn_parent e = Some AICLBinError \<or>
      (case exn_parent e of None \<Rightarrow> False | Some p \<Rightarrow> exn_parent p = Some AICLBinError))"

type_synonym 'a res = "exn + 'a"

definition bindr :: "'e + 'a \<Rightarrow> ('a \<Rightarrow> 'e + 'b) \<Rightarrow> 'e + 'b" where
  "bindr r f = (case r of Inl e \<Rightarrow> Inl e | Inr x \<Rightarrow> f x)"

text \<open>A loop over a list that stops at the first exception.\<close>

primrec mapr :: "('a \<Rightarrow> 'e + 'b) \<Rightarrow> 'a list \<Rightarrow> 'e + 'b list" where
  "mapr f [] = Inr []"
| "mapr f (x # xs) = bindr (f x) (\<lambda>y. bindr (mapr f xs) (\<lambda>ys. Inr (y # ys)))"

section \<open>Byte strings and slices\<close>

type_synonym byte = "8 word"
type_synonym bytes = "byte list"

text \<open>The byte with a given value.\<close>

definition byte_of :: "nat \<Rightarrow> byte" where
  "byte_of n = of_nat n"

text \<open>\<^verbatim>\<open>data[a:b]\<close> for non-negative bounds: Python clamps both to the length.\<close>

definition slice :: "'a list \<Rightarrow> nat \<Rightarrow> nat \<Rightarrow> 'a list" where
  "slice xs a b = take (b - a) (drop a xs)"

text \<open>\<open>has_at data pos bs\<close>: the bytes \<open>bs\<close> stand in \<open>data\<close> from position \<open>pos\<close> on.\<close>

definition has_at :: "'a list \<Rightarrow> nat \<Rightarrow> 'a list \<Rightarrow> bool" where
  "has_at data pos bs = (pos + length bs \<le> length data \<and> slice data pos (pos + length bs) = bs)"

section \<open>The struct module\<close>

text \<open>
  \<open>be_bytes n v\<close> is the \<open>n\<close>-byte big-endian form of \<open>v\<close>, \<open>be_val\<close> reads one back.
  \<^verbatim>\<open>struct.pack\<close> raises \<^verbatim>\<open>struct.error\<close> for an argument out of range, and
  \<^verbatim>\<open>struct.unpack_from\<close> raises it when the buffer is too short.
\<close>

primrec be_bytes :: "nat \<Rightarrow> nat \<Rightarrow> bytes" where
  "be_bytes 0 v = []"
| "be_bytes (Suc n) v = be_bytes n (v div 256) @ [byte_of (v mod 256)]"

definition be_val :: "bytes \<Rightarrow> nat" where
  "be_val bs = foldl (\<lambda>a b. a * 256 + unat b) 0 bs"

definition le_bytes :: "nat \<Rightarrow> nat \<Rightarrow> bytes" where
  "le_bytes n v = rev (be_bytes n v)"

definition le_val :: "bytes \<Rightarrow> nat" where
  "le_val bs = be_val (rev bs)"

definition pack_u :: "nat \<Rightarrow> int \<Rightarrow> bytes res" where
  "pack_u n v = (if 0 \<le> v \<and> v < 256 ^ n then Inr (be_bytes n (nat v)) else Inl StructError)"

definition pack_s :: "nat \<Rightarrow> int \<Rightarrow> bytes res" where
  "pack_s n v =
     (if - (256 ^ n div 2) \<le> v \<and> v < 256 ^ n div 2
      then Inr (be_bytes n (nat (v mod 256 ^ n))) else Inl StructError)"

definition unpack_u :: "bytes \<Rightarrow> int" where
  "unpack_u bs = int (be_val bs)"

definition unpack_s :: "bytes \<Rightarrow> int" where
  "unpack_s bs =
     (let v = int (be_val bs); m = 256 ^ length bs in if v < m div 2 then v else v - m)"

definition unpack_from_u :: "nat \<Rightarrow> bytes \<Rightarrow> nat \<Rightarrow> int res" where
  "unpack_from_u n data pos =
     (if pos + n \<le> length data then Inr (unpack_u (slice data pos (pos + n))) else Inl StructError)"

definition unpack_from_s :: "nat \<Rightarrow> bytes \<Rightarrow> nat \<Rightarrow> int res" where
  "unpack_from_s n data pos =
     (if pos + n \<le> length data then Inr (unpack_s (slice data pos (pos + n))) else Inl StructError)"

text \<open>\<^verbatim>\<open>data[i]\<close> for a non-negative index.\<close>

definition byte_at :: "bytes \<Rightarrow> nat \<Rightarrow> int res" where
  "byte_at data i = (if i < length data then Inr (uint (data ! i)) else Inl PyIndexError)"

text \<open>
  \<open>repeat_dec d n pos\<close> is \<^verbatim>\<open>for _ in range(n): x, pos = d(pos); out.append(x)\<close>.
\<close>

primrec repeat_dec :: "(nat \<Rightarrow> 'e + 'a \<times> nat) \<Rightarrow> nat \<Rightarrow> nat \<Rightarrow> 'e + 'a list \<times> nat" where
  "repeat_dec d 0 pos = Inr ([], pos)"
| "repeat_dec d (Suc n) pos =
     bindr (d pos) (\<lambda>(x, p). bindr (repeat_dec d n p) (\<lambda>(xs, q). Inr (x # xs, q)))"

section \<open>Results: shared lemmas\<close>

named_theorems res_simps \<open>equations that run or invert a result\<close>
named_theorems wire_simps \<open>facts about bytes standing at a position\<close>

lemma bindr_Inl [simp]: "bindr (Inl e) f = Inl e"
  by (simp add: bindr_def)

lemma bindr_Inr [simp]: "bindr (Inr x) f = f x"
  by (simp add: bindr_def)

lemma bindr_eq_Inr [res_simps]: "bindr r f = Inr y \<longleftrightarrow> (\<exists>x. r = Inr x \<and> f x = Inr y)"
  by (cases r) auto

lemma bindr_eq_Inl [res_simps]:
  "bindr r f = Inl e \<longleftrightarrow> r = Inl e \<or> (\<exists>x. r = Inr x \<and> f x = Inl e)"
  by (cases r) auto

lemma bindr_assoc: "bindr (bindr r f) g = bindr r (\<lambda>x. bindr (f x) g)"
  by (cases r) auto

lemma bindr_cong [fundef_cong]:
  "r = r' \<Longrightarrow> (\<And>x. r' = Inr x \<Longrightarrow> f x = g x) \<Longrightarrow> bindr r f = bindr r' g"
  by (cases r') auto

lemma bindr_split:
  "P (bindr r f) \<longleftrightarrow> (\<forall>e. r = Inl e \<longrightarrow> P (Inl e)) \<and> (\<forall>x. r = Inr x \<longrightarrow> P (f x))"
  by (cases r) auto

lemma mapr_append:
  "mapr f (xs @ ys) = bindr (mapr f xs) (\<lambda>a. bindr (mapr f ys) (\<lambda>b. Inr (a @ b)))"
  by (induction xs) (simp_all add: bindr_def split: sum.splits)

lemma mapr_length: "mapr f xs = Inr ys \<Longrightarrow> length ys = length xs"
  by (induction xs arbitrary: ys) (auto simp: res_simps)

lemma mapr_Inr_iff: "(\<exists>ys. mapr f xs = Inr ys) \<longleftrightarrow> (\<forall>x\<in>set xs. \<exists>y. f x = Inr y)"
  by (induction xs) (auto simp: res_simps)

lemma mapr_total: "(\<And>x. x \<in> set xs \<Longrightarrow> f x = Inr (g x)) \<Longrightarrow> mapr f xs = Inr (map g xs)"
  by (induction xs) auto

lemma mapr_cong [fundef_cong]:
  "xs = ys \<Longrightarrow> (\<And>x. x \<in> set ys \<Longrightarrow> f x = g x) \<Longrightarrow> mapr f xs = mapr g ys"
  by (induction ys arbitrary: xs) auto

lemma mapr_member:
  "mapr f xs = Inr bss \<Longrightarrow> x \<in> set xs \<Longrightarrow> \<exists>b \<in> set bss. f x = Inr b"
  by (induction xs arbitrary: bss) (fastforce simp: bindr_eq_Inr)+

lemma mapr_list_all2: "mapr f xs = Inr ys \<Longrightarrow> list_all2 (\<lambda>x y. f x = Inr y) xs ys"
  by (induction xs arbitrary: ys) (auto simp: res_simps)

lemma mapr_result: "mapr f xs = Inr ys \<Longrightarrow> y \<in> set ys \<Longrightarrow> \<exists>x \<in> set xs. f x = Inr y"
  by (induction xs arbitrary: ys) (auto simp: res_simps)

lemma length_member_concat: "b \<in> set bss \<Longrightarrow> length b \<le> length (concat bss)"
  by (induction bss) auto

text \<open>A result that is an exception out of \<open>E\<close> or a value with \<open>P\<close>.\<close>

definition outcome :: "'e set \<Rightarrow> ('a \<Rightarrow> bool) \<Rightarrow> 'e + 'a \<Rightarrow> bool" where
  "outcome E P r = (case r of Inl e \<Rightarrow> e \<in> E | Inr x \<Rightarrow> P x)"

lemma outcome_simps [simp]: "outcome E P (Inl e) \<longleftrightarrow> e \<in> E" "outcome E P (Inr x) \<longleftrightarrow> P x"
  by (simp_all add: outcome_def)

lemma outcome_bindr: "outcome E Q r \<Longrightarrow> (\<And>x. Q x \<Longrightarrow> outcome E P (f x)) \<Longrightarrow> outcome E P (bindr r f)"
  by (cases r) simp_all

lemma outcome_mono: "outcome E P r \<Longrightarrow> E \<subseteq> F \<Longrightarrow> (\<And>x. P x \<Longrightarrow> Q x) \<Longrightarrow> outcome F Q r"
  by (cases r) auto

lemma outcomeI: "(\<And>e. r = Inl e \<Longrightarrow> e \<in> E) \<Longrightarrow> (\<And>x. r = Inr x \<Longrightarrow> P x) \<Longrightarrow> outcome E P r"
  by (cases r) simp_all

section \<open>Slices and positions: shared lemmas\<close>

lemma length_slice [simp]: "length (slice xs a b) = min (b - a) (length xs - a)"
  by (simp add: slice_def)

lemma slice_all [simp]: "slice xs 0 (length xs) = xs"
  by (simp add: slice_def)

lemma slice_empty [simp]: "b \<le> a \<Longrightarrow> slice xs a b = []"
  by (simp add: slice_def)

lemma nth_slice: "i < b - a \<Longrightarrow> b \<le> length xs \<Longrightarrow> slice xs a b ! i = xs ! (a + i)"
  by (simp add: slice_def)

lemma slice_split: "a \<le> b \<Longrightarrow> b \<le> c \<Longrightarrow> slice xs a b @ slice xs b c = slice xs a c"
proof -
  assume ab: "a \<le> b" "b \<le> c"
  then have "c - a = (b - a) + (c - b)" by simp
  then have "take (c - a) (drop a xs) =
      take (b - a) (drop a xs) @ take (c - b) (drop (b - a) (drop a xs))"
    by (simp only: take_add)
  with ab show ?thesis by (simp add: slice_def)
qed

lemma slice_append_left [simp]: "b \<le> length xs \<Longrightarrow> slice (xs @ ys) a b = slice xs a b"
  by (simp add: slice_def)

lemma slice_append_right:
  "length xs \<le> a \<Longrightarrow> slice (xs @ ys) a b = slice ys (a - length xs) (b - length xs)"
  by (auto simp: slice_def)

lemma slice_slice: "slice (slice xs a b) c d = slice xs (a + c) (min (a + d) b)"
  by (auto simp: slice_def drop_take min_def add.commute)

lemma slice_update_outside: "i < a \<or> b \<le> i \<Longrightarrow> slice (xs[i := y]) a b = slice xs a b"
proof (cases "i < a")
  case False
  moreover assume "i < a \<or> b \<le> i"
  ultimately show ?thesis by (simp add: slice_def drop_update_swap)
qed (simp add: slice_def)

lemma slice_update_inside: "a \<le> i \<Longrightarrow> slice (xs[i := y]) a b = (slice xs a b)[i - a := y]"
  by (simp add: slice_def take_update_swap drop_update_swap)

lemma has_at_Nil [wire_simps]: "has_at data pos [] \<longleftrightarrow> pos \<le> length data"
  by (simp add: has_at_def)

lemma has_at_bound: "has_at data pos bs \<Longrightarrow> pos + length bs \<le> length data"
  by (simp add: has_at_def)

lemma has_at_append [wire_simps]:
  "has_at data pos (xs @ ys) \<longleftrightarrow> has_at data pos xs \<and> has_at data (pos + length xs) ys"
proof (cases "pos + length xs + length ys \<le> length data")
  case True
  have sp: "slice data pos (pos + length xs + length ys) =
      slice data pos (pos + length xs) @ slice data (pos + length xs) (pos + length xs + length ys)"
    by (rule slice_split [symmetric]) simp_all
  have "length (slice data pos (pos + length xs)) = length xs"
    using True by simp
  then show ?thesis
    using True sp by (auto simp: has_at_def add.assoc append_eq_append_conv)
next
  case False
  then show ?thesis by (auto simp: has_at_def)
qed

lemma has_at_Cons [wire_simps]:
  "has_at data pos (x # xs) \<longleftrightarrow> pos < length data \<and> data ! pos = x \<and> has_at data (Suc pos) xs"
proof -
  have one: "has_at data pos [x] \<longleftrightarrow> pos < length data \<and> data ! pos = x"
    by (auto simp: has_at_def slice_def take_Suc_conv_app_nth hd_drop_conv_nth
        take_Suc simp flip: hd_conv_nth)
  show ?thesis
    using has_at_append [of data pos "[x]" xs] one by simp
qed

lemma has_at_slice: "pos + n \<le> length data \<Longrightarrow> has_at data pos (slice data pos (pos + n))"
  by (simp add: has_at_def)

lemma has_at_self [simp]: "has_at (xs @ bs @ ys) (length xs) bs"
  by (simp add: has_at_def slice_append_right)

lemma has_at_0 [simp]: "has_at bs 0 bs"
  by (simp add: has_at_def)

lemma has_at_prefix [simp]: "has_at (bs @ ys) 0 bs"
  using has_at_self [of "[]"] by simp

lemma has_at_suffix: "has_at data pos bs \<Longrightarrow> has_at (data @ more) pos bs"
  by (simp add: has_at_def)

lemma has_at_sliceD: "has_at data pos bs \<Longrightarrow> slice data pos (pos + length bs) = bs"
  by (simp add: has_at_def)

lemma has_at_slice_eq: "has_at data pos bs \<Longrightarrow> length bs = n \<Longrightarrow> slice data pos (pos + n) = bs"
  by (auto simp: has_at_def)

section \<open>Fixed-width integers: shared lemmas\<close>

lemma length_be_bytes [simp]: "length (be_bytes n v) = n"
  by (induction n arbitrary: v) simp_all

lemma length_le_bytes [simp]: "length (le_bytes n v) = n"
  by (simp add: le_bytes_def)

lemma be_val_Nil [simp]: "be_val [] = 0"
  by (simp add: be_val_def)

lemma be_val_snoc [simp]: "be_val (bs @ [b]) = be_val bs * 256 + unat b"
  by (simp add: be_val_def)

lemma unat_byte_bound [simp]: "unat (b :: byte) < 256"
  by (rule order.strict_trans2 [OF unsigned_less]) simp

lemma unat_byte_of [simp]: "n < 256 \<Longrightarrow> unat (byte_of n) = n"
  by (simp add: byte_of_def unat_of_nat)

lemma byte_of_unat [simp]: "byte_of (unat b) = b"
  by (simp add: byte_of_def)

lemma byte_of_eq_iff: "m < 256 \<Longrightarrow> n < 256 \<Longrightarrow> byte_of m = byte_of n \<longleftrightarrow> m = n"
  by (metis unat_byte_of)

lemma be_val_bound: "be_val bs < 256 ^ length bs"
proof (induction bs rule: rev_induct)
  case Nil
  show ?case by simp
next
  case (snoc b bs)
  have "be_val bs * 256 + unat b < (be_val bs + 1) * 256"
    using unat_byte_bound [of b] by (simp add: algebra_simps)
  also have "\<dots> \<le> 256 ^ length bs * 256"
    using snoc by (intro mult_le_mono1) linarith
  finally show ?case by simp
qed

lemma be_val_be_bytes: "be_val (be_bytes n v) = v mod 256 ^ n"
proof (induction n arbitrary: v)
  case 0
  show ?case by simp
next
  case (Suc n)
  have "be_val (be_bytes (Suc n) v) = (v div 256) mod 256 ^ n * 256 + v mod 256"
    by (simp add: Suc)
  also have "\<dots> = v mod (256 * 256 ^ n)"
    by (simp add: mod_mult2_eq mult.commute)
  finally show ?case by simp
qed

lemma be_val_be_bytes_id [simp]: "v < 256 ^ n \<Longrightarrow> be_val (be_bytes n v) = v"
  by (simp add: be_val_be_bytes)

lemma be_bytes_be_val: "be_bytes (length bs) (be_val bs) = bs"
proof (induction bs rule: rev_induct)
  case Nil
  show ?case by simp
next
  case (snoc b bs)
  have "(be_val bs * 256 + unat b) div 256 = be_val bs"
    using unat_byte_bound [of b] by simp
  moreover have "byte_of ((be_val bs * 256 + unat b) mod 256) = b"
    using unat_byte_bound [of b] by simp
  ultimately show ?case using snoc by simp
qed

lemma le_val_le_bytes [simp]: "v < 256 ^ n \<Longrightarrow> le_val (le_bytes n v) = v"
  by (simp add: le_val_def le_bytes_def)

lemma pack_u_Inr [res_simps]:
  "pack_u n v = Inr bs \<longleftrightarrow> 0 \<le> v \<and> v < 256 ^ n \<and> bs = be_bytes n (nat v)"
  by (auto simp: pack_u_def)

lemma pack_s_Inr [res_simps]:
  "pack_s n v = Inr bs \<longleftrightarrow>
     - (256 ^ n div 2) \<le> v \<and> v < 256 ^ n div 2 \<and> bs = be_bytes n (nat (v mod 256 ^ n))"
  by (auto simp: pack_s_def)

lemma pack_u_length: "pack_u n v = Inr bs \<Longrightarrow> length bs = n"
  by (auto simp: res_simps)

lemma pack_s_length: "pack_s n v = Inr bs \<Longrightarrow> length bs = n"
  by (auto simp: res_simps)

lemma pack_u_errors: "pack_u n v = Inl e \<Longrightarrow> e = StructError"
  by (auto simp: pack_u_def split: if_splits)

lemma pack_s_errors: "pack_s n v = Inl e \<Longrightarrow> e = StructError"
  by (auto simp: pack_s_def split: if_splits)

lemma nat_less_pow256: "0 \<le> v \<Longrightarrow> v < 256 ^ n \<Longrightarrow> nat v < 256 ^ n"
  by (simp add: nat_less_iff)

lemma unpack_pack_u: "pack_u n v = Inr bs \<Longrightarrow> unpack_u bs = v"
  by (auto simp: res_simps unpack_u_def nat_less_pow256)

lemma pack_unpack_u: "pack_u (length bs) (unpack_u bs) = Inr bs"
proof -
  have "int (be_val bs) < 256 ^ length bs"
    using be_val_bound [of bs] by (metis of_nat_less_iff of_nat_numeral of_nat_power)
  then show ?thesis by (simp add: pack_u_def unpack_u_def be_bytes_be_val)
qed

lemma even_pow256: "0 < n \<Longrightarrow> (256::int) ^ n = 2 * (256 ^ n div 2)"
  by (cases n) simp_all

lemma unpack_pack_s:
  assumes p: "pack_s n v = Inr bs" and n: "0 < n"
  shows "unpack_s bs = v"
proof -
  let ?m = "256 ^ n :: int"
  from p have b: "- (?m div 2) \<le> v" "v < ?m div 2" and bs: "bs = be_bytes n (nat (v mod ?m))"
    by (simp_all add: res_simps)
  have r: "0 \<le> v mod ?m" "v mod ?m < ?m" by simp_all
  then have "be_val bs = nat (v mod ?m)"
    using bs nat_less_pow256 by simp
  then have val: "int (be_val bs) = v mod ?m" and len: "length bs = n"
    using r bs by simp_all
  show ?thesis
  proof (cases "0 \<le> v")
    case True
    then have "v mod ?m = v" using b(2) by (simp add: mod_pos_pos_trivial)
    with val len b(2) show ?thesis by (simp add: unpack_s_def Let_def)
  next
    case False
    have "(v + ?m) mod ?m = v + ?m"
      using False b(1) even_pow256 [OF n] by (intro mod_pos_pos_trivial) linarith+
    then have "v mod ?m = v + ?m" by simp
    with val len False b(1) even_pow256 [OF n] show ?thesis
      by (simp add: unpack_s_def Let_def)
  qed
qed

lemma pack_unpack_s:
  assumes n: "bs \<noteq> []"
  shows "pack_s (length bs) (unpack_s bs) = Inr bs"
proof -
  let ?m = "256 ^ length bs :: int"
  have lt: "int (be_val bs) < ?m"
    using be_val_bound [of bs] by (metis of_nat_less_iff of_nat_numeral of_nat_power)
  have ev: "?m = 2 * (?m div 2)" using n even_pow256 by simp
  have "unpack_s bs mod ?m = int (be_val bs)"
    using lt by (simp add: unpack_s_def Let_def)
  moreover have "- (?m div 2) \<le> unpack_s bs \<and> unpack_s bs < ?m div 2"
  proof (cases "int (be_val bs) < ?m div 2")
    case True
    then show ?thesis using lt by (simp add: unpack_s_def Let_def)
  next
    case False
    then have "unpack_s bs = int (be_val bs) - ?m" by (simp add: unpack_s_def Let_def)
    then show ?thesis using lt ev False by linarith
  qed
  ultimately show ?thesis by (simp add: pack_s_def be_bytes_be_val)
qed

lemma unpack_from_u_at [wire_simps]:
  "has_at data pos bs \<Longrightarrow> length bs = n \<Longrightarrow> unpack_from_u n data pos = Inr (unpack_u bs)"
  by (auto simp: unpack_from_u_def has_at_def)

lemma unpack_from_s_at [wire_simps]:
  "has_at data pos bs \<Longrightarrow> length bs = n \<Longrightarrow> unpack_from_s n data pos = Inr (unpack_s bs)"
  by (auto simp: unpack_from_s_def has_at_def)

lemma uint_byte_int [simp]: "0 \<le> v \<Longrightarrow> v < 256 \<Longrightarrow> uint (of_int v :: byte) = v"
  by (simp add: uint_word_of_int take_bit_int_eq_self)

lemma pack_u_byte:
  "pack_u (Suc 0) v = Inr bs \<longleftrightarrow> 0 \<le> v \<and> v < 256 \<and> bs = [of_int v]"
  by (auto simp: pack_u_Inr byte_of_def)

lemma slice_Cons: "0 < a \<Longrightarrow> slice (x # xs) a b = slice xs (a - 1) (b - 1)"
  by (cases a; cases b) (simp_all add: slice_def)

lemma slice_head: "length xs = b \<Longrightarrow> slice (xs @ ys) 0 b = xs"
  by (simp add: slice_def)

lemma slice_whole: "length xs = b \<Longrightarrow> slice xs 0 b = xs"
  by (simp add: slice_def)

lemma byte_len [simp]: "n < 256 \<Longrightarrow> unat (of_nat n :: byte) = n"
  by (simp add: unat_of_nat)

section \<open>Loops over positions: shared lemmas\<close>

text \<open>Decoding item by item what was encoded item by item.\<close>

lemma repeat_dec_mapr:
  assumes "\<And>x bs p. x \<in> set xs \<Longrightarrow> f x = Inr bs \<Longrightarrow> has_at data p bs \<Longrightarrow> d p = Inr (x, p + length bs)"
    and "mapr f xs = Inr bss" "has_at data pos (concat bss)"
  shows "repeat_dec d (length xs) pos = Inr (xs, pos + length (concat bss))"
  using assms
proof (induction xs arbitrary: bss pos)
  case Nil
  then show ?case by simp
next
  case (Cons x xs)
  from Cons.prems(2) obtain b bs where b: "f x = Inr b" "mapr f xs = Inr bs" "bss = b # bs"
    by (auto simp: res_simps)
  with Cons.prems(1,3) have "d pos = Inr (x, pos + length b)"
    by (simp add: wire_simps)
  moreover have "repeat_dec d (length xs) (pos + length b) =
      Inr (xs, pos + length b + length (concat bs))"
    using Cons.prems b by (intro Cons.IH) (simp_all add: wire_simps)
  ultimately show ?case using b by simp
qed

lemma repeat_dec_cong:
  assumes "\<And>p. pos \<le> p \<Longrightarrow> d p = d' p" "\<And>p x q. d p = Inr (x, q) \<Longrightarrow> p \<le> q"
  shows "repeat_dec d n pos = repeat_dec d' n pos"
  using assms
proof (induction n arbitrary: pos)
  case (Suc n)
  have "repeat_dec d n p = repeat_dec d' n p" if "d pos = Inr (x, p)" for x p
  proof (rule Suc.IH)
    have "pos \<le> p" using that Suc.prems(2) by blast
    then show "p \<le> r \<Longrightarrow> d r = d' r" for r by (rule Suc.prems(1) [OF order_trans])
  qed (rule Suc.prems(2))
  then show ?case using Suc.prems(1) [of pos] by (auto simp: bindr_def split: sum.splits)
qed simp

lemma repeat_dec_inv:
  assumes "repeat_dec d n pos = Inr (xs, q)" "pos \<le> N"
    "\<And>p x r. d p = Inr (x, r) \<Longrightarrow> p < r \<and> r \<le> N \<and> P x"
  shows "length xs = n \<and> pos + n \<le> q \<and> q \<le> N \<and> list_all P xs"
  using assms(1,2)
proof (induction n arbitrary: pos xs)
  case 0
  then show ?case by simp
next
  case (Suc n)
  then obtain x p ys where "d pos = Inr (x, p)" "repeat_dec d n p = Inr (ys, q)" "xs = x # ys"
    by (auto simp: res_simps)
  with Suc.IH [of p ys] assms(3) [of pos x p] show ?case by auto
qed

lemma repeat_dec_errors:
  "repeat_dec d n pos = Inl e \<Longrightarrow> (\<And>p e'. d p = Inl e' \<Longrightarrow> P e') \<Longrightarrow> P e"
  by (induction n arbitrary: pos) (auto simp: res_simps)

section \<open>Dictionaries\<close>

text \<open>
  A \<^verbatim>\<open>dict\<close> is an association list with distinct keys in insertion order; \<^verbatim>\<open>d[k] = v\<close> is
  \<^const>\<open>AList.update\<close>, which replaces in place or appends.
\<close>

definition dict_of :: "('k \<times> 'v) list \<Rightarrow> ('k \<times> 'v) list" where
  "dict_of kvs = fold (\<lambda>(k, v) d. AList.update k v d) kvs []"

lemma update_fresh: "k \<notin> fst ` set d \<Longrightarrow> AList.update k v d = d @ [(k, v)]"
  by (induction d) auto

lemma fold_update_distinct:
  "distinct (map fst (d @ kvs)) \<Longrightarrow> fold (\<lambda>(k, v) d. AList.update k v d) kvs d = d @ kvs"
  by (induction kvs arbitrary: d) (auto simp: update_fresh)

lemma dict_of_distinct [simp]: "distinct (map fst kvs) \<Longrightarrow> dict_of kvs = kvs"
  by (simp add: dict_of_def fold_update_distinct)

lemma fold_update_keys:
  "distinct (map fst d) \<Longrightarrow>
     distinct (map fst (fold (\<lambda>(k, v) d. AList.update k v d) kvs d)) \<and>
     set (fold (\<lambda>(k, v) d. AList.update k v d) kvs d) \<subseteq> set d \<union> set kvs"
proof (induction kvs arbitrary: d)
  case (Cons kv kvs)
  obtain k v where kv: "kv = (k, v)" by (cases kv)
  have "distinct (map fst (AList.update k v d))"
    using Cons.prems by (simp add: distinct_update)
  moreover have "set (AList.update k v d) \<subseteq> insert (k, v) (set d)"
    by (induction d) auto
  ultimately show ?case using Cons.IH [of "AList.update k v d"] kv by auto
qed simp

lemma dict_of_keys: "distinct (map fst (dict_of kvs))" "set (dict_of kvs) \<subseteq> set kvs"
  using fold_update_keys [of "[]" kvs] by (simp_all add: dict_of_def)

lemma dict_of_length: "length (dict_of kvs) \<le> length kvs"
proof -
  have "distinct (dict_of kvs)" using dict_of_keys(1) by (auto simp: distinct_map)
  then have "length (dict_of kvs) = card (set (dict_of kvs))" by (simp add: distinct_card)
  also have "\<dots> \<le> card (set kvs)" by (rule card_mono) (simp_all add: dict_of_keys(2))
  also have "\<dots> \<le> length kvs" by (rule card_length)
  finally show ?thesis .
qed

section \<open>The interface of an encoder and its decoder\<close>

text \<open>
  What a client of a wire format relies on: every well-formed value encodes, and the decoder,
  started where the encoding stands (whatever is before and after it), returns the value and
  the position right behind it. The client's facts follow from these two laws alone:
  a sequence of items decodes item by item, and no encoding is a prefix of another.
\<close>

locale wire_codec =
  fixes enc :: "'a \<Rightarrow> 'e + bytes"
    and dec :: "bytes \<Rightarrow> nat \<Rightarrow> 'e + 'a \<times> nat"
    and ok :: "'a \<Rightarrow> bool"
  assumes enc_total: "ok x \<Longrightarrow> \<exists>bs. enc x = Inr bs"
    and dec_enc: "ok x \<Longrightarrow> enc x = Inr bs \<Longrightarrow> has_at data pos bs \<Longrightarrow>
      dec data pos = Inr (x, pos + length bs)"
begin

lemma dec_in_context:
  "ok x \<Longrightarrow> enc x = Inr bs \<Longrightarrow> dec (us @ bs @ vs) (length us) = Inr (x, length us + length bs)"
  by (rule dec_enc) simp_all

lemma prefix_free:
  assumes "ok x" "ok y" "enc x = Inr a" "enc y = Inr b" "a @ u = b @ v"
  shows "x = y \<and> a = b \<and> u = v"
proof -
  have "dec (a @ u) 0 = Inr (x, length a)" and "dec (b @ v) 0 = Inr (y, length b)"
    using assms(1-4) dec_enc [of _ _ _ 0] by simp_all
  with assms(5) show ?thesis by auto
qed

lemma enc_inj: "ok x \<Longrightarrow> ok y \<Longrightarrow> enc x = enc y \<Longrightarrow> x = y"
  using enc_total prefix_free [of x y _ _ "[]" "[]"] by fastforce

lemma enc_all_total: "list_all ok xs \<Longrightarrow> \<exists>bss. mapr enc xs = Inr bss"
  by (simp add: mapr_Inr_iff list_all_iff enc_total)

lemma repeat_dec_enc:
  "list_all ok xs \<Longrightarrow> mapr enc xs = Inr bss \<Longrightarrow> has_at data pos (concat bss) \<Longrightarrow>
     repeat_dec (dec data) (length xs) pos = Inr (xs, pos + length (concat bss))"
  by (rule repeat_dec_mapr) (auto simp: list_all_iff intro: dec_enc)

end

end
