(* ===== verification/Py_Text.thy ===== *)
theory Py_Text
  imports Prelude
begin

text \<open>
  Python's \<^verbatim>\<open>str\<close> as a list of code points, with \<^verbatim>\<open>str.encode("utf-8")\<close> and the strict
  \<^verbatim>\<open>bytes.decode("utf-8")\<close> the codec uses for every text field. Encoding raises for a
  surrogate code point, decoding for every ill-formed sequence (a stray or missing
  continuation byte, an overlong form, a surrogate, a value above 0x10FFFF). The two are
  inverse to each other in both directions.
\<close>

section \<open>Code points and strings\<close>

type_synonym pystr = "nat list"

text \<open>A string literal of the source (ASCII) as a list of code points.\<close>

definition str :: "string \<Rightarrow> pystr" where
  "str s = map of_char s"

definition scalar :: "nat \<Rightarrow> bool" where
  "scalar c = (c < 0xD800 \<or> (0xE000 \<le> c \<and> c < 0x110000))"

text \<open>The strings that have a UTF-8 form: no surrogate code points.\<close>

definition encodable :: "pystr \<Rightarrow> bool" where
  "encodable s = list_all scalar s"

section \<open>UTF-8\<close>

definition utf8_char :: "nat \<Rightarrow> bytes res" where
  "utf8_char c =
     (if c < 0x80 then Inr [byte_of c]
      else if c < 0x800 then Inr [byte_of (0xC0 + c div 64), byte_of (0x80 + c mod 64)]
      else if \<not> scalar c then Inl UnicodeEncodeError
      else if c < 0x10000 then
        Inr [byte_of (0xE0 + c div 4096), byte_of (0x80 + c div 64 mod 64), byte_of (0x80 + c mod 64)]
      else
        Inr [byte_of (0xF0 + c div 262144), byte_of (0x80 + c div 4096 mod 64),
             byte_of (0x80 + c div 64 mod 64), byte_of (0x80 + c mod 64)])"

definition utf8_encode :: "pystr \<Rightarrow> bytes res" where
  "utf8_encode s = bindr (mapr utf8_char s) (\<lambda>bss. Inr (concat bss))"

definition is_cont :: "byte \<Rightarrow> bool" where
  "is_cont b = (0x80 \<le> unat b \<and> unat b < 0xC0)"

text \<open>One character off the front, \<open>None\<close> where the sequence is ill-formed.\<close>

fun utf8_next :: "bytes \<Rightarrow> (nat \<times> bytes) option" where
  "utf8_next [] = None"
| "utf8_next (a # rest) =
     (if unat a < 0x80 then Some (unat a, rest)
      else if 0xC0 \<le> unat a \<and> unat a < 0xE0 then
        (case rest of
           b # r \<Rightarrow>
             let c = (unat a - 0xC0) * 64 + (unat b - 0x80) in
             if is_cont b \<and> 0x80 \<le> c then Some (c, r) else None
         | _ \<Rightarrow> None)
      else if 0xE0 \<le> unat a \<and> unat a < 0xF0 then
        (case rest of
           b # b' # r \<Rightarrow>
             let c = (unat a - 0xE0) * 4096 + (unat b - 0x80) * 64 + (unat b' - 0x80) in
             if is_cont b \<and> is_cont b' \<and> 0x800 \<le> c \<and> scalar c then Some (c, r) else None
         | _ \<Rightarrow> None)
      else if 0xF0 \<le> unat a \<and> unat a < 0xF8 then
        (case rest of
           b # b' # b'' # r \<Rightarrow>
             let c = (unat a - 0xF0) * 262144 + (unat b - 0x80) * 4096 + (unat b' - 0x80) * 64
                       + (unat b'' - 0x80) in
             if is_cont b \<and> is_cont b' \<and> is_cont b'' \<and> 0x10000 \<le> c \<and> scalar c
             then Some (c, r) else None
         | _ \<Rightarrow> None)
      else None)"

lemma utf8_next_shorter: "utf8_next bs = Some (c, r) \<Longrightarrow> length r < length bs"
  by (cases bs) (auto simp: Let_def split: if_splits list.splits)

function utf8_decode :: "bytes \<Rightarrow> pystr res" where
  "utf8_decode bs =
     (if bs = [] then Inr []
      else case utf8_next bs of
        None \<Rightarrow> Inl UnicodeDecodeError
      | Some (c, r) \<Rightarrow> bindr (utf8_decode r) (\<lambda>s. Inr (c # s)))"
  by pat_completeness auto
termination
  by (relation "measure length") (auto dest: utf8_next_shorter)

declare utf8_decode.simps [simp del]

section \<open>Encoding and decoding are inverse\<close>

lemma utf8_decode_Nil [simp]: "utf8_decode [] = Inr []"
  by (simp add: utf8_decode.simps)

lemma base64_digits3: "c div 4096 * 4096 + c div 64 mod 64 * 64 + c mod 64 = (c :: nat)"
proof -
  have "c div 4096 = c div 64 div 64" by (simp add: div_mult2_eq [symmetric])
  moreover have "c div 64 div 64 * 64 + c div 64 mod 64 = c div 64" "c div 64 * 64 + c mod 64 = c"
    by simp_all
  ultimately show ?thesis by linarith
qed

lemma base64_digits4:
  "c div 262144 * 262144 + c div 4096 mod 64 * 4096 + c div 64 mod 64 * 64 + c mod 64 = (c :: nat)"
proof -
  have "c div 262144 = c div 4096 div 64" by (simp add: div_mult2_eq [symmetric])
  moreover have "c div 4096 div 64 * 64 + c div 4096 mod 64 = c div 4096" by simp
  ultimately show ?thesis using base64_digits3 [of c] by linarith
qed

lemma utf8_next_char:
  assumes "utf8_char c = Inr bs"
  shows "utf8_next (bs @ r) = Some (c, r)"
proof -
  consider "c < 0x80" | "0x80 \<le> c" "c < 0x800" | "0x800 \<le> c" "c < 0x10000" "scalar c"
    | "0x10000 \<le> c" "c < 0x110000" "scalar c"
    using assms by (auto simp: utf8_char_def scalar_def split: if_splits)
  then show ?thesis
  proof cases
    case 1
    then show ?thesis using assms by (auto simp: utf8_char_def)
  next
    case 2
    then have "c div 64 < 32" by simp
    with 2 show ?thesis using assms
      by (auto simp: utf8_char_def is_cont_def Let_def)
  next
    case 3
    have "c div 4096 < 16" using 3 by simp
    with 3 show ?thesis using assms base64_digits3 [of c]
      by (auto simp: utf8_char_def is_cont_def Let_def)
  next
    case 4
    have "c div 262144 < 8" using 4 by simp
    with 4 show ?thesis using assms base64_digits4 [of c]
      by (auto simp: utf8_char_def is_cont_def Let_def)
  qed
qed

lemma utf8_char_scalar: "(\<exists>bs. utf8_char c = Inr bs) \<longleftrightarrow> scalar c"
  by (auto simp: utf8_char_def scalar_def)

lemma utf8_char_nonempty: "utf8_char c = Inr bs \<Longrightarrow> bs \<noteq> []"
  by (auto simp: utf8_char_def split: if_splits)

lemma utf8_encode_Nil [simp]: "utf8_encode [] = Inr []"
  by (simp add: utf8_encode_def)

lemma utf8_encode_Cons:
  "utf8_encode (c # s) =
     bindr (utf8_char c) (\<lambda>b. bindr (utf8_encode s) (\<lambda>bs. Inr (b @ bs)))"
  by (simp add: utf8_encode_def bindr_def split: sum.splits)

lemma utf8_encode_total: "encodable s \<longleftrightarrow> (\<exists>bs. utf8_encode s = Inr bs)"
  by (induction s) (auto simp: encodable_def utf8_encode_Cons res_simps utf8_char_scalar [symmetric])

lemma utf8_encode_errors: "utf8_encode s = Inl e \<Longrightarrow> e = UnicodeEncodeError"
  by (induction s) (auto simp: utf8_encode_Cons res_simps utf8_char_def split: if_splits)

lemma utf8_decode_errors: "utf8_decode bs = Inl e \<Longrightarrow> e = UnicodeDecodeError"
  by (induction bs rule: utf8_decode.induct)
    (subst (asm) (2) utf8_decode.simps, auto simp: res_simps split: if_splits option.splits)

theorem utf8_decode_encode: "utf8_encode s = Inr bs \<Longrightarrow> utf8_decode bs = Inr s"
proof (induction s arbitrary: bs)
  case Nil
  then show ?case by simp
next
  case (Cons c s)
  then obtain b bs' where b: "utf8_char c = Inr b" "utf8_encode s = Inr bs'" "bs = b @ bs'"
    by (auto simp: utf8_encode_Cons res_simps)
  then have "utf8_decode bs' = Inr s" and "bs \<noteq> []"
    using Cons.IH utf8_char_nonempty by auto
  with b utf8_next_char [OF b(1)] show ?case by (subst utf8_decode.simps) simp
qed

lemma base64_value2: "d < (64 :: nat) \<Longrightarrow> (a * 64 + d) div 64 = a \<and> (a * 64 + d) mod 64 = d"
  by simp

lemma base64_value3:
  assumes "b < 64" "c < (64 :: nat)"
  shows "(a * 4096 + b * 64 + c) div 4096 = a" "(a * 4096 + b * 64 + c) div 64 mod 64 = b"
    "(a * 4096 + b * 64 + c) mod 64 = c"
proof -
  have 1: "(a * 4096 + b * 64 + c) div 64 = a * 64 + b"
    using assms by simp
  have 2: "(a * 4096 + b * 64 + c) div 4096 = (a * 4096 + b * 64 + c) div 64 div 64"
    by (simp add: div_mult2_eq [symmetric])
  show "(a * 4096 + b * 64 + c) div 4096 = a"
    unfolding 2 1 using assms by simp
  show "(a * 4096 + b * 64 + c) div 64 mod 64 = b"
    unfolding 1 using assms by simp
  show "(a * 4096 + b * 64 + c) mod 64 = c"
    using assms by (simp add: mod_add_eq [symmetric] mod_mult_right_eq)
qed

lemma base64_value4:
  assumes "b < 64" "c < 64" "d < (64 :: nat)"
  shows "(a * 262144 + b * 4096 + c * 64 + d) div 262144 = a"
    "(a * 262144 + b * 4096 + c * 64 + d) div 4096 mod 64 = b"
    "(a * 262144 + b * 4096 + c * 64 + d) div 64 mod 64 = c"
    "(a * 262144 + b * 4096 + c * 64 + d) mod 64 = d"
proof -
  have eq: "a * 262144 + b * 4096 + c * 64 + d = (a * 64 + b) * 4096 + c * 64 + d" by simp
  have "(a * 262144 + b * 4096 + c * 64 + d) div 262144 =
      (a * 262144 + b * 4096 + c * 64 + d) div 4096 div 64"
    by (simp add: div_mult2_eq [symmetric])
  then show "(a * 262144 + b * 4096 + c * 64 + d) div 262144 = a"
    unfolding eq base64_value3(1) [OF assms(2,3)] using assms(1) by simp
  show "(a * 262144 + b * 4096 + c * 64 + d) div 4096 mod 64 = b"
    unfolding eq base64_value3(1) [OF assms(2,3)] using assms(1) by simp
  show "(a * 262144 + b * 4096 + c * 64 + d) div 64 mod 64 = c"
    unfolding eq by (rule base64_value3(2) [OF assms(2,3)])
  show "(a * 262144 + b * 4096 + c * 64 + d) mod 64 = d"
    unfolding eq by (rule base64_value3(3) [OF assms(2,3)])
qed

lemma byte_of_offset: "k \<le> unat b \<Longrightarrow> byte_of (k + (unat b - k)) = b"
  by simp

lemma utf8_next_inv:
  assumes "utf8_next bs = Some (c, r)"
  shows "\<exists>b. utf8_char c = Inr b \<and> bs = b @ r"
proof -
  from assms obtain a rest where bs: "bs = a # rest" by (cases bs) auto
  consider "unat a < 0x80" | "0xC0 \<le> unat a" "unat a < 0xE0" | "0xE0 \<le> unat a" "unat a < 0xF0"
    | "0xF0 \<le> unat a" "unat a < 0xF8"
    using assms bs by (auto split: if_splits)
  then show ?thesis
  proof cases
    case 1
    then show ?thesis using assms bs by (auto simp: utf8_char_def)
  next
    case 2
    then obtain b where rest: "rest = b # r" and b: "is_cont b"
      and c: "c = (unat a - 0xC0) * 64 + (unat b - 0x80)" "0x80 \<le> c"
      using assms bs by (auto simp: Let_def split: list.splits if_splits)
    from b have b64: "unat b - 0x80 < 64" "0x80 \<le> unat b" by (auto simp: is_cont_def)
    have "c div 64 = unat a - 0xC0" "c mod 64 = unat b - 0x80"
      unfolding c(1) using base64_value2 [OF b64(1)] by simp_all
    with c(2) 2 b64 show ?thesis
      by (auto simp: utf8_char_def bs rest byte_of_offset)
  next
    case 3
    then obtain b b' where rest: "rest = b # b' # r" and b: "is_cont b" "is_cont b'"
      and c: "c = (unat a - 0xE0) * 4096 + (unat b - 0x80) * 64 + (unat b' - 0x80)"
        "0x800 \<le> c" "scalar c"
      using assms bs by (auto simp: Let_def split: list.splits if_splits)
    from b have b64: "unat b - 0x80 < 64" "0x80 \<le> unat b" "unat b' - 0x80 < 64" "0x80 \<le> unat b'"
      by (auto simp: is_cont_def)
    have "c div 4096 = unat a - 0xE0" "c div 64 mod 64 = unat b - 0x80" "c mod 64 = unat b' - 0x80"
      unfolding c(1) by (rule base64_value3 [OF b64(1,3)])+
    moreover have "c < 0x10000" using c(1) 3 b64 by linarith
    ultimately show ?thesis using c(2,3) 3 b64
      by (auto simp: utf8_char_def bs rest byte_of_offset)
  next
    case 4
    then obtain b b' b'' where rest: "rest = b # b' # b'' # r"
      and b: "is_cont b" "is_cont b'" "is_cont b''"
      and c: "c = (unat a - 0xF0) * 262144 + (unat b - 0x80) * 4096 + (unat b' - 0x80) * 64
        + (unat b'' - 0x80)" "0x10000 \<le> c" "scalar c"
      using assms bs by (auto simp: Let_def split: list.splits if_splits)
    from b have b64: "unat b - 0x80 < 64" "0x80 \<le> unat b" "unat b' - 0x80 < 64" "0x80 \<le> unat b'"
      "unat b'' - 0x80 < 64" "0x80 \<le> unat b''"
      by (auto simp: is_cont_def)
    have "c div 262144 = unat a - 0xF0" "c div 4096 mod 64 = unat b - 0x80"
      "c div 64 mod 64 = unat b' - 0x80" "c mod 64 = unat b'' - 0x80"
      unfolding c(1) by (rule base64_value4 [OF b64(1,3,5)])+
    then show ?thesis using c(2,3) 4 b64
      by (auto simp: utf8_char_def bs rest byte_of_offset)
  qed
qed

theorem utf8_encode_decode: "utf8_decode bs = Inr s \<Longrightarrow> utf8_encode s = Inr bs"
proof (induction bs arbitrary: s rule: utf8_decode.induct)
  case (1 bs)
  show ?case
  proof (cases "bs = []")
    case True
    with "1.prems" show ?thesis by simp
  next
    case False
    with "1.prems" obtain c r s' where n: "utf8_next bs = Some (c, r)"
      and d: "utf8_decode r = Inr s'" and s: "s = c # s'"
      by (subst (asm) utf8_decode.simps) (auto simp: res_simps split: option.splits)
    from "1.IH" [OF False n refl d] have "utf8_encode s' = Inr r" .
    with utf8_next_inv [OF n] s show ?thesis by (auto simp: utf8_encode_Cons)
  qed
qed

lemma utf8_encode_inj: "utf8_encode s = Inr bs \<Longrightarrow> utf8_encode t = Inr bs \<Longrightarrow> s = t"
  by (drule utf8_decode_encode)+ simp

lemma utf8_decode_encodable: "utf8_decode bs = Inr s \<Longrightarrow> encodable s"
  using utf8_encode_decode utf8_encode_total by blast

text \<open>On ASCII text both directions are the identity on character codes.\<close>

lemma utf8_ascii: "list_all (\<lambda>c. c < 0x80) s \<Longrightarrow> utf8_encode s = Inr (map byte_of s)"
  by (induction s) (auto simp: utf8_encode_Cons utf8_char_def)

lemma utf8_ascii_encodable: "list_all (\<lambda>c. c < 0x80) s \<Longrightarrow> encodable s"
  by (auto simp: encodable_def list_all_iff scalar_def)

lemma utf8_encode_nonempty: "utf8_encode s = Inr bs \<Longrightarrow> s \<noteq> [] \<Longrightarrow> bs \<noteq> []"
  by (cases s) (auto simp: utf8_encode_Cons bindr_eq_Inr dest: utf8_char_nonempty)

lemma utf8_char_bytes: "utf8_char c = Inr bs \<Longrightarrow> b \<in> set bs \<Longrightarrow> unat b = c \<or> 128 \<le> unat b"
proof -
  assume "utf8_char c = Inr bs" "b \<in> set bs"
  moreover from this have "c < 0x110000" using utf8_char_scalar [of c] by (auto simp: scalar_def)
  ultimately show ?thesis by (auto simp: utf8_char_def split: if_splits)
qed

lemma str_eq: "str a = str b \<longleftrightarrow> a = b"
  using inj_map_eq_map [of "of_char :: char \<Rightarrow> nat"] by (auto simp: str_def inj_def)

end
