(* ===== verification/Wire_Constants.thy ===== *)
theory Wire_Constants
  imports Py_Text
begin

text \<open>
  The numbers of the protocol, with the names the source gives them: \<^verbatim>\<open>constants.py\<close> (sizes,
  header flags), \<^verbatim>\<open>ops.py\<close> (opcodes and their classes), \<^verbatim>\<open>symbol_types.py\<close> (operand tags),
  \<^verbatim>\<open>extension_tags.py\<close> (vendor tags of the rich fields), \<^verbatim>\<open>identity.py\<close> and \<^verbatim>\<open>errors.py\<close>.
  Shown: request and response opcodes are disjoint, and every named opcode but NOP and CANCEL
  is one or the other.
\<close>

section \<open>Header and sizes\<close>

text \<open>\<^verbatim>\<open>MAGIC = b"AICL"\<close>.\<close>

definition MAGIC :: bytes where
  "MAGIC = [0x41, 0x49, 0x43, 0x4C]"

abbreviation (input) HEADER_SIZE :: nat where "HEADER_SIZE \<equiv> 56"
abbreviation (input) HEADER_CRC_SCOPE :: nat where "HEADER_CRC_SCOPE \<equiv> 52"
abbreviation (input) CHECKSUM_SIZE :: nat where "CHECKSUM_SIZE \<equiv> 4"
abbreviation (input) CURRENT_VERSION :: int where "CURRENT_VERSION \<equiv> 0x0100"
abbreviation (input) SUPPORTED_VERSIONS :: "int set" where "SUPPORTED_VERSIONS \<equiv> {0x0100}"
abbreviation (input) MAX_TLV_VALUE_SIZE :: int where "MAX_TLV_VALUE_SIZE \<equiv> 0xFFFFFF"
abbreviation (input) MAX_PACKET_SIZE :: int where "MAX_PACKET_SIZE \<equiv> MAX_TLV_VALUE_SIZE + int HEADER_SIZE"

section \<open>Header flags\<close>

abbreviation (input) FLAG_REQUEST :: int where "FLAG_REQUEST \<equiv> 0x0001"
abbreviation (input) FLAG_RESPONSE :: int where "FLAG_RESPONSE \<equiv> 0x0002"
abbreviation (input) FLAG_STREAM_CHUNK :: int where "FLAG_STREAM_CHUNK \<equiv> 0x0004"
abbreviation (input) FLAG_STREAM_END :: int where "FLAG_STREAM_END \<equiv> 0x0008"
abbreviation (input) FLAG_ERROR :: int where "FLAG_ERROR \<equiv> 0x0010"
abbreviation (input) FLAG_CANCEL :: int where "FLAG_CANCEL \<equiv> 0x0020"
abbreviation (input) FLAG_HEARTBEAT :: int where "FLAG_HEARTBEAT \<equiv> 0x0040"
abbreviation (input) FLAG_COMPRESSED :: int where "FLAG_COMPRESSED \<equiv> 0x0080"
abbreviation (input) FLAG_ENCRYPTED :: int where "FLAG_ENCRYPTED \<equiv> 0x0100"
abbreviation (input) FLAG_TRACED :: int where "FLAG_TRACED \<equiv> 0x0200"
abbreviation (input) FLAG_PRIORITY_HIGH :: int where "FLAG_PRIORITY_HIGH \<equiv> 0x0400"
abbreviation (input) FLAG_PRIORITY_LOW :: int where "FLAG_PRIORITY_LOW \<equiv> 0x0800"
abbreviation (input) FLAG_EXTENDED :: int where "FLAG_EXTENDED \<equiv> 0x1000"
abbreviation (input) FLAG_HAS_BUFFER_REF :: int where "FLAG_HAS_BUFFER_REF \<equiv> 0x2000"
abbreviation (input) FLAG_FROZEN :: int where "FLAG_FROZEN \<equiv> 0x4000"
abbreviation (input) FLAG_HAS_TRAILER :: int where "FLAG_HAS_TRAILER \<equiv> 0x0100"

section \<open>Opcodes\<close>

abbreviation (input) OP_NOP :: int where "OP_NOP \<equiv> 0x00"
abbreviation (input) OP_HELLO :: int where "OP_HELLO \<equiv> 0x01"
abbreviation (input) OP_GOODBYE :: int where "OP_GOODBYE \<equiv> 0x02"
abbreviation (input) OP_DISCOVER :: int where "OP_DISCOVER \<equiv> 0x03"
abbreviation (input) OP_PING :: int where "OP_PING \<equiv> 0x04"
abbreviation (input) OP_PONG :: int where "OP_PONG \<equiv> 0x05"
abbreviation (input) OP_ACK :: int where "OP_ACK \<equiv> 0x06"
abbreviation (input) OP_NAK :: int where "OP_NAK \<equiv> 0x07"
abbreviation (input) OP_ERROR :: int where "OP_ERROR \<equiv> 0x08"
abbreviation (input) OP_CANCEL :: int where "OP_CANCEL \<equiv> 0x09"
abbreviation (input) OP_VERSION :: int where "OP_VERSION \<equiv> 0x0A"
abbreviation (input) OP_CALL :: int where "OP_CALL \<equiv> 0x10"
abbreviation (input) OP_RETURN :: int where "OP_RETURN \<equiv> 0x11"
abbreviation (input) OP_STREAM :: int where "OP_STREAM \<equiv> 0x12"
abbreviation (input) OP_STREAM_END :: int where "OP_STREAM_END \<equiv> 0x13"
abbreviation (input) OP_MEMORY_READ :: int where "OP_MEMORY_READ \<equiv> 0x20"
abbreviation (input) OP_MEMORY_WRITE :: int where "OP_MEMORY_WRITE \<equiv> 0x21"
abbreviation (input) OP_MEMORY_DELETE :: int where "OP_MEMORY_DELETE \<equiv> 0x22"
abbreviation (input) OP_INDEX_QUERY :: int where "OP_INDEX_QUERY \<equiv> 0x23"
abbreviation (input) OP_INDEX_UPSERT :: int where "OP_INDEX_UPSERT \<equiv> 0x24"
abbreviation (input) OP_CAPABILITY_ADVERTISE :: int where "OP_CAPABILITY_ADVERTISE \<equiv> 0x30"
abbreviation (input) OP_CAPABILITY_WITHDRAW :: int where "OP_CAPABILITY_WITHDRAW \<equiv> 0x31"
abbreviation (input) OP_CAPABILITY_QUERY :: int where "OP_CAPABILITY_QUERY \<equiv> 0x32"
abbreviation (input) OP_MODEL_CALL :: int where "OP_MODEL_CALL \<equiv> 0x40"
abbreviation (input) OP_TOOL_CALL :: int where "OP_TOOL_CALL \<equiv> 0x41"
abbreviation (input) OP_EMBED :: int where "OP_EMBED \<equiv> 0x42"
abbreviation (input) OP_CLASSIFY :: int where "OP_CLASSIFY \<equiv> 0x43"
abbreviation (input) OP_REASON :: int where "OP_REASON \<equiv> 0x44"
abbreviation (input) OP_RETRIEVE :: int where "OP_RETRIEVE \<equiv> 0x45"
abbreviation (input) OP_EXECUTE :: int where "OP_EXECUTE \<equiv> 0x46"
abbreviation (input) OP_TRACE :: int where "OP_TRACE \<equiv> 0x50"
abbreviation (input) OP_STATS :: int where "OP_STATS \<equiv> 0x51"
abbreviation (input) OP_HEALTH :: int where "OP_HEALTH \<equiv> 0x52"
abbreviation (input) OP_BUFFER_REF :: int where "OP_BUFFER_REF \<equiv> 0x60"
abbreviation (input) OP_BUFFER_RELEASE :: int where "OP_BUFFER_RELEASE \<equiv> 0x61"
abbreviation (input) OP_BUFFER_SHARE :: int where "OP_BUFFER_SHARE \<equiv> 0x62"
abbreviation (input) OP_VENDOR_BASE :: int where "OP_VENDOR_BASE \<equiv> 0xF0"

definition OPERATION_NAMES :: "(int \<times> string) list" where
  "OPERATION_NAMES =
    [(OP_NOP, ''NOP''), (OP_HELLO, ''HELLO''), (OP_GOODBYE, ''GOODBYE''),
     (OP_DISCOVER, ''DISCOVER''), (OP_PING, ''PING''), (OP_PONG, ''PONG''),
     (OP_ACK, ''ACK''), (OP_NAK, ''NAK''), (OP_ERROR, ''ERROR''),
     (OP_CANCEL, ''CANCEL''), (OP_VERSION, ''VERSION''), (OP_CALL, ''CALL''),
     (OP_RETURN, ''RETURN''), (OP_STREAM, ''STREAM''), (OP_STREAM_END, ''STREAM_END''),
     (OP_MEMORY_READ, ''MEMORY_READ''), (OP_MEMORY_WRITE, ''MEMORY_WRITE''), (OP_MEMORY_DELETE, ''MEMORY_DELETE''),
     (OP_INDEX_QUERY, ''INDEX_QUERY''), (OP_INDEX_UPSERT, ''INDEX_UPSERT''), (OP_CAPABILITY_ADVERTISE, ''CAPABILITY_ADVERTISE''),
     (OP_CAPABILITY_WITHDRAW, ''CAPABILITY_WITHDRAW''), (OP_CAPABILITY_QUERY, ''CAPABILITY_QUERY''), (OP_MODEL_CALL, ''MODEL_CALL''),
     (OP_TOOL_CALL, ''TOOL_CALL''), (OP_EMBED, ''EMBED''), (OP_CLASSIFY, ''CLASSIFY''),
     (OP_REASON, ''REASON''), (OP_RETRIEVE, ''RETRIEVE''), (OP_EXECUTE, ''EXECUTE''),
     (OP_TRACE, ''TRACE''), (OP_STATS, ''STATS''), (OP_HEALTH, ''HEALTH''),
     (OP_BUFFER_REF, ''BUFFER_REF''), (OP_BUFFER_RELEASE, ''BUFFER_RELEASE''), (OP_BUFFER_SHARE, ''BUFFER_SHARE'')]"

definition is_vendor_op :: "int \<Rightarrow> bool" where
  "is_vendor_op opcode = (0xF0 \<le> opcode \<and> opcode \<le> 0xFF)"

definition is_assigned :: "int \<Rightarrow> bool" where
  "is_assigned opcode = (opcode \<in> fst ` set OPERATION_NAMES \<or> is_vendor_op opcode)"

definition REQUEST_OPS :: "int set" where
  "REQUEST_OPS =
    {OP_HELLO, OP_DISCOVER, OP_PING, OP_CALL, OP_STREAM,
     OP_MEMORY_READ, OP_MEMORY_WRITE, OP_MEMORY_DELETE, OP_INDEX_QUERY, OP_INDEX_UPSERT,
     OP_CAPABILITY_ADVERTISE, OP_CAPABILITY_WITHDRAW, OP_CAPABILITY_QUERY, OP_MODEL_CALL, OP_TOOL_CALL,
     OP_EMBED, OP_CLASSIFY, OP_REASON, OP_RETRIEVE, OP_EXECUTE,
     OP_TRACE, OP_STATS, OP_HEALTH, OP_BUFFER_REF, OP_BUFFER_SHARE}"

definition RESPONSE_OPS :: "int set" where
  "RESPONSE_OPS =
    {OP_GOODBYE, OP_PONG, OP_ACK, OP_NAK, OP_ERROR,
     OP_RETURN, OP_STREAM_END, OP_VERSION, OP_BUFFER_RELEASE}"

definition SYSTEM_OPS :: "int set" where
  "SYSTEM_OPS =
    {OP_NOP, OP_HELLO, OP_GOODBYE, OP_DISCOVER, OP_PING,
     OP_PONG, OP_ACK, OP_NAK, OP_ERROR, OP_CANCEL,
     OP_VERSION}"

section \<open>Operand tags\<close>

abbreviation (input) S_I8 :: int where "S_I8 \<equiv> 0x01"
abbreviation (input) S_I16 :: int where "S_I16 \<equiv> 0x02"
abbreviation (input) S_I32 :: int where "S_I32 \<equiv> 0x03"
abbreviation (input) S_I64 :: int where "S_I64 \<equiv> 0x04"
abbreviation (input) S_U8 :: int where "S_U8 \<equiv> 0x05"
abbreviation (input) S_U16 :: int where "S_U16 \<equiv> 0x06"
abbreviation (input) S_U32 :: int where "S_U32 \<equiv> 0x07"
abbreviation (input) S_U64 :: int where "S_U64 \<equiv> 0x08"
abbreviation (input) S_F32 :: int where "S_F32 \<equiv> 0x09"
abbreviation (input) S_F64 :: int where "S_F64 \<equiv> 0x0A"
abbreviation (input) S_BOOL :: int where "S_BOOL \<equiv> 0x10"
abbreviation (input) S_STRING :: int where "S_STRING \<equiv> 0x11"
abbreviation (input) S_BYTES :: int where "S_BYTES \<equiv> 0x12"
abbreviation (input) S_UUID :: int where "S_UUID \<equiv> 0x13"
abbreviation (input) S_HANDLE :: int where "S_HANDLE \<equiv> 0x14"
abbreviation (input) S_REF :: int where "S_REF \<equiv> 0x15"
abbreviation (input) S_BUF_REF :: int where "S_BUF_REF \<equiv> 0x16"
abbreviation (input) S_LIST :: int where "S_LIST \<equiv> 0x17"
abbreviation (input) S_MAP :: int where "S_MAP \<equiv> 0x18"
abbreviation (input) S_NULL :: int where "S_NULL \<equiv> 0x19"
abbreviation (input) S_TS_MS :: int where "S_TS_MS \<equiv> 0x1A"
abbreviation (input) S_DURATION_MS :: int where "S_DURATION_MS \<equiv> 0x1B"
abbreviation (input) S_VENDOR_BASE :: int where "S_VENDOR_BASE \<equiv> 0x80"

definition is_vendor_tag :: "int \<Rightarrow> bool" where
  "is_vendor_tag tag = (0x80 \<le> tag \<and> tag \<le> 0xFF)"

definition SYMBOL_TYPE_NAMES :: "(int \<times> string) list" where
  "SYMBOL_TYPE_NAMES =
    [(S_I8, ''I8''), (S_I16, ''I16''), (S_I32, ''I32''), (S_I64, ''I64''),
     (S_U8, ''U8''), (S_U16, ''U16''), (S_U32, ''U32''), (S_U64, ''U64''),
     (S_F32, ''F32''), (S_F64, ''F64''), (S_BOOL, ''BOOL''), (S_STRING, ''STR''),
     (S_BYTES, ''BYTES''), (S_UUID, ''UUID''), (S_HANDLE, ''HANDLE''), (S_REF, ''REF''),
     (S_BUF_REF, ''BUF_REF''), (S_LIST, ''LIST''), (S_MAP, ''MAP''), (S_NULL, ''NULL''),
     (S_TS_MS, ''TS_MS''), (S_DURATION_MS, ''DURATION_MS'')]"

section \<open>Vendor tags of the rich fields\<close>

abbreviation (input) EXT_SESSION_ID :: int where "EXT_SESSION_ID \<equiv> 0x80"
abbreviation (input) EXT_ORIGIN :: int where "EXT_ORIGIN \<equiv> 0x81"
abbreviation (input) EXT_TARGETS :: int where "EXT_TARGETS \<equiv> 0x82"
abbreviation (input) EXT_INTENT :: int where "EXT_INTENT \<equiv> 0x83"
abbreviation (input) EXT_RESPONSE_SYMBOLS :: int where "EXT_RESPONSE_SYMBOLS \<equiv> 0x84"
abbreviation (input) EXT_CONFIDENCE :: int where "EXT_CONFIDENCE \<equiv> 0x85"
abbreviation (input) EXT_PRIORITY :: int where "EXT_PRIORITY \<equiv> 0x86"
abbreviation (input) EXT_CAPABILITIES :: int where "EXT_CAPABILITIES \<equiv> 0x87"
abbreviation (input) EXT_QOS :: int where "EXT_QOS \<equiv> 0x88"
abbreviation (input) EXT_SECURITY :: int where "EXT_SECURITY \<equiv> 0x89"
abbreviation (input) EXT_TRACE_ENTRY :: int where "EXT_TRACE_ENTRY \<equiv> 0x8A"
abbreviation (input) EXT_CHUNK_INFO :: int where "EXT_CHUNK_INFO \<equiv> 0x8B"
abbreviation (input) EXT_BLOB_REF :: int where "EXT_BLOB_REF \<equiv> 0x8C"
abbreviation (input) EXT_BACKPRESSURE :: int where "EXT_BACKPRESSURE \<equiv> 0x8D"
abbreviation (input) EXT_ERROR_INFO :: int where "EXT_ERROR_INFO \<equiv> 0x8E"
abbreviation (input) EXT_ACK_INFO :: int where "EXT_ACK_INFO \<equiv> 0x8F"
abbreviation (input) EXT_TARGET_CAPS :: int where "EXT_TARGET_CAPS \<equiv> 0x90"
abbreviation (input) EXT_SCHEMA_ID :: int where "EXT_SCHEMA_ID \<equiv> 0x91"
abbreviation (input) EXT_STREAM_ID :: int where "EXT_STREAM_ID \<equiv> 0x92"
abbreviation (input) EXT_PARTIAL_RESULT :: int where "EXT_PARTIAL_RESULT \<equiv> 0x93"
abbreviation (input) EXT_MODEL_INVOCATION :: int where "EXT_MODEL_INVOCATION \<equiv> 0x94"
abbreviation (input) EXT_TOOL_INVOCATION :: int where "EXT_TOOL_INVOCATION \<equiv> 0x95"
abbreviation (input) EXT_METADATA :: int where "EXT_METADATA \<equiv> 0x96"

section \<open>Identity types and error codes\<close>

abbreviation (input) IDENTITY_MODULE :: int where "IDENTITY_MODULE \<equiv> 0x01"
abbreviation (input) IDENTITY_AGENT :: int where "IDENTITY_AGENT \<equiv> 0x02"
abbreviation (input) IDENTITY_MODEL :: int where "IDENTITY_MODEL \<equiv> 0x03"
abbreviation (input) IDENTITY_RUNTIME :: int where "IDENTITY_RUNTIME \<equiv> 0x04"
abbreviation (input) IDENTITY_SYSTEM :: int where "IDENTITY_SYSTEM \<equiv> 0x05"
abbreviation (input) IDENTITY_EXTERNAL :: int where "IDENTITY_EXTERNAL \<equiv> 0x06"

abbreviation (input) ERR_TIMEOUT :: int where "ERR_TIMEOUT \<equiv> 0x0001"
abbreviation (input) ERR_UNAVAILABLE :: int where "ERR_UNAVAILABLE \<equiv> 0x0002"
abbreviation (input) ERR_UNSUPPORTED :: int where "ERR_UNSUPPORTED \<equiv> 0x0003"
abbreviation (input) ERR_INVALID :: int where "ERR_INVALID \<equiv> 0x0004"
abbreviation (input) ERR_PERMISSION :: int where "ERR_PERMISSION \<equiv> 0x0005"
abbreviation (input) ERR_OVERLOADED :: int where "ERR_OVERLOADED \<equiv> 0x0006"
abbreviation (input) ERR_CANCELLED :: int where "ERR_CANCELLED \<equiv> 0x0007"
abbreviation (input) ERR_INTERNAL :: int where "ERR_INTERNAL \<equiv> 0x0008"
abbreviation (input) ERR_PROTOCOL :: int where "ERR_PROTOCOL \<equiv> 0x0009"
abbreviation (input) ERR_AUTH :: int where "ERR_AUTH \<equiv> 0x000A"
abbreviation (input) SEVERITY_FATAL :: int where "SEVERITY_FATAL \<equiv> 0"
abbreviation (input) SEVERITY_ERROR :: int where "SEVERITY_ERROR \<equiv> 1"
abbreviation (input) SEVERITY_WARNING :: int where "SEVERITY_WARNING \<equiv> 2"
abbreviation (input) SEVERITY_INFO :: int where "SEVERITY_INFO \<equiv> 3"

section \<open>Lemmas\<close>

lemma opcode_classes:
  "REQUEST_OPS \<inter> RESPONSE_OPS = {}"
  "fst ` set OPERATION_NAMES = REQUEST_OPS \<union> RESPONSE_OPS \<union> {OP_NOP, OP_CANCEL}"
  "SYSTEM_OPS \<subseteq> fst ` set OPERATION_NAMES"
  by (simp_all add: REQUEST_OPS_def RESPONSE_OPS_def OPERATION_NAMES_def SYSTEM_OPS_def
      insert_commute)

lemma ext_tags_vendor:
  "EXT_SESSION_ID \<le> t \<Longrightarrow> t \<le> EXT_METADATA \<Longrightarrow> is_vendor_tag t"
  by (simp add: is_vendor_tag_def)

end
