(* ===== verification/Varint.thy ===== *)
theory Varint
  imports Prelude
begin

unbundle bit_operations_syntax

text \<open>
  \<^verbatim>\<open>aicl/bin/varint.py\<close>: the LEB128 numbers that carry every count and length of the payload,
  at most \<open>MAX_VARINT_BYTES\<close> bytes long. Shown: what fits in 28 bits survives encoding and
  decoding at any position; the decoder moves forward by one to four bytes inside the buffer
  and yields a 28-bit number; and an encoding of a larger number, which the encoder produces
  without an error, is refused by the decoder.
\<close>

section \<open>Encoder and decoder\<close>

abbreviation (input) MAX_VARINT_BYTES :: nat where
  "MAX_VARINT_BYTES \<equiv> 4"

text \<open>The body of \<^verbatim>\<open>for _ in range(_MAX_BYTES)\<close>, with the number of rounds left.\<close>

primrec encode_varint_loop :: "nat \<Rightarrow> int \<Rightarrow> bytes" where
  "encode_varint_loop 0 value = []"
| "encode_varint_loop (Suc k) value =
     (let more = value > 0x7F;
          b = of_int ((value AND 0x7F) OR (if more then 0x80 else 0))
      in if \<not> more then [b] else b # encode_varint_loop k (drop_bit 7 value))"

definition encode_varint :: "int \<Rightarrow> bytes res" where
  "encode_varint value =
     (if value < 0 then Inl SymbolError else Inr (encode_varint_loop MAX_VARINT_BYTES value))"

primrec decode_varint_loop ::
  "nat \<Rightarrow> bytes \<Rightarrow> nat \<Rightarrow> int \<Rightarrow> nat \<Rightarrow> (int \<times> nat) res" where
  "decode_varint_loop 0 data pos value shift = Inl SymbolError"
| "decode_varint_loop (Suc k) data pos value shift =
     (if length data \<le> pos then Inl SymbolError
      else
        let byt = uint (data ! pos);
            value' = value OR push_bit shift (byt AND 0x7F)
        in if byt AND 0x80 = 0 then Inr (value', pos + 1)
           else decode_varint_loop k data (pos + 1) value' (shift + 7))"

definition decode_varint :: "bytes \<Rightarrow> nat \<Rightarrow> (int \<times> nat) res" where
  "decode_varint data pos = decode_varint_loop MAX_VARINT_BYTES data pos 0 0"

text \<open>The numbers a varint can carry.\<close>

definition varint_ok :: "int \<Rightarrow> bool" where
  "varint_ok v = (0 \<le> v \<and> v < 2 ^ 28)"

section \<open>Bits\<close>

lemma and_7F: "(x :: int) AND 0x7F = x mod 128"
  using take_bit_eq_mask [of 7 x] by (simp add: take_bit_eq_mod mask_eq_exp_minus_1)

lemma and_80_eq_0: "0 \<le> x \<Longrightarrow> x < 256 \<Longrightarrow> (x :: int) AND 0x80 = 0 \<longleftrightarrow> x < 128"
  using and_exp_eq_0_iff_not_bit [of x 7] by (simp add: bit_iff_odd) presburger

lemma or_push_bit:
  fixes v x :: int
  assumes "0 \<le> v" "v < 2 ^ n"
  shows "v OR push_bit n x = v + x * 2 ^ n"
proof -
  have "v AND push_bit n x = 0"
  proof (rule bit_eqI)
    fix i
    show "bit (v AND push_bit n x) i \<longleftrightarrow> bit (0 :: int) i"
    proof (cases "i < n")
      case True
      then show ?thesis by (simp add: bit_simps)
    next
      case False
      then have "(2 :: int) ^ n \<le> 2 ^ i" by (simp add: power_increasing)
      with assms(2) have "v < 2 ^ i" by (rule order.strict_trans2)
      then have "\<not> bit v i" using assms(1) by (simp add: bit_iff_odd)
      then show ?thesis by (simp add: bit_simps)
    qed
  qed
  then have "v + push_bit n x = v OR push_bit n x" by (rule disjunctive_add_eq_or)
  then show ?thesis by (simp add: push_bit_eq_mult)
qed

lemma or_80: "0 \<le> x \<Longrightarrow> x < 128 \<Longrightarrow> (x :: int) OR 0x80 = x + 128"
  using or_push_bit [of x 7 1] by (simp add: push_bit_eq_mult)

lemma encode_varint_last: "0 \<le> v \<Longrightarrow> v \<le> 0x7F \<Longrightarrow> encode_varint_loop (Suc k) v = [of_int v]"
  by (simp add: and_7F Let_def)

lemma encode_varint_more:
  "0x7F < v \<Longrightarrow>
     encode_varint_loop (Suc k) v = of_int (v mod 128 + 128) # encode_varint_loop k (v div 128)"
  by (simp add: and_7F or_80 Let_def drop_bit_eq_div)

lemma uint_more: "uint (of_int (v mod 128 + 128) :: byte) = v mod 128 + 128"
  by (rule uint_byte_int) simp_all

declare encode_varint_loop.simps(2) [simp del]

section \<open>Lemmas\<close>

lemma decode_varint_step:
  assumes "pos < length data" "0 \<le> acc" "acc < 2 ^ shift"
  shows "decode_varint_loop (Suc k) data pos acc shift =
    (let b = uint (data ! pos); acc' = acc + b mod 128 * 2 ^ shift in
     if b < 128 then Inr (acc', Suc pos)
     else decode_varint_loop k data (Suc pos) acc' (shift + 7))"
proof -
  have "0 \<le> uint (data ! pos)" "uint (data ! pos) < 256"
    using uint_bounded [of "data ! pos"] by simp_all
  then show ?thesis
    using assms by (simp add: Let_def and_7F and_80_eq_0 or_push_bit)
qed

declare decode_varint_loop.simps(2) [simp del]

lemma decode_value_bound:
  fixes acc b :: int
  assumes "0 \<le> acc" "acc < 2 ^ shift"
  shows "0 \<le> acc + b mod 128 * 2 ^ shift \<and> acc + b mod 128 * 2 ^ shift < 2 ^ (shift + 7)"
proof -
  have "b mod 128 * 2 ^ shift \<le> 127 * 2 ^ shift" by (rule mult_right_mono) simp_all
  moreover have "(2 :: int) ^ (shift + 7) = 128 * 2 ^ shift" by (simp add: power_add)
  moreover have "0 \<le> b mod 128 * 2 ^ shift" by simp
  ultimately show ?thesis using assms by linarith
qed

lemma decode_encode_loop:
  assumes "0 < k" "0 \<le> v" "v < 128 ^ k" "has_at data pos (encode_varint_loop k v)"
    "0 \<le> acc" "acc < 2 ^ shift"
  shows "decode_varint_loop k data pos acc shift =
    Inr (acc + v * 2 ^ shift, pos + length (encode_varint_loop k v))"
  using assms
proof (induction k arbitrary: v pos acc shift)
  case 0
  then show ?case by simp
next
  case (Suc k)
  show ?case
  proof (cases "v \<le> 0x7F")
    case True
    with Suc.prems have "pos < length data" "data ! pos = of_int v"
      by (simp_all add: encode_varint_last wire_simps)
    with True Suc.prems show ?thesis
      by (simp add: decode_varint_step encode_varint_last Let_def)
  next
    case False
    with Suc.prems(4) have at: "pos < length data" "data ! pos = of_int (v mod 128 + 128)"
      "has_at data (Suc pos) (encode_varint_loop k (v div 128))"
      by (simp_all add: encode_varint_more wire_simps)
    have b: "uint (data ! pos) = v mod 128 + 128"
      using at(2) uint_more by simp
    let ?w = "acc + v mod 128 * 2 ^ shift"
    have "v div 128 < 128 ^ k" using Suc.prems(3) by (simp add: div_less_iff_less_mult algebra_simps)
    moreover have "0 < k" using False Suc.prems(3) by (cases k) simp_all
    ultimately have "decode_varint_loop k data (Suc pos) ?w (shift + 7) =
        Inr (?w + v div 128 * 2 ^ (shift + 7),
          Suc pos + length (encode_varint_loop k (v div 128)))"
      using Suc.prems decode_value_bound [OF Suc.prems(5,6), of v] at(3)
      by (intro Suc.IH) simp_all
    moreover have "?w + v div 128 * 2 ^ (shift + 7) = acc + v * 2 ^ shift"
    proof -
      have "v * 2 ^ shift = (v div 128 * 128 + v mod 128) * 2 ^ shift"
        by (simp only: div_mult_mod_eq)
      also have "\<dots> = v div 128 * 2 ^ (shift + 7) + v mod 128 * 2 ^ shift"
        unfolding power_add distrib_right by simp
      finally show ?thesis by simp
    qed
    ultimately show ?thesis
      using False at(1) b Suc.prems(5,6)
      by (simp add: decode_varint_step Let_def encode_varint_more)
  qed
qed

lemma encode_varint_loop_length: "length (encode_varint_loop k v) \<le> k"
proof (induction k arbitrary: v)
  case 0
  show ?case by simp
next
  case (Suc k)
  then show ?case by (simp add: encode_varint_loop.simps(2) Let_def)
qed

lemma encode_varint_total: "varint_ok v \<Longrightarrow> \<exists>bs. encode_varint v = Inr bs"
  by (simp add: encode_varint_def varint_ok_def)

lemma decode_encode_varint:
  assumes "varint_ok v" "encode_varint v = Inr bs" "has_at data pos bs"
  shows "decode_varint data pos = Inr (v, pos + length bs)"
proof -
  from assms have "bs = encode_varint_loop 4 v" "0 \<le> v" "v < 128 ^ 4"
    by (auto simp: varint_ok_def encode_varint_def split: if_splits)
  with assms(3) show ?thesis
    using decode_encode_loop [of 4 v data pos 0 0] by (simp add: decode_varint_def)
qed

interpretation varint: wire_codec encode_varint decode_varint varint_ok
  by unfold_locales (fact encode_varint_total, rule decode_encode_varint)

lemma decode_varint_loop_bounds:
  assumes "decode_varint_loop k data pos acc shift = Inr (v, p)" "0 \<le> acc" "acc < 2 ^ shift"
  shows "pos < p \<and> p \<le> pos + k \<and> p \<le> length data \<and> 0 \<le> v \<and> v < 2 ^ (shift + 7 * k)"
  using assms
proof (induction k arbitrary: pos acc shift)
  case 0
  then show ?case by simp
next
  case (Suc k)
  then have pos: "pos < length data"
    by (auto simp: decode_varint_loop.simps(2) split: if_splits)
  let ?b = "uint (data ! pos)"
  note step = decode_varint_step [OF pos Suc.prems(2,3), of k]
  note bound = decode_value_bound [OF Suc.prems(2,3), of ?b]
  show ?case
  proof (cases "?b < 128")
    case True
    have "(2 :: int) ^ (shift + 7) \<le> 2 ^ (shift + 7 * Suc k)" by (rule power_increasing) simp_all
    with bound have "acc + ?b mod 128 * 2 ^ shift < 2 ^ (shift + 7 * Suc k)" by linarith
    with Suc.prems(1) True step bound pos show ?thesis by (auto simp: Let_def)
  next
    case False
    with Suc.prems(1) step
    have "decode_varint_loop k data (Suc pos) (acc + ?b mod 128 * 2 ^ shift) (shift + 7) = Inr (v, p)"
      by (simp add: Let_def)
    from Suc.IH [OF this] bound show ?thesis by (simp add: add.assoc)
  qed
qed

lemma decode_varint_bounds:
  "decode_varint data pos = Inr (v, p) \<Longrightarrow>
     pos < p \<and> p \<le> pos + 4 \<and> p \<le> length data \<and> varint_ok v"
  unfolding decode_varint_def varint_ok_def
  by (drule decode_varint_loop_bounds) simp_all

lemma decode_varint_loop_errors: "decode_varint_loop k data pos acc shift = Inl e \<Longrightarrow> e = SymbolError"
  by (induction k arbitrary: pos acc shift)
    (auto simp: decode_varint_loop.simps(2) Let_def split: if_splits)

lemma decode_varint_errors: "decode_varint data pos = Inl e \<Longrightarrow> e = SymbolError"
  unfolding decode_varint_def by (rule decode_varint_loop_errors)

text \<open>A number of more than 28 bits leaves every continuation bit set.\<close>

lemma encode_varint_loop_overflow:
  "128 ^ k \<le> v \<Longrightarrow>
     length (encode_varint_loop k v) = k \<and> (\<forall>b \<in> set (encode_varint_loop k v). 128 \<le> uint b)"
proof (induction k arbitrary: v)
  case 0
  show ?case by simp
next
  case (Suc k)
  have "(1 :: int) \<le> 128 ^ k" by simp
  with Suc.prems have "0x7F < v" unfolding power_Suc by linarith
  moreover have "128 ^ k \<le> v div 128"
    using Suc.prems zdiv_mono1 [of "128 ^ Suc k" v 128] by simp
  ultimately show ?case using Suc.IH
    by (auto simp: encode_varint_more uint_more simp del: of_int_add)
qed

lemma decode_varint_loop_all_more:
  assumes "has_at data pos bs" "\<forall>b \<in> set bs. 128 \<le> uint b" "0 \<le> acc" "acc < 2 ^ shift"
  shows "decode_varint_loop (length bs) data pos acc shift = Inl SymbolError"
  using assms
proof (induction bs arbitrary: pos acc shift)
  case Nil
  then show ?case by simp
next
  case (Cons b bs)
  then have "pos < length data" "\<not> uint (data ! pos) < 128" by (auto simp: wire_simps)
  with Cons.prems Cons.IH decode_value_bound [OF Cons.prems(3,4)] show ?case
    by (simp add: decode_varint_step Let_def wire_simps)
qed

lemma encode_varint_small: "0 \<le> v \<Longrightarrow> v \<le> 0x7F \<Longrightarrow> encode_varint v = Inr [of_int v]"
  using encode_varint_last [of v 3] by (simp add: encode_varint_def)

lemma encode_varint_nonempty: "encode_varint v = Inr bs \<Longrightarrow> 0 < length bs"
  using encode_varint_last [of v 3] encode_varint_more [of v 3]
  by (cases "v \<le> 0x7F") (auto simp: encode_varint_def split: if_splits)

section \<open>Properties\<close>

text \<open>
  Every number below \<open>2^28\<close> encodes, in at most four bytes, and decoding at the place where
  its encoding stands, inside any other bytes, gives the number back and the position right
  behind the encoding.
\<close>

theorem varint_roundtrip:
  assumes "0 \<le> v" "v < 2 ^ 28"
  shows "\<exists>bs. encode_varint v = Inr bs \<and> length bs \<le> 4 \<and>
    decode_varint (us @ bs @ vs) (length us) = Inr (v, length us + length bs)"
proof -
  have ok: "varint_ok v" using assms by (simp add: varint_ok_def)
  then obtain bs where bs: "encode_varint v = Inr bs" using varint.enc_total by blast
  then have "length bs \<le> 4"
    using encode_varint_loop_length [of 4 v] by (auto simp: encode_varint_def split: if_splits)
  with bs varint.dec_in_context [OF ok bs] show ?thesis by blast
qed

theorem varint_roundtrip_witness:
  "\<exists>bs. encode_varint 300 = Inr bs \<and> length bs \<le> 4 \<and>
     decode_varint ([9] @ bs @ [7]) (length [9 :: byte]) = Inr (300, length [9 :: byte] + length bs)"
  by (rule varint_roundtrip) simp_all

text \<open>
  A number of \<open>2^28\<close> or more is encoded without an error, as four bytes that all have the
  continuation bit set, and decoding those four bytes raises \<^verbatim>\<open>SymbolError\<close>: the encoder drops
  the high bits silently and emits a byte sequence no decoder accepts.
\<close>

theorem varint_overflow_undecodable:
  assumes "2 ^ 28 \<le> v"
  shows "\<exists>bs. encode_varint v = Inr bs \<and> length bs = 4 \<and>
    decode_varint (us @ bs @ vs) (length us) = Inl SymbolError"
proof -
  let ?bs = "encode_varint_loop 4 v"
  have over: "length ?bs = 4" "\<forall>b \<in> set ?bs. 128 \<le> uint b"
    using encode_varint_loop_overflow [of 4 v] assms by simp_all
  have "decode_varint_loop (length ?bs) (us @ ?bs @ vs) (length us) 0 0 = Inl SymbolError"
    using over by (intro decode_varint_loop_all_more) simp_all
  then show ?thesis
    using assms over(1) by (simp add: encode_varint_def decode_varint_def)
qed

theorem varint_overflow_undecodable_witness:
  "\<exists>bs. encode_varint (2 ^ 28) = Inr bs \<and> length bs = 4 \<and>
     decode_varint ([] @ bs @ []) (length ([] :: bytes)) = Inl SymbolError"
  by (rule varint_overflow_undecodable) simp

end
