(* ===== verification/Py_Float.thy ===== *)
theory Py_Float
  imports Prelude
begin

text \<open>
  Python's \<^verbatim>\<open>float\<close> as the 64 bits of an IEEE 754 binary64 value, as far as the codec uses it:
  \<^verbatim>\<open>struct\<close>'s \<^verbatim>\<open>d\<close> and \<^verbatim>\<open>f\<close> formats (the second rounds to binary32, half to even, and raises
  \<^verbatim>\<open>OverflowError\<close> when the rounded value is not finite), the conversion of an \<^verbatim>\<open>int\<close>, equality,
  \<^verbatim>\<open><=\<close> and truth. A NaN that is converted between the two widths comes out quiet, as the
  conversion instructions of the supported processors make it.
\<close>

section \<open>Fields of the two formats\<close>

type_synonym f64 = "64 word"
type_synonym f32 = "32 word"

definition f64_sign :: "f64 \<Rightarrow> nat" where "f64_sign x = unat x div 2 ^ 63"
definition f64_exp :: "f64 \<Rightarrow> nat" where "f64_exp x = unat x div 2 ^ 52 mod 2048"
definition f64_frac :: "f64 \<Rightarrow> nat" where "f64_frac x = unat x mod 2 ^ 52"

definition f32_sign :: "f32 \<Rightarrow> nat" where "f32_sign w = unat w div 2 ^ 31"
definition f32_exp :: "f32 \<Rightarrow> nat" where "f32_exp w = unat w div 2 ^ 23 mod 256"
definition f32_frac :: "f32 \<Rightarrow> nat" where "f32_frac w = unat w mod 2 ^ 23"

definition mk_f64 :: "nat \<Rightarrow> nat \<Rightarrow> f64" where
  "mk_f64 s p = of_nat (s * 2 ^ 63 + p)"

definition mk_f32 :: "nat \<Rightarrow> nat \<Rightarrow> f32" where
  "mk_f32 s p = of_nat (s * 2 ^ 31 + p)"

text \<open>The value 1.0.\<close>

definition f64_one :: f64 where "f64_one = 0x3FF0000000000000"

definition f64_nan :: "f64 \<Rightarrow> bool" where
  "f64_nan x = (f64_exp x = 2047 \<and> f64_frac x \<noteq> 0)"

text \<open>A binary32 NaN without the quiet bit, the only value a conversion changes.\<close>

definition f32_signalling :: "f32 \<Rightarrow> bool" where
  "f32_signalling w = (f32_exp w = 255 \<and> 0 < f32_frac w \<and> f32_frac w < 2 ^ 22)"

section \<open>Conversions\<close>

text \<open>The number of the highest bit set, and \<open>m / 2^k\<close> rounded half to even.\<close>

fun top_bit :: "nat \<Rightarrow> nat" where
  "top_bit n = (if n < 2 then 0 else Suc (top_bit (n div 2)))"

declare top_bit.simps [simp del]

definition round_even :: "nat \<Rightarrow> nat \<Rightarrow> nat" where
  "round_even m k =
     (let q = m div 2 ^ k; r = m mod 2 ^ k
      in if 2 ^ k < 2 * r \<or> (2 ^ k = 2 * r \<and> odd q) then q + 1 else q)"

definition f64_to_f32 :: "f64 \<Rightarrow> f32 res" where
  "f64_to_f32 x =
     (let s = f64_sign x; e = f64_exp x; f = f64_frac x in
      if e = 2047 then
        Inr (mk_f32 s (255 * 2 ^ 23 + (if f = 0 then 0 else 2 ^ 22 + f div 2 ^ 29 mod 2 ^ 22)))
      else
        let m = (if e = 0 then f else 2 ^ 52 + f);
            q = round_even m (if e < 897 then 926 - max e 1 else 29);
            p = (if e < 897 then q else (e - 897) * 2 ^ 23 + q)
        in if 255 * 2 ^ 23 \<le> p then Inl OverflowError else Inr (mk_f32 s p))"

definition f32_to_f64 :: "f32 \<Rightarrow> f64" where
  "f32_to_f64 w =
     (let s = f32_sign w; e = f32_exp w; f = f32_frac w in
      mk_f64 s
        (if e = 255 then 2047 * 2 ^ 52 + (if f = 0 then 0 else 2 ^ 51 + f mod 2 ^ 22 * 2 ^ 29)
         else if e = 0 then
           (if f = 0 then 0
            else (top_bit f + 874) * 2 ^ 52 + (f - 2 ^ top_bit f) * 2 ^ (52 - top_bit f))
         else (e + 896) * 2 ^ 52 + f * 2 ^ 29))"

text \<open>\<^verbatim>\<open>float(n)\<close>; \<open>None\<close> where Python raises \<^verbatim>\<open>OverflowError\<close>.\<close>

definition f64_of_int :: "int \<Rightarrow> f64 option" where
  "f64_of_int n =
     (let s = (if n < 0 then 1 else 0); m = nat \<bar>n\<bar>; k = top_bit m in
      if m = 0 then Some 0
      else
        let q = (if k \<le> 52 then m * 2 ^ (52 - k) else round_even m (k - 52));
            p = (k + 1022) * 2 ^ 52 + q
        in if 2047 * 2 ^ 52 \<le> p then None else Some (mk_f64 s p))"

section \<open>Comparison and truth\<close>

definition f64_eq :: "f64 \<Rightarrow> f64 \<Rightarrow> bool" where
  "f64_eq x y =
     (\<not> f64_nan x \<and> \<not> f64_nan y \<and> (x = y \<or> (unat x mod 2 ^ 63 = 0 \<and> unat y mod 2 ^ 63 = 0)))"

text \<open>The bits of a number that is not a NaN, as an integer in the order of the numbers.\<close>

definition f64_rank :: "f64 \<Rightarrow> int" where
  "f64_rank x = (if f64_sign x = 0 then 1 else - 1) * int (unat x mod 2 ^ 63)"

definition f64_le :: "f64 \<Rightarrow> f64 \<Rightarrow> bool" where
  "f64_le x y = (\<not> f64_nan x \<and> \<not> f64_nan y \<and> f64_rank x \<le> f64_rank y)"

definition f64_true :: "f64 \<Rightarrow> bool" where
  "f64_true x = (unat x mod 2 ^ 63 \<noteq> 0)"

section \<open>The struct formats\<close>

definition pack_d :: "f64 \<Rightarrow> bytes" where
  "pack_d x = be_bytes 8 (unat x)"

definition unpack_d :: "bytes \<Rightarrow> f64" where
  "unpack_d bs = of_nat (be_val bs)"

definition pack_f :: "f64 \<Rightarrow> bytes res" where
  "pack_f x = bindr (f64_to_f32 x) (\<lambda>w. Inr (be_bytes 4 (unat w)))"

definition unpack_f :: "bytes \<Rightarrow> f64" where
  "unpack_f bs = f32_to_f64 (of_nat (be_val bs))"

definition f32_value :: "f64 \<Rightarrow> bool" where
  "f32_value x = (case f64_to_f32 x of Inl e \<Rightarrow> False | Inr w \<Rightarrow> f32_to_f64 w = x)"

section \<open>Lemmas\<close>

lemma top_bit_bounds: "0 < n \<Longrightarrow> 2 ^ top_bit n \<le> n \<and> n < 2 ^ Suc (top_bit n)"
proof (induction n rule: top_bit.induct)
  case (1 n)
  show ?case
  proof (cases "n < 2")
    case True
    with 1 show ?thesis by (simp add: top_bit.simps [of n])
  next
    case False
    then have "0 < n div 2" by simp
    with 1 False have "2 ^ top_bit (n div 2) \<le> n div 2 \<and> n div 2 < 2 ^ Suc (top_bit (n div 2))"
      by simp
    with False show ?thesis by (simp add: top_bit.simps [of n]) linarith
  qed
qed

lemma unat_of_nat64: "v < 2 ^ 64 \<Longrightarrow> unat (of_nat v :: 64 word) = v"
  by (simp add: unat_of_nat)

lemma unat_of_nat32: "v < 2 ^ 32 \<Longrightarrow> unat (of_nat v :: 32 word) = v"
  by (simp add: unat_of_nat)

lemma round_even_exact: "round_even (q * 2 ^ k) k = q"
  by (simp add: round_even_def)

lemma div_mod_split3: "x div (a * b) * (a * b) + (x div a mod b * a + x mod a) = (x :: nat)"
proof -
  have "x div (a * b) * (a * b) + x div a mod b * a = (x div a div b * b + x div a mod b) * a"
    unfolding div_mult2_eq add_mult_distrib by (simp add: ac_simps)
  also have "\<dots> = x div a * a" by (simp only: div_mult_mod_eq)
  finally show ?thesis by (simp add: add.assoc [symmetric])
qed

lemma f32_split: "unat w = f32_sign w * 2 ^ 31 + f32_exp w * 2 ^ 23 + f32_frac w"
  using div_mod_split3 [of "unat w" "2 ^ 23" 256]
  by (simp add: f32_sign_def f32_exp_def f32_frac_def)

lemma f32_field_bounds: "f32_sign w < 2" "f32_exp w < 256" "f32_frac w < 2 ^ 23"
proof -
  have "unat w < 2 ^ 32" by (rule order.strict_trans2 [OF unsigned_less]) simp
  then show "f32_sign w < 2" unfolding f32_sign_def by (simp add: div_less_iff_less_mult)
qed (simp_all add: f32_exp_def f32_frac_def)

lemma mk_f32_fields: "mk_f32 (f32_sign w) (f32_exp w * 2 ^ 23 + f32_frac w) = w"
proof -
  have "mk_f32 (f32_sign w) (f32_exp w * 2 ^ 23 + f32_frac w) = of_nat (unat w)"
    unfolding mk_f32_def f32_split [of w] by (simp add: add.assoc)
  then show ?thesis by simp
qed

lemma mk_f64_fields:
  assumes "s < 2" "e < 2048" "f < 2 ^ 52"
  shows "f64_sign (mk_f64 s (e * 2 ^ 52 + f)) = s" "f64_exp (mk_f64 s (e * 2 ^ 52 + f)) = e"
    "f64_frac (mk_f64 s (e * 2 ^ 52 + f)) = f"
proof -
  let ?v = "s * 2 ^ 63 + (e * 2 ^ 52 + f)"
  have v: "?v = (s * 2048 + e) * 2 ^ 52 + f" by simp
  have "e * 2 ^ 52 + f < 2 ^ 63" using assms by simp
  then have lt: "?v < 2 ^ 64" and s: "?v div 2 ^ 63 = s" using assms(1) by simp_all
  have u: "unat (mk_f64 s (e * 2 ^ 52 + f)) = ?v"
    unfolding mk_f64_def using lt by (rule unat_of_nat64)
  show "f64_sign (mk_f64 s (e * 2 ^ 52 + f)) = s"
    unfolding f64_sign_def u by (rule s)
  have q: "(q * 2 ^ 52 + f) div 2 ^ 52 = q" "(q * 2 ^ 52 + f) mod 2 ^ 52 = f" for q
    using assms(3) by simp_all
  have d: "?v div 2 ^ 52 = s * 2048 + e" "?v mod 2 ^ 52 = f"
    unfolding v by (rule q)+
  show "f64_exp (mk_f64 s (e * 2 ^ 52 + f)) = e"
    unfolding f64_exp_def u d(1) using assms(2) by simp
  show "f64_frac (mk_f64 s (e * 2 ^ 52 + f)) = f"
    unfolding f64_frac_def u by (rule d(2))
qed

lemma f64_to_f32_mk:
  assumes "s < 2" "e < 2048" "f < 2 ^ 52"
  shows "f64_to_f32 (mk_f64 s (e * 2 ^ 52 + f)) =
    (if e = 2047 then
       Inr (mk_f32 s (255 * 2 ^ 23 + (if f = 0 then 0 else 2 ^ 22 + f div 2 ^ 29 mod 2 ^ 22)))
     else
       let m = (if e = 0 then f else 2 ^ 52 + f);
           q = round_even m (if e < 897 then 926 - max e 1 else 29);
           p = (if e < 897 then q else (e - 897) * 2 ^ 23 + q)
       in if 255 * 2 ^ 23 \<le> p then Inl OverflowError else Inr (mk_f32 s p))"
  by (simp only: f64_to_f32_def Let_def mk_f64_fields [OF assms])

text \<open>Widening a binary32 value and narrowing it again gives the value back.\<close>

theorem f64_to_f32_widen:
  assumes "\<not> f32_signalling w"
  shows "f64_to_f32 (f32_to_f64 w) = Inr w"
proof -
  let ?s = "f32_sign w" and ?e = "f32_exp w" and ?f = "f32_frac w"
  note b = f32_field_bounds [of w]
  consider "?e = 255" | "0 < ?e" "?e < 255" | "?e = 0" "?f = 0" | "?e = 0" "0 < ?f"
    using b(2) by linarith
  then show ?thesis
  proof cases
    case 1
    let ?g = "if ?f = 0 then 0 else 2 ^ 51 + ?f mod 2 ^ 22 * 2 ^ 29 :: nat"
    have x: "f32_to_f64 w = mk_f64 ?s (2047 * 2 ^ 52 + ?g)"
      using 1 by (simp add: f32_to_f64_def Let_def)
    have g: "?g < 2 ^ 52" by simp
    have f: "(if ?g = 0 then 0 else 2 ^ 22 + ?g div 2 ^ 29 mod 2 ^ 22) = ?f"
    proof (cases "?f = 0")
      case False
      then have "2 ^ 22 \<le> ?f" using assms 1 by (auto simp: f32_signalling_def)
      then obtain d where d: "?f = 2 ^ 22 + d" "d < 2 ^ 22"
        using b(3) le_Suc_ex [of "2 ^ 22" ?f] by auto
      moreover have "2 ^ 51 + d * 2 ^ 29 = (2 ^ 22 + d) * (2 ^ 29 :: nat)" by simp
      ultimately show ?thesis by simp
    qed simp
    have "f64_to_f32 (f32_to_f64 w) = Inr (mk_f32 ?s (255 * 2 ^ 23 + ?f))"
      unfolding x by (subst f64_to_f32_mk [OF b(1) _ g]) (simp, simp only: f refl if_True)
    with mk_f32_fields [of w] 1 show ?thesis by simp
  next
    case 2
    have x: "f32_to_f64 w = mk_f64 ?s ((?e + 896) * 2 ^ 52 + ?f * 2 ^ 29)"
      using 2 by (simp add: f32_to_f64_def Let_def)
    have g: "?f * 2 ^ 29 < 2 ^ 52" using b(3) by simp
    have m: "2 ^ 52 + ?f * 2 ^ 29 = (2 ^ 23 + ?f) * (2 ^ 29 :: nat)" by simp
    have "round_even (2 ^ 52 + ?f * 2 ^ 29) 29 = 2 ^ 23 + ?f"
      unfolding m by (rule round_even_exact)
    moreover obtain n where "?e = Suc n" using 2(1) by (cases ?e) simp_all
    moreover have "?e * 2 ^ 23 + ?f < 255 * 2 ^ 23" using 2(2) b(3) by simp
    ultimately show ?thesis
      unfolding x using mk_f32_fields [of w] 2 f64_to_f32_mk [OF b(1) _ g, of "?e + 896"]
      by (simp add: Let_def ac_simps)
  next
    case 3
    have x: "f32_to_f64 w = mk_f64 ?s (0 * 2 ^ 52 + 0)"
      using 3 by (simp add: f32_to_f64_def Let_def)
    show ?thesis
      unfolding x using mk_f32_fields [of w] 3 f64_to_f32_mk [OF b(1), of 0 0]
      by (simp add: Let_def round_even_def)
  next
    case 4
    let ?k = "top_bit ?f"
    let ?g = "(?f - 2 ^ ?k) * 2 ^ (52 - ?k)"
    have k: "2 ^ ?k \<le> ?f" "?f < 2 * 2 ^ ?k" using top_bit_bounds [OF 4(2)] by simp_all
    then have "(2::nat) ^ ?k < 2 ^ 23" using b(3) by linarith
    then have "?k < 23" by (rule power_less_imp_less_exp [rotated]) simp
    then have k22: "?k \<le> 22" by simp
    then have p: "2 ^ ?k * 2 ^ (52 - ?k) = (2 ^ 52 :: nat)" by (simp flip: power_add)
    have x: "f32_to_f64 w = mk_f64 ?s ((?k + 874) * 2 ^ 52 + ?g)"
      using 4 by (simp add: f32_to_f64_def Let_def)
    have "?g < 2 ^ ?k * 2 ^ (52 - ?k)" using k by (intro mult_strict_right_mono) simp_all
    then have g: "?g < 2 ^ 52" using p by simp
    have m: "2 ^ 52 + ?g = ?f * 2 ^ (52 - ?k)"
      unfolding p [symmetric] add_mult_distrib [symmetric] using k(1) by simp
    have "round_even (2 ^ 52 + ?g) (52 - ?k) = ?f"
      unfolding m by (rule round_even_exact)
    moreover have "926 - max (?k + 874) 1 = 52 - ?k" using k22 by simp
    ultimately show ?thesis
      unfolding x using mk_f32_fields [of w] 4 k22 b(3) f64_to_f32_mk [OF b(1) _ g, of "?k + 874"]
      by (simp add: Let_def)
  qed
qed

lemma f64_eq_one [simp]: "f64_eq x f64_one \<longleftrightarrow> x = f64_one"
  by (auto simp: f64_eq_def f64_one_def f64_nan_def f64_exp_def f64_frac_def)

lemma length_pack_d [simp]: "length (pack_d x) = 8"
  by (simp add: pack_d_def)

lemma unpack_pack_d [simp]: "unpack_d (pack_d x) = x"
proof -
  have "unat x < 2 ^ 64" by (rule order.strict_trans2 [OF unsigned_less]) simp
  then show ?thesis by (simp add: unpack_d_def pack_d_def)
qed

lemma pack_unpack_d: "length bs = 8 \<Longrightarrow> pack_d (unpack_d bs) = bs"
  using be_val_bound [of bs] be_bytes_be_val [of bs]
  by (simp add: pack_d_def unpack_d_def unat_of_nat64)

lemma pack_f_length: "pack_f x = Inr bs \<Longrightarrow> length bs = 4"
  by (auto simp: pack_f_def res_simps)

lemma unpack_f_be: "unpack_f (be_bytes 4 (unat w)) = f32_to_f64 w"
proof -
  have "unat w < 2 ^ 32" by (rule order.strict_trans2 [OF unsigned_less]) simp
  then show ?thesis by (simp add: unpack_f_def)
qed

text \<open>The floats that survive the 4-byte format: those that are binary32 values.\<close>

lemma f32_value_widen: "f32_value (f32_to_f64 w)"
proof (cases "f32_signalling w")
  case False
  then show ?thesis by (simp add: f32_value_def f64_to_f32_widen)
next
  case True
  define p where "p = 255 * 2 ^ 23 + (2 ^ 22 + f32_frac w)"
  define v where "v = mk_f32 (f32_sign w) p"
  note b = f32_field_bounds [of w]
  have f: "0 < f32_frac w" "f32_frac w < 2 ^ 22" "f32_exp w = 255"
    using True by (simp_all add: f32_signalling_def)
  have "f32_sign w * 2 ^ 31 + p < 2 ^ 32" using b f unfolding p_def by simp
  then have u: "unat v = f32_sign w * 2 ^ 31 + p"
    unfolding v_def mk_f32_def by (rule unat_of_nat32)
  have q: "f32_sign w * 2 ^ 31 + p = (f32_sign w * 256 + 255) * 2 ^ 23 + (2 ^ 22 + f32_frac w)"
    by (simp add: p_def)
  have dm: "(m * 2 ^ 23 + (2 ^ 22 + f32_frac w)) div 2 ^ 23 = m"
    "(m * 2 ^ 23 + (2 ^ 22 + f32_frac w)) mod 2 ^ 23 = 2 ^ 22 + f32_frac w" for m
    using f(2) by simp_all
  have fields: "f32_exp v = 255" "f32_frac v = 2 ^ 22 + f32_frac w" "f32_sign v = f32_sign w"
  proof -
    show "f32_exp v = 255" unfolding f32_exp_def u q dm by simp
    show "f32_frac v = 2 ^ 22 + f32_frac w" unfolding f32_frac_def [of v] u q by (rule dm)
    have "p < 2 ^ 31" using f(2) by (simp add: p_def)
    then show "f32_sign v = f32_sign w" unfolding f32_sign_def [of v] u by simp
  qed
  have eq: "f32_to_f64 v = f32_to_f64 w"
    using f fields by (simp add: f32_to_f64_def Let_def)
  have "\<not> f32_signalling v" using fields by (simp add: f32_signalling_def)
  from f64_to_f32_widen [OF this] have "f64_to_f32 (f32_to_f64 w) = Inr v" unfolding eq .
  then show ?thesis using eq by (simp add: f32_value_def)
qed

lemma f32_value_pack: "f32_value x \<Longrightarrow> \<exists>bs. pack_f x = Inr bs \<and> unpack_f bs = x"
  by (auto simp: f32_value_def pack_f_def unpack_f_be split: sum.splits)

lemma f32_value_unpack: "f32_value (unpack_f bs)"
  unfolding unpack_f_def by (rule f32_value_widen)

end
