(* ===== verification/Operands.thy ===== *)
theory Operands
  imports Wire_Constants Varint Py_Float
begin

text \<open>
  \<^verbatim>\<open>aicl/bin/operands.py\<close> with \<^verbatim>\<open>types.Symbol\<close>: one typed operand, its encoding and its decoding.
  A symbol carries an integer tag and a Python value of any type; the encoder is modelled for
  every combination, with what the interpreter raises where the two do not fit. \<open>wf_symbol\<close> are
  the symbols whose value has the type documented for the tag, in range. Shown: those survive
  encoding and decoding; the decoder yields only those, moves forward inside the buffer,
  raises nothing but \<^verbatim>\<open>SymbolError\<close> and \<^verbatim>\<open>UnicodeDecodeError\<close>, and always returns.
\<close>

section \<open>Values and symbols\<close>

datatype pyval =
    VNone | VBool bool | VInt int | VFloat f64 | VStr pystr | VBytes bytes
  | VTuple "int list" | VList "symbol list" | VDict "(pystr \<times> symbol) list"
and symbol = Symbol (sym_tag: int) (sym_value: pyval)

text \<open>An \<^verbatim>\<open>int\<close> argument of \<^verbatim>\<open>struct.pack\<close> (a \<^verbatim>\<open>bool\<close> is one), a float argument, a sized value.\<close>

fun as_index :: "pyval \<Rightarrow> int option" where
  "as_index (VInt n) = Some n"
| "as_index (VBool b) = Some (if b then 1 else 0)"
| "as_index _ = None"

fun as_float :: "pyval \<Rightarrow> f64 option" where
  "as_float (VFloat x) = Some x"
| "as_float v = (case as_index v of None \<Rightarrow> None | Some n \<Rightarrow> f64_of_int n)"

fun py_len :: "pyval \<Rightarrow> nat option" where
  "py_len (VStr s) = Some (length s)"
| "py_len (VBytes b) = Some (length b)"
| "py_len (VTuple t) = Some (length t)"
| "py_len (VList l) = Some (length l)"
| "py_len (VDict d) = Some (length d)"
| "py_len _ = None"

fun py_true :: "pyval \<Rightarrow> bool" where
  "py_true VNone = False"
| "py_true (VBool b) = b"
| "py_true (VInt n) = (n \<noteq> 0)"
| "py_true (VFloat x) = f64_true x"
| "py_true v = (py_len v \<noteq> Some 0)"

text \<open>\<^verbatim>\<open>bytes(value)\<close>: a count gives that many zero bytes, a tuple of integers its elements.\<close>

fun py_bytes :: "pyval \<Rightarrow> bytes res" where
  "py_bytes (VBytes b) = Inr b"
| "py_bytes (VInt n) = (if n < 0 then Inl ValueError else Inr (replicate (nat n) 0))"
| "py_bytes (VBool b) = Inr (replicate (if b then 1 else 0) 0)"
| "py_bytes (VTuple t) =
     (if list_all (\<lambda>n. 0 \<le> n \<and> n < 256) t then Inr (map of_int t) else Inl ValueError)"
| "py_bytes (VList []) = Inr []"
| "py_bytes (VDict []) = Inr []"
| "py_bytes _ = Inl PyTypeError"

section \<open>Fixed-width formats\<close>

datatype fmt = Fmt_s nat | Fmt_u nat | Fmt_f | Fmt_d

definition FIXED_STRUCT :: "(int \<times> fmt) list" where
  "FIXED_STRUCT =
    [(S_I8, Fmt_s 1), (S_I16, Fmt_s 2), (S_I32, Fmt_s 4), (S_I64, Fmt_s 8),
     (S_U8, Fmt_u 1), (S_U16, Fmt_u 2), (S_U32, Fmt_u 4), (S_U64, Fmt_u 8),
     (S_F32, Fmt_f), (S_F64, Fmt_d),
     (S_TS_MS, Fmt_s 8), (S_DURATION_MS, Fmt_u 4)]"

fun calcsize :: "fmt \<Rightarrow> nat" where
  "calcsize (Fmt_s n) = n"
| "calcsize (Fmt_u n) = n"
| "calcsize Fmt_f = 4"
| "calcsize Fmt_d = 8"

fun pack_fmt :: "fmt \<Rightarrow> pyval \<Rightarrow> bytes res" where
  "pack_fmt (Fmt_s n) v = (case as_index v of None \<Rightarrow> Inl StructError | Some i \<Rightarrow> pack_s n i)"
| "pack_fmt (Fmt_u n) v = (case as_index v of None \<Rightarrow> Inl StructError | Some i \<Rightarrow> pack_u n i)"
| "pack_fmt Fmt_f v = (case as_float v of None \<Rightarrow> Inl StructError | Some x \<Rightarrow> pack_f x)"
| "pack_fmt Fmt_d v = (case as_float v of None \<Rightarrow> Inl StructError | Some x \<Rightarrow> Inr (pack_d x))"

fun unpack_fmt :: "fmt \<Rightarrow> bytes \<Rightarrow> pyval" where
  "unpack_fmt (Fmt_s n) bs = VInt (unpack_s bs)"
| "unpack_fmt (Fmt_u n) bs = VInt (unpack_u bs)"
| "unpack_fmt Fmt_f bs = VFloat (unpack_f bs)"
| "unpack_fmt Fmt_d bs = VFloat (unpack_d bs)"

section \<open>The encoder\<close>

definition prefixed :: "bytes \<Rightarrow> bytes res" where
  "prefixed raw = bindr (encode_varint (int (length raw))) (\<lambda>n. Inr (n @ raw))"

definition pack_buf_ref :: "int \<Rightarrow> int \<Rightarrow> int \<Rightarrow> bytes res" where
  "pack_buf_ref buf_id offset len =
     bindr (pack_u 8 buf_id) (\<lambda>a. bindr (pack_u 4 offset) (\<lambda>b.
     bindr (pack_u 4 len) (\<lambda>c. Inr (a @ b @ c))))"

text \<open>\<^verbatim>\<open>buf_id, offset, length = value\<close>, then \<^verbatim>\<open>struct.pack(">QII", ...)\<close>.\<close>

fun encode_buf_ref :: "pyval \<Rightarrow> bytes res" where
  "encode_buf_ref (VTuple [a, b, c]) = pack_buf_ref a b c"
| "encode_buf_ref (VBytes [a, b, c]) = pack_buf_ref (uint a) (uint b) (uint c)"
| "encode_buf_ref v =
     (case py_len v of
        None \<Rightarrow> Inl PyTypeError
      | Some n \<Rightarrow> if n = 3 then Inl StructError else Inl ValueError)"

text \<open>
  The branches of \<^verbatim>\<open>encode_symbol\<close> in the order of the source; \<open>encode_payload\<close> is everything
  after the tag byte. Iterating a value that is not a list of symbols fails at its first
  element, and a value without \<^verbatim>\<open>items\<close> is no map.
\<close>

fun encode_symbol :: "symbol \<Rightarrow> bytes res"
  and encode_payload :: "int \<Rightarrow> pyval \<Rightarrow> bytes res"
  and encode_list :: "pyval \<Rightarrow> bytes res"
  and encode_map :: "pyval \<Rightarrow> bytes res" where
  "encode_symbol (Symbol tag v) =
     (if \<not> (0 \<le> tag \<and> tag < 256) then Inl ValueError
      else bindr (encode_payload tag v) (\<lambda>bs. Inr (of_int tag # bs)))"
| "encode_payload tag v =
     (case map_of FIXED_STRUCT tag of
        Some fm \<Rightarrow> pack_fmt fm v
      | None \<Rightarrow>
          if tag = S_BOOL then Inr [if py_true v then 1 else 0]
          else if tag = S_STRING then
            (case v of VStr s \<Rightarrow> bindr (utf8_encode s) prefixed | _ \<Rightarrow> Inl AttributeError)
          else if tag = S_BYTES then bindr (py_bytes v) prefixed
          else if tag = S_UUID then
            bindr (py_bytes v) (\<lambda>raw. if length raw \<noteq> 16 then Inl SymbolError else Inr raw)
          else if tag = S_HANDLE then pack_fmt (Fmt_u 8) v
          else if tag = S_REF then pack_fmt (Fmt_u 2) v
          else if tag = S_BUF_REF then encode_buf_ref v
          else if tag = S_LIST then encode_list v
          else if tag = S_MAP then encode_map v
          else if tag = S_NULL then Inr []
          else if is_vendor_tag tag then bindr (py_bytes v) prefixed
          else Inl SymbolError)"
| "encode_list (VList items) =
     bindr (encode_varint (int (length items))) (\<lambda>n.
     bindr (mapr encode_symbol items) (\<lambda>bss. Inr (n @ concat bss)))"
| "encode_list v =
     (case py_len v of
        None \<Rightarrow> Inl PyTypeError
      | Some 0 \<Rightarrow> encode_varint 0
      | Some (Suc n) \<Rightarrow> Inl AttributeError)"
| "encode_map (VDict d) =
     bindr (encode_varint (int (length d))) (\<lambda>n.
     bindr (mapr (\<lambda>(key, item).
         bindr (utf8_encode key) (\<lambda>kb. bindr (prefixed kb) (\<lambda>k.
         bindr (encode_symbol item) (\<lambda>i. Inr (k @ i))))) d) (\<lambda>bss. Inr (n @ concat bss)))"
| "encode_map v = (case py_len v of None \<Rightarrow> Inl PyTypeError | Some n \<Rightarrow> Inl AttributeError)"

definition encode_symbols :: "symbol list \<Rightarrow> bytes res" where
  "encode_symbols symbols = bindr (mapr encode_symbol symbols) (\<lambda>bss. Inr (concat bss))"

section \<open>The decoder\<close>

text \<open>A length-prefixed run of bytes: string, bytes, map key and vendor payload.\<close>

definition take_prefixed :: "bytes \<Rightarrow> nat \<Rightarrow> (bytes \<times> nat) res" where
  "take_prefixed data pos =
     bindr (decode_varint data pos) (\<lambda>(len, p).
       let e = p + nat len in
       if e > length data then Inl SymbolError else Inr (slice data p e, e))"

definition decode_entry ::
  "(nat \<Rightarrow> (symbol \<times> nat) res) \<Rightarrow> bytes \<Rightarrow> nat \<Rightarrow> ((pystr \<times> symbol) \<times> nat) res" where
  "decode_entry rec data pos =
     bindr (take_prefixed data pos) (\<lambda>(kb, p).
     bindr (utf8_decode kb) (\<lambda>key.
     bindr (rec p) (\<lambda>(item, q). Inr ((key, item), q))))"

text \<open>
  The body of \<^verbatim>\<open>decode_symbol\<close>, with its recursive calls as the argument \<open>rec\<close>. The map loop
  collects its entries and then performs the assignments \<^verbatim>\<open>result[key] = item\<close> in order.
\<close>

definition decode_step ::
  "(nat \<Rightarrow> (symbol \<times> nat) res) \<Rightarrow> bytes \<Rightarrow> nat \<Rightarrow> (symbol \<times> nat) res" where
  "decode_step rec data pos0 =
     (if pos0 \<ge> length data then Inl SymbolError
      else
        let tag = uint (data ! pos0); pos = pos0 + 1 in
        case map_of FIXED_STRUCT tag of
          Some fm \<Rightarrow>
            (let size = calcsize fm in
             if pos + size > length data then Inl SymbolError
             else Inr (Symbol tag (unpack_fmt fm (slice data pos (pos + size))), pos + size))
        | None \<Rightarrow>
            if tag = S_BOOL then
              (if pos \<ge> length data then Inl SymbolError
               else
                 let raw = uint (data ! pos) in
                 if raw > 1 then Inl SymbolError else Inr (Symbol tag (VBool (raw \<noteq> 0)), pos + 1))
            else if tag = S_STRING \<or> tag = S_BYTES then
              bindr (take_prefixed data pos) (\<lambda>(raw, e).
                if tag = S_STRING
                then bindr (utf8_decode raw) (\<lambda>s. Inr (Symbol tag (VStr s), e))
                else Inr (Symbol tag (VBytes raw), e))
            else if tag = S_UUID then
              (if pos + 16 > length data then Inl SymbolError
               else Inr (Symbol tag (VBytes (slice data pos (pos + 16))), pos + 16))
            else if tag = S_HANDLE then
              (if pos + 8 > length data then Inl SymbolError
               else Inr (Symbol tag (VInt (unpack_u (slice data pos (pos + 8)))), pos + 8))
            else if tag = S_REF then
              (if pos + 2 > length data then Inl SymbolError
               else Inr (Symbol tag (VInt (unpack_u (slice data pos (pos + 2)))), pos + 2))
            else if tag = S_BUF_REF then
              (if pos + 16 > length data then Inl SymbolError
               else Inr (Symbol tag (VTuple [unpack_u (slice data pos (pos + 8)),
                      unpack_u (slice data (pos + 8) (pos + 12)),
                      unpack_u (slice data (pos + 12) (pos + 16))]), pos + 16))
            else if tag = S_LIST then
              bindr (decode_varint data pos) (\<lambda>(count, p).
              bindr (repeat_dec rec (nat count) p) (\<lambda>(items, q). Inr (Symbol tag (VList items), q)))
            else if tag = S_MAP then
              bindr (decode_varint data pos) (\<lambda>(count, p).
              bindr (repeat_dec (decode_entry rec data) (nat count) p) (\<lambda>(kvs, q).
                Inr (Symbol tag (VDict (dict_of kvs)), q)))
            else if tag = S_NULL then Inr (Symbol tag VNone, pos)
            else if is_vendor_tag tag then
              bindr (take_prefixed data pos) (\<lambda>(raw, e). Inr (Symbol tag (VBytes raw), e))
            else Inl SymbolError)"

text \<open>
  Nesting is bounded by a count of levels; every level consumes at least one byte, so as many
  levels as the buffer has bytes, and one more, are enough (\<open>decode_symbol_unfold\<close> is the
  equation without the count).
\<close>

primrec decode_symbol_levels :: "nat \<Rightarrow> bytes \<Rightarrow> nat \<Rightarrow> (symbol \<times> nat) res" where
  "decode_symbol_levels 0 data pos = Inl NestingExhausted"
| "decode_symbol_levels (Suc n) data pos = decode_step (decode_symbol_levels n data) data pos"

definition decode_symbol :: "bytes \<Rightarrow> nat \<Rightarrow> (symbol \<times> nat) res" where
  "decode_symbol data pos = decode_symbol_levels (Suc (length data)) data pos"

text \<open>\<^verbatim>\<open>while pos < len(data)\<close>: at most one round per byte.\<close>

primrec decode_symbols_loop :: "nat \<Rightarrow> bytes \<Rightarrow> nat \<Rightarrow> (symbol list \<times> nat) res" where
  "decode_symbols_loop 0 data pos = (if pos < length data then Inl NestingExhausted else Inr ([], pos))"
| "decode_symbols_loop (Suc n) data pos =
     (if pos < length data then
        bindr (decode_symbol data pos) (\<lambda>(sym, p).
        bindr (decode_symbols_loop n data p) (\<lambda>(syms, q). Inr (sym # syms, q)))
      else Inr ([], pos))"

definition decode_symbols :: "bytes \<Rightarrow> nat \<Rightarrow> (symbol list \<times> nat) res" where
  "decode_symbols data pos = decode_symbols_loop (length data) data pos"

text \<open>
  The generator \<^verbatim>\<open>iter_symbols\<close>: what it yields, then how the iteration ends (\<open>None\<close> at the end of
  the buffer, or the exception that a call of \<^verbatim>\<open>decode_symbol\<close> raised).
\<close>

primrec iter_symbols_loop :: "nat \<Rightarrow> bytes \<Rightarrow> nat \<Rightarrow> symbol list \<times> exn option" where
  "iter_symbols_loop 0 data pos = ([], if pos < length data then Some NestingExhausted else None)"
| "iter_symbols_loop (Suc n) data pos =
     (if pos < length data then
        (case decode_symbol data pos of
           Inl e \<Rightarrow> ([], Some e)
         | Inr (s, p) \<Rightarrow> let (syms, e) = iter_symbols_loop n data p in (s # syms, e))
      else ([], None))"

definition iter_symbols :: "bytes \<Rightarrow> nat \<Rightarrow> symbol list \<times> exn option" where
  "iter_symbols data pos = iter_symbols_loop (length data) data pos"

section \<open>Well-formed symbols\<close>

fun utf8_len_ok :: "pystr \<Rightarrow> bool" where
  "utf8_len_ok s = (case utf8_encode s of Inl e \<Rightarrow> False | Inr bs \<Rightarrow> length bs < 2 ^ 28)"

declare utf8_len_ok.simps [simp del]

fun wf_fixed :: "fmt \<Rightarrow> pyval \<Rightarrow> bool" where
  "wf_fixed (Fmt_s n) (VInt i) = (- (256 ^ n div 2) \<le> i \<and> i < 256 ^ n div 2)"
| "wf_fixed (Fmt_u n) (VInt i) = (0 \<le> i \<and> i < 256 ^ n)"
| "wf_fixed Fmt_f (VFloat x) = f32_value x"
| "wf_fixed Fmt_d (VFloat x) = True"
| "wf_fixed _ _ = False"

fun wf_symbol :: "symbol \<Rightarrow> bool"
  and wf_value :: "int \<Rightarrow> pyval \<Rightarrow> bool" where
  "wf_symbol (Symbol tag v) = wf_value tag v"
| "wf_value tag (VInt i) =
     (case map_of FIXED_STRUCT tag of
        Some fm \<Rightarrow> wf_fixed fm (VInt i)
      | None \<Rightarrow> (tag = S_HANDLE \<and> 0 \<le> i \<and> i < 2 ^ 64) \<or> (tag = S_REF \<and> 0 \<le> i \<and> i < 2 ^ 16))"
| "wf_value tag (VFloat x) =
     (case map_of FIXED_STRUCT tag of Some fm \<Rightarrow> wf_fixed fm (VFloat x) | None \<Rightarrow> False)"
| "wf_value tag (VBool b) = (tag = S_BOOL)"
| "wf_value tag (VStr s) = (tag = S_STRING \<and> utf8_len_ok s)"
| "wf_value tag (VBytes b) =
     ((tag = S_UUID \<and> length b = 16) \<or> ((tag = S_BYTES \<or> is_vendor_tag tag) \<and> length b < 2 ^ 28))"
| "wf_value tag (VTuple t) =
     (tag = S_BUF_REF \<and>
      (case t of [a, b, c] \<Rightarrow> 0 \<le> a \<and> a < 2 ^ 64 \<and> 0 \<le> b \<and> b < 2 ^ 32 \<and> 0 \<le> c \<and> c < 2 ^ 32
       | _ \<Rightarrow> False))"
| "wf_value tag (VList items) =
     (tag = S_LIST \<and> length items < 2 ^ 28 \<and> list_all wf_symbol items)"
| "wf_value tag (VDict d) =
     (tag = S_MAP \<and> length d < 2 ^ 28 \<and> distinct (map fst d) \<and>
      list_all (\<lambda>(k, s). utf8_len_ok k \<and> wf_symbol s) d)"
| "wf_value tag VNone = (tag = S_NULL)"

section \<open>Fixed-width formats: lemmas\<close>

lemma FIXED_STRUCT_size: "map_of FIXED_STRUCT tag = Some fm \<Longrightarrow> 0 < calcsize fm"
  by (auto simp: FIXED_STRUCT_def split: if_splits)

lemma FIXED_STRUCT_tag: "map_of FIXED_STRUCT tag = Some fm \<Longrightarrow> 0 \<le> tag \<and> tag < 256"
  by (auto simp: FIXED_STRUCT_def split: if_splits)

lemma FIXED_STRUCT_None [simp]:
  "map_of FIXED_STRUCT S_BOOL = None" "map_of FIXED_STRUCT S_STRING = None"
  "map_of FIXED_STRUCT S_BYTES = None" "map_of FIXED_STRUCT S_UUID = None"
  "map_of FIXED_STRUCT S_HANDLE = None" "map_of FIXED_STRUCT S_REF = None"
  "map_of FIXED_STRUCT S_BUF_REF = None" "map_of FIXED_STRUCT S_LIST = None"
  "map_of FIXED_STRUCT S_MAP = None" "map_of FIXED_STRUCT S_NULL = None"
  "is_vendor_tag tag \<Longrightarrow> map_of FIXED_STRUCT tag = None"
  by (auto simp: FIXED_STRUCT_def is_vendor_tag_def)

lemma unpack_s_range:
  assumes "bs \<noteq> []"
  shows "- (256 ^ length bs div 2) \<le> unpack_s bs \<and> unpack_s bs < 256 ^ length bs div 2"
  using pack_unpack_s [OF assms] by (simp add: pack_s_Inr)

lemma unpack_u_range: "0 \<le> unpack_u bs \<and> unpack_u bs < 256 ^ length bs"
  using pack_unpack_u [of bs] by (simp add: pack_u_Inr)

lemma unpack_u_slice_range:
  "0 \<le> unpack_u (slice data a b)" "unpack_u (slice data a b) < 256 ^ (b - a)"
proof -
  have "unpack_u (slice data a b) < 256 ^ length (slice data a b)" using unpack_u_range by blast
  also have "(256 :: int) ^ length (slice data a b) \<le> 256 ^ (b - a)" by (rule power_increasing) simp_all
  finally show "unpack_u (slice data a b) < 256 ^ (b - a)" .
qed (simp add: unpack_u_range)

lemma unpack_fmt_wf:
  "length bs = calcsize fm \<Longrightarrow> 0 < calcsize fm \<Longrightarrow> wf_fixed fm (unpack_fmt fm bs)"
proof (cases fm)
  case (Fmt_s n)
  assume "length bs = calcsize fm" "0 < calcsize fm"
  then show ?thesis using Fmt_s unpack_s_range [of bs] by fastforce
next
  case (Fmt_u n)
  assume "length bs = calcsize fm"
  then show ?thesis using Fmt_u unpack_u_range [of bs] by simp
qed (simp_all add: f32_value_unpack)

lemma wf_value_fixed:
  "map_of FIXED_STRUCT tag = Some fm \<Longrightarrow> wf_fixed fm v \<Longrightarrow> wf_value tag v"
  by (cases v; cases fm) auto

lemma wf_value_fixed_iff:
  "map_of FIXED_STRUCT tag = Some fm \<Longrightarrow> wf_value tag v \<longleftrightarrow> wf_fixed fm v"
proof (cases v)
  case (VBytes b)
  assume m: "map_of FIXED_STRUCT tag = Some fm"
  then have "\<not> is_vendor_tag tag" by fastforce
  then show ?thesis using m VBytes by (cases fm) auto
qed (cases fm; auto)+

lemma pack_fmt_roundtrip:
  assumes "wf_fixed fm v" "0 < calcsize fm"
  shows "\<exists>bs. pack_fmt fm v = Inr bs \<and> length bs = calcsize fm \<and> unpack_fmt fm bs = v"
proof (cases fm)
  case (Fmt_s n)
  with assms obtain i where v: "v = VInt i" "- (256 ^ n div 2) \<le> i" "i < 256 ^ n div 2"
    by (cases v) auto
  then obtain bs where "pack_s n i = Inr bs" by (auto simp: pack_s_def)
  with Fmt_s v assms(2) show ?thesis by (simp add: pack_s_length unpack_pack_s)
next
  case (Fmt_u n)
  with assms obtain i where v: "v = VInt i" "0 \<le> i" "i < 256 ^ n"
    by (cases v) auto
  then obtain bs where "pack_u n i = Inr bs" by (auto simp: pack_u_def)
  with Fmt_u v show ?thesis by (simp add: pack_u_length unpack_pack_u)
next
  case Fmt_f
  with assms obtain x where v: "v = VFloat x" "f32_value x" by (cases v) auto
  then obtain bs where "pack_f x = Inr bs" "unpack_f bs = x" using f32_value_pack by blast
  with Fmt_f v show ?thesis by (simp add: pack_f_length)
next
  case Fmt_d
  with assms obtain x where "v = VFloat x" by (cases v) auto
  with Fmt_d show ?thesis by simp
qed

section \<open>Length-prefixed bytes: lemmas\<close>

lemma prefixed_total: "\<exists>bs. prefixed raw = Inr bs"
  by (simp add: prefixed_def encode_varint_def)

lemma take_prefixed_prefixed:
  assumes "prefixed raw = Inr bs" "length raw < 2 ^ 28" "has_at data pos bs"
  shows "take_prefixed data pos = Inr (raw, pos + length bs)"
proof -
  from assms(1) obtain n where n: "encode_varint (int (length raw)) = Inr n" "bs = n @ raw"
    by (auto simp: prefixed_def res_simps)
  have "decode_varint data pos = Inr (int (length raw), pos + length n)"
    using assms n by (intro varint.dec_enc) (auto simp: varint_ok_def wire_simps)
  moreover have "has_at data (pos + length n) raw" using assms(3) n by (simp add: wire_simps)
  ultimately show ?thesis
    using has_at_bound [of data "pos + length n" raw] has_at_sliceD [of data "pos + length n" raw] n
    by (simp add: take_prefixed_def Let_def add.assoc)
qed

lemma take_prefixed_bounds:
  assumes "take_prefixed data pos = Inr (raw, e)"
  shows "pos < e \<and> e \<le> length data \<and> length raw < 2 ^ 28"
proof -
  from assms obtain len p where d: "decode_varint data pos = Inr (len, p)"
    and e: "e = p + nat len" "e \<le> length data" and raw: "raw = slice data p e"
    by (auto simp: take_prefixed_def res_simps Let_def split: if_splits)
  from decode_varint_bounds [OF d] have "pos < p" "nat len < 2 ^ 28"
    by (auto simp: varint_ok_def)
  with e raw show ?thesis by simp
qed

lemma take_prefixed_errors: "take_prefixed data pos = Inl e \<Longrightarrow> e = SymbolError"
  by (auto simp: take_prefixed_def res_simps Let_def dest: decode_varint_errors split: if_splits)

lemma utf8_len_ok_decode: "utf8_decode bs = Inr s \<Longrightarrow> length bs < 2 ^ 28 \<Longrightarrow> utf8_len_ok s"
  by (simp add: utf8_len_ok.simps utf8_encode_decode)

lemma utf8_len_okE:
  assumes "utf8_len_ok s"
  obtains bs where "utf8_encode s = Inr bs" "utf8_decode bs = Inr s" "length bs < 2 ^ 28"
  using assms by (auto simp: utf8_len_ok.simps utf8_decode_encode split: sum.splits)

section \<open>One step of the decoder: lemmas\<close>

definition decoder_errors :: "exn set" where
  "decoder_errors = {SymbolError, UnicodeDecodeError}"

lemma decode_entry_bounds:
  assumes "decode_entry rec data pos = Inr ((k, s), q)"
    and "\<And>p s q. rec p = Inr (s, q) \<Longrightarrow> p < q \<and> q \<le> length data \<and> wf_symbol s"
  shows "pos < q \<and> q \<le> length data \<and> utf8_len_ok k \<and> wf_symbol s"
proof -
  from assms(1) obtain kb p where t: "take_prefixed data pos = Inr (kb, p)"
    and k: "utf8_decode kb = Inr k" and r: "rec p = Inr (s, q)"
    by (auto simp: decode_entry_def res_simps)
  with take_prefixed_bounds [OF t] assms(2) [OF r] show ?thesis
    by (auto intro: utf8_len_ok_decode)
qed

lemma decode_list_bounds:
  assumes "bindr (decode_varint data pos) (\<lambda>(count, p). repeat_dec d (nat count) p) = Inr (xs, q)"
    and "\<And>p x r. d p = Inr (x, r) \<Longrightarrow> p < r \<and> r \<le> length data \<and> P x"
  shows "pos < q \<and> q \<le> length data \<and> length xs < 2 ^ 28 \<and> list_all P xs"
proof -
  from assms(1) obtain count p where v: "decode_varint data pos = Inr (count, p)"
    and r: "repeat_dec d (nat count) p = Inr (xs, q)"
    by (auto simp: res_simps)
  note b = decode_varint_bounds [OF v]
  then have "p \<le> length data" by simp
  from repeat_dec_inv [OF r this, of P] assms(2) b show ?thesis
    by (auto simp: varint_ok_def)
qed

lemma decode_step_bounds:
  assumes step: "decode_step rec data pos = Inr (s, q)"
    and rec: "\<And>p s q. rec p = Inr (s, q) \<Longrightarrow> p < q \<and> q \<le> length data \<and> wf_symbol s"
  shows "pos < q \<and> q \<le> length data \<and> wf_symbol s"
proof -
  define tag where "tag = uint (data ! pos)"
  have pos: "pos < length data" using step by (simp add: decode_step_def split: if_splits)
  show ?thesis
  proof (cases "map_of FIXED_STRUCT tag")
    case (Some fm)
    from FIXED_STRUCT_size [OF Some] have "0 < calcsize fm" .
    with step pos Some show ?thesis
      by (auto simp: decode_step_def Let_def tag_def [symmetric]
          intro!: wf_value_fixed unpack_fmt_wf split: if_splits)
  next
    case None
    note step' = step [unfolded decode_step_def Let_def, folded tag_def, simplified None]
    consider "tag = S_LIST" | "tag = S_MAP" | "tag = S_STRING" | "tag = S_BYTES" | "is_vendor_tag tag"
      | "tag \<noteq> S_LIST" "tag \<noteq> S_MAP" "tag \<noteq> S_STRING" "tag \<noteq> S_BYTES" "\<not> is_vendor_tag tag"
      by blast
    then show ?thesis
    proof cases
      case 1
      then obtain xs where
        "bindr (decode_varint data (Suc pos)) (\<lambda>(count, p). repeat_dec rec (nat count) p) = Inr (xs, q)"
        "s = Symbol tag (VList xs)"
        using step' pos by (auto simp: res_simps)
      with decode_list_bounds [of data "Suc pos" rec xs q wf_symbol] rec 1 show ?thesis by auto
    next
      case 2
      then obtain kvs where kvs:
        "bindr (decode_varint data (Suc pos))
           (\<lambda>(count, p). repeat_dec (decode_entry rec data) (nat count) p) = Inr (kvs, q)"
        "s = Symbol tag (VDict (dict_of kvs))"
        using step' pos by (auto simp: res_simps)
      have "pos < q \<and> q \<le> length data \<and> length kvs < 2 ^ 28 \<and>
          list_all (\<lambda>(k, s). utf8_len_ok k \<and> wf_symbol s) kvs"
        using decode_list_bounds [OF kvs(1), of "\<lambda>(k, s). utf8_len_ok k \<and> wf_symbol s"]
          decode_entry_bounds [OF _ rec] by fastforce
      with 2 kvs(2) dict_of_keys [of kvs] dict_of_length [of kvs] show ?thesis
        by (auto simp: list_all_iff)
    next
      case 3
      then obtain raw x where "take_prefixed data (Suc pos) = Inr (raw, q)"
        "utf8_decode raw = Inr x" "s = Symbol tag (VStr x)"
        using step' pos by (auto simp: res_simps)
      with 3 take_prefixed_bounds [of data "Suc pos" raw q] utf8_len_ok_decode [of raw x]
      show ?thesis by auto
    next
      case 4
      then show ?thesis using step' pos by (auto simp: res_simps dest!: take_prefixed_bounds)
    next
      case 5
      then show ?thesis using step' pos
        by (auto simp: res_simps is_vendor_tag_def dest!: take_prefixed_bounds split: if_splits)
    next
      case 6
      note rng = unpack_u_slice_range [of data "Suc pos" "Suc pos + 8"]
        unpack_u_slice_range [of data "Suc pos" "Suc pos + 2"]
        unpack_u_slice_range [of data "Suc pos + 8" "Suc pos + 12"]
        unpack_u_slice_range [of data "Suc pos + 12" "Suc pos + 16"]
      from 6 step' have
        "tag = S_BOOL \<or> tag = S_UUID \<or> tag = S_HANDLE \<or> tag = S_REF \<or> tag = S_BUF_REF \<or> tag = S_NULL"
        by (auto split: if_splits)
      then show ?thesis using step' pos rng
        by (elim disjE) (simp_all split: if_splits, auto)
    qed
  qed
qed

lemma decode_entry_errors:
  assumes "decode_entry rec data pos = Inl e" "\<And>p e. rec p = Inl e \<Longrightarrow> e \<in> E" "decoder_errors \<subseteq> E"
  shows "e \<in> E"
  using assms
  by (auto simp: decode_entry_def res_simps decoder_errors_def
      dest!: take_prefixed_errors utf8_decode_errors)

lemma decode_step_errors:
  assumes step: "decode_step rec data pos = Inl e"
    and rec: "\<And>p e. rec p = Inl e \<Longrightarrow> e \<in> E" and E: "decoder_errors \<subseteq> E"
  shows "e \<in> E"
proof -
  define tag where "tag = uint (data ! pos)"
  have E': "SymbolError \<in> E" "UnicodeDecodeError \<in> E" using E by (auto simp: decoder_errors_def)
  note step' = step [unfolded decode_step_def Let_def, folded tag_def]
  consider "e = SymbolError" | "tag = S_LIST" | "tag = S_MAP" | "tag = S_STRING" | "tag = S_BYTES"
    | "is_vendor_tag tag" | "e \<noteq> SymbolError" "tag \<noteq> S_LIST" "tag \<noteq> S_MAP" "tag \<noteq> S_STRING"
      "tag \<noteq> S_BYTES" "\<not> is_vendor_tag tag"
    by blast
  then show ?thesis
  proof cases
    case 2
    then show ?thesis using step' E'
      by (auto simp: res_simps dest!: decode_varint_errors elim!: repeat_dec_errors rec split: if_splits)
  next
    case 3
    have "e \<in> E" if "repeat_dec (decode_entry rec data) n p = Inl e" for n p
      by (rule repeat_dec_errors [OF that, of "\<lambda>e. e \<in> E"]) (rule decode_entry_errors [OF _ rec E])
    then show ?thesis using step' 3 E'
      by (auto simp: res_simps dest!: decode_varint_errors split: if_splits)
  next
    case 4
    then show ?thesis using step' E'
      by (auto simp: res_simps dest!: take_prefixed_errors utf8_decode_errors split: if_splits)
  next
    case 5
    then show ?thesis using step' E'
      by (auto simp: res_simps dest!: take_prefixed_errors split: if_splits)
  next
    case 6
    then show ?thesis using step' E'
      by (auto simp: res_simps is_vendor_tag_def dest!: take_prefixed_errors split: if_splits)
  next
    case 7
    then show ?thesis using step' by (simp split: if_splits option.splits)
  qed (simp add: E')
qed

lemma decode_step_cong:
  assumes rec: "\<And>p. pos < p \<Longrightarrow> rec p = rec' p"
    and progress: "\<And>p s q. rec p = Inr (s, q) \<Longrightarrow> p < q"
  shows "decode_step rec data pos = decode_step rec' data pos"
proof -
  have entry: "decode_entry rec data p = decode_entry rec' data p" if "pos < p" for p
  proof -
    have "rec q = rec' q" if "take_prefixed data p = Inr (kb, q)" for kb q
      using take_prefixed_bounds [OF that] \<open>pos < p\<close> by (intro rec) simp
    then show ?thesis by (auto simp: decode_entry_def bindr_def split: sum.splits)
  qed
  have entry_progress: "p \<le> q" if "decode_entry rec data p = Inr (x, q)" for p x q
    using that
    by (auto simp: decode_entry_def res_simps dest!: take_prefixed_bounds progress)
  have "repeat_dec rec n p = repeat_dec rec' n p"
    "repeat_dec (decode_entry rec data) n p = repeat_dec (decode_entry rec' data) n p"
    if "decode_varint data (pos + 1) = Inr (count, p)" for n p count
    using decode_varint_bounds [OF that]
    by (auto intro!: repeat_dec_cong rec entry intro: entry_progress less_imp_le progress)
  then have
    "bindr (decode_varint data (pos + 1)) (\<lambda>(count, p). bindr (repeat_dec rec (nat count) p) f) =
     bindr (decode_varint data (pos + 1)) (\<lambda>(count, p). bindr (repeat_dec rec' (nat count) p) f)"
    "bindr (decode_varint data (pos + 1))
       (\<lambda>(count, p). bindr (repeat_dec (decode_entry rec data) (nat count) p) g) =
     bindr (decode_varint data (pos + 1))
       (\<lambda>(count, p). bindr (repeat_dec (decode_entry rec' data) (nat count) p) g)" for f g
    by (auto intro!: bindr_cong)
  from this(1) [of "\<lambda>(items, q). Inr (Symbol (uint (data ! pos)) (VList items), q)"]
    this(2) [of "\<lambda>(kvs, q). Inr (Symbol (uint (data ! pos)) (VDict (dict_of kvs)), q)"]
  show ?thesis unfolding decode_step_def Let_def by (simp only:)
qed

section \<open>The whole decoder: lemmas\<close>

lemma decode_symbol_levels_bounds:
  "decode_symbol_levels n data pos = Inr (s, q) \<Longrightarrow> pos < q \<and> q \<le> length data \<and> wf_symbol s"
proof (induction n arbitrary: pos s q)
  case (Suc n)
  from Suc.prems Suc.IH show ?case by (auto dest!: decode_step_bounds)
qed simp

lemma decode_symbol_levels_enough:
  "length data - pos < n \<Longrightarrow> length data - pos < m \<Longrightarrow>
     decode_symbol_levels n data pos = decode_symbol_levels m data pos"
proof (induction n arbitrary: m pos)
  case (Suc n)
  then obtain m' where m: "m = Suc m'" by (cases m) auto
  show ?case
  proof (cases "pos < length data")
    case True
    have "decode_step (decode_symbol_levels n data) data pos =
        decode_step (decode_symbol_levels m' data) data pos"
    proof (rule decode_step_cong)
      show "decode_symbol_levels n data p = decode_symbol_levels m' data p" if "pos < p" for p
        using that True Suc.prems m by (intro Suc.IH) linarith+
    qed (auto dest: decode_symbol_levels_bounds)
    with m show ?thesis by simp
  qed (simp add: m decode_step_def)
qed simp

lemma decode_symbol_unfold: "decode_symbol data pos = decode_step (decode_symbol data) data pos"
proof (cases "pos < length data")
  case True
  have "decode_step (decode_symbol_levels (length data) data) data pos =
      decode_step (decode_symbol_levels (Suc (length data)) data) data pos"
  proof (rule decode_step_cong)
    show "decode_symbol_levels (length data) data p = decode_symbol_levels (Suc (length data)) data p"
      if "pos < p" for p
      using that True by (intro decode_symbol_levels_enough) linarith+
  qed (auto dest: decode_symbol_levels_bounds)
  then show ?thesis unfolding decode_symbol_def by (simp only: decode_symbol_levels.simps)
qed (simp add: decode_symbol_def decode_step_def)

lemma decode_symbol_bounds:
  "decode_symbol data pos = Inr (s, q) \<Longrightarrow> pos < q \<and> q \<le> length data \<and> wf_symbol s"
  unfolding decode_symbol_def by (rule decode_symbol_levels_bounds)

text \<open>Running out of levels is not among the outcomes.\<close>

lemma decode_symbol_errors: "decode_symbol data pos = Inl e \<Longrightarrow> e \<in> decoder_errors"
proof (induction "length data - pos" arbitrary: pos e rule: less_induct)
  case less
  show ?case
  proof (cases "pos < length data")
    case True
    let ?rec = "\<lambda>p. if pos < p then decode_symbol data p else Inl SymbolError"
    have "decode_step (decode_symbol data) data pos = decode_step ?rec data pos"
      by (rule decode_step_cong) (auto dest: decode_symbol_bounds)
    then have step: "decode_step ?rec data pos = Inl e"
      using less.prems by (simp add: decode_symbol_unfold [of data pos])
    show ?thesis
    proof (rule decode_step_errors [OF step])
      show "e \<in> decoder_errors" if "?rec p = Inl e" for p e
      proof (cases "pos < p")
        case gt: True
        then have "length data - p < length data - pos" using True by linarith
        with less.hyps [of p e] that gt show ?thesis by simp
      qed (use that in \<open>simp add: decoder_errors_def\<close>)
    qed simp
  next
    case False
    with less.prems show ?thesis
      by (simp add: decode_symbol_unfold [of data pos] decode_step_def decoder_errors_def)
  qed
qed

section \<open>Encoding well-formed symbols: lemmas\<close>

lemma wf_value_tag: "wf_value tag v \<Longrightarrow> 0 \<le> tag \<and> tag < 256"
  by (cases v) (auto simp: is_vendor_tag_def dest: FIXED_STRUCT_tag split: option.splits)

lemma encode_symbol_Inr:
  "encode_symbol (Symbol tag v) = Inr bs \<longleftrightarrow>
     (0 \<le> tag \<and> tag < 256 \<and> (\<exists>ps. encode_payload tag v = Inr ps \<and> bs = of_int tag # ps))"
  by (auto simp: res_simps)

text \<open>What the decoder does on a buffer that holds a tag and a payload.\<close>

lemma decode_symbol_at:
  assumes "has_at data pos ((of_int tag :: byte) # ps)" "0 \<le> tag" "tag < 256"
  shows "pos < length data" "uint (data ! pos) = tag" "has_at data (Suc pos) ps"
    "Suc pos + length ps \<le> length data"
  using assms has_at_bound [of data "Suc pos" ps] by (auto simp: wire_simps)

text \<open>Scalars: everything but lists and maps.\<close>

lemma scalar_total:
  assumes "wf_value tag v" "tag \<noteq> S_LIST" "tag \<noteq> S_MAP"
  shows "\<exists>ps. encode_payload tag v = Inr ps"
proof (cases "map_of FIXED_STRUCT tag")
  case (Some fm)
  with assms pack_fmt_roundtrip [of fm v] FIXED_STRUCT_size [OF Some] show ?thesis
    by (auto simp: wf_value_fixed_iff)
next
  case None
  show ?thesis using assms None
    by (cases v)
      (auto simp: prefixed_total pack_u_def is_vendor_tag_def pack_buf_ref_def
        elim!: utf8_len_okE split: list.splits)
qed

lemma scalar_roundtrip:
  assumes wf: "wf_value tag v" and nc: "tag \<noteq> S_LIST" "tag \<noteq> S_MAP"
    and enc: "encode_payload tag v = Inr ps" and at: "has_at data pos (of_int tag # ps)"
  shows "decode_symbol data pos = Inr (Symbol tag v, pos + Suc (length ps))"
proof -
  note r = wf_value_tag [OF wf]
  note d = decode_symbol_at [OF at conjunct1 [OF r] conjunct2 [OF r]]
  have step: "decode_symbol data pos = decode_step (decode_symbol data) data pos"
    by (rule decode_symbol_unfold)
  show ?thesis
  proof (cases "map_of FIXED_STRUCT tag")
    case (Some fm)
    from Some wf have "wf_fixed fm v" by (simp add: wf_value_fixed_iff)
    from pack_fmt_roundtrip [OF this FIXED_STRUCT_size [OF Some]] Some enc
    have "length ps = calcsize fm" "unpack_fmt fm ps = v" by auto
    with Some d has_at_slice_eq [OF d(3)] show ?thesis
      by (simp add: step decode_step_def Let_def)
  next
    case None
    show ?thesis
    proof (cases v)
      case (VStr s)
      then obtain raw where raw: "tag = S_STRING" "utf8_encode s = Inr raw" "utf8_decode raw = Inr s"
        "length raw < 2 ^ 28" using wf by (auto elim: utf8_len_okE)
      with enc VStr have "prefixed raw = Inr ps" by simp
      from take_prefixed_prefixed [OF this raw(4) d(3)] raw d VStr show ?thesis
        by (simp add: step decode_step_def Let_def)
    next
      case (VBytes b)
      consider "tag = S_UUID" "length b = 16" | "tag = S_BYTES \<or> is_vendor_tag tag" "length b < 2 ^ 28"
        using wf VBytes by auto
      then show ?thesis
      proof cases
        case 1
        with enc VBytes d has_at_slice_eq [OF d(3)] show ?thesis
          by (simp add: step decode_step_def Let_def)
      next
        case 2
        then have "prefixed b = Inr ps" using enc VBytes None by (auto simp: is_vendor_tag_def)
        from take_prefixed_prefixed [OF this 2(2) d(3)] 2 d VBytes None show ?thesis
          by (auto simp: step decode_step_def Let_def is_vendor_tag_def)
      qed
    next
      case (VInt i)
      then consider "tag = S_HANDLE" | "tag = S_REF" using wf None by auto
      then show ?thesis
        using d enc VInt has_at_slice_eq [OF d(3)]
        by cases (auto simp: step decode_step_def Let_def pack_u_length unpack_pack_u)
    next
      case (VTuple t)
      then obtain a b c where t: "tag = S_BUF_REF" "t = [a, b, c]"
        using wf by (auto split: list.splits)
      then obtain x y z where "pack_u 8 a = Inr x" "pack_u 4 b = Inr y" "pack_u 4 c = Inr z"
        and ps: "ps = x @ y @ z" using enc VTuple by (auto simp: pack_buf_ref_def bindr_eq_Inr)
      moreover from this have len: "length x = 8" "length y = 4" "length z = 4"
        by (simp_all add: pack_u_length)
      moreover have "has_at data (Suc pos) x" "has_at data (Suc pos + 8) y" "has_at data (Suc pos + 12) z"
        using d(3) ps len by (simp_all add: has_at_append)
      note this [THEN has_at_slice_eq]
      ultimately show ?thesis using t d VTuple
        by (simp add: step decode_step_def Let_def unpack_pack_u)
    next
      case (VBool b)
      with wf enc d show ?thesis
        by (auto simp: step decode_step_def Let_def wire_simps split: if_splits)
    next
      case VNone
      with wf enc d show ?thesis by (auto simp: step decode_step_def Let_def)
    qed (use wf nc None in auto)
  qed
qed

text \<open>One entry of a map: the encoder of an entry as the map loop runs it.\<close>

definition encode_entry :: "pystr \<times> symbol \<Rightarrow> bytes res" where
  "encode_entry = (\<lambda>(key, item). bindr (utf8_encode key) (\<lambda>kb. bindr (prefixed kb) (\<lambda>k.
     bindr (encode_symbol item) (\<lambda>i. Inr (k @ i)))))"

lemma encode_map_entries:
  "encode_map (VDict d) =
     bindr (encode_varint (int (length d))) (\<lambda>n.
     bindr (mapr encode_entry d) (\<lambda>bss. Inr (n @ concat bss)))"
  by (simp add: encode_entry_def)

definition symbol_rt :: "symbol \<Rightarrow> bool" where
  "symbol_rt s = ((\<exists>bs. encode_symbol s = Inr bs) \<and>
     (\<forall>bs data pos. encode_symbol s = Inr bs \<longrightarrow> has_at data pos bs \<longrightarrow>
        decode_symbol data pos = Inr (s, pos + length bs)))"

lemma entry_rt:
  assumes "utf8_len_ok k" "symbol_rt s"
  shows "\<exists>bs. encode_entry (k, s) = Inr bs"
    and "encode_entry (k, s) = Inr bs \<Longrightarrow> has_at data pos bs \<Longrightarrow>
      decode_entry (decode_symbol data) data pos = Inr ((k, s), pos + length bs)"
proof -
  from assms(1) obtain kb where kb: "utf8_encode k = Inr kb" "utf8_decode kb = Inr k"
    "length kb < 2 ^ 28" by (rule utf8_len_okE)
  from prefixed_total obtain p where p: "prefixed kb = Inr p" by blast
  from assms(2) obtain i where i: "encode_symbol s = Inr i"
    "\<And>data pos. has_at data pos i \<Longrightarrow> decode_symbol data pos = Inr (s, pos + length i)"
    by (auto simp: symbol_rt_def)
  have enc: "encode_entry (k, s) = Inr (p @ i)" using kb p i by (simp add: encode_entry_def)
  then show "\<exists>bs. encode_entry (k, s) = Inr bs" by blast
  assume "encode_entry (k, s) = Inr bs" and at: "has_at data pos bs"
  with enc have bs: "bs = p @ i" by simp
  with at have "has_at data pos p" "has_at data (pos + length p) i" by (simp_all add: wire_simps)
  with take_prefixed_prefixed [OF p kb(3)] kb i(2) bs
  show "decode_entry (decode_symbol data) data pos = Inr ((k, s), pos + length bs)"
    by (simp add: decode_entry_def)
qed

lemma counted_rt:
  assumes items: "\<And>x. x \<in> set xs \<Longrightarrow> \<exists>bs. f x = Inr bs" and n: "length xs < 2 ^ 28"
    and dec: "\<And>x bs p. x \<in> set xs \<Longrightarrow> f x = Inr bs \<Longrightarrow> has_at data p bs \<Longrightarrow> d p = Inr (x, p + length bs)"
  shows "\<exists>cs bss. encode_varint (int (length xs)) = Inr cs \<and> mapr f xs = Inr bss \<and>
    (\<forall>pos. has_at data pos (cs @ concat bss) \<longrightarrow>
       decode_varint data pos = Inr (int (length xs), pos + length cs) \<and>
       repeat_dec d (length xs) (pos + length cs) = Inr (xs, pos + length (cs @ concat bss)))"
proof -
  have ok: "varint_ok (int (length xs))" using n by (simp add: varint_ok_def)
  from varint.enc_total [OF this] obtain cs where cs: "encode_varint (int (length xs)) = Inr cs" by blast
  from items obtain bss where bss: "mapr f xs = Inr bss" using mapr_Inr_iff by metis
  have "decode_varint data pos = Inr (int (length xs), pos + length cs) \<and>
      repeat_dec d (length xs) (pos + length cs) = Inr (xs, pos + length (cs @ concat bss))"
    if "has_at data pos (cs @ concat bss)" for pos
    using that varint.dec_enc [OF ok cs] repeat_dec_mapr [OF dec bss]
    by (simp add: has_at_append add.assoc)
  with cs bss show ?thesis by blast
qed

lemma list_rt:
  assumes wf: "wf_value tag (VList items)" and items: "\<And>x. x \<in> set items \<Longrightarrow> symbol_rt x"
  shows "symbol_rt (Symbol tag (VList items))"
proof -
  have len: "tag = S_LIST" "length items < 2 ^ 28" using wf by auto
  have rt: "\<exists>bs. encode_symbol x = Inr bs"
    "encode_symbol x = Inr bs \<Longrightarrow> has_at data p bs \<Longrightarrow> decode_symbol data p = Inr (x, p + length bs)"
    if "x \<in> set items" for x bs data p
    using items [OF that] by (auto simp: symbol_rt_def)
  have c: "\<exists>cs bss. encode_varint (int (length items)) = Inr cs \<and> mapr encode_symbol items = Inr bss \<and>
    (\<forall>pos. has_at data pos (cs @ concat bss) \<longrightarrow>
       decode_varint data pos = Inr (int (length items), pos + length cs) \<and>
       repeat_dec (decode_symbol data) (length items) (pos + length cs) =
         Inr (items, pos + length (cs @ concat bss)))" for data
    by (rule counted_rt [OF rt(1) len(2) rt(2)])
  then obtain cs bss where cs: "encode_varint (int (length items)) = Inr cs"
    "mapr encode_symbol items = Inr bss" by blast
  then have enc: "encode_symbol (Symbol tag (VList items)) = Inr (of_int tag # cs @ concat bss)"
    using len(1) by (simp add: FIXED_STRUCT_def)
  have "decode_symbol data pos = Inr (Symbol tag (VList items), pos + length (of_int tag # cs @ concat bss))"
    if at: "has_at data pos (of_int tag # cs @ concat bss)" for data pos
  proof -
    have d: "pos < length data" "uint (data ! pos) = tag" "has_at data (Suc pos) (cs @ concat bss)"
      using decode_symbol_at [OF at] len(1) by simp_all
    with c [of data] cs have "decode_varint data (Suc pos) = Inr (int (length items), Suc pos + length cs)"
      "repeat_dec (decode_symbol data) (length items) (Suc pos + length cs) =
         Inr (items, Suc pos + length (cs @ concat bss))" by auto
    with d len(1) show ?thesis
      by (simp add: decode_symbol_unfold [of data pos] decode_step_def FIXED_STRUCT_def)
  qed
  with enc show ?thesis by (simp add: symbol_rt_def del: encode_symbol.simps)
qed

lemma map_rt:
  assumes wf: "wf_value tag (VDict d)" and items: "\<And>k x. (k, x) \<in> set d \<Longrightarrow> symbol_rt x"
  shows "symbol_rt (Symbol tag (VDict d))"
proof -
  have len: "tag = S_MAP" "length d < 2 ^ 28" "distinct (map fst d)"
    and keys: "\<And>k x. (k, x) \<in> set d \<Longrightarrow> utf8_len_ok k" using wf by (auto simp: list_all_iff)
  have rt: "\<exists>bs. encode_entry e = Inr bs"
    "encode_entry e = Inr bs \<Longrightarrow> has_at data p bs \<Longrightarrow>
       decode_entry (decode_symbol data) data p = Inr (e, p + length bs)"
    if "e \<in> set d" for e bs data p
  proof -
    obtain k x where e: "e = (k, x)" by (cases e)
    with that have "(k, x) \<in> set d" by simp
    note r = entry_rt [OF keys [OF this] items [OF this]]
    from e show "\<exists>bs. encode_entry e = Inr bs" by (simp add: r(1))
    from e show "encode_entry e = Inr bs \<Longrightarrow> has_at data p bs \<Longrightarrow>
       decode_entry (decode_symbol data) data p = Inr (e, p + length bs)" by (simp add: r(2))
  qed
  have c: "\<exists>cs bss. encode_varint (int (length d)) = Inr cs \<and> mapr encode_entry d = Inr bss \<and>
    (\<forall>pos. has_at data pos (cs @ concat bss) \<longrightarrow>
       decode_varint data pos = Inr (int (length d), pos + length cs) \<and>
       repeat_dec (decode_entry (decode_symbol data) data) (length d) (pos + length cs) =
         Inr (d, pos + length (cs @ concat bss)))" for data
    by (rule counted_rt [OF rt(1) len(2) rt(2)])
  then obtain cs bss where cs: "encode_varint (int (length d)) = Inr cs"
    "mapr encode_entry d = Inr bss" by blast
  then have enc: "encode_symbol (Symbol tag (VDict d)) = Inr (of_int tag # cs @ concat bss)"
    using len(1) by (simp add: FIXED_STRUCT_def encode_map_entries del: encode_map.simps)
  have "decode_symbol data pos = Inr (Symbol tag (VDict d), pos + length (of_int tag # cs @ concat bss))"
    if at: "has_at data pos (of_int tag # cs @ concat bss)" for data pos
  proof -
    have at': "pos < length data" "uint (data ! pos) = tag" "has_at data (Suc pos) (cs @ concat bss)"
      using decode_symbol_at [OF at] len(1) by simp_all
    with c [of data] cs have "decode_varint data (Suc pos) = Inr (int (length d), Suc pos + length cs)"
      "repeat_dec (decode_entry (decode_symbol data) data) (length d) (Suc pos + length cs) =
         Inr (d, Suc pos + length (cs @ concat bss))" by auto
    with at' len show ?thesis
      by (simp add: decode_symbol_unfold [of data pos] decode_step_def FIXED_STRUCT_def)
  qed
  with enc show ?thesis by (simp add: symbol_rt_def del: encode_symbol.simps)
qed

lemma scalar_rt:
  assumes "wf_value tag v" "tag \<noteq> S_LIST" "tag \<noteq> S_MAP"
  shows "symbol_rt (Symbol tag v)"
proof -
  from scalar_total [OF assms] obtain ps where ps: "encode_payload tag v = Inr ps" by blast
  with wf_value_tag [OF assms(1)] have "encode_symbol (Symbol tag v) = Inr (of_int tag # ps)" by simp
  with scalar_roundtrip [OF assms ps] show ?thesis
    by (simp add: symbol_rt_def del: encode_symbol.simps)
qed

lemma wf_value_rt: "wf_value tag v \<Longrightarrow> symbol_rt (Symbol tag v)"
  and wf_symbol_rt: "wf_symbol s \<Longrightarrow> symbol_rt s"
proof (induction v and s arbitrary: tag)
  case (VList items)
  then show ?case by (intro list_rt) (auto simp: list_all_iff)
next
  case (VDict d)
  show ?case
  proof (rule map_rt [OF VDict.prems])
    fix k x
    assume "(k, x) \<in> set d"
    with VDict.IH [of "(k, x)" x] VDict.prems show "symbol_rt x" by (auto simp: list_all_iff)
  qed
qed (auto intro!: scalar_rt simp: is_vendor_tag_def split: option.splits)

interpretation symbol: wire_codec encode_symbol decode_symbol wf_symbol
  using wf_symbol_rt by unfold_locales (auto simp: symbol_rt_def)

section \<open>Sequences of operands: lemmas\<close>

lemma encode_symbol_nonempty: "encode_symbol s = Inr bs \<Longrightarrow> 0 < length bs"
  by (cases s) (auto simp: encode_symbol_Inr simp del: encode_symbol.simps)

lemma decode_symbols_loop_enc:
  assumes "list_all wf_symbol xs" "mapr encode_symbol xs = Inr bss" "has_at data pos (concat bss)"
    and "pos + length (concat bss) = length data" "length (concat bss) \<le> n"
  shows "decode_symbols_loop n data pos = Inr (xs, length data)"
  using assms
proof (induction xs arbitrary: n bss pos)
  case Nil
  then show ?case by (cases n) auto
next
  case (Cons x xs)
  then obtain b bs where b: "encode_symbol x = Inr b" "mapr encode_symbol xs = Inr bs" "bss = b # bs"
    by (auto simp: res_simps)
  note nonempty = encode_symbol_nonempty [OF b(1)]
  with Cons.prems b obtain n' where n: "n = Suc n'" by (cases n) auto
  have "has_at data pos b" using Cons.prems(3) b by (simp add: wire_simps)
  then have "decode_symbol data pos = Inr (x, pos + length b)"
    using Cons.prems(1) b by (intro symbol.dec_enc) simp_all
  moreover have "decode_symbols_loop n' data (pos + length b) = Inr (xs, length data)"
  proof (rule Cons.IH [OF _ b(2)])
    have "0 < length b" by (rule nonempty)
    with Cons.prems(5) b n show "length (concat bs) \<le> n'" by (simp del: length_greater_0_conv)
  qed (use Cons.prems b in \<open>simp_all add: wire_simps\<close>)
  ultimately show ?case using n Cons.prems(4) b nonempty by (simp del: length_greater_0_conv)
qed

lemma decode_symbols_loop_outcome:
  assumes "length data - pos \<le> n"
  shows "case decode_symbols_loop n data pos of
      Inl e \<Rightarrow> e \<in> decoder_errors
    | Inr (xs, q) \<Rightarrow> q = max pos (length data) \<and> list_all wf_symbol xs"
  using assms
proof (induction n arbitrary: pos)
  case (Suc n)
  show ?case
  proof (cases "decode_symbol data pos")
    case (Inl e)
    then show ?thesis using decode_symbol_errors [OF Inl] by auto
  next
    case (Inr r)
    obtain s p where r: "r = (s, p)" by (cases r)
    from decode_symbol_bounds [of data pos s p] Inr r have b: "pos < p" "p \<le> length data" "wf_symbol s"
      by auto
    with Suc.prems Suc.IH [of p] Inr r show ?thesis
      by (auto simp: bindr_def split: sum.splits)
  qed
qed simp

lemma iter_symbols_loop_decode:
  "case decode_symbols_loop n data pos of
     Inl e \<Rightarrow> snd (iter_symbols_loop n data pos) = Some e
   | Inr (xs, q) \<Rightarrow> iter_symbols_loop n data pos = (xs, None)"
proof (induction n arbitrary: pos)
  case (Suc n)
  show ?case
  proof (cases "decode_symbol data pos")
    case (Inr r)
    obtain s p where "r = (s, p)" by (cases r)
    with Inr Suc.IH [of p] show ?thesis
      by (auto simp: bindr_def split: sum.splits prod.splits)
  qed simp
qed simp

lemma length_le_concat:
  "mapr encode_symbol xs = Inr bss \<Longrightarrow> length xs \<le> length (concat bss)"
proof (induction xs arbitrary: bss)
  case (Cons x xs)
  then obtain b bs where b: "encode_symbol x = Inr b" "mapr encode_symbol xs = Inr bs" "bss = b # bs"
    by (auto simp: bindr_eq_Inr)
  from encode_symbol_nonempty [OF b(1)] Cons.IH [OF b(2)] b(3) show ?case
    by (simp del: length_greater_0_conv)
qed simp

section \<open>Properties\<close>

text \<open>
  C23. Every well-formed operand, nested to any depth, encodes, and decoding the encoding wherever
  it stands in a buffer gives back the operand and the position right behind it.
\<close>

theorem symbol_roundtrip:
  assumes "wf_symbol s"
  shows "\<exists>bs. encode_symbol s = Inr bs \<and>
    decode_symbol (us @ bs @ vs) (length us) = Inr (s, length us + length bs)"
  using symbol.enc_total [OF assms] symbol.dec_in_context [OF assms] by blast

theorem symbol_roundtrip_witness:
  "\<exists>bs. encode_symbol (Symbol S_LIST (VList [Symbol S_MAP (VDict [([97], Symbol S_I8 (VInt (- 5)))]),
       Symbol S_F64 (VFloat 0x3FF0000000000000), Symbol S_NULL VNone])) = Inr bs \<and>
     decode_symbol ([1] @ bs @ [2]) (length [1 :: byte]) =
       Inr (Symbol S_LIST (VList [Symbol S_MAP (VDict [([97], Symbol S_I8 (VInt (- 5)))]),
         Symbol S_F64 (VFloat 0x3FF0000000000000), Symbol S_NULL VNone]), length [1 :: byte] + length bs)"
  by (rule symbol_roundtrip)
    (simp add: FIXED_STRUCT_def utf8_len_ok.simps utf8_encode_def encodable_def utf8_char_def scalar_def)

text \<open>
  C24. On any buffer and position the decoder returns: either an operand of the type its tag
  documents, having moved forward and stayed inside the buffer, or one of the two exceptions
  \<^verbatim>\<open>SymbolError\<close> and \<^verbatim>\<open>UnicodeDecodeError\<close>. The bound on the nesting never shows.
\<close>

theorem decode_symbol_safe:
  "case decode_symbol data pos of
     Inl e \<Rightarrow> e = SymbolError \<or> e = UnicodeDecodeError
   | Inr (s, q) \<Rightarrow> pos < q \<and> q \<le> length data \<and> wf_symbol s"
  using decode_symbol_errors [of data pos] decode_symbol_bounds [of data pos]
  by (auto simp: decoder_errors_def split: sum.splits)

text \<open>
  A sequence of well-formed operands written back to back is read back as that sequence,
  by \<^verbatim>\<open>decode_symbols\<close> and by the generator \<^verbatim>\<open>iter_symbols\<close>.
\<close>

theorem symbols_roundtrip:
  assumes "list_all wf_symbol syms"
  shows "\<exists>bs. encode_symbols syms = Inr bs \<and> decode_symbols bs 0 = Inr (syms, length bs) \<and>
    iter_symbols bs 0 = (syms, None)"
proof -
  from symbol.enc_all_total [OF assms] obtain bss where bss: "mapr encode_symbol syms = Inr bss" by blast
  have "decode_symbols (concat bss) 0 = Inr (syms, length (concat bss))"
    unfolding decode_symbols_def by (rule decode_symbols_loop_enc [OF assms bss]) simp_all
  moreover from this have "iter_symbols (concat bss) 0 = (syms, None)"
    using iter_symbols_loop_decode [of "length (concat bss)" "concat bss" 0]
    by (simp add: iter_symbols_def decode_symbols_def)
  ultimately show ?thesis using bss by (simp add: encode_symbols_def)
qed

theorem symbols_roundtrip_witness:
  "\<exists>bs. encode_symbols [Symbol S_U16 (VInt 513), Symbol S_BOOL (VBool True)] = Inr bs \<and>
     decode_symbols bs 0 = Inr ([Symbol S_U16 (VInt 513), Symbol S_BOOL (VBool True)], length bs) \<and>
     iter_symbols bs 0 = ([Symbol S_U16 (VInt 513), Symbol S_BOOL (VBool True)], None)"
  by (rule symbols_roundtrip) (simp add: FIXED_STRUCT_def)

end
