(* ===== verification/Header.thy ===== *)
theory Header
  imports Wire_Constants
begin

unbundle bit_operations_syntax

text \<open>
  \<^verbatim>\<open>aicl/bin/validation.py\<close> and \<^verbatim>\<open>aicl/bin/header.py\<close>: the CRC-32 of \<^verbatim>\<open>zlib\<close>, the 56-byte header
  and its validation. Shown: CRC-32 tells byte strings apart that differ in one byte; packing a
  header and unpacking it gives the fields back, and what was packed passes validation exactly
  when its payload length is within the decoder's limit; every single-byte corruption of a
  valid header is refused.
\<close>

section \<open>CRC-32\<close>

text \<open>\<^verbatim>\<open>zlib.crc32\<close>: the reflected polynomial 0xEDB88320, bit by bit.\<close>

definition crc32_shift :: "32 word \<Rightarrow> 32 word" where
  "crc32_shift c = (if bit c 0 then drop_bit 1 c XOR 0xEDB88320 else drop_bit 1 c)"

definition crc32_update :: "32 word \<Rightarrow> byte \<Rightarrow> 32 word" where
  "crc32_update c b = (crc32_shift ^^ 8) (c XOR ucast b)"

definition crc32 :: "bytes \<Rightarrow> int" where
  "crc32 data = uint (foldl crc32_update 0xFFFFFFFF data XOR 0xFFFFFFFF)"

definition compute_crc32 :: "bytes \<Rightarrow> int" where
  "compute_crc32 data = crc32 data AND 0xFFFFFFFF"

section \<open>Validation\<close>

definition validate_header :: "bytes \<Rightarrow> unit res" where
  "validate_header data =
     (if length data < HEADER_SIZE then Inl HeaderError
      else if slice data 0 4 \<noteq> MAGIC then Inl HeaderError
      else bindr (unpack_from_u 2 data 4) (\<lambda>version.
        if version \<notin> SUPPORTED_VERSIONS then Inl VersionMismatchError
        else bindr (unpack_from_u 4 data HEADER_CRC_SCOPE) (\<lambda>hdr_crc.
          let computed = compute_crc32 (slice data 0 HEADER_CRC_SCOPE) in
          if hdr_crc \<noteq> computed then Inl HeaderError
          else bindr (unpack_from_u 4 data 44) (\<lambda>payload_length.
            if payload_length > MAX_TLV_VALUE_SIZE then Inl HeaderError else Inr ()))))"

definition validate_trailer :: "bytes \<Rightarrow> int \<Rightarrow> unit res" where
  "validate_trailer data expected_crc =
     (if compute_crc32 data \<noteq> expected_crc then Inl ChecksumError else Inr ())"

text \<open>Both branches of the source's last test do nothing.\<close>

definition validate_flags :: "int \<Rightarrow> unit res" where
  "validate_flags flags =
     (let has = (\<lambda>m. if flags AND m \<noteq> 0 then 1 else 0 :: nat);
          packet_type_bits = has FLAG_REQUEST + has FLAG_RESPONSE + has FLAG_ERROR
            + has FLAG_HEARTBEAT + has FLAG_CANCEL
      in if packet_type_bits > 1 \<and> flags AND FLAG_ERROR = 0 then Inr () else Inr ())"

definition get_packet_type_name :: "int \<Rightarrow> string" where
  "get_packet_type_name flags =
     (if flags AND FLAG_REQUEST \<noteq> 0 then ''REQUEST''
      else if flags AND FLAG_RESPONSE \<noteq> 0 then ''RESPONSE''
      else if flags AND FLAG_ERROR \<noteq> 0 then ''ERROR''
      else if flags AND FLAG_HEARTBEAT \<noteq> 0 then ''HEARTBEAT''
      else if flags AND FLAG_CANCEL \<noteq> 0 then ''CANCEL''
      else if flags AND FLAG_STREAM_CHUNK \<noteq> 0 then ''STREAM_CHUNK''
      else if flags AND FLAG_STREAM_END \<noteq> 0 then ''STREAM_END''
      else ''UNKNOWN'')"

section \<open>Packing and unpacking\<close>

record header =
  hdr_magic :: bytes
  hdr_version :: int
  hdr_flags :: int
  hdr_message_id :: bytes
  hdr_correlation_id :: bytes
  hdr_deadline_ms :: int
  hdr_payload_length :: int

text \<open>
  The prefix is \<^verbatim>\<open>struct.pack(">4sHH16s16sII4x", ...)\<close>. The assertion on its length that
  follows in the source is the lemma \<open>header_prefix_length\<close>.
\<close>

definition header_prefix :: "int \<Rightarrow> int \<Rightarrow> bytes \<Rightarrow> bytes \<Rightarrow> int \<Rightarrow> int \<Rightarrow> bytes res" where
  "header_prefix version flags message_id correlation_id deadline_ms payload_length =
     bindr (pack_u 2 version) (\<lambda>v.
     bindr (pack_u 2 flags) (\<lambda>f.
     bindr (pack_u 4 deadline_ms) (\<lambda>d.
     bindr (pack_u 4 payload_length) (\<lambda>p.
       Inr (MAGIC @ v @ f @ message_id @ correlation_id @ d @ p @ [0, 0, 0, 0])))))"

definition pack_header :: "int \<Rightarrow> int \<Rightarrow> bytes \<Rightarrow> bytes \<Rightarrow> int \<Rightarrow> int \<Rightarrow> bytes res" where
  "pack_header version flags message_id correlation_id deadline_ms payload_length =
     (if version \<notin> SUPPORTED_VERSIONS then Inl HeaderError
      else if length message_id \<noteq> 16 then Inl HeaderError
      else if length correlation_id \<noteq> 16 then Inl HeaderError
      else if payload_length > 0xFFFFFFFF then Inl HeaderError
      else if deadline_ms > 0xFFFFFFFF then Inl HeaderError
      else
        bindr (header_prefix version flags message_id correlation_id deadline_ms payload_length)
          (\<lambda>prefix. bindr (pack_u 4 (compute_crc32 prefix)) (\<lambda>crc. Inr (prefix @ crc))))"

definition unpack_header :: "bytes \<Rightarrow> header res" where
  "unpack_header data =
     (if length data < HEADER_SIZE then Inl HeaderError
      else
        let magic = slice data 0 4;
            version = unpack_u (slice data 4 6);
            flags = unpack_u (slice data 6 8);
            message_id = slice data 8 24;
            correlation_id = slice data 24 40;
            deadline_ms = unpack_u (slice data 40 44);
            payload_length = unpack_u (slice data 44 48)
        in if magic \<noteq> MAGIC then Inl HeaderError
           else if version \<notin> SUPPORTED_VERSIONS then Inl HeaderError
           else Inr \<lparr>hdr_magic = magic, hdr_version = version, hdr_flags = flags,
                     hdr_message_id = message_id, hdr_correlation_id = correlation_id,
                     hdr_deadline_ms = deadline_ms, hdr_payload_length = payload_length\<rparr>)"

section \<open>CRC-32 tells single-byte changes apart\<close>

lemma word_xor_cancel: "a XOR c = b XOR c \<longleftrightarrow> a = b" for a b c :: "'a::len word"
  by (metis xor.assoc xor.right_neutral xor_self_eq)

lemma crc32_shift_inj: "crc32_shift c = crc32_shift d \<Longrightarrow> c = d"
proof -
  assume eq: "crc32_shift c = crc32_shift d"
  have top: "bit (crc32_shift x) 31 \<longleftrightarrow> bit x 0" for x
    by (auto simp: crc32_shift_def bit_simps dest: bit_imp_le_length)
  with eq have b0: "bit c 0 \<longleftrightarrow> bit d 0" by metis
  then have "drop_bit 1 c = drop_bit 1 d"
    using eq by (auto simp: crc32_shift_def word_xor_cancel split: if_splits)
  then have "bit c (Suc n) = bit d (Suc n)" for n
    by (metis bit_drop_bit_eq comp_apply plus_1_eq_Suc)
  with b0 show "c = d"
    by (metis bit_word_eqI old.nat.exhaust)
qed

lemma crc32_shifts_inj: "(crc32_shift ^^ n) c = (crc32_shift ^^ n) d \<Longrightarrow> c = d"
  by (induction n) (auto dest: crc32_shift_inj)

lemma crc32_update_inj:
  "crc32_update c b = crc32_update d b \<Longrightarrow> c = d"
  "crc32_update c b = crc32_update c b' \<Longrightarrow> b = b'"
proof -
  show "crc32_update c b = crc32_update d b \<Longrightarrow> c = d"
    by (auto simp: crc32_update_def word_xor_cancel dest: crc32_shifts_inj)
  assume "crc32_update c b = crc32_update c b'"
  then have "ucast b XOR c = (ucast b' XOR c :: 32 word)"
    by (auto simp: crc32_update_def xor.commute dest: crc32_shifts_inj)
  then have eq: "ucast b = (ucast b' :: 32 word)" by (simp add: word_xor_cancel)
  have up: "bit (ucast x :: 32 word) n \<longleftrightarrow> bit x n" for x :: byte and n
    by (auto simp: bit_ucast_iff dest: bit_imp_le_length)
  show "b = b'"
    by (rule bit_word_eqI) (metis eq up)
qed

lemma crc32_fold_inj: "foldl crc32_update c ys = foldl crc32_update d ys \<Longrightarrow> c = d"
  by (induction ys arbitrary: c d) (auto dest: crc32_update_inj(1))

lemma crc32_single_byte:
  "b \<noteq> b' \<Longrightarrow> crc32 (xs @ b # ys) \<noteq> crc32 (xs @ b' # ys)"
  by (auto simp: crc32_def word_xor_cancel word_uint_eq_iff [symmetric] dest!: crc32_fold_inj crc32_update_inj(2))

lemma crc32_range: "0 \<le> crc32 bs \<and> crc32 bs < 2 ^ 32"
  unfolding crc32_def using uint_bounded [of "foldl crc32_update 0xFFFFFFFF bs XOR 0xFFFFFFFF"]
  by simp

lemma compute_crc32 [simp]: "compute_crc32 bs = crc32 bs"
  using crc32_range [of bs] take_bit_eq_mask [of 32 "crc32 bs"]
  by (simp add: compute_crc32_def mask_eq_exp_minus_1 take_bit_int_eq_self)


lemma crc32_update_nth:
  assumes "i < length bs" "b \<noteq> bs ! i"
  shows "crc32 (bs[i := b]) \<noteq> crc32 bs"
proof -
  have "bs = take i bs @ bs ! i # drop (Suc i) bs" using assms(1) by (rule id_take_nth_drop)
  moreover have "bs[i := b] = take i bs @ b # drop (Suc i) bs"
    using assms(1) by (rule upd_conv_take_nth_drop)
  ultimately show ?thesis using crc32_single_byte [OF assms(2)] by metis
qed

section \<open>Headers\<close>

lemma header_prefix_Inr:
  "header_prefix v f m c d p = Inr bs \<longleftrightarrow>
     (\<exists>vb fb db pb. pack_u 2 v = Inr vb \<and> pack_u 2 f = Inr fb \<and> pack_u 4 d = Inr db \<and>
        pack_u 4 p = Inr pb \<and> bs = MAGIC @ vb @ fb @ m @ c @ db @ pb @ [0, 0, 0, 0])"
  by (auto simp: header_prefix_def bindr_eq_Inr)

lemma length_MAGIC [simp]: "length MAGIC = 4"
  by (simp add: MAGIC_def)

lemma header_prefix_length:
  "header_prefix v f m c d p = Inr bs \<Longrightarrow> length m = 16 \<Longrightarrow> length c = 16 \<Longrightarrow>
     length bs = HEADER_CRC_SCOPE"
  by (auto simp: header_prefix_Inr dest!: pack_u_length)

lemma pack_crc32_total: "\<exists>bs. pack_u 4 (crc32 xs) = Inr bs"
  using crc32_range [of xs] by (simp add: pack_u_def)

lemma pack_header_Inr:
  "pack_header v f m c d p = Inr bs \<longleftrightarrow>
     v \<in> SUPPORTED_VERSIONS \<and> length m = 16 \<and> length c = 16 \<and>
     (\<exists>pre crc. header_prefix v f m c d p = Inr pre \<and> pack_u 4 (crc32 pre) = Inr crc \<and> bs = pre @ crc)"
  by (auto simp: pack_header_def header_prefix_Inr bindr_eq_Inr pack_u_Inr)

lemma pack_header_total:
  "\<lbrakk>v \<in> SUPPORTED_VERSIONS; 0 \<le> f; f < 2 ^ 16; length m = 16; length c = 16;
    0 \<le> d; d < 2 ^ 32; 0 \<le> p; p < 2 ^ 32\<rbrakk> \<Longrightarrow> \<exists>bs. pack_header v f m c d p = Inr bs"
  using pack_crc32_total by (auto simp: pack_header_Inr header_prefix_Inr pack_u_Inr)

lemma pack_header_length: "pack_header v f m c d p = Inr bs \<Longrightarrow> length bs = HEADER_SIZE"
  by (auto simp: pack_header_Inr header_prefix_length dest!: pack_u_length)

text \<open>Where each field of a packed header stands.\<close>

lemma pack_header_layout:
  assumes "pack_header v f m c d p = Inr bs"
  obtains vb fb db pb crc where
    "has_at bs 0 MAGIC" "has_at bs 4 vb" "has_at bs 6 fb" "has_at bs 8 m" "has_at bs 24 c"
    "has_at bs 40 db" "has_at bs 44 pb" "has_at bs 52 crc"
    "pack_u 2 v = Inr vb" "pack_u 2 f = Inr fb" "pack_u 4 d = Inr db" "pack_u 4 p = Inr pb"
    "pack_u 4 (crc32 (slice bs 0 52)) = Inr crc"
proof -
  from assms obtain pre crc vb fb db pb where
    pre: "pre = MAGIC @ vb @ fb @ m @ c @ db @ pb @ [0, 0, 0, 0]"
    and parts: "pack_u 2 v = Inr vb" "pack_u 2 f = Inr fb" "pack_u 4 d = Inr db" "pack_u 4 p = Inr pb"
    and bs: "bs = pre @ crc" and crc: "pack_u 4 (crc32 pre) = Inr crc"
    and len: "length m = 16" "length c = 16"
    by (auto simp: pack_header_Inr header_prefix_Inr)
  have l: "length vb = 2" "length fb = 2" "length db = 4" "length pb = 4" "length crc = 4"
    using parts crc by (auto dest: pack_u_length)
  have "has_at bs 0 (MAGIC @ vb @ fb @ m @ c @ db @ pb @ [0, 0, 0, 0] @ crc)"
    using has_at_0 [of bs] bs pre by simp
  then have "has_at bs 0 MAGIC" "has_at bs 4 vb" "has_at bs 6 fb" "has_at bs 8 m" "has_at bs 24 c"
    "has_at bs 40 db" "has_at bs 44 pb" "has_at bs 52 crc"
    by (simp_all add: wire_simps l len)
  moreover have "slice bs 0 52 = pre" using bs pre l len by (simp add: slice_def)
  ultimately show thesis using that parts crc by simp
qed

lemma unpack_u_layout: "has_at bs a xs \<Longrightarrow> pack_u n v = Inr xs \<Longrightarrow> unpack_u (slice bs a (a + n)) = v"
  by (metis has_at_slice_eq pack_u_length unpack_pack_u)

lemma unpack_from_u_layout:
  "has_at bs a xs \<Longrightarrow> pack_u n v = Inr xs \<Longrightarrow> unpack_from_u n bs a = Inr v"
  by (simp add: unpack_from_u_at pack_u_length unpack_pack_u)

lemma validate_pack_header:
  assumes "pack_header v f m c d p = Inr bs"
  shows "validate_header bs = (if p > MAX_TLV_VALUE_SIZE then Inl HeaderError else Inr ())"
proof -
  from assms obtain vb pb crc where
    at: "has_at bs 0 MAGIC" "has_at bs 4 vb" "has_at bs 44 pb" "has_at bs 52 crc"
    and parts: "pack_u 2 v = Inr vb" "pack_u 4 p = Inr pb" "pack_u 4 (crc32 (slice bs 0 52)) = Inr crc"
    by (rule pack_header_layout)
  have "slice bs 0 4 = MAGIC" using has_at_slice_eq [OF at(1), of 4] by simp
  moreover have "unpack_from_u 2 bs 4 = Inr v" "unpack_from_u 4 bs 44 = Inr p"
    "unpack_from_u 4 bs 52 = Inr (crc32 (slice bs 0 52))"
    using at parts by (auto intro: unpack_from_u_layout)
  ultimately show ?thesis
    using assms pack_header_length [OF assms]
    by (auto simp: validate_header_def pack_header_Inr Let_def)
qed

lemma unpack_pack_header:
  assumes "pack_header v f m c d p = Inr bs"
  shows "unpack_header (bs @ rest) =
    Inr \<lparr>hdr_magic = MAGIC, hdr_version = v, hdr_flags = f, hdr_message_id = m,
         hdr_correlation_id = c, hdr_deadline_ms = d, hdr_payload_length = p\<rparr>"
proof -
  from assms obtain vb fb db pb where
    at: "has_at bs 0 MAGIC" "has_at bs 4 vb" "has_at bs 6 fb" "has_at bs 8 m" "has_at bs 24 c"
      "has_at bs 40 db" "has_at bs 44 pb"
    and parts: "pack_u 2 v = Inr vb" "pack_u 2 f = Inr fb" "pack_u 4 d = Inr db" "pack_u 4 p = Inr pb"
    by (rule pack_header_layout)
  have len: "length m = 16" "length c = 16" "v \<in> SUPPORTED_VERSIONS" "length bs = 56"
    using assms pack_header_length [OF assms] by (auto simp: pack_header_Inr)
  have "slice bs 0 4 = MAGIC" "slice bs 8 24 = m" "slice bs 24 40 = c"
    using has_at_slice_eq [OF at(1), of 4] has_at_slice_eq [OF at(4), of 16]
      has_at_slice_eq [OF at(5), of 16] len by simp_all
  moreover have "unpack_u (slice bs 4 6) = v" "unpack_u (slice bs 6 8) = f"
    "unpack_u (slice bs 40 44) = d" "unpack_u (slice bs 44 48) = p"
    using unpack_u_layout [OF at(2) parts(1)] unpack_u_layout [OF at(3) parts(2)]
      unpack_u_layout [OF at(6) parts(3)] unpack_u_layout [OF at(7) parts(4)] by simp_all
  ultimately show ?thesis
    using len by (simp add: unpack_header_def Let_def)
qed


lemma validate_header_Inr:
  "validate_header data = Inr u \<longleftrightarrow>
     HEADER_SIZE \<le> length data \<and> slice data 0 4 = MAGIC \<and>
     unpack_u (slice data 4 6) \<in> SUPPORTED_VERSIONS \<and>
     unpack_u (slice data 52 56) = crc32 (slice data 0 52) \<and>
     unpack_u (slice data 44 48) \<le> MAX_TLV_VALUE_SIZE"
  by (auto simp: validate_header_def unpack_from_u_def Let_def split: if_splits)

lemma validate_header_errors:
  "validate_header data = Inl e \<Longrightarrow> e = HeaderError \<or> e = VersionMismatchError"
  by (auto simp: validate_header_def unpack_from_u_def Let_def split: if_splits)

lemma validate_header_unpack:
  "validate_header data = Inr u \<Longrightarrow> \<exists>h. unpack_header data = Inr h"
  by (auto simp: validate_header_Inr unpack_header_def Let_def)

lemma unpack_header_slice:
  "HEADER_SIZE \<le> length data \<Longrightarrow> unpack_header (slice data 0 HEADER_SIZE) = unpack_header data"
  by (simp add: unpack_header_def slice_slice)

lemma unpack_u_inj: "unpack_u xs = unpack_u ys \<Longrightarrow> length xs = length ys \<Longrightarrow> xs = ys"
  by (metis pack_unpack_u sum.inject(2))

lemma header_crc_corrupt:
  assumes v: "HEADER_SIZE \<le> length data" "unpack_u (slice data 52 56) = crc32 (slice data 0 52)"
    and "i < HEADER_SIZE" "b \<noteq> data ! i"
  shows "\<exists>e. validate_header (data[i := b]) = Inl e"
proof -
  let ?d = "data[i := b]"
  have "unpack_u (slice ?d 52 56) \<noteq> crc32 (slice ?d 0 52)"
  proof (cases "i < 52")
    case True
    have "crc32 ((slice data 0 52)[i := b]) \<noteq> crc32 (slice data 0 52)"
      using True v(1) assms(4) by (intro crc32_update_nth) (simp_all add: nth_slice)
    then show ?thesis
      using True v(2) slice_update_inside [of 0 i data b 52] slice_update_outside [of i 52 56 data b]
      by simp
  next
    case False
    have "(slice data 52 56)[i - 52 := b] \<noteq> slice data 52 56"
      using False assms(3,4) v(1) by (auto simp: list_eq_iff_nth_eq nth_slice intro!: exI [of _ "i - 52"])
    then have "unpack_u (slice ?d 52 56) \<noteq> unpack_u (slice data 52 56)"
      using False slice_update_inside [of 52 i data b 56] by (auto dest: unpack_u_inj)
    then show ?thesis
      using False v(2) slice_update_outside [of i 0 52 data b] by simp
  qed
  then have "validate_header ?d \<noteq> Inr ()" by (simp add: validate_header_Inr)
  then show ?thesis by (cases "validate_header ?d") auto
qed

lemma validate_header_corrupt:
  "validate_header data = Inr u \<Longrightarrow> i < HEADER_SIZE \<Longrightarrow> b \<noteq> data ! i \<Longrightarrow>
     \<exists>e. validate_header (data[i := b]) = Inl e"
  by (rule header_crc_corrupt) (auto simp: validate_header_Inr)

section \<open>Properties\<close>

text \<open>
  What \<^verbatim>\<open>pack_header\<close> returns is 56 bytes long, unpacks to exactly the fields packed (also
  with a payload behind it), and passes \<^verbatim>\<open>validate_header\<close> when the payload length is within the
  decoder's limit of 0xFFFFFF; above it, the encoder still packs the header and the decoder
  refuses it with \<^verbatim>\<open>HeaderError\<close>.
\<close>

theorem header_roundtrip:
  assumes "pack_header v f m c d p = Inr bs"
  shows "length bs = HEADER_SIZE \<and>
    unpack_header (bs @ payload) =
      Inr \<lparr>hdr_magic = MAGIC, hdr_version = v, hdr_flags = f, hdr_message_id = m,
           hdr_correlation_id = c, hdr_deadline_ms = d, hdr_payload_length = p\<rparr> \<and>
    validate_header bs = (if p > MAX_TLV_VALUE_SIZE then Inl HeaderError else Inr ())"
  using pack_header_length [OF assms] unpack_pack_header [OF assms] validate_pack_header [OF assms]
  by simp

theorem header_roundtrip_witness:
  "\<exists>bs. pack_header 0x0100 FLAG_REQUEST (replicate 16 7) (replicate 16 0) 5000 12 = Inr bs \<and>
     length bs = HEADER_SIZE \<and>
     unpack_header (bs @ [1, 2]) =
       Inr \<lparr>hdr_magic = MAGIC, hdr_version = 0x0100, hdr_flags = FLAG_REQUEST,
            hdr_message_id = replicate 16 7, hdr_correlation_id = replicate 16 0,
            hdr_deadline_ms = 5000, hdr_payload_length = 12\<rparr> \<and>
     validate_header bs = (if 12 > MAX_TLV_VALUE_SIZE then Inl HeaderError else Inr ())"
proof -
  obtain bs where bs:
    "pack_header 0x0100 FLAG_REQUEST (replicate 16 7) (replicate 16 0) 5000 12 = Inr bs"
    using pack_header_total [of "0x0100" FLAG_REQUEST "replicate 16 7" "replicate 16 0" 5000 12] by auto
  then show ?thesis using header_roundtrip [OF bs, of "[1, 2]"] by blast
qed

text \<open>
  Changing any one byte of a header that validates makes \<^verbatim>\<open>validate_header\<close> raise
  \<^verbatim>\<open>HeaderError\<close> or its subclass \<^verbatim>\<open>VersionMismatchError\<close>: the header's own CRC-32 covers every
  field, and a change of the CRC field itself is seen too.
\<close>

theorem header_corruption_detected:
  assumes "validate_header data = Inr ()" "i < HEADER_SIZE" "b \<noteq> data ! i"
  shows "validate_header (data[i := b]) \<in> {Inl HeaderError, Inl VersionMismatchError}"
  using validate_header_corrupt [OF assms] validate_header_errors by fastforce

theorem header_corruption_detected_witness:
  "\<exists>data. validate_header data = Inr () \<and> (9 :: byte) \<noteq> data ! 8 \<and>
     validate_header (data[8 := 9]) \<in> {Inl HeaderError, Inl VersionMismatchError}"
proof -
  let ?c = "pack_header 0x0100 FLAG_REQUEST (7 # replicate 15 7) (replicate 16 0) 5000 12"
  obtain bs where bs: "?c = Inr bs"
    using pack_header_total [of "0x0100" FLAG_REQUEST "7 # replicate 15 7" "replicate 16 0" 5000 12]
    by auto
  then have "validate_header bs = Inr ()" by (simp add: validate_pack_header)
  moreover have "has_at bs 8 (7 # replicate 15 7)" using bs by (rule pack_header_layout)
  then have "bs ! 8 = 7" by (simp add: has_at_Cons)
  ultimately show ?thesis using header_corruption_detected [of bs 8 9] by auto
qed

end
