(* ===== verification/Packet.thy ===== *)
theory Packet
  imports Operands Header
begin

text \<open>
  \<^verbatim>\<open>aicl/bin/types.py\<close> and \<^verbatim>\<open>aicl/bin/codec_packet.py\<close>: the records a packet carries, the packet
  itself and the building of its payload. Every rich field travels as a vendor operand whose
  bytes are laid out by hand; \<open>ext_fields\<close> lists them in the order of \<^verbatim>\<open>_append_extensions\<close>, each
  with the payloads it contributes. Metadata values are the strings that \<^verbatim>\<open>str(v)\<close> gives.
\<close>

section \<open>The records of types.py\<close>

record identity =
  id_type :: int
  id_name :: pystr
  id_instance_id :: int

record qos =
  priority_class :: int
  reliability :: int
  ordering :: int
  delivery_mode :: int
  max_retries :: int
  retry_delay_ms :: int

record trace_entry =
  actor_type :: int
  actor_name :: pystr
  trace_action :: pystr
  timestamp_ms :: int
  duration_us :: int

record chunk_info =
  total_chunks :: int
  chunk_index :: int
  original_size :: int
  chunk_offset :: int
  chunk_size :: int

record error_info =
  error_code :: int
  error_severity :: int
  error_message :: pystr
  error_details :: "pystr option"

record ack_info =
  ack_type :: pystr
  ack_message :: pystr

record blob_ref =
  ref_type :: int
  blob_size :: int
  blob_offset :: int
  blob_identifier :: pystr

record backpressure =
  queue_depth :: int
  max_queue :: int
  drop_reason :: int
  retry_after_ms :: int

record tool_invocation =
  tool_name :: pystr
  tool_parameters_json :: pystr
  tool_timeout_ms :: int

record model_invocation =
  model_name :: pystr
  model_task :: pystr
  model_parameters_json :: pystr
  model_timeout_ms :: int

section \<open>Packing several fields\<close>

text \<open>\<^verbatim>\<open>struct.pack\<close> of unsigned fields, each a width in bytes with its value.\<close>

definition struct_pack :: "(nat \<times> int) list \<Rightarrow> bytes res" where
  "struct_pack fs = bindr (mapr (\<lambda>(n, v). pack_u n v) fs) (\<lambda>bss. Inr (concat bss))"

text \<open>
  \<^verbatim>\<open>struct.pack("BBI", ...)\<close> has no byte-order mark: native order and alignment, so on the
  little-endian machines the code runs on two pad bytes precede a little-endian word.
\<close>

definition struct_pack_native_BBI :: "int \<Rightarrow> int \<Rightarrow> int \<Rightarrow> bytes res" where
  "struct_pack_native_BBI a b c =
     bindr (struct_pack [(1, a), (1, b)]) (\<lambda>ab.
       if 0 \<le> c \<and> c < 2 ^ 32 then Inr (ab @ [0, 0] @ le_bytes 4 (nat c)) else Inl StructError)"

section \<open>Identities\<close>

definition identity_to_bytes :: "identity \<Rightarrow> bytes res" where
  "identity_to_bytes self =
     bindr (utf8_encode (id_name self)) (\<lambda>name_bytes.
       if length name_bytes > 255 then Inl ValueError
       else
         bindr (pack_u 1 (id_type self)) (\<lambda>t.
         bindr (pack_u 1 (int (length name_bytes))) (\<lambda>l.
         bindr (pack_u 4 (id_instance_id self)) (\<lambda>i. Inr (t @ l @ name_bytes @ i)))))"

definition identity_from_bytes :: "bytes \<Rightarrow> identity res" where
  "identity_from_bytes data =
     (if length data < 2 then Inl ValueError
      else
        let id_type' = uint (data ! 0); name_len = unat (data ! 1) in
        if length data < 2 + name_len + 4 then Inl ValueError
        else
          bindr (utf8_decode (slice data 2 (2 + name_len))) (\<lambda>name.
          bindr (unpack_from_u 4 data (2 + name_len)) (\<lambda>instance_id.
            Inr \<lparr>id_type = id_type', id_name = name, id_instance_id = instance_id\<rparr>)))"

section \<open>Packets\<close>

record packet =
  pkt_version :: int
  pkt_flags :: int
  pkt_session_id :: "bytes option"
  pkt_message_id :: "bytes option"
  pkt_correlation_id :: "bytes option"
  pkt_origin :: "identity option"
  pkt_targets :: "pystr list"
  pkt_operation :: int
  pkt_intent :: pystr
  pkt_symbols :: "symbol list"
  pkt_response_symbols :: "symbol list"
  pkt_confidence :: f64
  pkt_priority :: int
  pkt_deadline_ms :: int
  pkt_capabilities :: "pystr list"
  pkt_qos :: "qos option"
  pkt_security :: "bytes option"
  pkt_trace :: "trace_entry list"
  pkt_chunk_info :: "chunk_info option"
  pkt_blob_refs :: "blob_ref list"
  pkt_backpressure :: "backpressure option"
  pkt_error_info :: "error_info option"
  pkt_ack_info :: "ack_info option"
  pkt_target_caps :: "pystr list"
  pkt_schema_id :: pystr
  pkt_stream_id :: "bytes option"
  pkt_partial_result :: "bytes option"
  pkt_model_invocation :: "model_invocation option"
  pkt_tool_invocation :: "tool_invocation option"
  pkt_metadata :: "(pystr \<times> pystr) list"

text \<open>The defaults of the dataclass.\<close>

definition default_packet :: packet where
  "default_packet =
     \<lparr>pkt_version = CURRENT_VERSION, pkt_flags = FLAG_REQUEST, pkt_session_id = None,
      pkt_message_id = None, pkt_correlation_id = None, pkt_origin = None, pkt_targets = [],
      pkt_operation = 0, pkt_intent = [], pkt_symbols = [], pkt_response_symbols = [],
      pkt_confidence = f64_one, pkt_priority = 128, pkt_deadline_ms = 0, pkt_capabilities = [],
      pkt_qos = None, pkt_security = None, pkt_trace = [], pkt_chunk_info = None,
      pkt_blob_refs = [], pkt_backpressure = None, pkt_error_info = None, pkt_ack_info = None,
      pkt_target_caps = [], pkt_schema_id = [], pkt_stream_id = None, pkt_partial_result = None,
      pkt_model_invocation = None, pkt_tool_invocation = None, pkt_metadata = []\<rparr>"

text \<open>\<^verbatim>\<open>__post_init__\<close>; the two calls of \<^verbatim>\<open>uuid.uuid4().bytes\<close> are the first two arguments.\<close>

definition packet_post_init :: "bytes \<Rightarrow> bytes \<Rightarrow> packet \<Rightarrow> packet res" where
  "packet_post_init uuid_s uuid_m self =
     (let sid = (case pkt_session_id self of None \<Rightarrow> uuid_s | Some b \<Rightarrow> b);
          mid = (case pkt_message_id self of None \<Rightarrow> uuid_m | Some b \<Rightarrow> b);
          cid = (case pkt_correlation_id self of None \<Rightarrow> replicate 16 0 | Some b \<Rightarrow> b)
      in if list_all (\<lambda>b. length b = 16) [sid, mid, cid]
         then Inr (self\<lparr>pkt_session_id := Some sid, pkt_message_id := Some mid,
                        pkt_correlation_id := Some cid\<rparr>)
         else Inl EncodeError)"

section \<open>The bytes of each extension\<close>

text \<open>\<^verbatim>\<open>b",".join(xs)\<close>.\<close>

fun join_comma :: "bytes list \<Rightarrow> bytes" where
  "join_comma [] = []"
| "join_comma [x] = x"
| "join_comma (x # y # ys) = x @ 0x2C # join_comma (y # ys)"

definition enc_qos :: "qos \<Rightarrow> bytes res" where
  "enc_qos q =
     struct_pack [(1, priority_class q), (1, reliability q), (1, ordering q), (1, delivery_mode q),
       (4, max_retries q), (4, retry_delay_ms q)]"

definition enc_trace_entry :: "trace_entry \<Rightarrow> bytes res" where
  "enc_trace_entry e =
     bindr (utf8_encode (actor_name e)) (\<lambda>an.
     bindr (utf8_encode (trace_action e)) (\<lambda>ac.
     bindr (struct_pack [(1, actor_type e), (1, int (length an)), (1, int (length ac))]) (\<lambda>h.
     bindr (pack_s 8 (timestamp_ms e)) (\<lambda>ts.
     bindr (pack_s 4 (duration_us e)) (\<lambda>dur. Inr (h @ an @ ac @ ts @ dur))))))"

definition enc_chunk_info :: "chunk_info \<Rightarrow> bytes res" where
  "enc_chunk_info c =
     bindr (struct_pack [(1, total_chunks c), (1, chunk_index c), (4, original_size c)]) (\<lambda>a.
     bindr (struct_pack [(4, chunk_offset c), (4, chunk_size c)]) (\<lambda>b. Inr (a @ b)))"

definition enc_blob_ref :: "blob_ref \<Rightarrow> bytes res" where
  "enc_blob_ref br =
     bindr (utf8_encode (blob_identifier br)) (\<lambda>ib.
     bindr (struct_pack_native_BBI (ref_type br) (int (length ib)) (blob_size br)) (\<lambda>a.
     bindr (pack_u 4 (blob_offset br)) (\<lambda>b. Inr (a @ b @ ib))))"

definition enc_backpressure :: "backpressure \<Rightarrow> bytes res" where
  "enc_backpressure bp =
     struct_pack [(4, queue_depth bp), (4, max_queue bp), (2, drop_reason bp), (2, retry_after_ms bp)]"

definition enc_error_info :: "error_info \<Rightarrow> bytes res" where
  "enc_error_info e =
     bindr (utf8_encode (error_message e)) (\<lambda>mb.
     bindr (utf8_encode (case error_details e of None \<Rightarrow> [] | Some d \<Rightarrow> d)) (\<lambda>db.
     bindr (struct_pack [(2, error_code e), (2, error_severity e)]) (\<lambda>h.
     bindr (pack_u 1 (int (length mb))) (\<lambda>ml.
     bindr (pack_u 2 (int (length db))) (\<lambda>dl. Inr (h @ ml @ mb @ dl @ db))))))"

definition enc_ack_info :: "ack_info \<Rightarrow> bytes res" where
  "enc_ack_info a = bindr (utf8_encode (ack_message a)) (\<lambda>m. Inr (0 # m))"

definition enc_model_invocation :: "model_invocation \<Rightarrow> bytes res" where
  "enc_model_invocation m =
     bindr (utf8_encode (model_name m)) (\<lambda>nb.
     bindr (utf8_encode (model_task m)) (\<lambda>tb.
     bindr (utf8_encode (model_parameters_json m)) (\<lambda>pb.
     bindr (struct_pack [(1, int (length nb)), (1, int (length tb)), (1, int (length pb))]) (\<lambda>h.
     bindr (pack_u 4 (model_timeout_ms m)) (\<lambda>t. Inr (h @ nb @ tb @ pb @ t))))))"

definition enc_tool_invocation :: "tool_invocation \<Rightarrow> bytes res" where
  "enc_tool_invocation ti =
     bindr (utf8_encode (tool_name ti)) (\<lambda>nb.
     bindr (utf8_encode (tool_parameters_json ti)) (\<lambda>pb.
     bindr (struct_pack [(1, int (length nb)), (1, int (length pb))]) (\<lambda>h.
     bindr (pack_u 4 (tool_timeout_ms ti)) (\<lambda>t. Inr (h @ nb @ pb @ t)))))"

definition enc_metadata_entry :: "pystr \<times> pystr \<Rightarrow> bytes res" where
  "enc_metadata_entry = (\<lambda>(k, v).
     bindr (utf8_encode k) (\<lambda>kb.
     bindr (utf8_encode v) (\<lambda>vb.
     bindr (pack_u 1 (int (length kb))) (\<lambda>kl.
     bindr (pack_u 2 (int (length vb))) (\<lambda>vl. Inr (kl @ kb @ vl @ vb))))))"

definition enc_metadata :: "(pystr \<times> pystr) list \<Rightarrow> bytes res" where
  "enc_metadata d = bindr (mapr enc_metadata_entry d) (\<lambda>mp. Inr (concat mp))"

section \<open>The extension list\<close>

text \<open>
  The tests of \<^verbatim>\<open>_append_extensions\<close>: an optional record is appended when present, an optional
  byte string or a text when it is neither missing nor empty.
\<close>

fun ext_opt :: "('a \<Rightarrow> bytes res) \<Rightarrow> 'a option \<Rightarrow> bytes list res" where
  "ext_opt f None = Inr []"
| "ext_opt f (Some x) = bindr (f x) (\<lambda>b. Inr [b])"

fun ext_bytes :: "bytes option \<Rightarrow> bytes list res" where
  "ext_bytes (Some b) = Inr (if b = [] then [] else [b])"
| "ext_bytes None = Inr []"

definition ext_when :: "bool \<Rightarrow> bytes res \<Rightarrow> bytes list res" where
  "ext_when c r = (if c then bindr r (\<lambda>b. Inr [b]) else Inr [])"

definition enc_names :: "pystr list \<Rightarrow> bytes res" where
  "enc_names ns = bindr (mapr utf8_encode ns) (\<lambda>bs. Inr (join_comma bs))"

definition ext_fields :: "packet \<Rightarrow> (int \<times> bytes list res) list" where
  "ext_fields self =
     [(EXT_SESSION_ID, ext_bytes (pkt_session_id self)),
      (EXT_ORIGIN, ext_opt identity_to_bytes (pkt_origin self)),
      (EXT_TARGETS, ext_when (pkt_targets self \<noteq> []) (enc_names (pkt_targets self))),
      (EXT_INTENT, ext_when (pkt_intent self \<noteq> []) (utf8_encode (pkt_intent self))),
      (EXT_RESPONSE_SYMBOLS,
         ext_when (pkt_response_symbols self \<noteq> []) (encode_symbols (pkt_response_symbols self))),
      (EXT_CONFIDENCE,
         ext_when (\<not> f64_eq (pkt_confidence self) f64_one) (Inr (pack_d (pkt_confidence self)))),
      (EXT_PRIORITY, ext_when (pkt_priority self \<noteq> 128) (pack_u 1 (pkt_priority self))),
      (EXT_CAPABILITIES, ext_when (pkt_capabilities self \<noteq> []) (enc_names (pkt_capabilities self))),
      (EXT_QOS, ext_opt enc_qos (pkt_qos self)),
      (EXT_SECURITY, ext_bytes (pkt_security self)),
      (EXT_TRACE_ENTRY, mapr enc_trace_entry (pkt_trace self)),
      (EXT_CHUNK_INFO, ext_opt enc_chunk_info (pkt_chunk_info self)),
      (EXT_BLOB_REF, mapr enc_blob_ref (pkt_blob_refs self)),
      (EXT_BACKPRESSURE, ext_opt enc_backpressure (pkt_backpressure self)),
      (EXT_ERROR_INFO, ext_opt enc_error_info (pkt_error_info self)),
      (EXT_ACK_INFO, ext_opt enc_ack_info (pkt_ack_info self)),
      (EXT_TARGET_CAPS, ext_when (pkt_target_caps self \<noteq> []) (enc_names (pkt_target_caps self))),
      (EXT_SCHEMA_ID, ext_when (pkt_schema_id self \<noteq> []) (utf8_encode (pkt_schema_id self))),
      (EXT_STREAM_ID, ext_bytes (pkt_stream_id self)),
      (EXT_PARTIAL_RESULT, ext_bytes (pkt_partial_result self)),
      (EXT_MODEL_INVOCATION, ext_opt enc_model_invocation (pkt_model_invocation self)),
      (EXT_TOOL_INVOCATION, ext_opt enc_tool_invocation (pkt_tool_invocation self)),
      (EXT_METADATA, ext_when (pkt_metadata self \<noteq> []) (enc_metadata (pkt_metadata self)))]"

definition ext_symbol :: "int \<Rightarrow> bytes \<Rightarrow> symbol" where
  "ext_symbol tag raw = Symbol tag (VBytes raw)"

definition append_extensions :: "packet \<Rightarrow> symbol list \<Rightarrow> symbol list res" where
  "append_extensions self operands =
     bindr (mapr (\<lambda>(tag, r). bindr r (\<lambda>raws. Inr (map (ext_symbol tag) raws))) (ext_fields self))
       (\<lambda>exts. Inr (operands @ concat exts))"

definition build_payload :: "packet \<Rightarrow> bytes res" where
  "build_payload self =
     bindr (append_extensions self (pkt_symbols self)) (\<lambda>operands.
     bindr (encode_varint (int (length operands))) (\<lambda>n.
     bindr (mapr encode_symbol operands) (\<lambda>ops.
       Inr (of_int (pkt_operation self AND 0xFF) # n @ concat ops))))"

section \<open>Packing several fields: lemmas\<close>

lemma struct_pack_Inr:
  "struct_pack [] = Inr bs \<longleftrightarrow> bs = []"
  "struct_pack ((n, v) # fs) = Inr bs \<longleftrightarrow> (\<exists>a b. pack_u n v = Inr a \<and> struct_pack fs = Inr b \<and> bs = a @ b)"
  by (auto simp: struct_pack_def bindr_eq_Inr)

end
