(* ===== verification/Packet_View.thy ===== *)
theory Packet_View
  imports Packet
begin

text \<open>
  \<^verbatim>\<open>aicl/bin/codec_view.py\<close>: the view of a decoded packet. Building the view decodes every operand
  of the payload and sorts the vendor operands by tag; each property then reads the bytes of
  its own extension on demand, and raises there what it raises. Shown: the view of an encoded
  packet holds exactly the core operands and, under each tag, the payloads the packet put
  there, and each property gives back the packet's field where the two layouts agree.
\<close>

section \<open>The view\<close>

record packet_view =
  view_raw :: bytes
  view_hdr_end :: nat
  view_pay_end :: nat
  view_hdr :: header
  view_operation :: int
  view_symbols :: "symbol list"
  view_extensions :: "(int \<times> bytes list) list"

text \<open>A vendor operand that was decoded holds bytes (\<open>vendor_bytes\<close> below).\<close>

fun operand_bytes :: "pyval \<Rightarrow> bytes" where
  "operand_bytes (VBytes b) = b"
| "operand_bytes _ = []"

definition ext_all :: "(int \<times> bytes list) list \<Rightarrow> int \<Rightarrow> bytes list" where
  "ext_all d tag = (case map_of d tag of None \<Rightarrow> [] | Some vs \<Rightarrow> vs)"

text \<open>The body of the loop in \<^verbatim>\<open>__init__\<close>: \<^verbatim>\<open>setdefault(tag, []).append(value)\<close> or a core operand.\<close>

definition view_add ::
  "symbol list \<times> (int \<times> bytes list) list \<Rightarrow> symbol \<Rightarrow> symbol list \<times> (int \<times> bytes list) list" where
  "view_add = (\<lambda>(syms, exts) s.
     if is_vendor_tag (sym_tag s)
     then (syms, AList.update (sym_tag s) (ext_all exts (sym_tag s) @ [operand_bytes (sym_value s)]) exts)
     else (syms @ [s], exts))"

definition view_init :: "bytes \<Rightarrow> nat \<Rightarrow> nat \<Rightarrow> packet_view res" where
  "view_init raw hdr_end pay_end =
     bindr (unpack_header (slice raw 0 HEADER_SIZE)) (\<lambda>hdr.
       let payload = slice raw hdr_end pay_end;
           operation = (if payload = [] then 0 else uint (payload ! 0))
       in bindr (if length payload > 1 then
                   bindr (decode_varint payload 1) (\<lambda>(count, pos).
                   bindr (repeat_dec (decode_symbol payload) (nat count) pos) (\<lambda>(syms, _). Inr syms))
                 else Inr []) (\<lambda>decoded.
          let (syms, exts) = foldl view_add ([], []) decoded in
          Inr \<lparr>view_raw = raw, view_hdr_end = hdr_end, view_pay_end = pay_end, view_hdr = hdr,
               view_operation = operation, view_symbols = syms, view_extensions = exts\<rparr>))"

section \<open>Header fields and flags\<close>

definition view_version :: "packet_view \<Rightarrow> int" where
  "view_version v = hdr_version (view_hdr v)"

definition view_flags :: "packet_view \<Rightarrow> int" where
  "view_flags v = hdr_flags (view_hdr v)"

definition view_message_id :: "packet_view \<Rightarrow> bytes" where
  "view_message_id v = hdr_message_id (view_hdr v)"

definition view_correlation_id :: "packet_view \<Rightarrow> bytes" where
  "view_correlation_id v = hdr_correlation_id (view_hdr v)"

definition view_deadline_ms :: "packet_view \<Rightarrow> int" where
  "view_deadline_ms v = hdr_deadline_ms (view_hdr v)"

definition view_payload_length :: "packet_view \<Rightarrow> int" where
  "view_payload_length v = hdr_payload_length (view_hdr v)"

definition has_trailer :: "packet_view \<Rightarrow> bool" where
  "has_trailer v = (view_flags v AND FLAG_HAS_TRAILER \<noteq> 0)"

definition is_request :: "packet_view \<Rightarrow> bool" where
  "is_request v = (view_flags v AND FLAG_REQUEST \<noteq> 0)"

definition is_response :: "packet_view \<Rightarrow> bool" where
  "is_response v = (view_flags v AND FLAG_RESPONSE \<noteq> 0)"

definition is_error :: "packet_view \<Rightarrow> bool" where
  "is_error v = (view_flags v AND FLAG_ERROR \<noteq> 0)"

definition is_stream_chunk :: "packet_view \<Rightarrow> bool" where
  "is_stream_chunk v = (view_flags v AND FLAG_STREAM_CHUNK \<noteq> 0)"

definition is_stream_end :: "packet_view \<Rightarrow> bool" where
  "is_stream_end v = (view_flags v AND FLAG_STREAM_END \<noteq> 0)"

section \<open>Extension fields\<close>

definition view_ext_all :: "packet_view \<Rightarrow> int \<Rightarrow> bytes list" where
  "view_ext_all v tag = ext_all (view_extensions v) tag"

definition ext_one :: "packet_view \<Rightarrow> int \<Rightarrow> bytes option" where
  "ext_one v tag = (case view_ext_all v tag of [] \<Rightarrow> None | b # _ \<Rightarrow> Some b)"

text \<open>\<^verbatim>\<open>v = self._ext_one(tag)\<close> with the test \<^verbatim>\<open>if v\<close>: present and not empty.\<close>

definition when_ext :: "packet_view \<Rightarrow> int \<Rightarrow> 'a \<Rightarrow> (bytes \<Rightarrow> 'a) \<Rightarrow> 'a" where
  "when_ext v tag missing f =
     (case ext_one v tag of None \<Rightarrow> missing | Some b \<Rightarrow> if b = [] then missing else f b)"

text \<open>\<^verbatim>\<open>v.split(b",")\<close>.\<close>

fun split_comma :: "bytes \<Rightarrow> bytes list" where
  "split_comma [] = [[]]"
| "split_comma (b # bs) =
     (if b = 0x2C then [] # split_comma bs
      else case split_comma bs of [] \<Rightarrow> [[b]] | w # ws \<Rightarrow> (b # w) # ws)"

definition dec_names :: "bytes \<Rightarrow> pystr list res" where
  "dec_names v = mapr utf8_decode (filter (\<lambda>t. t \<noteq> []) (split_comma v))"

definition dec_qos :: "bytes \<Rightarrow> qos option" where
  "dec_qos v =
     (if length v < 12 then None
      else Some \<lparr>priority_class = uint (v ! 0), reliability = uint (v ! 1), ordering = uint (v ! 2),
                 delivery_mode = uint (v ! 3), max_retries = unpack_u (slice v 4 8),
                 retry_delay_ms = unpack_u (slice v 8 12)\<rparr>)"

definition dec_trace_entry :: "bytes \<Rightarrow> trace_entry res" where
  "dec_trace_entry d =
     bindr (byte_at d 0) (\<lambda>at. bindr (byte_at d 1) (\<lambda>nl. bindr (byte_at d 2) (\<lambda>al.
       let off1 = 3 + nat nl; off2 = off1 + nat al in
       bindr (utf8_decode (slice d 3 off1)) (\<lambda>an.
       bindr (utf8_decode (slice d off1 off2)) (\<lambda>ac.
       bindr (unpack_from_s 8 d off2) (\<lambda>ts.
       bindr (unpack_from_s 4 d (off2 + 8)) (\<lambda>dur.
         Inr \<lparr>actor_type = at, actor_name = an, trace_action = ac, timestamp_ms = ts,
              duration_us = dur\<rparr>)))))))"

definition dec_chunk_info :: "bytes \<Rightarrow> chunk_info option" where
  "dec_chunk_info v =
     (if length v < 14 then None
      else Some \<lparr>total_chunks = uint (v ! 0), chunk_index = uint (v ! 1),
                 original_size = unpack_u (slice v 2 6), chunk_offset = unpack_u (slice v 6 10),
                 chunk_size = unpack_u (slice v 10 14)\<rparr>)"

text \<open>
  \<^verbatim>\<open>BlobRef(ref_type, identifier, size, offset)\<close>: the dataclass has the order \<^verbatim>\<open>ref_type, size,
  offset, identifier\<close>, so the view's object has the identifier in \<^verbatim>\<open>size\<close>, the size in \<^verbatim>\<open>offset\<close>
  and the offset in \<^verbatim>\<open>identifier\<close>. Its fields have other types than a packet's.
\<close>

record view_blob_ref =
  vb_ref_type :: int
  vb_size :: pystr
  vb_offset :: int
  vb_identifier :: int

definition dec_blob_ref :: "bytes \<Rightarrow> view_blob_ref res" where
  "dec_blob_ref d =
     bindr (byte_at d 0) (\<lambda>rt. bindr (byte_at d 1) (\<lambda>il.
     bindr (unpack_from_u 4 d 2) (\<lambda>size. bindr (unpack_from_u 4 d 6) (\<lambda>offset.
     bindr (utf8_decode (slice d 10 (10 + nat il))) (\<lambda>ident.
       Inr \<lparr>vb_ref_type = rt, vb_size = ident, vb_offset = size, vb_identifier = offset\<rparr>)))))"

definition dec_backpressure :: "bytes \<Rightarrow> backpressure option" where
  "dec_backpressure v =
     (if length v < 12 then None
      else Some \<lparr>queue_depth = unpack_u (slice v 0 4), max_queue = unpack_u (slice v 4 8),
                 drop_reason = unpack_u (slice v 8 10), retry_after_ms = unpack_u (slice v 10 12)\<rparr>)"

definition dec_error_info :: "bytes \<Rightarrow> error_info option res" where
  "dec_error_info v =
     (if length v < 7 then Inr None
      else
        let ec = unpack_u (slice v 0 2); sev = unpack_u (slice v 2 4);
            ml = unat (v ! 4); off = 5 + ml
        in if off > length v then Inr None
           else
             bindr (utf8_decode (slice v 5 off)) (\<lambda>msg.
               let dl = (if off + 2 \<le> length v then nat (unpack_u (slice v off (off + 2))) else 0)
               in bindr (if dl = 0 then Inr None
                         else bindr (utf8_decode (slice v (off + 2) (off + 2 + dl))) (\<lambda>d. Inr (Some d)))
                 (\<lambda>det. Inr (Some \<lparr>error_code = ec, error_severity = sev, error_message = msg,
                                   error_details = det\<rparr>))))"

text \<open>\<^verbatim>\<open>AckInfo(v[1:].decode())\<close>: the first field of the dataclass is \<^verbatim>\<open>ack_type\<close>.\<close>

definition dec_ack_info :: "bytes \<Rightarrow> ack_info res" where
  "dec_ack_info v =
     bindr (utf8_decode (drop 1 v)) (\<lambda>t. Inr \<lparr>ack_type = t, ack_message = []\<rparr>)"

definition dec_model_invocation :: "bytes \<Rightarrow> model_invocation option res" where
  "dec_model_invocation v =
     (if length v < 3 then Inr None
      else
        let off1 = 3 + unat (v ! 0); off2 = off1 + unat (v ! 1); off3 = off2 + unat (v ! 2) in
        bindr (utf8_decode (slice v 3 off1)) (\<lambda>n.
        bindr (utf8_decode (slice v off1 off2)) (\<lambda>t.
        bindr (utf8_decode (slice v off2 off3)) (\<lambda>p.
          let timeout = (if off3 + 4 \<le> length v then unpack_u (slice v off3 (off3 + 4)) else 0) in
          Inr (Some \<lparr>model_name = n, model_task = t, model_parameters_json = p,
                     model_timeout_ms = timeout\<rparr>)))))"

definition dec_tool_invocation :: "bytes \<Rightarrow> tool_invocation option res" where
  "dec_tool_invocation v =
     (if length v < 2 then Inr None
      else
        let off1 = 2 + unat (v ! 0); off2 = off1 + unat (v ! 1) in
        bindr (utf8_decode (slice v 2 off1)) (\<lambda>n.
        bindr (utf8_decode (slice v off1 off2)) (\<lambda>p.
          let timeout = (if off2 + 4 \<le> length v then unpack_u (slice v off2 (off2 + 4)) else 0) in
          Inr (Some \<lparr>tool_name = n, tool_parameters_json = p, tool_timeout_ms = timeout\<rparr>))))"

text \<open>The loop of \<^verbatim>\<open>metadata\<close>; each round moves on by at least three bytes or leaves the loop.\<close>

function dec_metadata_loop :: "bytes \<Rightarrow> nat \<Rightarrow> (pystr \<times> pystr) list \<Rightarrow> (pystr \<times> pystr) list res" where
  "dec_metadata_loop v pos result =
     (if pos < length v then
        let kl = unat (v ! pos); p1 = pos + 1 in
        if p1 + kl > length v then Inr result
        else
          bindr (utf8_decode (slice v p1 (p1 + kl))) (\<lambda>k.
            let p2 = p1 + kl in
            bindr (unpack_from_u 2 v p2) (\<lambda>vl.
              let p3 = p2 + 2 in
              if p3 + nat vl > length v then Inr result
              else
                bindr (utf8_decode (slice v p3 (p3 + nat vl))) (\<lambda>s.
                  dec_metadata_loop v (p3 + nat vl) (AList.update k s result))))
      else Inr result)"
  by pat_completeness auto
termination by (relation "measure (\<lambda>(v, pos, result). length v - pos)") auto

declare dec_metadata_loop.simps [simp del]

section \<open>The properties of the view\<close>

definition view_session_id :: "packet_view \<Rightarrow> bytes option" where
  "view_session_id v = ext_one v EXT_SESSION_ID"

definition view_origin :: "packet_view \<Rightarrow> identity option res" where
  "view_origin v = when_ext v EXT_ORIGIN (Inr None)
     (\<lambda>b. bindr (identity_from_bytes b) (\<lambda>i. Inr (Some i)))"

definition view_targets :: "packet_view \<Rightarrow> pystr list res" where
  "view_targets v = when_ext v EXT_TARGETS (Inr []) dec_names"

definition view_intent :: "packet_view \<Rightarrow> pystr res" where
  "view_intent v = when_ext v EXT_INTENT (Inr []) utf8_decode"

text \<open>\<^verbatim>\<open>_decode_symbol_seq\<close> is the loop of \<^verbatim>\<open>decode_symbols\<close> from position 0.\<close>

definition decode_symbol_seq :: "bytes \<Rightarrow> (symbol list \<times> nat) res" where
  "decode_symbol_seq data = decode_symbols_loop (length data) data 0"

definition view_response_symbols :: "packet_view \<Rightarrow> symbol list res" where
  "view_response_symbols v = when_ext v EXT_RESPONSE_SYMBOLS (Inr [])
     (\<lambda>b. bindr (decode_symbol_seq b) (\<lambda>(syms, _). Inr syms))"

definition view_confidence :: "packet_view \<Rightarrow> f64 res" where
  "view_confidence v = when_ext v EXT_CONFIDENCE (Inr f64_one)
     (\<lambda>b. if 8 \<le> length b then Inr (unpack_d (slice b 0 8)) else Inl StructError)"

definition view_priority :: "packet_view \<Rightarrow> int" where
  "view_priority v = when_ext v EXT_PRIORITY 128 (\<lambda>b. uint (b ! 0))"

definition view_capabilities :: "packet_view \<Rightarrow> pystr list res" where
  "view_capabilities v = when_ext v EXT_CAPABILITIES (Inr []) dec_names"

definition view_qos :: "packet_view \<Rightarrow> qos option" where
  "view_qos v = when_ext v EXT_QOS None dec_qos"

definition view_security :: "packet_view \<Rightarrow> bytes option" where
  "view_security v = ext_one v EXT_SECURITY"

definition view_trace :: "packet_view \<Rightarrow> trace_entry list res" where
  "view_trace v = mapr dec_trace_entry (view_ext_all v EXT_TRACE_ENTRY)"

definition view_chunk_info :: "packet_view \<Rightarrow> chunk_info option" where
  "view_chunk_info v = when_ext v EXT_CHUNK_INFO None dec_chunk_info"

definition view_blob_refs :: "packet_view \<Rightarrow> view_blob_ref list res" where
  "view_blob_refs v = mapr dec_blob_ref (view_ext_all v EXT_BLOB_REF)"

definition view_backpressure :: "packet_view \<Rightarrow> backpressure option" where
  "view_backpressure v = when_ext v EXT_BACKPRESSURE None dec_backpressure"

definition view_error_info :: "packet_view \<Rightarrow> error_info option res" where
  "view_error_info v = when_ext v EXT_ERROR_INFO (Inr None) dec_error_info"

definition view_ack_info :: "packet_view \<Rightarrow> ack_info option res" where
  "view_ack_info v = when_ext v EXT_ACK_INFO (Inr None) (\<lambda>b. bindr (dec_ack_info b) (\<lambda>a. Inr (Some a)))"

definition view_target_caps :: "packet_view \<Rightarrow> pystr list res" where
  "view_target_caps v = when_ext v EXT_TARGET_CAPS (Inr []) dec_names"

definition view_schema_id :: "packet_view \<Rightarrow> pystr res" where
  "view_schema_id v = when_ext v EXT_SCHEMA_ID (Inr []) utf8_decode"

definition view_stream_id :: "packet_view \<Rightarrow> bytes option" where
  "view_stream_id v = ext_one v EXT_STREAM_ID"

definition view_partial_result :: "packet_view \<Rightarrow> bytes option" where
  "view_partial_result v = ext_one v EXT_PARTIAL_RESULT"

definition view_model_invocation :: "packet_view \<Rightarrow> model_invocation option res" where
  "view_model_invocation v = when_ext v EXT_MODEL_INVOCATION (Inr None) dec_model_invocation"

definition view_tool_invocation :: "packet_view \<Rightarrow> tool_invocation option res" where
  "view_tool_invocation v = when_ext v EXT_TOOL_INVOCATION (Inr None) dec_tool_invocation"

definition view_metadata :: "packet_view \<Rightarrow> (pystr \<times> pystr) list res" where
  "view_metadata v = when_ext v EXT_METADATA (Inr []) (\<lambda>b. dec_metadata_loop b 0 [])"

definition extension_tlvs :: "packet_view \<Rightarrow> (int \<times> bytes) list" where
  "extension_tlvs v = concat (map (\<lambda>(tag, vals). map (\<lambda>b. (tag, b)) vals) (view_extensions v))"

section \<open>The records: round trips\<close>

lemmas layout_simps = struct_pack_Inr pack_u_byte slice_append_right slice_Cons slice_head slice_whole wire_simps
  pack_u_length unpack_pack_u pack_s_length unpack_pack_s

lemma qos_roundtrip: "enc_qos q = Inr bs \<Longrightarrow> dec_qos bs = Some q"
  by (auto simp: enc_qos_def dec_qos_def layout_simps)
lemma chunk_info_roundtrip: "enc_chunk_info c = Inr bs \<Longrightarrow> dec_chunk_info bs = Some c"
  by (auto simp: enc_chunk_info_def dec_chunk_info_def bindr_eq_Inr layout_simps)

lemma backpressure_roundtrip: "enc_backpressure c = Inr bs \<Longrightarrow> dec_backpressure bs = Some c"
  by (auto simp: enc_backpressure_def dec_backpressure_def bindr_eq_Inr layout_simps)

lemma identity_roundtrip: "identity_to_bytes i = Inr bs \<Longrightarrow> identity_from_bytes bs = Inr i"
  by (auto simp: identity_to_bytes_def identity_from_bytes_def bindr_eq_Inr layout_simps Let_def
     unpack_from_u_def utf8_decode_encode split: if_splits)

lemma trace_entry_roundtrip: "enc_trace_entry e = Inr bs \<Longrightarrow> dec_trace_entry bs = Inr e"
  by (auto simp: enc_trace_entry_def dec_trace_entry_def bindr_eq_Inr layout_simps Let_def
     unpack_from_s_def byte_at_def utf8_decode_encode split: if_splits)

lemma model_invocation_roundtrip: "enc_model_invocation e = Inr bs \<Longrightarrow> dec_model_invocation bs = Inr (Some e)"
  by (auto simp: enc_model_invocation_def dec_model_invocation_def bindr_eq_Inr layout_simps Let_def
     utf8_decode_encode split: if_splits)

lemma tool_invocation_roundtrip: "enc_tool_invocation e = Inr bs \<Longrightarrow> dec_tool_invocation bs = Inr (Some e)"
  by (auto simp: enc_tool_invocation_def dec_tool_invocation_def bindr_eq_Inr layout_simps Let_def
     utf8_decode_encode split: if_splits)
text \<open>Empty details come back as missing ones.\<close>

definition norm_details :: "error_info \<Rightarrow> error_info" where
  "norm_details e = e\<lparr>error_details := (if error_details e = Some [] then None else error_details e)\<rparr>"

lemma error_info_roundtrip:
  assumes "enc_error_info e = Inr bs"
  shows "dec_error_info bs = Inr (Some (norm_details e))"
proof -
  define d where "d = (case error_details e of None \<Rightarrow> [] | Some d \<Rightarrow> d)"
  from assms obtain mb db c s dl where parts: "utf8_encode (error_message e) = Inr mb"
    "utf8_encode d = Inr db" "pack_u 2 (error_code e) = Inr c"
    "pack_u 2 (error_severity e) = Inr s" "length mb < 256" "pack_u 2 (int (length db)) = Inr dl"
    "bs = c @ s @ of_nat (length mb) # mb @ dl @ db"
    by (auto simp: enc_error_info_def d_def bindr_eq_Inr struct_pack_Inr pack_u_byte)
  have l: "length c = 2" "length s = 2" "length dl = 2" "unpack_u c = error_code e"
    "unpack_u s = error_severity e" "unpack_u dl = int (length db)"
    using parts by (simp_all add: pack_u_length unpack_pack_u)
  have det: "db = [] \<longleftrightarrow> d = []"
    using parts(2) by (auto dest: utf8_encode_nonempty)
  have "slice bs 0 2 = c" "slice bs 2 4 = s" "bs ! 4 = of_nat (length mb)"
    "slice bs 5 (5 + length mb) = mb" "slice bs (5 + length mb) (5 + length mb + 2) = dl"
    "slice bs (5 + length mb + 2) (5 + length mb + 2 + length db) = db"
    "length bs = 7 + length mb + length db"
    using l by (simp_all add: parts(7) nth_append layout_simps)
  then show ?thesis
    using parts(1,2,5) l det
    by (auto simp: dec_error_info_def Let_def utf8_decode_encode norm_details_def d_def split: option.splits)
qed

lemma ack_info_message:
  "enc_ack_info a = Inr bs \<Longrightarrow> dec_ack_info bs = Inr \<lparr>ack_type = ack_message a, ack_message = []\<rparr>"
  by (auto simp: enc_ack_info_def dec_ack_info_def bindr_eq_Inr utf8_decode_encode)

lemma metadata_loop_entry:
  assumes "enc_metadata_entry (k, s) = Inr e" "has_at v pos e"
  shows "dec_metadata_loop v pos result = dec_metadata_loop v (pos + length e) (AList.update k s result)"
    "0 < length e"
proof -
  from assms(1) obtain kb vb kl vl where e: "utf8_encode k = Inr kb" "utf8_encode s = Inr vb"
    "length kb < 256" "kl = [of_nat (length kb)]" "pack_u 2 (int (length vb)) = Inr vl" "e = kl @ kb @ vl @ vb"
    by (auto simp: enc_metadata_entry_def bindr_eq_Inr layout_simps)
  have l: "length vl = 2" "unpack_u vl = int (length vb)" using e(5) by (simp_all add: layout_simps)
  have at: "pos < length v" "v ! pos = of_nat (length kb)" "has_at v (Suc pos) kb" "has_at v (Suc pos + length kb) vl"
    "has_at v (Suc pos + length kb + 2) vb"
    using assms(2) e(4,6) l(1) by (auto simp: wire_simps)
  note sl = has_at_slice_eq [OF at(3) refl] has_at_slice_eq [OF at(5) refl]
  note bd = has_at_bound [OF at(3)] has_at_bound [OF at(5)]
  show "dec_metadata_loop v pos result = dec_metadata_loop v (pos + length e) (AList.update k s result)"
    using e(1-3,6) e(4) l at sl bd unpack_from_u_at [OF at(4) l(1)]
    by (subst dec_metadata_loop.simps) (simp add: Let_def utf8_decode_encode add.assoc)
  show "0 < length e" using e by simp
qed

lemma metadata_loop:
  "mapr enc_metadata_entry d = Inr mp \<Longrightarrow> has_at v pos (concat mp) \<Longrightarrow>
     pos + length (concat mp) = length v \<Longrightarrow>
     dec_metadata_loop v pos result = Inr (fold (\<lambda>(k, s) r. AList.update k s r) d result)"
proof (induction d arbitrary: mp pos result)
  case Nil
  then show ?case by (subst dec_metadata_loop.simps) simp
next
  case (Cons kv d)
  obtain k s where kv: "kv = (k, s)" by (cases kv)
  from Cons.prems(1) obtain e mp' where e: "enc_metadata_entry (k, s) = Inr e"
    "mapr enc_metadata_entry d = Inr mp'" "mp = e # mp'" by (auto simp: kv bindr_eq_Inr)
  have at: "has_at v pos e" "has_at v (pos + length e) (concat mp')"
    using Cons.prems(2) e(3) by (simp_all add: wire_simps)
  show ?case
    using Cons.IH [OF e(2) at(2), of "AList.update k s result"] Cons.prems(3) e(3)
    by (simp add: metadata_loop_entry(1) [OF e(1) at(1)] kv)
qed

lemma metadata_roundtrip:
  assumes "enc_metadata d = Inr bs" "distinct (map fst d)"
  shows "dec_metadata_loop bs 0 [] = Inr d" and "d \<noteq> [] \<Longrightarrow> bs \<noteq> []"
proof -
  from assms(1) obtain mp where mp: "mapr enc_metadata_entry d = Inr mp" "bs = concat mp"
    by (auto simp: enc_metadata_def bindr_eq_Inr)
  from metadata_loop [OF mp(1), of bs 0 "[]"] mp(2) dict_of_distinct [OF assms(2)]
  show "dec_metadata_loop bs 0 [] = Inr d" by (simp add: dict_of_def)
  show "d \<noteq> [] \<Longrightarrow> bs \<noteq> []"
    using mp metadata_loop_entry(2) [OF _ has_at_0] by (cases d) (auto simp: bindr_eq_Inr)
qed

section \<open>Comma-separated names\<close>

lemma utf8_encode_no_comma:
  "utf8_encode s = Inr bs \<Longrightarrow> 44 \<notin> set s \<Longrightarrow> 0x2C \<notin> set bs"
proof (induction s arbitrary: bs)
  case (Cons c s)
  then obtain b bs' where b: "utf8_char c = Inr b" "utf8_encode s = Inr bs'" "bs = b @ bs'"
    by (auto simp: utf8_encode_Cons bindr_eq_Inr)
  have "0x2C \<notin> set b" using utf8_char_bytes [OF b(1)] Cons.prems(2) by fastforce
  with Cons b show ?case by simp
qed simp

lemma split_comma_nonempty: "split_comma bs \<noteq> []"
  by (cases bs) (auto split: list.splits)

lemma split_comma_append: "0x2C \<notin> set x \<Longrightarrow> split_comma (x @ 0x2C # rest) = x # split_comma rest"
  by (induction x) auto

lemma split_comma_single: "0x2C \<notin> set x \<Longrightarrow> split_comma x = [x]"
  by (induction x) auto

lemma split_join_comma:
  "bs \<noteq> [] \<Longrightarrow> (\<And>b. b \<in> set bs \<Longrightarrow> 0x2C \<notin> set b) \<Longrightarrow> split_comma (join_comma bs) = bs"
  by (induction bs rule: join_comma.induct) (auto simp: split_comma_append split_comma_single)

definition plain_names :: "pystr list \<Rightarrow> bool" where
  "plain_names ns = list_all (\<lambda>s. s \<noteq> [] \<and> 44 \<notin> set s) ns"

lemma mapr_utf8:
  "mapr utf8_encode ns = Inr bs \<Longrightarrow> mapr utf8_decode bs = Inr ns"
  by (induction ns arbitrary: bs) (auto simp: bindr_eq_Inr utf8_decode_encode)

lemma names_roundtrip:
  assumes "enc_names ns = Inr bs" "plain_names ns" "ns \<noteq> []"
  shows "dec_names bs = Inr ns" "bs \<noteq> []"
proof -
  from assms(1) obtain es where es: "mapr utf8_encode ns = Inr es" "bs = join_comma es"
    by (auto simp: enc_names_def bindr_eq_Inr)
  have each: "\<forall>e \<in> set es. e \<noteq> [] \<and> 0x2C \<notin> set e"
    using es(1) assms(2)
    by (induction ns arbitrary: es)
      (auto simp: plain_names_def bindr_eq_Inr dest: utf8_encode_no_comma utf8_encode_nonempty)
  have "es \<noteq> []" using mapr_length [OF es(1)] assms(3) by auto
  with each have sp: "split_comma bs = es" unfolding es(2) by (intro split_join_comma) auto
  moreover have "filter (\<lambda>t. t \<noteq> []) es = es" using each by (simp add: filter_id_conv)
  ultimately show "dec_names bs = Inr ns" using mapr_utf8 [OF es(1)] by (simp add: dec_names_def)
  show "bs \<noteq> []" using sp each by auto
qed

section \<open>The view of an encoded packet\<close>

text \<open>The payloads under one tag in a list of operands.\<close>

definition exts_of :: "int \<Rightarrow> symbol list \<Rightarrow> bytes list" where
  "exts_of tag xs =
     map (\<lambda>s. operand_bytes (sym_value s)) (filter (\<lambda>s. is_vendor_tag (sym_tag s) \<and> sym_tag s = tag) xs)"

lemma exts_of_append [simp]: "exts_of tag (xs @ ys) = exts_of tag xs @ exts_of tag ys"
  by (simp add: exts_of_def)

lemma ext_all_update [simp]:
  "ext_all (AList.update k vs d) tag = (if tag = k then vs else ext_all d tag)"
  by (simp add: ext_all_def update_conv)

lemma foldl_view_add:
  "foldl view_add (syms, exts) xs = (syms', exts') \<Longrightarrow>
     syms' = syms @ filter (\<lambda>s. \<not> is_vendor_tag (sym_tag s)) xs \<and>
     (\<forall>tag. ext_all exts' tag = ext_all exts tag @ exts_of tag xs)"
proof (induction xs arbitrary: syms exts)
  case (Cons s xs)
  then show ?case
    by (cases "is_vendor_tag (sym_tag s)") (fastforce simp: view_add_def exts_of_def)+
qed (simp add: exts_of_def)

lemma ext_symbols:
  assumes "mapr (\<lambda>(tag, r). bindr r (\<lambda>raws. Inr (map (ext_symbol tag) raws))) fs = Inr exts"
    "distinct (map fst fs)" "\<forall>t \<in> fst ` set fs. is_vendor_tag t"
  shows "(\<forall>(tag, r) \<in> set fs. r = Inr (exts_of tag (concat exts))) \<and>
    (\<forall>s \<in> set (concat exts). is_vendor_tag (sym_tag s) \<and> (\<exists>b. s = ext_symbol (sym_tag s) b)) \<and>
    (\<forall>tag. tag \<notin> fst ` set fs \<longrightarrow> exts_of tag (concat exts) = [])"
  using assms
proof (induction fs arbitrary: exts)
  case (Cons f fs)
  obtain t q where f: "f = (t, q)" by (cases f)
  from Cons.prems(1) f obtain raws exts' where q: "q = Inr raws"
    "exts = map (ext_symbol t) raws # exts'"
    "mapr (\<lambda>(tag, r). bindr r (\<lambda>raws. Inr (map (ext_symbol tag) raws))) fs = Inr exts'"
    by (auto simp: bindr_eq_Inr)
  have this_tag: "exts_of tag (map (ext_symbol t) raws) = (if tag = t then raws else [])" for tag
    using Cons.prems(3) f by (auto simp: exts_of_def ext_symbol_def comp_def)
  have "t \<notin> fst ` set fs" using Cons.prems(2) f by simp
  then have "t \<noteq> tag" if "(tag, r) \<in> set fs" for tag r using that by force
  moreover have "(\<forall>(tag, r) \<in> set fs. r = Inr (exts_of tag (concat exts'))) \<and>
    (\<forall>s \<in> set (concat exts'). is_vendor_tag (sym_tag s) \<and> (\<exists>b. s = ext_symbol (sym_tag s) b)) \<and>
    (\<forall>tag. tag \<notin> fst ` set fs \<longrightarrow> exts_of tag (concat exts') = [])"
    using Cons.prems by (intro Cons.IH [OF q(3)]) auto
  ultimately show ?case
    using q(1,2) f Cons.prems(3) \<open>t \<notin> fst ` set fs\<close>
    by (fastforce simp: this_tag ext_symbol_def)
qed (simp add: exts_of_def)

lemma ext_fields_tags: "distinct (map fst (ext_fields p))" "\<forall>t \<in> fst ` set (ext_fields p). is_vendor_tag t"
  by (simp_all add: ext_fields_def is_vendor_tag_def)
lemma ext_symbol_length: "encode_symbol (ext_symbol tag b) = Inr bs \<Longrightarrow> is_vendor_tag tag \<Longrightarrow> length b < length bs"
  by (auto simp: ext_symbol_def bindr_eq_Inr prefixed_def is_vendor_tag_def FIXED_STRUCT_def split: if_splits)

lemma append_extensions_Inr:
  assumes "append_extensions p ops = Inr operands"
  obtains es where "operands = ops @ es"
    "\<forall>(tag, r) \<in> set (ext_fields p). r = Inr (exts_of tag es)"
    "\<forall>s \<in> set es. is_vendor_tag (sym_tag s) \<and> (\<exists>b. s = ext_symbol (sym_tag s) b)"
proof -
  from assms obtain exts where
    m: "mapr (\<lambda>(tag, r). bindr r (\<lambda>raws. Inr (map (ext_symbol tag) raws))) (ext_fields p) = Inr exts"
    and o: "operands = ops @ concat exts" by (auto simp: append_extensions_def bindr_eq_Inr)
  from ext_symbols [OF m ext_fields_tags] o show thesis by (intro that [of "concat exts"]) auto
qed

lemma payload_operands:
  assumes "build_payload p = Inr payload" "list_all wf_symbol (pkt_symbols p)" "length payload < 2 ^ 28"
  obtains es p1 where "payload ! 0 = of_int (pkt_operation p AND 0xFF)" "1 < length payload"
    "decode_varint (payload @ rest) 1 = Inr (int (length (pkt_symbols p @ es)), p1)"
    "repeat_dec (decode_symbol (payload @ rest)) (length (pkt_symbols p @ es)) p1 =
       Inr (pkt_symbols p @ es, length payload)"
    "\<forall>(tag, r) \<in> set (ext_fields p). r = Inr (exts_of tag es)"
    "\<forall>s \<in> set es. is_vendor_tag (sym_tag s)"
    "append_extensions p (pkt_symbols p) = Inr (pkt_symbols p @ es)"
proof -
  from assms(1) obtain operands n ops where
    o: "append_extensions p (pkt_symbols p) = Inr operands"
    and n: "encode_varint (int (length operands)) = Inr n"
    and ops: "mapr encode_symbol operands = Inr ops"
    and pl: "payload = of_int (pkt_operation p AND 0xFF) # n @ concat ops"
    by (auto simp: build_payload_def bindr_eq_Inr)
  from o obtain es where es: "operands = pkt_symbols p @ es"
    "\<forall>(tag, r) \<in> set (ext_fields p). r = Inr (exts_of tag es)"
    "\<forall>s \<in> set es. is_vendor_tag (sym_tag s) \<and> (\<exists>b. s = ext_symbol (sym_tag s) b)"
    by (rule append_extensions_Inr)
  have wf: "wf_symbol s" if s: "s \<in> set es" for s
  proof -
    obtain b where b: "s = ext_symbol (sym_tag s) b" "is_vendor_tag (sym_tag s)" using es(3) s by blast
    obtain e where e: "e \<in> set ops" "encode_symbol s = Inr e" using mapr_member [OF ops] es(1) s by auto
    have "length b < length e" using ext_symbol_length e(2) b by metis
    also have "\<dots> \<le> length (concat ops)" using e(1) by (rule length_member_concat)
    finally have "length b < 2 ^ 28" using assms(3) pl by simp
    then show ?thesis by (subst b(1)) (use b(2) in \<open>simp add: ext_symbol_def\<close>)
  qed
  have all: "list_all wf_symbol operands" using wf assms(2) es(1) by (auto simp: list_all_iff)
  have ok: "varint_ok (int (length operands))"
    using length_le_concat [OF ops] assms(3) pl by (simp add: varint_ok_def)
  have at: "has_at (payload @ rest) 1 n" "has_at (payload @ rest) (1 + length n) (concat ops)"
    using has_at_prefix [of payload rest] pl by (simp_all add: wire_simps)
  have "0 < length n" using n encode_varint_nonempty by blast
  show thesis
  proof (rule that [of es "1 + length n"])
    show "decode_varint (payload @ rest) 1 = Inr (int (length (pkt_symbols p @ es)), 1 + length n)"
      using varint.dec_enc [OF ok n at(1)] es(1) by simp
    show "repeat_dec (decode_symbol (payload @ rest)) (length (pkt_symbols p @ es)) (1 + length n) =
        Inr (pkt_symbols p @ es, length payload)"
      using symbol.repeat_dec_enc [OF all ops at(2)] es(1) pl by simp
  qed (use o pl es \<open>0 < length n\<close> in auto)
qed

lemma view_init_payload:
  assumes "build_payload p = Inr payload" "list_all wf_symbol (pkt_symbols p)" "length payload < 2 ^ 28"
    and "unpack_header (slice raw 0 HEADER_SIZE) = Inr h" "slice raw hdr_end pay_end = payload @ rest"
  shows "\<exists>v. view_init raw hdr_end pay_end = Inr v \<and> view_raw v = raw \<and> view_hdr v = h \<and>
    view_operation v = pkt_operation p AND 0xFF \<and>
    view_symbols v = filter (\<lambda>s. \<not> is_vendor_tag (sym_tag s)) (pkt_symbols p) \<and>
    (\<forall>(tag, r) \<in> set (ext_fields p). \<exists>vs. r = Inr vs \<and> view_ext_all v tag = exts_of tag (pkt_symbols p) @ vs)"
proof -
  from assms(1-3) obtain es p1 where p: "payload ! 0 = of_int (pkt_operation p AND 0xFF)" "1 < length payload"
    "decode_varint (payload @ rest) 1 = Inr (int (length (pkt_symbols p @ es)), p1)"
    "repeat_dec (decode_symbol (payload @ rest)) (length (pkt_symbols p @ es)) p1 =
       Inr (pkt_symbols p @ es, length payload)"
    "\<forall>(tag, r) \<in> set (ext_fields p). r = Inr (exts_of tag es)"
    "\<forall>s \<in> set es. is_vendor_tag (sym_tag s)" by (rule payload_operands [where rest = rest])
  obtain syms exts where f: "foldl view_add ([], []) (pkt_symbols p @ es) = (syms, exts)"
    by (cases "foldl view_add ([], []) (pkt_symbols p @ es)")
  from foldl_view_add [OF f] have se: "syms = filter (\<lambda>s. \<not> is_vendor_tag (sym_tag s)) (pkt_symbols p)"
    "\<And>tag. ext_all exts tag = exts_of tag (pkt_symbols p) @ exts_of tag es"
    using p(6) by (auto simp: ext_all_def filter_empty_conv)
  have op: "uint ((payload @ rest) ! 0) = pkt_operation p AND 0xFF"
  proof -
    have "pkt_operation p AND 0xFF = pkt_operation p mod 256"
      using take_bit_eq_mask [of 8 "pkt_operation p"] by (simp add: take_bit_eq_mod mask_eq_exp_minus_1)
    then show ?thesis using p(1,2) by (cases payload) simp_all
  qed
  have nonempty: "payload @ rest \<noteq> []" "1 < length (payload @ rest)" using p(2) by auto
  have "view_init raw hdr_end pay_end =
      Inr \<lparr>view_raw = raw, view_hdr_end = hdr_end, view_pay_end = pay_end, view_hdr = h,
           view_operation = pkt_operation p AND 0xFF, view_symbols = syms, view_extensions = exts\<rparr>"
    using nonempty p(3,4) op f
    by (simp add: view_init_def assms(4,5) del: foldl_append length_append append_is_Nil_conv)
  with se p(5) show ?thesis by (auto simp: view_ext_all_def)
qed

end
