(* ===== verification/Codec_Api.thy ===== *)
theory Codec_Api
  imports Packet_View
begin

text \<open>
  \<^verbatim>\<open>aicl/bin/codec_api.py\<close>: a packet to bytes and bytes to a view. Shown: every packet that encodes
  within the payload limit decodes to a view with the same header fields, operation, operands
  and extension fields, blob references and acknowledgements apart; a checksummed packet with any
  one byte changed is refused; a packet cut short is refused unless exactly its trailer is missing;
  and which exceptions decoding can raise.
\<close>

section \<open>encode and decode\<close>

text \<open>\<^verbatim>\<open>bytes(x)\<close> of an identifier field: \<^verbatim>\<open>None\<close> is a \<^verbatim>\<open>TypeError\<close>.\<close>

definition id_bytes :: "bytes option \<Rightarrow> bytes res" where
  "id_bytes ident = (case ident of None \<Rightarrow> Inl PyTypeError | Some b \<Rightarrow> Inr b)"

definition encode :: "packet \<Rightarrow> bool \<Rightarrow> bytes res" where
  "encode packet checksum =
     bindr (build_payload packet) (\<lambda>payload.
       let flags = (if checksum then pkt_flags packet OR FLAG_HAS_TRAILER else pkt_flags packet) in
       bindr (id_bytes (pkt_message_id packet)) (\<lambda>mid.
       bindr (id_bytes (pkt_correlation_id packet)) (\<lambda>cid.
       bindr (pack_header (pkt_version packet) flags mid cid (pkt_deadline_ms packet)
                (int (length payload))) (\<lambda>header.
         let result = header @ payload in
         if checksum then bindr (pack_u 4 (crc32 result AND 0xFFFFFFFF)) (\<lambda>crc. Inr (result @ crc))
         else Inr result))))"

definition decode :: "bytes \<Rightarrow> packet_view res" where
  "decode raw =
     (if length raw < HEADER_SIZE then Inl TruncatedPacketError
      else
        bindr (validate_header (slice raw 0 HEADER_SIZE)) (\<lambda>_.
        bindr (unpack_from_u 2 raw 6) (\<lambda>flags.
        bindr (validate_flags flags) (\<lambda>_.
        bindr (unpack_from_u 4 raw 44) (\<lambda>payload_length.
          let hdr_end = HEADER_SIZE; payload_end = hdr_end + nat payload_length in
          if length raw < payload_end then Inl TruncatedPacketError
          else if length raw > payload_end then
            bindr (unpack_from_u 4 raw payload_end) (\<lambda>expected_crc.
            bindr (validate_trailer (slice raw 0 payload_end) expected_crc) (\<lambda>_.
              view_init raw hdr_end (payload_end + CHECKSUM_SIZE)))
          else view_init raw hdr_end payload_end)))))"

section \<open>Shape of an encoded packet\<close>

definition wire_flags :: "packet \<Rightarrow> bool \<Rightarrow> int" where
  "wire_flags p checksum = (if checksum then pkt_flags p OR FLAG_HAS_TRAILER else pkt_flags p)"

lemma crc_masked: "crc32 x AND 0xFFFFFFFF = crc32 x"
  using compute_crc32 [of x] unfolding compute_crc32_def .

lemma encode_shape:
  assumes "encode p checksum = Inr bs"
  obtains payload mid cid header trailer where
    "build_payload p = Inr payload" "pkt_message_id p = Some mid" "pkt_correlation_id p = Some cid"
    "pack_header (pkt_version p) (wire_flags p checksum) mid cid (pkt_deadline_ms p)
       (int (length payload)) = Inr header"
    "bs = header @ payload @ trailer"
    "if checksum then pack_u 4 (crc32 (header @ payload)) = Inr trailer else trailer = []"
proof -
  show thesis using assms
    by (auto simp: encode_def bindr_eq_Inr Let_def id_bytes_def crc_masked wire_flags_def
        intro: that split: option.splits if_splits)
qed

lemma decode_body:
  assumes "validate_header (slice raw 0 HEADER_SIZE) = Inr u" "HEADER_SIZE \<le> length raw"
    and "unpack_u (slice raw 44 48) = int n"
  shows "decode raw =
    (if length raw < 56 + n then Inl TruncatedPacketError
     else if length raw = 56 + n then view_init raw 56 (56 + n)
     else bindr (unpack_from_u 4 raw (56 + n)) (\<lambda>c.
       bindr (validate_trailer (slice raw 0 (56 + n)) c) (\<lambda>_. view_init raw 56 (56 + n + 4))))"
proof -
  have "validate_flags f = Inr ()" for f by (simp add: validate_flags_def Let_def)
  moreover have "unpack_from_u 2 raw 6 = Inr (unpack_u (slice raw 6 8))"
    "unpack_from_u 4 raw 44 = Inr (int n)"
    using assms(2,3) by (simp_all add: unpack_from_u_def)
  ultimately show ?thesis
    using assms(1,2) by (simp add: decode_def Let_def)
qed

section \<open>Decoding an encoded packet\<close>

definition core_operands :: "packet \<Rightarrow> bool" where
  "core_operands p = list_all (\<lambda>s. wf_symbol s \<and> \<not> is_vendor_tag (sym_tag s)) (pkt_symbols p)"

lemma core_operandsD:
  assumes "core_operands p"
  shows "list_all wf_symbol (pkt_symbols p)" "exts_of tag (pkt_symbols p) = []"
    "filter (\<lambda>s. \<not> is_vendor_tag (sym_tag s)) (pkt_symbols p) = pkt_symbols p"
  using assms by (auto simp: core_operands_def list_all_iff exts_of_def filter_empty_conv filter_id_conv)

lemma decode_encoded:
  assumes enc: "encode p checksum = Inr bs" and core: "core_operands p"
    and size: "int (length bs) \<le> MAX_PACKET_SIZE"
  shows "\<exists>v mid cid n. decode bs = Inr v \<and> pkt_message_id p = Some mid \<and> pkt_correlation_id p = Some cid \<and>
    view_raw v = bs \<and> n = int (length bs) - 56 - (if checksum then 4 else 0) \<and>
    view_hdr v = \<lparr>hdr_magic = MAGIC, hdr_version = pkt_version p, hdr_flags = wire_flags p checksum,
       hdr_message_id = mid, hdr_correlation_id = cid, hdr_deadline_ms = pkt_deadline_ms p,
       hdr_payload_length = n\<rparr> \<and>
    view_operation v = pkt_operation p AND 0xFF \<and> view_symbols v = pkt_symbols p \<and>
    (\<forall>(tag, r) \<in> set (ext_fields p). r = Inr (view_ext_all v tag))"
proof -
  from enc obtain payload mid cid header trailer where parts:
    "build_payload p = Inr payload" "pkt_message_id p = Some mid" "pkt_correlation_id p = Some cid"
    "pack_header (pkt_version p) (wire_flags p checksum) mid cid (pkt_deadline_ms p)
       (int (length payload)) = Inr header"
    and bs: "bs = header @ payload @ trailer"
    and tr: "if checksum then pack_u 4 (crc32 (header @ payload)) = Inr trailer else trailer = []"
    by (rule encode_shape)
  have len: "length header = 56" using pack_header_length [OF parts(4)] by simp
  have tlen: "length trailer = (if checksum then 4 else 0)" using tr by (auto simp: pack_u_length split: if_splits)
  have small: "int (length payload) \<le> 0xFFFFFF" using size bs len by simp
  have hdr: "slice bs 0 56 = header" using bs len by (simp add: slice_whole)
  have valid: "validate_header (slice bs 0 56) = Inr ()"
    using validate_pack_header [OF parts(4)] small hdr by simp
  have uh: "unpack_header (slice bs 0 56) =
      Inr \<lparr>hdr_magic = MAGIC, hdr_version = pkt_version p, hdr_flags = wire_flags p checksum,
        hdr_message_id = mid, hdr_correlation_id = cid, hdr_deadline_ms = pkt_deadline_ms p,
        hdr_payload_length = int (length payload)\<rparr>"
    using unpack_pack_header [OF parts(4), of "[]"] hdr by simp
  from parts(4) obtain pb where "has_at header 44 pb" "pack_u 4 (int (length payload)) = Inr pb"
    by (rule pack_header_layout)
  from unpack_u_layout [OF this] have plen: "unpack_u (slice bs 44 48) = int (length payload)" using bs len by simp
  let ?pe = "56 + length payload + length trailer"
  have dec: "decode bs = view_init bs 56 ?pe"
  proof (cases checksum)
    case True
    have "slice bs 0 (56 + length payload) = header @ payload" using bs len by (simp add: slice_def)
    moreover have "has_at bs (56 + length payload) trailer"
      using has_at_self [of "header @ payload" trailer "[]"] bs len by simp
    then have "unpack_from_u 4 bs (56 + length payload) = Inr (crc32 (header @ payload))"
      using tr True by (auto intro: unpack_from_u_layout)
    ultimately show ?thesis
      using decode_body [OF valid _ plen] bs len tlen True by (simp add: validate_trailer_def add.assoc)
  next
    case False
    then show ?thesis using decode_body [OF valid _ plen] bs len tlen by simp
  qed
  have body: "slice bs 56 ?pe = payload @ trailer" using bs len by (simp add: slice_append_right slice_whole)
  have l28: "length payload < 2 ^ 28" using small by simp
  from view_init_payload [OF parts(1) core_operandsD(1) [OF core] l28 uh body] core_operandsD(2,3) [OF core]
  obtain v where "view_init bs 56 ?pe = Inr v" "view_raw v = bs"
    "view_hdr v = \<lparr>hdr_magic = MAGIC, hdr_version = pkt_version p, hdr_flags = wire_flags p checksum,
       hdr_message_id = mid, hdr_correlation_id = cid, hdr_deadline_ms = pkt_deadline_ms p,
       hdr_payload_length = int (length payload)\<rparr>"
    "view_operation v = pkt_operation p AND 0xFF" "view_symbols v = pkt_symbols p"
    "\<forall>(tag, r) \<in> set (ext_fields p). r = Inr (view_ext_all v tag)" by fastforce
  with dec parts(2,3) bs len tlen show ?thesis by simp
qed

section \<open>Reading one extension field back\<close>

lemma when_ext_Nil: "view_ext_all v tag = [] \<Longrightarrow> when_ext v tag missing f = missing"
  by (simp add: when_ext_def ext_one_def)

lemma when_ext_Cons: "view_ext_all v tag = b # bs \<Longrightarrow> b \<noteq> [] \<Longrightarrow> when_ext v tag missing f = f b"
  by (simp add: when_ext_def ext_one_def)

lemma ext_opt_read:
  assumes "ext_opt enc field = Inr (view_ext_all v tag)"
    and "\<And>x b. enc x = Inr b \<Longrightarrow> dec b = g (Some x)" "dec [] = g None" "\<And>x. g None \<noteq> g (Some x)"
  shows "when_ext v tag (g None) dec = g field"
proof (cases field)
  case (Some x)
  with assms(1) obtain b where b: "enc x = Inr b" "view_ext_all v tag = [b]" by (auto simp: bindr_eq_Inr)
  with assms(2) [OF b(1)] assms(3,4) have "b \<noteq> []" by metis
  with b assms(2) Some show ?thesis by (simp add: when_ext_Cons)
qed (use assms(1) in \<open>simp add: when_ext_Nil\<close>)

lemma ext_when_read:
  assumes "ext_when c r = Inr (view_ext_all v tag)"
    and "\<And>b. r = Inr b \<Longrightarrow> c \<Longrightarrow> dec b = x \<and> b \<noteq> []" "\<not> c \<Longrightarrow> missing = x"
  shows "when_ext v tag missing dec = x"
proof (cases c)
  case True
  with assms(1) obtain b where b: "r = Inr b" "view_ext_all v tag = [b]"
    by (auto simp: ext_when_def bindr_eq_Inr)
  with assms(2) [OF b(1) True] show ?thesis by (simp add: when_ext_Cons)
qed (use assms(1,3) in \<open>simp add: ext_when_def when_ext_Nil\<close>)

lemma ext_bytes_read:
  "ext_bytes field = Inr (view_ext_all v tag) \<Longrightarrow> field \<noteq> Some [] \<Longrightarrow> ext_one v tag = field"
  by (cases field) (auto simp: ext_one_def split: list.splits)

lemma mapr_read:
  "mapr enc xs = Inr vs \<Longrightarrow> (\<And>x b. enc x = Inr b \<Longrightarrow> dec b = Inr x) \<Longrightarrow> mapr dec vs = Inr xs"
  by (induction xs arbitrary: vs) (auto simp: bindr_eq_Inr)

lemma names_read:
  assumes "ext_when (ns \<noteq> []) (enc_names ns) = Inr (view_ext_all v tag)" "plain_names ns"
  shows "when_ext v tag (Inr []) dec_names = Inr ns"
  using assms names_roundtrip by (intro ext_when_read [OF assms(1)]) auto

lemma text_read:
  assumes "ext_when (s \<noteq> []) (utf8_encode s) = Inr (view_ext_all v tag)"
  shows "when_ext v tag (Inr []) utf8_decode = Inr s"
  by (rule ext_when_read [OF assms]) (auto simp: utf8_decode_encode dest: utf8_encode_nonempty)

text \<open>The fields whose view is that of the packet: nothing the wire format cannot carry.\<close>

definition plain_packet :: "packet \<Rightarrow> bool" where
  "plain_packet p =
     (plain_names (pkt_targets p) \<and> plain_names (pkt_capabilities p) \<and> plain_names (pkt_target_caps p) \<and>
      list_all wf_symbol (pkt_response_symbols p) \<and> distinct (map fst (pkt_metadata p)) \<and>
      Some [] \<notin> {pkt_session_id p, pkt_security p, pkt_stream_id p, pkt_partial_result p})"

lemma identity_bytes_nonempty: "identity_to_bytes i = Inr b \<Longrightarrow> b \<noteq> []"
  by (auto simp: identity_to_bytes_def bindr_eq_Inr pack_u_byte split: if_splits)

lemma response_symbols_read:
  assumes "ext_when (xs \<noteq> []) (encode_symbols xs) = Inr (view_ext_all v tag)" "list_all wf_symbol xs"
  shows "when_ext v tag (Inr []) (\<lambda>b. bindr (decode_symbol_seq b) (\<lambda>(syms, _). Inr syms)) = Inr xs"
proof (rule ext_when_read [OF assms(1)])
  fix b
  assume "encode_symbols xs = Inr b" and ne: "xs \<noteq> []"
  then obtain bss where m: "mapr encode_symbol xs = Inr bss" "b = concat bss"
    by (auto simp: encode_symbols_def bindr_eq_Inr)
  have "decode_symbols_loop (length b) b 0 = Inr (xs, length b)"
    by (rule decode_symbols_loop_enc [OF assms(2) m(1)]) (simp_all add: m(2))
  moreover have "b \<noteq> []" using length_le_concat [OF m(1), folded m(2)] ne by auto
  ultimately show "bindr (decode_symbol_seq b) (\<lambda>(syms, _). Inr syms) = Inr xs \<and> b \<noteq> []"
    by (simp add: decode_symbol_seq_def)
qed simp

text \<open>All fields of a view that holds, under each tag, what the packet put there.\<close>

lemma view_names_read:
  assumes f: "\<forall>(tag, r) \<in> set (ext_fields p). r = Inr (view_ext_all v tag)" and pl: "plain_packet p"
  shows "view_targets v = Inr (pkt_targets p)" "view_capabilities v = Inr (pkt_capabilities p)"
    "view_target_caps v = Inr (pkt_target_caps p)" "view_intent v = Inr (pkt_intent p)"
    "view_schema_id v = Inr (pkt_schema_id p)"
    "view_response_symbols v = Inr (pkt_response_symbols p)"
  using f pl
  by (simp_all add: ext_fields_def plain_packet_def view_targets_def view_capabilities_def
      view_target_caps_def view_intent_def view_schema_id_def view_response_symbols_def
      names_read text_read response_symbols_read)

lemma view_bytes_read:
  assumes f: "\<forall>(tag, r) \<in> set (ext_fields p). r = Inr (view_ext_all v tag)" and pl: "plain_packet p"
  shows "view_session_id v = pkt_session_id p" "view_security v = pkt_security p"
    "view_stream_id v = pkt_stream_id p" "view_partial_result v = pkt_partial_result p"
  unfolding view_session_id_def view_security_def view_stream_id_def view_partial_result_def
  by (rule ext_bytes_read; use f pl in \<open>auto simp: ext_fields_def plain_packet_def\<close>)+

lemma view_records_read:
  assumes f: "\<forall>(tag, r) \<in> set (ext_fields p). r = Inr (view_ext_all v tag)"
  shows "view_qos v = pkt_qos p" "view_chunk_info v = pkt_chunk_info p"
    "view_backpressure v = pkt_backpressure p"
    "view_error_info v = Inr (map_option norm_details (pkt_error_info p))"
    "view_model_invocation v = Inr (pkt_model_invocation p)"
    "view_tool_invocation v = Inr (pkt_tool_invocation p)"
    "view_trace v = Inr (pkt_trace p)" "view_origin v = Inr (pkt_origin p)"
proof -
  have e: "ext_opt enc_qos (pkt_qos p) = Inr (view_ext_all v EXT_QOS)"
    "ext_opt enc_chunk_info (pkt_chunk_info p) = Inr (view_ext_all v EXT_CHUNK_INFO)"
    "ext_opt enc_backpressure (pkt_backpressure p) = Inr (view_ext_all v EXT_BACKPRESSURE)"
    "ext_opt enc_error_info (pkt_error_info p) = Inr (view_ext_all v EXT_ERROR_INFO)"
    "ext_opt enc_model_invocation (pkt_model_invocation p) = Inr (view_ext_all v EXT_MODEL_INVOCATION)"
    "ext_opt enc_tool_invocation (pkt_tool_invocation p) = Inr (view_ext_all v EXT_TOOL_INVOCATION)"
    and tr: "mapr enc_trace_entry (pkt_trace p) = Inr (view_ext_all v EXT_TRACE_ENTRY)"
    and or: "ext_opt identity_to_bytes (pkt_origin p) = Inr (view_ext_all v EXT_ORIGIN)"
    using f by (simp_all add: ext_fields_def)
  show "view_qos v = pkt_qos p"
    using ext_opt_read [OF e(1), of dec_qos "\<lambda>x. x"] qos_roundtrip
    by (simp add: view_qos_def dec_qos_def)
  show "view_chunk_info v = pkt_chunk_info p"
    using ext_opt_read [OF e(2), of dec_chunk_info "\<lambda>x. x"] chunk_info_roundtrip
    by (simp add: view_chunk_info_def dec_chunk_info_def)
  show "view_backpressure v = pkt_backpressure p"
    using ext_opt_read [OF e(3), of dec_backpressure "\<lambda>x. x"] backpressure_roundtrip
    by (simp add: view_backpressure_def dec_backpressure_def)
  show "view_error_info v = Inr (map_option norm_details (pkt_error_info p))"
    using ext_opt_read [OF e(4), of dec_error_info "\<lambda>x. Inr (map_option norm_details x)"] error_info_roundtrip
    by (simp add: view_error_info_def dec_error_info_def)
  show "view_model_invocation v = Inr (pkt_model_invocation p)"
    using ext_opt_read [OF e(5), of dec_model_invocation Inr] model_invocation_roundtrip
    by (simp add: view_model_invocation_def dec_model_invocation_def)
  show "view_tool_invocation v = Inr (pkt_tool_invocation p)"
    using ext_opt_read [OF e(6), of dec_tool_invocation Inr] tool_invocation_roundtrip
    by (simp add: view_tool_invocation_def dec_tool_invocation_def)
  show "view_trace v = Inr (pkt_trace p)"
    unfolding view_trace_def by (rule mapr_read [OF tr trace_entry_roundtrip])
  show "view_origin v = Inr (pkt_origin p)"
    using or identity_bytes_nonempty identity_roundtrip unfolding view_origin_def
    by (cases "pkt_origin p") (auto simp: when_ext_Nil when_ext_def ext_one_def bindr_eq_Inr split: list.splits)
qed

lemma view_scalars_read:
  assumes f: "\<forall>(tag, r) \<in> set (ext_fields p). r = Inr (view_ext_all v tag)" and pl: "distinct (map fst (pkt_metadata p))"
  shows "view_confidence v = Inr (pkt_confidence p)" "view_priority v = pkt_priority p"
    "view_metadata v = Inr (pkt_metadata p)"
proof -
  have e: "ext_when (\<not> f64_eq (pkt_confidence p) f64_one) (Inr (pack_d (pkt_confidence p))) =
      Inr (view_ext_all v EXT_CONFIDENCE)"
    "ext_when (pkt_priority p \<noteq> 128) (pack_u 1 (pkt_priority p)) = Inr (view_ext_all v EXT_PRIORITY)"
    "ext_when (pkt_metadata p \<noteq> []) (enc_metadata (pkt_metadata p)) = Inr (view_ext_all v EXT_METADATA)"
    using f by (simp_all add: ext_fields_def)
  have ne: "pack_d x \<noteq> []" for x using length_pack_d [of x] by force
  show "view_confidence v = Inr (pkt_confidence p)" unfolding view_confidence_def
    by (rule ext_when_read [OF e(1)]) (auto simp: slice_whole ne)
  show "view_priority v = pkt_priority p" unfolding view_priority_def
    by (rule ext_when_read [OF e(2)]) (auto simp: pack_u_byte)
  show "view_metadata v = Inr (pkt_metadata p)" unfolding view_metadata_def
    using metadata_roundtrip pl by (intro ext_when_read [OF e(3)]) auto
qed

text \<open>
  The two records whose encoder and view do not agree: an acknowledgement comes back with its message
  as its type, and a blob reference as what the view reads from the encoder's other layout.
\<close>

lemma view_ack_info_read:
  assumes "ext_opt enc_ack_info (pkt_ack_info p) = Inr (view_ext_all v EXT_ACK_INFO)"
  shows "view_ack_info v = Inr (map_option (\<lambda>a. \<lparr>ack_type = ack_message a, ack_message = []\<rparr>) (pkt_ack_info p))"
proof (cases "pkt_ack_info p")
  case (Some a)
  with assms obtain b where b: "enc_ack_info a = Inr b" "view_ext_all v EXT_ACK_INFO = [b]"
    by (auto simp: bindr_eq_Inr)
  then have "b \<noteq> []" by (auto simp: enc_ack_info_def bindr_eq_Inr)
  with b Some ack_info_message [OF b(1)] show ?thesis by (simp add: view_ack_info_def when_ext_Cons)
qed (use assms in \<open>simp add: view_ack_info_def when_ext_Nil\<close>)

lemma mapr_chain: "mapr f xs = Inr ys \<Longrightarrow> mapr g ys = mapr (\<lambda>x. bindr (f x) g) xs"
  by (induction xs arbitrary: ys) (auto simp: bindr_eq_Inr)

lemma view_blob_refs_read:
  "mapr enc_blob_ref (pkt_blob_refs p) = Inr (view_ext_all v EXT_BLOB_REF) \<Longrightarrow>
     view_blob_refs v = mapr (\<lambda>b. bindr (enc_blob_ref b) dec_blob_ref) (pkt_blob_refs p)"
  unfolding view_blob_refs_def by (rule mapr_chain)

section \<open>Damaged packets: lemmas\<close>

lemma encoded_layout:
  assumes "encode p checksum = Inr bs"
  obtains n where "length bs = 56 + n + (if checksum then 4 else 0)"
    "unpack_u (slice bs 44 48) = int n" "unpack_u (slice bs 52 56) = crc32 (slice bs 0 52)"
    "validate_header (slice bs 0 56) = (if int n > MAX_TLV_VALUE_SIZE then Inl HeaderError else Inr ())"
    "checksum \<Longrightarrow> unpack_u (slice bs (56 + n) (56 + n + 4)) = crc32 (slice bs 0 (56 + n))"
proof -
  from assms obtain payload mid cid header trailer where
    h: "pack_header (pkt_version p) (wire_flags p checksum) mid cid (pkt_deadline_ms p)
       (int (length payload)) = Inr header"
    and bs: "bs = header @ payload @ trailer"
    and tr: "if checksum then pack_u 4 (crc32 (header @ payload)) = Inr trailer else trailer = []"
    by (rule encode_shape)
  have len: "length header = 56" using pack_header_length [OF h] by simp
  from h obtain pb where "has_at header 44 pb" "pack_u 4 (int (length payload)) = Inr pb"
    by (rule pack_header_layout)
  from unpack_u_layout [OF this] have "unpack_u (slice bs 44 48) = int (length payload)" using bs len by simp
  moreover from h obtain crc where "has_at header 52 crc" "pack_u 4 (crc32 (slice header 0 52)) = Inr crc"
    by (rule pack_header_layout)
  from unpack_u_layout [OF this] have "unpack_u (slice bs 52 56) = crc32 (slice bs 0 52)" using bs len by simp
  moreover have "validate_header (slice bs 0 56) =
      (if int (length payload) > MAX_TLV_VALUE_SIZE then Inl HeaderError else Inr ())"
    using validate_pack_header [OF h] bs len by (simp add: slice_whole)
  moreover have "slice bs 0 (56 + length payload) = header @ payload" using bs len by (simp add: slice_def)
  moreover have "unpack_u (slice bs (56 + length payload) (56 + length payload + 4)) = crc32 (header @ payload)"
    if checksum
    using that tr bs len by (auto simp: slice_append_right slice_whole pack_u_length unpack_pack_u)
  ultimately show thesis
    using that [of "length payload"] bs len tr by (auto simp: pack_u_length split: if_splits)
qed

lemma decode_bad_header:
  "HEADER_SIZE \<le> length raw \<Longrightarrow> validate_header (slice raw 0 HEADER_SIZE) = Inl e \<Longrightarrow> decode raw = Inl e"
  by (simp add: decode_def)

lemma decode_bad_trailer:
  assumes "validate_header (slice raw 0 HEADER_SIZE) = Inr u" "unpack_u (slice raw 44 48) = int n"
    and "length raw = 56 + n + 4" "unpack_u (slice raw (56 + n) (56 + n + 4)) \<noteq> crc32 (slice raw 0 (56 + n))"
  shows "decode raw = Inl ChecksumError"
  using assms decode_body [OF assms(1) _ assms(2)]
  by (simp add: unpack_from_u_def validate_trailer_def)

lemma update_changes_slice:
  assumes "a \<le> i" "i < c" "c \<le> length xs" "b \<noteq> xs ! i"
  shows "slice (xs[i := b]) a c \<noteq> slice xs a c"
proof -
  have "slice (xs[i := b]) a c ! (i - a) = b" using assms by (simp add: nth_slice)
  moreover have "slice xs a c ! (i - a) = xs ! i" using assms by (simp add: nth_slice)
  ultimately show ?thesis using assms(4) by metis
qed

lemma corrupt_checksummed:
  assumes enc: "encode p True = Inr bs" and i: "i < length bs" "b \<noteq> bs ! i"
  shows "decode (bs[i := b]) \<in> {Inl HeaderError, Inl VersionMismatchError, Inl ChecksumError}"
proof -
  from enc obtain n where n: "length bs = 56 + n + 4" "unpack_u (slice bs 44 48) = int n"
    "validate_header (slice bs 0 56) = (if int n > MAX_TLV_VALUE_SIZE then Inl HeaderError else Inr ())"
    "unpack_u (slice bs (56 + n) (56 + n + 4)) = crc32 (slice bs 0 (56 + n))"
    and crc: "unpack_u (slice bs 52 56) = crc32 (slice bs 0 52)"
    by (rule encoded_layout) simp
  let ?d = "bs[i := b]"
  consider "i < 56" | "56 \<le> i" "int n > MAX_TLV_VALUE_SIZE" | "56 \<le> i" "\<not> int n > MAX_TLV_VALUE_SIZE"
    by linarith
  then show ?thesis
  proof cases
    case 1
    have "\<exists>e. validate_header (slice ?d 0 56) = Inl e"
      using header_crc_corrupt [of "slice bs 0 56" i b] crc n(1) 1 i slice_update_inside [of 0 i bs b 56]
      by (simp add: nth_slice slice_slice)
    then show ?thesis using decode_bad_header [of ?d] validate_header_errors n(1) by fastforce
  next
    case 2
    then have "validate_header (slice ?d 0 56) = Inl HeaderError"
      using n(3) slice_update_outside [of i 0 56 bs b] by simp
    then show ?thesis using decode_bad_header [of ?d] n(1) by simp
  next
    case 3
    have same: "validate_header (slice ?d 0 56) = Inr ()" "unpack_u (slice ?d 44 48) = int n"
      using 3 n slice_update_outside [of i 0 56 bs b] slice_update_outside [of i 44 48 bs b] by simp_all
    have "unpack_u (slice ?d (56 + n) (56 + n + 4)) \<noteq> crc32 (slice ?d 0 (56 + n))"
    proof (cases "i < 56 + n")
      case True
      have "crc32 ((slice bs 0 (56 + n))[i := b]) \<noteq> crc32 (slice bs 0 (56 + n))"
        using True i n(1) by (intro crc32_update_nth) (simp_all add: nth_slice)
      then show ?thesis
        using True n(4) slice_update_inside [of 0 i bs b "56 + n"]
          slice_update_outside [of i "56 + n" "56 + n + 4" bs b] by simp
    next
      case False
      have "slice ?d (56 + n) (56 + n + 4) \<noteq> slice bs (56 + n) (56 + n + 4)"
        using False i n(1) by (intro update_changes_slice) simp_all
      then have "unpack_u (slice ?d (56 + n) (56 + n + 4)) \<noteq> unpack_u (slice bs (56 + n) (56 + n + 4))"
        using unpack_u_inj by fastforce
      then show ?thesis using False n(4) slice_update_outside [of i 0 "56 + n" bs b] by simp
    qed
    then show ?thesis using decode_bad_trailer [OF same] n(1) by simp
  qed
qed

lemma encode_length: "encode p checksum = Inr bs \<Longrightarrow> (if checksum then 60 else 56) \<le> length bs"
  by (erule encoded_layout) simp

text \<open>A packet cut anywhere but between payload and trailer.\<close>

lemma decode_cut:
  assumes enc: "encode p checksum = Inr bs" and size: "int (length bs) \<le> MAX_PACKET_SIZE"
    and k: "k < length bs" and n: "n = length bs - (if checksum then 60 else 56)"
  shows "decode (take k bs) =
    (if k < 56 + n then Inl TruncatedPacketError
     else if k = 56 + n then view_init (take k bs) 56 (56 + n) else Inl StructError)"
proof -
  from enc obtain m where m: "length bs = 56 + m + (if checksum then 4 else 0)"
    "unpack_u (slice bs 44 48) = int m"
    "validate_header (slice bs 0 56) = (if int m > MAX_TLV_VALUE_SIZE then Inl HeaderError else Inr ())"
    by (rule encoded_layout)
  have nm: "n = m" using n m(1) by (auto split: if_splits)
  show ?thesis
  proof (cases "k < 56")
    case True
    then show ?thesis using k by (simp add: decode_def)
  next
    case False
    have sl: "slice (take k bs) a b = slice bs a b" if "b \<le> k" for a b
      using that by (cases "a \<le> b") (simp_all add: slice_def take_drop min_def)
    have "validate_header (slice (take k bs) 0 56) = Inr ()" "unpack_u (slice (take k bs) 44 48) = int m"
      using sl m size False by (auto split: if_splits)
    from decode_body [OF this(1) _ this(2)] show ?thesis
      using False k m(1) nm by (auto simp: unpack_from_u_def split: if_splits)
  qed
qed

text \<open>Cut exactly before the trailer, the packet is read as one without.\<close>

lemma decode_trailer_cut:
  assumes enc: "encode p True = Inr bs" and core: "core_operands p" and size: "int (length bs) \<le> MAX_PACKET_SIZE"
  shows "\<exists>v. decode (take (length bs - 4) bs) = Inr v \<and> view_raw v = take (length bs - 4) bs \<and>
    view_version v = pkt_version p \<and> view_flags v = pkt_flags p OR FLAG_HAS_TRAILER \<and>
    Some (view_message_id v) = pkt_message_id p \<and> Some (view_correlation_id v) = pkt_correlation_id p \<and>
    view_deadline_ms v = pkt_deadline_ms p \<and> view_operation v = pkt_operation p AND 0xFF \<and>
    view_symbols v = pkt_symbols p"
proof -
  from enc obtain payload mid cid header trailer where parts:
    "build_payload p = Inr payload" "pkt_message_id p = Some mid" "pkt_correlation_id p = Some cid"
    "pack_header (pkt_version p) (wire_flags p True) mid cid (pkt_deadline_ms p)
       (int (length payload)) = Inr header"
    and bs: "bs = header @ payload @ trailer" and tr: "pack_u 4 (crc32 (header @ payload)) = Inr trailer"
    by (rule encode_shape) simp
  have len: "length header = 56" "length trailer = 4"
    using pack_header_length [OF parts(4)] pack_u_length [OF tr] by simp_all
  let ?cut = "take (length bs - 4) bs"
  have cut: "?cut = header @ payload" using bs len by simp
  have uh: "unpack_header (slice ?cut 0 HEADER_SIZE) =
      Inr \<lparr>hdr_magic = MAGIC, hdr_version = pkt_version p, hdr_flags = wire_flags p True,
        hdr_message_id = mid, hdr_correlation_id = cid, hdr_deadline_ms = pkt_deadline_ms p,
        hdr_payload_length = int (length payload)\<rparr>"
    using unpack_pack_header [OF parts(4), of "[]"] cut len by (simp add: slice_whole)
  have body: "slice ?cut 56 (56 + length payload) = payload @ []" using cut len by (simp add: slice_append_right slice_whole)
  have "length payload < 2 ^ 28" using size bs len by simp
  from view_init_payload [OF parts(1) core_operandsD(1) [OF core] this uh body]
  obtain v where "view_init ?cut 56 (56 + length payload) = Inr v" "view_raw v = ?cut"
    "view_hdr v = \<lparr>hdr_magic = MAGIC, hdr_version = pkt_version p, hdr_flags = wire_flags p True,
       hdr_message_id = mid, hdr_correlation_id = cid, hdr_deadline_ms = pkt_deadline_ms p,
       hdr_payload_length = int (length payload)\<rparr>"
    "view_operation v = pkt_operation p AND 0xFF"
    "view_symbols v = filter (\<lambda>s. \<not> is_vendor_tag (sym_tag s)) (pkt_symbols p)" by blast
  moreover have cut_at: "length bs = 60 + length payload" "length bs - 4 < length bs" "length bs - 4 = 56 + length payload"
    "length payload = length bs - (if True then 60 else 56)" using bs len by simp_all
  have "decode ?cut = view_init ?cut 56 (56 + length payload)"
    unfolding decode_cut [OF enc size cut_at(2,4)] using cut_at(3) by simp
  ultimately show ?thesis using parts(2,3) core_operandsD(3) [OF core]
    by (simp add: view_version_def view_flags_def view_message_id_def view_correlation_id_def
        view_deadline_ms_def wire_flags_def)
qed

section \<open>Packets that encode\<close>

text \<open>The ranges the wire format has room for, field by field.\<close>

definition u_ok :: "nat \<Rightarrow> int \<Rightarrow> bool" where
  "u_ok n x = (0 \<le> x \<and> x < 256 ^ n)"

definition s_ok :: "nat \<Rightarrow> int \<Rightarrow> bool" where
  "s_ok n x = (- (256 ^ n div 2) \<le> x \<and> x < 256 ^ n div 2)"

definition text_ok :: "nat \<Rightarrow> pystr \<Rightarrow> bool" where
  "text_ok n s = (case utf8_encode s of Inl e \<Rightarrow> False | Inr b \<Rightarrow> u_ok n (int (length b)))"

definition wf_records :: "packet \<Rightarrow> bool" where
  "wf_records p =
     (pred_option (\<lambda>i. u_ok 1 (id_type i) \<and> text_ok 1 (id_name i) \<and> u_ok 4 (id_instance_id i)) (pkt_origin p) \<and>
      pred_option (\<lambda>q. u_ok 1 (priority_class q) \<and> u_ok 1 (reliability q) \<and> u_ok 1 (ordering q) \<and>
        u_ok 1 (delivery_mode q) \<and> u_ok 4 (max_retries q) \<and> u_ok 4 (retry_delay_ms q)) (pkt_qos p) \<and>
      list_all (\<lambda>e. u_ok 1 (actor_type e) \<and> text_ok 1 (actor_name e) \<and> text_ok 1 (trace_action e) \<and>
        s_ok 8 (timestamp_ms e) \<and> s_ok 4 (duration_us e)) (pkt_trace p) \<and>
      pred_option (\<lambda>c. u_ok 1 (total_chunks c) \<and> u_ok 1 (chunk_index c) \<and> u_ok 4 (original_size c) \<and>
        u_ok 4 (chunk_offset c) \<and> u_ok 4 (chunk_size c)) (pkt_chunk_info p) \<and>
      list_all (\<lambda>b. u_ok 1 (ref_type b) \<and> text_ok 1 (blob_identifier b) \<and> u_ok 4 (blob_size b) \<and>
        u_ok 4 (blob_offset b)) (pkt_blob_refs p) \<and>
      pred_option (\<lambda>b. u_ok 4 (queue_depth b) \<and> u_ok 4 (max_queue b) \<and> u_ok 2 (drop_reason b) \<and>
        u_ok 2 (retry_after_ms b)) (pkt_backpressure p) \<and>
      pred_option (\<lambda>e. u_ok 2 (error_code e) \<and> u_ok 2 (error_severity e) \<and> text_ok 1 (error_message e) \<and>
        pred_option (text_ok 2) (error_details e)) (pkt_error_info p) \<and>
      pred_option (\<lambda>a. encodable (ack_message a)) (pkt_ack_info p) \<and>
      pred_option (\<lambda>m. text_ok 1 (model_name m) \<and> text_ok 1 (model_task m) \<and>
        text_ok 1 (model_parameters_json m) \<and> u_ok 4 (model_timeout_ms m)) (pkt_model_invocation p) \<and>
      pred_option (\<lambda>m. text_ok 1 (tool_name m) \<and> text_ok 1 (tool_parameters_json m) \<and>
        u_ok 4 (tool_timeout_ms m)) (pkt_tool_invocation p))"

definition wf_packet :: "packet \<Rightarrow> bool" where
  "wf_packet p =
     (pkt_version p \<in> SUPPORTED_VERSIONS \<and> u_ok 2 (pkt_flags p) \<and> u_ok 4 (pkt_deadline_ms p) \<and>
      pred_option (\<lambda>b. length b = 16) (pkt_message_id p) \<and> pkt_message_id p \<noteq> None \<and>
      pred_option (\<lambda>b. length b = 16) (pkt_correlation_id p) \<and> pkt_correlation_id p \<noteq> None \<and>
      list_all wf_symbol (pkt_symbols p) \<and> list_all wf_symbol (pkt_response_symbols p) \<and>
      list_all encodable (pkt_targets p @ pkt_capabilities p @ pkt_target_caps p @
        [pkt_intent p, pkt_schema_id p]) \<and>
      u_ok 1 (pkt_priority p) \<and>
      list_all (\<lambda>(k, v). text_ok 1 k \<and> text_ok 2 v) (pkt_metadata p) \<and> wf_records p)"

lemma text_okE:
  assumes "text_ok n s"
  obtains b where "utf8_encode s = Inr b" "u_ok n (int (length b))"
  using assms by (auto simp: text_ok_def split: sum.splits)

lemma pack_u_ok: "u_ok n x \<Longrightarrow> pack_u n x = Inr (be_bytes n (nat x))"
  by (simp add: u_ok_def pack_u_def)

lemma pack_s_ok: "s_ok n x \<Longrightarrow> pack_s n x = Inr (be_bytes n (nat (x mod 256 ^ n)))"
  by (simp add: s_ok_def pack_s_def)

lemma struct_pack_ok: "list_all (\<lambda>(n, v). u_ok n v) fs \<Longrightarrow> \<exists>b. struct_pack fs = Inr b"
  by (induction fs) (auto simp: struct_pack_def pack_u_ok bindr_eq_Inr)

lemma u_ok_4: "u_ok 4 c \<Longrightarrow> 0 \<le> c \<and> c < 2 ^ 32"
  by (simp add: u_ok_def)

lemma mapr_exists: "(\<And>x. x \<in> set xs \<Longrightarrow> \<exists>y. f x = Inr y) \<Longrightarrow> \<exists>ys. mapr f xs = Inr ys"
  by (simp add: mapr_Inr_iff)

lemma ext_opt_exists: "pred_option P o' \<Longrightarrow> (\<And>x. P x \<Longrightarrow> \<exists>b. f x = Inr b) \<Longrightarrow> \<exists>vs. ext_opt f o' = Inr vs"
  by (cases o') (auto simp: bindr_eq_Inr)

lemma ext_when_exists: "(c \<Longrightarrow> \<exists>b. r = Inr b) \<Longrightarrow> \<exists>vs. ext_when c r = Inr vs"
  by (auto simp: ext_when_def bindr_eq_Inr)

lemma names_exist: "list_all encodable ns \<Longrightarrow> \<exists>b. enc_names ns = Inr b"
  using mapr_exists [of ns utf8_encode] by (auto simp: enc_names_def bindr_eq_Inr list_all_iff utf8_encode_total)

lemma records_exist:
  assumes "wf_records p"
  shows "\<exists>vs. ext_opt identity_to_bytes (pkt_origin p) = Inr vs"
    "\<exists>vs. ext_opt enc_qos (pkt_qos p) = Inr vs"
    "\<exists>vs. mapr enc_trace_entry (pkt_trace p) = Inr vs"
    "\<exists>vs. ext_opt enc_chunk_info (pkt_chunk_info p) = Inr vs"
    "\<exists>vs. mapr enc_blob_ref (pkt_blob_refs p) = Inr vs"
    "\<exists>vs. ext_opt enc_backpressure (pkt_backpressure p) = Inr vs"
    "\<exists>vs. ext_opt enc_error_info (pkt_error_info p) = Inr vs"
    "\<exists>vs. ext_opt enc_ack_info (pkt_ack_info p) = Inr vs"
    "\<exists>vs. ext_opt enc_model_invocation (pkt_model_invocation p) = Inr vs"
    "\<exists>vs. ext_opt enc_tool_invocation (pkt_tool_invocation p) = Inr vs"
proof -
  note ok = struct_pack_def pack_u_ok pack_s_ok bindr_eq_Inr
  have small: "u_ok (Suc 0) (int n) \<Longrightarrow> \<not> 255 < n" for n by (simp add: u_ok_def)
  note wf = assms [unfolded wf_records_def]
  show "\<exists>vs. ext_opt identity_to_bytes (pkt_origin p) = Inr vs"
    by (rule ext_opt_exists [OF conjunct1 [OF wf]]) (auto simp: identity_to_bytes_def pack_u_ok small elim!: text_okE)
  show "\<exists>vs. ext_opt enc_qos (pkt_qos p) = Inr vs"
    by (rule ext_opt_exists [OF conjunct1 [OF conjunct2 [OF wf]]]) (auto simp: enc_qos_def ok)
  show "\<exists>vs. mapr enc_trace_entry (pkt_trace p) = Inr vs"
    using wf by (intro mapr_exists) (auto simp: enc_trace_entry_def ok list_all_iff elim!: text_okE dest!: bspec)
  show "\<exists>vs. ext_opt enc_chunk_info (pkt_chunk_info p) = Inr vs"
    using wf by (cases "pkt_chunk_info p") (auto simp: enc_chunk_info_def ok)
  show "\<exists>vs. mapr enc_blob_ref (pkt_blob_refs p) = Inr vs"
    using wf by (intro mapr_exists)
      (auto simp: enc_blob_ref_def struct_pack_native_BBI_def ok list_all_iff elim!: text_okE dest!: bspec u_ok_4)
  show "\<exists>vs. ext_opt enc_backpressure (pkt_backpressure p) = Inr vs"
    using wf by (cases "pkt_backpressure p") (auto simp: enc_backpressure_def ok)
  show "\<exists>vs. ext_opt enc_error_info (pkt_error_info p) = Inr vs"
    using wf by (cases "pkt_error_info p")
      (auto simp: enc_error_info_def ok u_ok_def [of 2 0] elim!: text_okE split: option.splits)
  show "\<exists>vs. ext_opt enc_ack_info (pkt_ack_info p) = Inr vs"
    using wf by (cases "pkt_ack_info p") (auto simp: enc_ack_info_def bindr_eq_Inr utf8_encode_total)
  show "\<exists>vs. ext_opt enc_model_invocation (pkt_model_invocation p) = Inr vs"
    using wf by (cases "pkt_model_invocation p") (auto simp: enc_model_invocation_def ok elim!: text_okE)
  show "\<exists>vs. ext_opt enc_tool_invocation (pkt_tool_invocation p) = Inr vs"
    using wf by (cases "pkt_tool_invocation p") (auto simp: enc_tool_invocation_def ok elim!: text_okE)
qed

lemma metadata_exist:
  "list_all (\<lambda>(k, v). text_ok 1 k \<and> text_ok 2 v) d \<Longrightarrow> \<exists>b. enc_metadata d = Inr b"
proof -
  assume "list_all (\<lambda>(k, v). text_ok 1 k \<and> text_ok 2 v) d"
  then have "\<exists>ys. mapr enc_metadata_entry d = Inr ys"
    by (intro mapr_exists) (auto simp: enc_metadata_entry_def list_all_iff pack_u_ok elim!: text_okE dest!: bspec)
  then show ?thesis by (auto simp: enc_metadata_def)
qed

lemma ext_fields_exist:
  assumes "wf_packet p" "(tag, r) \<in> set (ext_fields p)"
  shows "\<exists>vs. r = Inr vs"
proof -
  note wf = assms(1) [unfolded wf_packet_def]
  have r: "wf_records p" using wf by blast
  have bytes: "\<exists>vs. ext_bytes b = Inr vs" for b by (cases b) simp_all
  have names: "\<exists>vs. ext_when (ns \<noteq> []) (enc_names ns) = Inr vs" if "list_all encodable ns" for ns
    using names_exist [OF that] by (rule ext_when_exists)
  have texts: "\<exists>vs. ext_when (s \<noteq> []) (utf8_encode s) = Inr vs" if "encodable s" for s
    using that by (intro ext_when_exists) (simp add: utf8_encode_total)
  have syms: "\<exists>vs. ext_when (xs \<noteq> []) (encode_symbols xs) = Inr vs" if "list_all wf_symbol xs" for xs
    using symbol.enc_all_total [OF that] by (intro ext_when_exists) (auto simp: encode_symbols_def)
  have prio: "\<exists>vs. ext_when (pkt_priority p \<noteq> 128) (pack_u 1 (pkt_priority p)) = Inr vs"
    using wf by (intro ext_when_exists) (simp add: pack_u_ok)
  have conf: "\<exists>vs. ext_when c (Inr b) = Inr vs" for c b by (simp add: ext_when_def)
  have meta: "\<exists>vs. ext_when (pkt_metadata p \<noteq> []) (enc_metadata (pkt_metadata p)) = Inr vs"
    using wf by (intro ext_when_exists metadata_exist) blast
  have "\<forall>(tag, r) \<in> set (ext_fields p). \<exists>vs. r = Inr vs"
    unfolding ext_fields_def list.set using wf records_exist [OF r] prio meta
    by (intro ballI) (auto intro: bytes names texts syms conf)
  with assms(2) show ?thesis by blast
qed

lemma build_payload_total:
  assumes "wf_packet p"
  shows "\<exists>payload. build_payload p = Inr payload"
proof -
  have "\<exists>exts. mapr (\<lambda>(tag, r). bindr r (\<lambda>raws. Inr (map (ext_symbol tag) raws))) (ext_fields p) = Inr exts"
    using ext_fields_exist [OF assms] by (intro mapr_exists) fastforce
  then obtain operands where o: "append_extensions p (pkt_symbols p) = Inr operands"
    by (auto simp: append_extensions_def)
  then obtain es where es: "operands = pkt_symbols p @ es"
    "\<forall>s \<in> set es. is_vendor_tag (sym_tag s) \<and> (\<exists>b. s = ext_symbol (sym_tag s) b)"
    by (rule append_extensions_Inr)
  have vendor: "\<exists>b. encode_symbol (ext_symbol t raw) = Inr b" if "is_vendor_tag t" for t raw
    using that prefixed_total [of raw] by (auto simp: ext_symbol_def is_vendor_tag_def)
  have "\<exists>b. encode_symbol s = Inr b" if "s \<in> set operands" for s
  proof (cases "s \<in> set es")
    case True
    with es(2) vendor show ?thesis by metis
  next
    case False
    with that es(1) assms have "wf_symbol s" by (auto simp: wf_packet_def list_all_iff)
    then show ?thesis by (rule symbol.enc_total)
  qed
  then obtain ops where "mapr encode_symbol operands = Inr ops" using mapr_exists by metis
  with o show ?thesis by (simp add: build_payload_def encode_varint_def)
qed

lemma flags_or_trailer: "u_ok 2 f \<Longrightarrow> 0 \<le> f OR FLAG_HAS_TRAILER \<and> f OR FLAG_HAS_TRAILER < 2 ^ 16"
  using OR_upper [of f 16 FLAG_HAS_TRAILER] by (simp add: u_ok_def)

definition crc_trailer :: "bytes \<Rightarrow> bool \<Rightarrow> bytes" where
  "crc_trailer prefix checksum = (if checksum then be_bytes 4 (nat (crc32 prefix)) else [])"

lemma encode_parts:
  assumes "wf_packet p" "build_payload p = Inr payload" "length payload < 2 ^ 32"
  shows "\<exists>mid cid header. pkt_message_id p = Some mid \<and> pkt_correlation_id p = Some cid \<and>
    pack_header (pkt_version p) (wire_flags p checksum) mid cid (pkt_deadline_ms p)
      (int (length payload)) = Inr header \<and>
    length header = HEADER_SIZE \<and> encode p checksum = Inr (header @ payload @ crc_trailer (header @ payload) checksum)"
proof -
  note wf = assms(1) [unfolded wf_packet_def]
  obtain mid cid where ids: "pkt_message_id p = Some mid" "length mid = 16"
    "pkt_correlation_id p = Some cid" "length cid = 16" using wf by auto
  have fl: "0 \<le> wire_flags p checksum" "wire_flags p checksum < 2 ^ 16"
    using flags_or_trailer [of "pkt_flags p"] wf by (auto simp: wire_flags_def u_ok_def)
  have "0 \<le> pkt_deadline_ms p" "pkt_deadline_ms p < 2 ^ 32" using wf by (auto simp: u_ok_def)
  with wf ids fl assms(3) obtain header where h:
    "pack_header (pkt_version p) (wire_flags p checksum) mid cid (pkt_deadline_ms p)
       (int (length payload)) = Inr header"
    using pack_header_total [of "pkt_version p" "wire_flags p checksum" mid cid "pkt_deadline_ms p"
        "int (length payload)"] by auto
  have "encode p checksum = Inr (header @ payload @ crc_trailer (header @ payload) checksum)"
    using assms(2) ids h crc32_range [of "header @ payload"]
    by (simp add: encode_def id_bytes_def wire_flags_def Let_def crc_masked crc_trailer_def pack_u_def)
  with ids h pack_header_length [OF h] show ?thesis by auto
qed

lemma encode_total:
  assumes "wf_packet p" "build_payload p = Inr payload" "length payload < 2 ^ 32"
  shows "\<exists>bs. encode p checksum = Inr bs \<and> length bs = 56 + length payload + (if checksum then 4 else 0)"
  using encode_parts [OF assms, of checksum] by (auto simp: crc_trailer_def)

lemma encode_too_long:
  assumes "wf_packet p" "build_payload p = Inr payload" "2 ^ 32 \<le> length payload"
  shows "encode p checksum = Inl HeaderError"
  using assms by (auto simp: encode_def id_bytes_def pack_header_def wf_packet_def Let_def split: if_splits)

section \<open>What decoding returns and raises: lemmas\<close>

definition view_decoded :: "bytes \<Rightarrow> symbol list res" where
  "view_decoded payload =
     (if length payload > 1 then
        bindr (decode_varint payload 1) (\<lambda>(count, pos).
        bindr (repeat_dec (decode_symbol payload) (nat count) pos) (\<lambda>(syms, _). Inr syms))
      else Inr [])"

lemma view_decoded_errors:
  assumes "view_decoded payload = Inl e"
  shows "e \<in> decoder_errors"
proof -
  have rep: "e \<in> decoder_errors" if "repeat_dec (decode_symbol payload) n p = Inl e" for n p
    by (rule repeat_dec_errors [OF that, of "\<lambda>e. e \<in> decoder_errors"]) (rule decode_symbol_errors)
  have var: "e \<in> decoder_errors" if "decode_varint payload 1 = Inl e"
    using decode_varint_errors [OF that] by (simp add: decoder_errors_def)
  from assms show ?thesis
    by (auto simp: view_decoded_def bindr_eq_Inl split: if_splits intro: rep var)
qed

lemma view_decoded_wf: "view_decoded payload = Inr syms \<Longrightarrow> list_all wf_symbol syms"
proof (cases "length payload > 1")
  case True
  moreover assume "view_decoded payload = Inr syms"
  ultimately obtain count pos q where d: "decode_varint payload 1 = Inr (count, pos)"
    "repeat_dec (decode_symbol payload) (nat count) pos = Inr (syms, q)"
    by (auto simp: view_decoded_def bindr_eq_Inr)
  from decode_varint_bounds [OF d(1)] have "pos \<le> length payload" by simp
  from repeat_dec_inv [OF d(2) this, of wf_symbol] decode_symbol_bounds show ?thesis by blast
qed (simp add: view_decoded_def)

lemma view_init_decoded:
  "view_init raw a b =
     bindr (unpack_header (slice raw 0 HEADER_SIZE)) (\<lambda>hdr.
     bindr (view_decoded (slice raw a b)) (\<lambda>decoded.
       let (syms, exts) = foldl view_add ([], []) decoded in
       Inr \<lparr>view_raw = raw, view_hdr_end = a, view_pay_end = b, view_hdr = hdr,
            view_operation = (if slice raw a b = [] then 0 else uint (slice raw a b ! 0)),
            view_symbols = syms, view_extensions = exts\<rparr>))"
  by (simp add: view_init_def view_decoded_def Let_def)

lemma view_init_outcome:
  "case view_init raw a b of
     Inl e \<Rightarrow> e \<in> insert HeaderError decoder_errors
   | Inr v \<Rightarrow> view_raw v = raw \<and> unpack_header (slice raw 0 HEADER_SIZE) = Inr (view_hdr v) \<and>
       list_all (\<lambda>s. wf_symbol s \<and> \<not> is_vendor_tag (sym_tag s)) (view_symbols v)"
proof (cases "unpack_header (slice raw 0 HEADER_SIZE)")
  case (Inl e)
  then show ?thesis by (auto simp: view_init_def unpack_header_def Let_def split: if_splits)
next
  case (Inr h)
  show ?thesis
  proof (cases "view_decoded (slice raw a b)")
    case (Inl e)
    then show ?thesis using Inr view_decoded_errors by (simp add: view_init_decoded)
  next
    case dec: (Inr decoded)
    obtain syms exts where f: "foldl view_add ([], []) decoded = (syms, exts)"
      by (cases "foldl view_add ([], []) decoded")
    from foldl_view_add [OF f] view_decoded_wf [OF dec]
    have "list_all (\<lambda>s. wf_symbol s \<and> \<not> is_vendor_tag (sym_tag s)) syms" by (auto simp: list_all_iff)
    with f Inr dec show ?thesis by (simp add: view_init_decoded)
  qed
qed

lemma unpack_header_fields:
  "unpack_header raw = Inr h \<Longrightarrow>
     hdr_version h \<in> SUPPORTED_VERSIONS \<and> hdr_flags h = unpack_u (slice raw 6 8) \<and>
     hdr_payload_length h = unpack_u (slice raw 44 48)"
  by (auto simp: unpack_header_def Let_def split: if_splits)

lemma decode_Inr:
  assumes "decode raw = Inr v"
  shows "HEADER_SIZE \<le> length raw" "validate_header (slice raw 0 HEADER_SIZE) = Inr ()"
    "int HEADER_SIZE + unpack_u (slice raw 44 48) \<le> int (length raw)"
    "\<exists>pay_end. view_init raw HEADER_SIZE pay_end = Inr v"
  using assms
  by (auto simp: decode_def bindr_eq_Inr unpack_from_u_def Let_def split: if_splits)

lemma decode_Inl:
  assumes "decode raw = Inl e"
  shows "e \<in> {TruncatedPacketError, HeaderError, VersionMismatchError, ChecksumError, StructError} \<or>
    (\<exists>pay_end. view_init raw HEADER_SIZE pay_end = Inl e)"
  using assms validate_header_errors [of "slice raw 0 HEADER_SIZE" e]
  by (auto simp: decode_def bindr_eq_Inl unpack_from_u_def validate_flags_def validate_trailer_def
      Let_def split: if_splits)

section \<open>A packet for the concrete instances\<close>

definition sample_packet :: packet where
  "sample_packet = default_packet\<lparr>pkt_message_id := Some (replicate 16 7),
     pkt_correlation_id := Some (replicate 16 0), pkt_session_id := Some (replicate 16 1),
     pkt_operation := 0x0B, pkt_intent := [104, 105],
     pkt_symbols := [Symbol S_U8 (VInt 7), Symbol S_BOOL (VBool True)],
     pkt_targets := [[97], [98]],
     pkt_qos := Some \<lparr>priority_class = 1, reliability = 2, ordering = 0, delivery_mode = 1,
       max_retries = 3, retry_delay_ms = 100\<rparr>\<rparr>"

lemma sample_payload: "\<exists>pl. build_payload sample_packet = Inr pl \<and> length pl = 47"
  by (simp add: build_payload_def append_extensions_def ext_fields_def sample_packet_def default_packet_def
    ext_when_def enc_names_def utf8_ascii enc_qos_def struct_pack_def pack_u_def ext_symbol_def encode_varint_small
    prefixed_def FIXED_STRUCT_def is_vendor_tag_def py_bytes.simps)

lemma sample_wf: "wf_packet sample_packet"
  by (simp add: sample_packet_def default_packet_def wf_packet_def wf_records_def u_ok_def FIXED_STRUCT_def encodable_def scalar_def)

lemma sample_core: "core_operands sample_packet" "plain_packet sample_packet"
  by (simp_all add: core_operands_def plain_packet_def plain_names_def sample_packet_def default_packet_def is_vendor_tag_def FIXED_STRUCT_def)

lemma sample_encodes:
  obtains bs where "encode sample_packet checksum = Inr bs" "int (length bs) \<le> MAX_PACKET_SIZE"
    "length bs = 103 + (if checksum then 4 else 0)"
proof -
  obtain pl where "build_payload sample_packet = Inr pl" "length pl = 47" using sample_payload by blast
  with encode_total [OF sample_wf, of pl checksum] show thesis by (auto intro: that split: if_splits)
qed

lemma sample_fields:
  "pkt_message_id sample_packet = Some (replicate 16 7)" "pkt_operation sample_packet = 11"
  "pkt_targets sample_packet = [[97], [98]]" "pkt_intent sample_packet = [104, 105]"
  "pkt_symbols sample_packet = [Symbol S_U8 (VInt 7), Symbol S_BOOL (VBool True)]"
  "pkt_qos sample_packet = Some \<lparr>priority_class = 1, reliability = 2, ordering = 0, delivery_mode = 1,
     max_retries = 3, retry_delay_ms = 100\<rparr>"
  by (simp_all add: sample_packet_def default_packet_def)

section \<open>Properties\<close>

text \<open>
  C1. Decoding what \<^verbatim>\<open>encode\<close> produced, with or without the checksum trailer, gives a view with the
  packet's version, flags (with the trailer bit added for a checksum), message and correlation
  ids, deadline, low operation byte and core operands, whatever else the packet carries.
\<close>

theorem packet_roundtrip:
  assumes "encode p checksum = Inr bs" "core_operands p" "int (length bs) \<le> MAX_PACKET_SIZE"
  shows "\<exists>v. decode bs = Inr v \<and> view_raw v = bs \<and> view_version v = pkt_version p \<and>
    view_flags v = (if checksum then pkt_flags p OR FLAG_HAS_TRAILER else pkt_flags p) \<and>
    Some (view_message_id v) = pkt_message_id p \<and> Some (view_correlation_id v) = pkt_correlation_id p \<and>
    view_deadline_ms v = pkt_deadline_ms p \<and> view_operation v = pkt_operation p AND 0xFF \<and>
    view_symbols v = pkt_symbols p"
  using decode_encoded [OF assms]
  by (auto simp: view_version_def view_flags_def view_message_id_def view_correlation_id_def
      view_deadline_ms_def wire_flags_def)

theorem packet_roundtrip_witness:
  "\<exists>bs v. encode sample_packet True = Inr bs \<and> decode bs = Inr v \<and>
     view_message_id v = replicate 16 7 \<and> view_operation v = 11 \<and>
     view_symbols v = [Symbol S_U8 (VInt 7), Symbol S_BOOL (VBool True)]"
proof -
  obtain bs where bs: "encode sample_packet True = Inr bs" "int (length bs) \<le> MAX_PACKET_SIZE"
    by (rule sample_encodes)
  from packet_roundtrip [OF bs(1) sample_core(1) bs(2)] bs(1) show ?thesis
    by (auto simp: sample_fields)
qed

text \<open>
  C2. Which rich fields of a packet come back from the vendor operands that carry them. For a packet
  within the size limit whose operands are of the core kinds and whose rich fields the wire can carry
  (\<open>plain_packet\<close>: names without commas and not empty, no byte field that is present but empty, distinct
  metadata keys, well-formed response operands): session, origin, targets, intent, response operands,
  confidence, priority, capabilities, QoS, security, trace, chunk and backpressure records, target
  capabilities, schema, stream, partial result, both invocations and metadata come back as they
  were, and the error record with empty details as missing ones. Acknowledgements and blob
  references do not: the message of an acknowledgement comes back as its type, and of each blob
  reference the view gives what \<^verbatim>\<open>blob_refs\<close> reads in the native layout \<^verbatim>\<open>append_extensions\<close> wrote.
\<close>

theorem packet_extensions_roundtrip:
  assumes "encode p checksum = Inr bs" "core_operands p" "int (length bs) \<le> MAX_PACKET_SIZE"
    and plain: "plain_packet p"
  shows "\<exists>v. decode bs = Inr v \<and>
    view_session_id v = pkt_session_id p \<and> view_origin v = Inr (pkt_origin p) \<and>
    view_targets v = Inr (pkt_targets p) \<and> view_intent v = Inr (pkt_intent p) \<and>
    view_response_symbols v = Inr (pkt_response_symbols p) \<and>
    view_confidence v = Inr (pkt_confidence p) \<and> view_priority v = pkt_priority p \<and>
    view_capabilities v = Inr (pkt_capabilities p) \<and> view_qos v = pkt_qos p \<and>
    view_security v = pkt_security p \<and> view_trace v = Inr (pkt_trace p) \<and>
    view_chunk_info v = pkt_chunk_info p \<and> view_backpressure v = pkt_backpressure p \<and>
    view_error_info v = Inr (map_option norm_details (pkt_error_info p)) \<and>
    view_target_caps v = Inr (pkt_target_caps p) \<and> view_schema_id v = Inr (pkt_schema_id p) \<and>
    view_stream_id v = pkt_stream_id p \<and> view_partial_result v = pkt_partial_result p \<and>
    view_model_invocation v = Inr (pkt_model_invocation p) \<and>
    view_tool_invocation v = Inr (pkt_tool_invocation p) \<and> view_metadata v = Inr (pkt_metadata p) \<and>
    view_ack_info v = Inr (map_option (\<lambda>a. \<lparr>ack_type = ack_message a, ack_message = []\<rparr>) (pkt_ack_info p)) \<and>
    view_blob_refs v = mapr (\<lambda>b. bindr (enc_blob_ref b) dec_blob_ref) (pkt_blob_refs p)"
proof -
  from decode_encoded [OF assms(1-3)] obtain v where v: "decode bs = Inr v"
    and f: "\<forall>(tag, r) \<in> set (ext_fields p). r = Inr (view_ext_all v tag)" by blast
  have "ext_opt enc_ack_info (pkt_ack_info p) = Inr (view_ext_all v EXT_ACK_INFO)"
    "mapr enc_blob_ref (pkt_blob_refs p) = Inr (view_ext_all v EXT_BLOB_REF)"
    using f by (simp_all add: ext_fields_def)
  with v view_names_read [OF f plain] view_bytes_read [OF f plain] view_records_read [OF f]
    view_scalars_read [OF f] plain
  show ?thesis by (simp add: plain_packet_def view_ack_info_read view_blob_refs_read)
qed

theorem packet_extensions_roundtrip_witness:
  "\<exists>bs v. encode sample_packet False = Inr bs \<and> decode bs = Inr v \<and>
     view_targets v = Inr [[97], [98]] \<and> view_intent v = Inr [104, 105] \<and>
     view_qos v = Some \<lparr>priority_class = 1, reliability = 2, ordering = 0, delivery_mode = 1,
       max_retries = 3, retry_delay_ms = 100\<rparr>"
proof -
  obtain bs where bs: "encode sample_packet False = Inr bs" "int (length bs) \<le> MAX_PACKET_SIZE"
    by (rule sample_encodes)
  from packet_extensions_roundtrip [OF bs(1) sample_core(1) bs(2) sample_core(2)] bs(1) show ?thesis
    by (auto simp: sample_fields)
qed

text \<open>
  C28. A packet whose fields are in the ranges the wire format has room for always has a payload. With
  fewer than 2^32 bytes of payload it encodes, with and without a checksum, to exactly the 56 bytes
  of its header (made of its version, its flags with the trailer bit added for a checksum, its ids,
  its deadline and the length of the payload), the payload, and for a checksum the four bytes of the
  CRC-32 of both, the most significant first; with a longer payload encoding raises \<^verbatim>\<open>HeaderError\<close>.
\<close>

theorem packet_encodes:
  assumes "wf_packet p"
  shows "\<exists>payload. build_payload p = Inr payload \<and>
    (if length payload < 2 ^ 32 then
       \<exists>mid cid header. pkt_message_id p = Some mid \<and> pkt_correlation_id p = Some cid \<and>
         pack_header (pkt_version p) (if checksum then pkt_flags p OR FLAG_HAS_TRAILER else pkt_flags p)
           mid cid (pkt_deadline_ms p) (int (length payload)) = Inr header \<and> length header = HEADER_SIZE \<and>
         encode p checksum =
           Inr (header @ payload @ (if checksum then be_bytes 4 (nat (crc32 (header @ payload))) else []))
     else encode p checksum = Inl HeaderError)"
proof -
  obtain payload where pl: "build_payload p = Inr payload" using build_payload_total [OF assms] by blast
  show ?thesis
  proof (cases "length payload < 2 ^ 32")
    case True
    with pl encode_parts [OF assms pl True, of checksum] show ?thesis
      by (simp add: wire_flags_def crc_trailer_def)
  next
    case False
    with pl encode_too_long [OF assms pl, of checksum] show ?thesis by simp
  qed
qed

theorem packet_encodes_witness:
  "\<exists>payload header. build_payload sample_packet = Inr payload \<and> length payload = 47 \<and>
     pack_header 0x0100 0x0101 (replicate 16 7) (replicate 16 0) 0 47 = Inr header \<and>
     encode sample_packet True = Inr (header @ payload @ be_bytes 4 (nat (crc32 (header @ payload))))"
proof -
  obtain payload where pl: "build_payload sample_packet = Inr payload" "length payload = 47"
    using sample_payload by blast
  have f: "pkt_version sample_packet = 0x0100" "pkt_flags sample_packet OR FLAG_HAS_TRAILER = 0x0101"
    "pkt_deadline_ms sample_packet = 0" "pkt_message_id sample_packet = Some (replicate 16 7)"
    "pkt_correlation_id sample_packet = Some (replicate 16 0)"
    by (simp_all add: sample_packet_def default_packet_def)
  from packet_encodes [OF sample_wf, of True] pl show ?thesis by (auto simp: f)
qed

text \<open>
  C10. Whatever single byte of a checksummed packet is changed, header, payload or trailer, and
  whatever the packet's size, decoding raises \<^verbatim>\<open>HeaderError\<close>, \<^verbatim>\<open>VersionMismatchError\<close> or \<^verbatim>\<open>ChecksumError\<close>
  instead of returning a view.
\<close>

theorem packet_corruption_detected:
  assumes "encode p True = Inr bs" "i < length bs" "b \<noteq> bs ! i"
  shows "decode (bs[i := b]) \<in> {Inl HeaderError, Inl VersionMismatchError, Inl ChecksumError}"
  using assms by (rule corrupt_checksummed)

theorem packet_corruption_detected_witness:
  "\<exists>bs b. encode sample_packet True = Inr bs \<and> 70 < length bs \<and> b \<noteq> bs ! 70 \<and>
     decode (bs[70 := b]) \<in> {Inl HeaderError, Inl VersionMismatchError, Inl ChecksumError}"
proof -
  obtain bs where bs: "encode sample_packet True = Inr bs" "length bs = 107"
    by (rule sample_encodes [of True]) simp
  have ne: "bs ! 70 + 1 \<noteq> bs ! 70" and i: "70 < length bs" using bs(2) by simp_all
  show ?thesis
    using bs(1) i ne packet_corruption_detected [OF bs(1) i ne] by blast
qed

text \<open>
  C27. A packet cut short after \<open>k\<close> bytes, \<open>n\<close> being its payload length: a cut in the header or in
  the payload raises \<^verbatim>\<open>TruncatedPacketError\<close>; a cut inside the trailer raises \<^verbatim>\<open>struct.error\<close>, which
  is not an exception of the library; and a packet whose whole trailer was cut off is accepted
  without any check, although its header says that it has one: the view has the packet's version,
  ids, deadline, operation and operands, and the flag of the missing trailer. (For packets within the
  size limit with operands of the core kinds.)
\<close>

theorem packet_truncation:
  assumes enc: "encode p checksum = Inr bs" and core: "core_operands p" and size: "int (length bs) \<le> MAX_PACKET_SIZE"
    and k: "k < length bs" and n: "n = length bs - (if checksum then 60 else 56)"
  shows "if k < 56 + n then decode (take k bs) = Inl TruncatedPacketError
    else if k > 56 + n then decode (take k bs) = Inl StructError
    else \<exists>v. decode (take k bs) = Inr v \<and> view_raw v = take k bs \<and> view_version v = pkt_version p \<and>
      view_flags v = pkt_flags p OR FLAG_HAS_TRAILER \<and>
      Some (view_message_id v) = pkt_message_id p \<and> Some (view_correlation_id v) = pkt_correlation_id p \<and>
      view_deadline_ms v = pkt_deadline_ms p \<and> view_operation v = pkt_operation p AND 0xFF \<and>
      view_symbols v = pkt_symbols p"
proof (cases "k = 56 + n")
  case True
  have checksum: "checksum" using True k n by (auto split: if_splits)
  then have "take k bs = take (length bs - 4) bs" using True n encode_length [OF enc] by simp
  with decode_trailer_cut [OF _ core size] enc checksum True show ?thesis by simp
next
  case False
  with decode_cut [OF enc size k n] show ?thesis by simp
qed

theorem packet_truncation_witness:
  "\<exists>bs v. encode sample_packet True = Inr bs \<and> decode (take 60 bs) = Inl TruncatedPacketError \<and>
     decode (take 105 bs) = Inl StructError \<and> decode (take 103 bs) = Inr v \<and>
     view_flags v = 0x0101 \<and> view_operation v = 11 \<and>
     view_symbols v = [Symbol S_U8 (VInt 7), Symbol S_BOOL (VBool True)]"
proof -
  obtain bs where bs: "encode sample_packet True = Inr bs" "int (length bs) \<le> MAX_PACKET_SIZE"
    "length bs = 107" by (rule sample_encodes [of True]) simp
  note t = packet_truncation [OF bs(1) sample_core(1) bs(2), of _ 47]
  have "pkt_flags sample_packet OR FLAG_HAS_TRAILER = 0x0101" by (simp add: sample_packet_def default_packet_def)
  with t [of 60] t [of 105] t [of 103] bs(1,3) show ?thesis by (auto simp: sample_fields)
qed

text \<open>
  C26. Decoding any byte string returns: either a view whose header has the supported version
  and a payload that fits in the buffer, whose core operands are all well-formed with no
  vendor tag among them, or one of seven exceptions, three of which (\<^verbatim>\<open>struct.error\<close>,
  \<^verbatim>\<open>UnicodeDecodeError\<close> and, for the operands, \<^verbatim>\<open>SymbolError\<close>) are not decoding errors of the library.
\<close>

theorem decode_safe:
  "case decode raw of
     Inl e \<Rightarrow> e \<in> {TruncatedPacketError, HeaderError, VersionMismatchError, ChecksumError,
                   StructError, SymbolError, UnicodeDecodeError}
   | Inr v \<Rightarrow> view_raw v = raw \<and> view_version v \<in> SUPPORTED_VERSIONS \<and>
       int HEADER_SIZE + view_payload_length v \<le> int (length raw) \<and>
       view_payload_length v \<le> MAX_TLV_VALUE_SIZE \<and>
       list_all (\<lambda>s. wf_symbol s \<and> \<not> is_vendor_tag (sym_tag s)) (view_symbols v)"
proof (cases "decode raw")
  case (Inl e)
  have "e \<in> insert HeaderError decoder_errors" if "view_init raw HEADER_SIZE pe = Inl e" for pe
    using view_init_outcome [of raw HEADER_SIZE pe] that by simp
  with decode_Inl [OF Inl] Inl show ?thesis by (auto simp: decoder_errors_def)
next
  case (Inr v)
  note d = decode_Inr [OF Inr]
  from d(4) obtain pe where "view_init raw HEADER_SIZE pe = Inr v" by blast
  with view_init_outcome [of raw HEADER_SIZE pe]
  have v: "view_raw v = raw" "unpack_header (slice raw 0 HEADER_SIZE) = Inr (view_hdr v)"
    "list_all (\<lambda>s. wf_symbol s \<and> \<not> is_vendor_tag (sym_tag s)) (view_symbols v)" by simp_all
  have "unpack_header raw = Inr (view_hdr v)" using v(2) d(1) by (simp add: unpack_header_slice)
  then have "view_version v \<in> SUPPORTED_VERSIONS" "view_payload_length v = unpack_u (slice raw 44 48)"
    using unpack_header_fields by (auto simp: view_version_def view_payload_length_def)
  moreover have "unpack_u (slice raw 44 48) \<le> MAX_TLV_VALUE_SIZE"
    using d(2) by (simp add: validate_header_Inr slice_slice)
  ultimately show ?thesis using Inr v d(3) by simp
qed

end
