(* ===== verification/Streaming.thy ===== *)
theory Streaming
  imports Codec_Api
begin

text \<open>
  \<^verbatim>\<open>aicl/bin/streaming.py\<close>: the incremental decoder that cuts packets out of a byte stream.
  Shown: however a stream of packets is cut into chunks, the decoder hands out the packets in
  order, none twice, and keeps the bytes of those it has not handed out, which are those still
  incomplete or beyond the limit of packets per call; a packet whose trailer is wrong makes every
  later call raise the same exception; and a packet with the flag that encryption and the
  trailer share, sent without a trailer, is held back.
\<close>

section \<open>The decoder\<close>

record streaming_decoder =
  sd_buf :: bytes
  sd_max_per_feed :: int

definition streaming_init :: "int \<Rightarrow> streaming_decoder" where
  "streaming_init max_packets_per_feed = \<lparr>sd_buf = [], sd_max_per_feed = max_packets_per_feed\<rparr>"

text \<open>\<^verbatim>\<open>buf.find(b"AICL", scan)\<close>.\<close>

function find_magic :: "bytes \<Rightarrow> nat \<Rightarrow> nat option" where
  "find_magic buf scan =
     (if scan + 4 > length buf then None
      else if slice buf scan (scan + 4) = MAGIC then Some scan
      else find_magic buf (scan + 1))"
  by pat_completeness auto
termination by (relation "measure (\<lambda>(buf, scan). length buf - scan)") auto

declare find_magic.simps [simp del]

lemma find_magic_ge: "find_magic buf scan = Some i \<Longrightarrow> scan \<le> i"
  by (induction buf scan rule: find_magic.induct)
    (subst (asm) (2) find_magic.simps, auto split: if_splits)

text \<open>
  The loop of \<^verbatim>\<open>feed\<close>: the results so far, the start of the first incomplete packet (\<^verbatim>\<open>-1\<close> in the
  source when there is none) and the end of the last packet consumed. A failing
  \<^verbatim>\<open>validate_header\<close> is caught and skips one byte; a failing \<^verbatim>\<open>decode\<close> is not caught.
\<close>

function feed_loop ::
  "bytes \<Rightarrow> int \<Rightarrow> nat \<Rightarrow> packet_view list \<Rightarrow> nat \<Rightarrow> (packet_view list \<times> nat option \<times> nat) res" where
  "feed_loop buf max_per scan results last_consumed =
     (if scan + HEADER_SIZE \<le> length buf \<and> int (length results) < max_per then
        (case find_magic buf scan of
           None \<Rightarrow> Inr (results, None, last_consumed)
         | Some idx \<Rightarrow>
             if idx + HEADER_SIZE > length buf then Inr (results, None, last_consumed)
             else
               (case validate_header (slice buf idx (idx + HEADER_SIZE)) of
                  Inl _ \<Rightarrow> feed_loop buf max_per (idx + 1) results last_consumed
                | Inr _ \<Rightarrow>
                    (let payload_length = unpack_u (slice buf (idx + 44) (idx + 48));
                         flags = unpack_u (slice buf (idx + 6) (idx + 8));
                         pkt_end = idx + HEADER_SIZE + nat payload_length
                           + (if flags AND 0x0100 \<noteq> 0 then 4 else 0)
                     in if length buf < pkt_end then Inr (results, Some idx, last_consumed)
                        else
                          (case decode (slice buf idx pkt_end) of
                             Inl e \<Rightarrow> Inl e
                           | Inr v \<Rightarrow> feed_loop buf max_per pkt_end (results @ [v]) pkt_end))))
      else Inr (results, None, last_consumed))"
  by pat_completeness auto
termination
  by (relation "measure (\<lambda>(buf, m, scan, r, l). length buf - scan)") (auto dest!: find_magic_ge)

declare feed_loop.simps [simp del]

definition feed :: "streaming_decoder \<Rightarrow> bytes \<Rightarrow> streaming_decoder \<times> packet_view list res" where
  "feed self data =
     (let buf = sd_buf self @ data; self' = self\<lparr>sd_buf := buf\<rparr> in
      case feed_loop buf (sd_max_per_feed self) 0 [] 0 of
        Inl e \<Rightarrow> (self', Inl e)
      | Inr (results, first_incomplete, last_consumed) \<Rightarrow>
          (case first_incomplete of
             Some i \<Rightarrow> (self'\<lparr>sd_buf := drop i buf\<rparr>, Inr results)
           | None \<Rightarrow>
               if last_consumed > 0 then (self'\<lparr>sd_buf := drop last_consumed buf\<rparr>, Inr results)
               else (self', Inr results)))"

definition pending :: "streaming_decoder \<Rightarrow> nat" where
  "pending self = length (sd_buf self)"

definition clear :: "streaming_decoder \<Rightarrow> streaming_decoder" where
  "clear self = self\<lparr>sd_buf := []\<rparr>"

text \<open>Feeding chunk after chunk; the first exception ends the sequence.\<close>

primrec feed_all :: "streaming_decoder \<Rightarrow> bytes list \<Rightarrow> streaming_decoder \<times> packet_view list res" where
  "feed_all s [] = (s, Inr [])"
| "feed_all s (c # cs) =
     (case feed s c of
        (s', Inl e) \<Rightarrow> (s', Inl e)
      | (s', Inr vs) \<Rightarrow>
          (case feed_all s' cs of
             (s'', Inl e) \<Rightarrow> (s'', Inl e)
           | (s'', Inr ws) \<Rightarrow> (s'', Inr (vs @ ws))))"

section \<open>Frames\<close>

text \<open>A frame: bytes whose header is valid and that end where the decoder expects them to.\<close>

definition frame :: "bytes \<Rightarrow> bool" where
  "frame b \<longleftrightarrow> validate_header (slice b 0 HEADER_SIZE) = Inr () \<and>
     int (length b) = int HEADER_SIZE + unpack_u (slice b 44 48)
       + (if unpack_u (slice b 6 8) AND 0x0100 \<noteq> 0 then 4 else 0)"

lemma frame_length: "frame b \<Longrightarrow> HEADER_SIZE \<le> length b"
  using unpack_u_slice_range(1) [of b 44 48] by (auto simp: frame_def split: if_splits)

lemma find_magic_here: "slice buf i (i + 4) = MAGIC \<Longrightarrow> find_magic buf i = Some i"
  using length_slice [of buf i "i + 4"] length_MAGIC by (subst find_magic.simps) (auto simp: min_def split: if_splits)

lemma slice_at: "has_at buf i b \<Longrightarrow> c \<le> length b \<Longrightarrow> slice buf (i + a) (i + c) = slice b a c"
proof -
  assume "has_at buf i b" "c \<le> length b"
  then have "slice b a c = slice (slice buf i (i + length b)) a c" by (simp add: has_at_def)
  also have "\<dots> = slice buf (i + a) (i + c)" using \<open>c \<le> length b\<close> by (simp add: slice_slice)
  finally show ?thesis by simp
qed

lemma valid_magic: "validate_header h = Inr () \<Longrightarrow> slice h 0 4 = MAGIC"
  by (simp add: validate_header_Inr)

text \<open>One round of the loop where a frame stands.\<close>

lemma feed_loop_frame:
  assumes "frame b" "has_at buf i b" "int (length rs) < m"
  shows "feed_loop buf m i rs l =
    (case decode b of Inl e \<Rightarrow> Inl e | Inr v \<Rightarrow> feed_loop buf m (i + length b) (rs @ [v]) (i + length b))"
proof -
  note len = frame_length [OF assms(1)] has_at_bound [OF assms(2)]
  have sl: "slice buf i (i + 56) = slice b 0 56" "slice buf (i + 44) (i + 48) = slice b 44 48"
    "slice buf (i + 6) (i + 8) = slice b 6 8" "slice buf i (i + 4) = slice b 0 4"
    using slice_at [OF assms(2), of _ 0] slice_at [OF assms(2)] len(1) by (metis add_0_right, auto)
  have v: "validate_header (slice b 0 56) = Inr ()" and total: "int (length b) = 56 + unpack_u (slice b 44 48)
      + (if unpack_u (slice b 6 8) AND 0x0100 \<noteq> 0 then 4 else 0)"
    using assms(1) by (simp_all add: frame_def)
  have magic: "find_magic buf i = Some i"
    using valid_magic [OF v] sl(4) by (intro find_magic_here) (simp add: slice_slice)
  have pe: "i + 56 + nat (unpack_u (slice b 44 48)) + (if unpack_u (slice b 6 8) AND 0x0100 \<noteq> 0 then 4 else 0)
      = i + length b"
    using total unpack_u_slice_range(1) [of b 44 48] by (auto split: if_splits)
  have "slice buf i (i + length b) = b" using assms(2) by (simp add: has_at_def)
  with len assms(3) show ?thesis
    by (subst feed_loop.simps) (simp only: magic option.case sl v sum.case Let_def pe, simp)
qed

text \<open>The end of the buffer holds the beginning of a frame.\<close>

lemma feed_loop_partial:
  assumes "frame b" "k < length b" "has_at buf i (take k b)" "length buf = i + k"
  shows "\<exists>inc. feed_loop buf m i rs l = Inr (rs, inc, l) \<and> (inc = None \<or> inc = Some i)"
proof (cases "56 \<le> k \<and> int (length rs) < m")
  case True
  have sl: "slice buf (i + a) (i + c) = slice b a c" if "c \<le> k" for a c
  proof -
    have "slice buf (i + a) (i + c) = slice (take k b) a c"
      using that assms(2) by (intro slice_at [OF assms(3)]) simp
    also have "\<dots> = slice b a c" using that by (cases "a \<le> c") (simp_all add: slice_def take_drop min_def)
    finally show ?thesis .
  qed
  have v: "validate_header (slice b 0 56) = Inr ()" and total: "int (length b) = 56 + unpack_u (slice b 44 48)
      + (if unpack_u (slice b 6 8) AND 0x0100 \<noteq> 0 then 4 else 0)"
    using assms(1) by (simp_all add: frame_def)
  have magic: "find_magic buf i = Some i"
    using valid_magic [OF v] sl [of 4 0] True by (intro find_magic_here) (simp add: slice_slice)
  have "length buf < i + 56 + nat (unpack_u (slice b 44 48))
      + (if unpack_u (slice b 6 8) AND 0x0100 \<noteq> 0 then 4 else 0)"
    using total assms(2,4) unpack_u_slice_range(1) [of b 44 48] by (auto split: if_splits)
  then show ?thesis
    using True assms(4) sl [of 56 0] sl [of 48 44] sl [of 8 6] v
    by (subst feed_loop.simps) (simp add: magic Let_def del: of_nat_less_iff)
next
  case False
  then show ?thesis using assms(4) by (subst feed_loop.simps) auto
qed

definition good_frame :: "bytes \<Rightarrow> packet_view \<Rightarrow> bool" where
  "good_frame b v \<longleftrightarrow> frame b \<and> decode b = Inr v"

lemma good_frame_length: "good_frame b v \<Longrightarrow> 0 < length b"
  using frame_length [of b] by (auto simp: good_frame_def)

lemma feed_loop_frames:
  assumes "list_all2 good_frame bs vs" "has_at buf i (concat bs)" "int (length rs + length bs) \<le> m"
  shows "feed_loop buf m i rs l =
    feed_loop buf m (i + length (concat bs)) (rs @ vs) (if bs = [] then l else i + length (concat bs))"
  using assms
proof (induction bs vs arbitrary: i rs l rule: list_all2_induct)
  case (Cons b bs v vs)
  have at: "has_at buf i b" "has_at buf (i + length b) (concat bs)"
    using Cons.prems(1) by (simp_all add: wire_simps)
  have "feed_loop buf m i rs l = feed_loop buf m (i + length b) (rs @ [v]) (i + length b)"
    using Cons.hyps(1) Cons.prems(2) feed_loop_frame [OF _ at(1), of rs m l] by (simp add: good_frame_def)
  also have "\<dots> = feed_loop buf m (i + length b + length (concat bs)) ((rs @ [v]) @ vs)
      (if bs = [] then i + length b else i + length b + length (concat bs))"
    using at(2) Cons.prems(2) by (intro Cons.IH) simp_all
  finally show ?case by (cases "bs = []") (simp_all add: add.assoc)
qed simp

text \<open>What is left in the buffer: the beginning of a frame, possibly nothing.\<close>

definition frame_prefix :: "bytes \<Rightarrow> bool" where
  "frame_prefix t \<longleftrightarrow> t = [] \<or> (\<exists>b k. frame b \<and> k < length b \<and> t = take k b)"

lemma feed_frames:
  assumes fr: "list_all2 good_frame bs vs" and buf: "sd_buf s @ data = concat bs @ t"
    and t: "frame_prefix t" and m: "int (length bs) \<le> sd_max_per_feed s"
  shows "feed s data = (s\<lparr>sd_buf := t\<rparr>, Inr vs)"
proof -
  let ?buf = "sd_buf s @ data" and ?n = "length (concat bs)" and ?m = "sd_max_per_feed s"
  have tail: "\<exists>inc. feed_loop ?buf ?m ?n rs l = Inr (rs, inc, l) \<and> (inc = None \<or> inc = Some ?n)" for rs l
  proof (cases "t = []")
    case True
    then show ?thesis using buf by (subst feed_loop.simps) simp
  next
    case False
    then obtain b k where b: "frame b" "k < length b" "t = take k b" using t by (auto simp: frame_prefix_def)
    then show ?thesis
      using has_at_self [of "concat bs" t "[]"] buf by (intro feed_loop_partial [OF b(1,2)]) simp_all
  qed
  have "feed_loop ?buf ?m 0 [] 0 = feed_loop ?buf ?m ?n vs (if bs = [] then 0 else ?n)"
    using feed_loop_frames [OF fr, of ?buf 0 "[]" ?m 0] buf m by simp
  with tail [of vs "if bs = [] then 0 else ?n"] obtain inc where
    loop: "feed_loop ?buf ?m 0 [] 0 = Inr (vs, inc, if bs = [] then 0 else ?n)"
    and inc: "inc = None \<or> inc = Some ?n" by auto
  have pos: "0 < ?n" if "bs \<noteq> []"
    using that fr good_frame_length by (cases bs) (fastforce simp: list_all2_Cons1)+
  have "drop ?n ?buf = t" using buf by simp
  with inc pos loop [unfolded buf] show ?thesis
    by (cases "bs = []") (auto simp: feed_def buf Let_def)
qed

lemma prefix_split:
  "X @ Y = concat bs \<Longrightarrow>
     (\<exists>m t. m \<le> length bs \<and> X = concat (take m bs) @ t \<and> t @ Y = concat (drop m bs) \<and>
       (t = [] \<or> m < length bs \<and> length t < length (bs ! m) \<and> t = take (length t) (bs ! m)))"
proof (induction bs arbitrary: X)
  case (Cons b bs)
  show ?case
  proof (cases "length X < length b")
    case True
    then have "X = take (length X) b"
      using arg_cong [OF Cons.prems, of "take (length X)"] by simp
    with True Cons.prems show ?thesis by (intro exI [of _ 0] exI [of _ X]) simp
  next
    case False
    with Cons.prems obtain X' where X': "X = b @ X'" "X' @ Y = concat bs"
      by (auto simp: append_eq_append_conv2)
    from Cons.IH [OF X'(2)] obtain m t where "m \<le> length bs" "X' = concat (take m bs) @ t"
      "t @ Y = concat (drop m bs)"
      "t = [] \<or> m < length bs \<and> length t < length (bs ! m) \<and> t = take (length t) (bs ! m)" by blast
    with X'(1) show ?thesis by (intro exI [of _ "Suc m"] exI [of _ t]) simp
  qed
qed simp

text \<open>
  With more complete frames in the buffer than one call hands out, the others stay there for the
  calls to come.
\<close>

lemma feed_frames_max:
  assumes fr: "list_all2 good_frame bs vs" and buf: "sd_buf s @ data = concat bs @ t" and t: "frame_prefix t"
    and j: "j = nat (sd_max_per_feed s)"
  shows "feed s data = (s\<lparr>sd_buf := concat (drop j bs) @ t\<rparr>, Inr (take j vs))"
proof (cases "int (length bs) \<le> sd_max_per_feed s")
  case True
  then have "length bs \<le> j" "length vs \<le> j" using j list_all2_lengthD [OF fr] by simp_all
  with feed_frames [OF fr buf t True] show ?thesis by simp
next
  case False
  then have len: "j \<le> length bs" "length (take j bs) = j" using j by simp_all
  let ?buf = "sd_buf s @ data" and ?n = "length (concat (take j bs))" and ?m = "sd_max_per_feed s"
  have cut: "?buf = concat (take j bs) @ concat (drop j bs) @ t"
    using buf by (metis append.assoc append_take_drop_id concat_append)
  have fr': "list_all2 good_frame (take j bs) (take j vs)" using fr by (rule list_all2_takeI)
  have more: "int (length (take j vs)) \<ge> ?m" using list_all2_lengthD [OF fr] len(1) j by simp
  have "feed_loop ?buf ?m 0 [] 0 = feed_loop ?buf ?m ?n (take j vs) (if take j bs = [] then 0 else ?n)"
  proof (cases "j = 0")
    case True
    then show ?thesis by simp
  next
    case False
    then show ?thesis
      using feed_loop_frames [OF fr', of ?buf 0 "[]" ?m 0] cut len(2) j by simp
  qed
  then have loop: "feed_loop ?buf ?m 0 [] 0 = Inr (take j vs, None, if take j bs = [] then 0 else ?n)"
    using more by (subst (asm) (2) feed_loop.simps) simp
  have "0 < ?n" if "take j bs \<noteq> []"
    using that fr' good_frame_length by (cases "take j bs") (fastforce simp: list_all2_Cons1)+
  with loop [unfolded cut] show ?thesis
    by (cases "take j bs = []") (auto simp: feed_def cut Let_def)
qed

lemma prefix_split_frames:
  assumes "list_all2 good_frame bs vs" "X @ Y = concat bs"
  obtains m t where "m \<le> length bs" "X = concat (take m bs) @ t" "t @ Y = concat (drop m bs)" "frame_prefix t"
    "m = length bs \<or> length t < length (bs ! m)"
proof -
  from prefix_split [OF assms(2)] obtain m t where
    m: "m \<le> length bs" "X = concat (take m bs) @ t" "t @ Y = concat (drop m bs)"
    and t: "t = [] \<or> m < length bs \<and> length t < length (bs ! m) \<and> t = take (length t) (bs ! m)" by blast
  have good: "m < length bs \<Longrightarrow> good_frame (bs ! m) (vs ! m)" using assms(1) by (simp add: list_all2_conv_all_nth)
  have "frame_prefix t"
  proof (cases "t = []")
    case False
    with t good have k: "length t < length (bs ! m)" "t = take (length t) (bs ! m)" "frame (bs ! m)"
      by (auto simp: good_frame_def)
    then show ?thesis unfolding frame_prefix_def by blast
  qed (simp add: frame_prefix_def)
  moreover have "m = length bs \<or> length t < length (bs ! m)"
    using t m(1) good good_frame_length by fastforce
  ultimately show thesis using m that by blast
qed

text \<open>
  Feeding a part of the stream: what was handed out are the first frames, what is in the buffer
  are the bytes fed and not handed out; and as long as the frames are within the limit of a call,
  the buffer is less than a frame.
\<close>

lemma feed_all_part:
  assumes "list_all2 good_frame bs vs" "sd_buf s @ concat chunks @ rest = concat bs"
  shows "\<exists>k left. k \<le> length bs \<and> feed_all s chunks = (s\<lparr>sd_buf := left\<rparr>, Inr (take k vs)) \<and>
    left @ rest = concat (drop k bs) \<and>
    (chunks \<noteq> [] \<and> int (length bs) \<le> sd_max_per_feed s \<longrightarrow> k = length bs \<or> length left < length (bs ! k))"
  using assms
proof (induction chunks arbitrary: s bs vs)
  case Nil
  then show ?case by (intro exI [of _ 0] exI [of _ "sd_buf s"]) simp
next
  case (Cons c cs)
  from Cons.prems(2) have "(sd_buf s @ c) @ (concat cs @ rest) = concat bs" by simp
  from prefix_split_frames [OF Cons.prems(1) this] obtain m t where
    m: "m \<le> length bs" "sd_buf s @ c = concat (take m bs) @ t" "t @ concat cs @ rest = concat (drop m bs)"
    and t: "frame_prefix t" "m = length bs \<or> length t < length (bs ! m)" by blast
  define j where "j = nat (sd_max_per_feed s)"
  define n where "n = min j m"
  let ?s = "s\<lparr>sd_buf := concat (drop j (take m bs)) @ t\<rparr>"
  have fr: "list_all2 good_frame (take m bs) (take m vs)" "list_all2 good_frame (drop n bs) (drop n vs)"
    using Cons.prems(1) by (simp_all add: list_all2_takeI list_all2_dropI)
  have feed: "feed s c = (?s, Inr (take n vs))"
    using feed_frames_max [OF fr(1) m(2) t(1) j_def] by (simp add: n_def)
  have "drop j (take m bs) @ drop m bs = drop n bs"
  proof (cases "j \<le> m")
    case True
    then show ?thesis by (metis append_take_drop_id drop_append drop_drop le_add_diff_inverse2 min.absorb1
        min.orderE n_def take_take drop_take add.commute append_same_eq)
  qed (simp add: n_def)
  then have "sd_buf ?s @ concat cs @ rest = concat (drop n bs)"
    using m(3) by (metis append.assoc concat_append simps(1) select_convs(1) streaming_decoder.surjective
        streaming_decoder.update_convs(1))
  from Cons.IH [OF fr(2) this] obtain k left where
    k: "k \<le> length (drop n bs)" "feed_all ?s cs = (?s\<lparr>sd_buf := left\<rparr>, Inr (take k (drop n vs)))"
    "left @ rest = concat (drop k (drop n bs))"
    and prompt: "cs \<noteq> [] \<and> int (length (drop n bs)) \<le> sd_max_per_feed ?s \<longrightarrow>
      k = length (drop n bs) \<or> length left < length (drop n bs ! k)" by blast
  have out: "feed_all s (c # cs) = (s\<lparr>sd_buf := left\<rparr>, Inr (take (n + k) vs))"
    using feed k(2) by (simp add: take_add)
  have "n + k = length bs \<or> length left < length (bs ! (n + k))" if "int (length bs) \<le> sd_max_per_feed s"
  proof (cases "cs = []")
    case True
    have nm: "n = m" and none: "drop j (take m bs) = []" using that m(1) by (simp_all add: n_def j_def)
    from k(2) True have "?s = s\<lparr>sd_buf := left\<rparr>" and empty: "take k (drop n vs) = []" by simp_all
    from arg_cong [OF this(1), of sd_buf] have "left = concat (drop j (take m bs)) @ t" by simp
    then have "left = t" by (simp only: none concat.simps append_Nil)
    moreover have "k = 0 \<or> m = length bs" using empty nm list_all2_lengthD [OF Cons.prems(1)] m(1) by auto
    ultimately show ?thesis using k(1) t(2) m(1) nm by auto
  next
    case False
    with prompt that k(1) m(1) show ?thesis by (auto simp: n_def)
  qed
  with out k(1,3) m(1) show ?case
    by (intro exI [of _ "n + k"] exI [of _ left]) (auto simp: n_def add.commute)
qed

lemma feed_all_append:
  "feed_all s xs = (s', Inr vs) \<Longrightarrow> feed_all s' ys = (s'', Inr ws) \<Longrightarrow> feed_all s (xs @ ys) = (s'', Inr (vs @ ws))"
  by (induction xs arbitrary: s vs) (auto split: prod.splits sum.splits)

text \<open>Calls with no new bytes hand out what an earlier call left over.\<close>

lemma feed_all_drain:
  assumes "list_all2 good_frame bs vs" "sd_buf s @ c = concat bs"
    "int (length bs) \<le> sd_max_per_feed s * (1 + int j)"
  shows "feed_all s (c # replicate j []) = (s\<lparr>sd_buf := []\<rparr>, Inr vs)"
  using assms
proof (induction j arbitrary: s c bs vs)
  case 0
  then show ?case using feed_frames [OF 0(1), of s c "[]"] by (simp add: frame_prefix_def)
next
  case (Suc j)
  define n where "n = nat (sd_max_per_feed s)"
  let ?s = "s\<lparr>sd_buf := concat (drop n bs)\<rparr>"
  have feed: "feed s c = (?s, Inr (take n vs))"
    using feed_frames_max [OF Suc.prems(1), of s c "[]" n] Suc.prems(2) by (simp add: frame_prefix_def n_def)
  have "int (length (drop n bs)) \<le> sd_max_per_feed s * (1 + int j)"
  proof (cases "n \<le> length bs \<and> 0 \<le> sd_max_per_feed s")
    case True
    then show ?thesis using Suc.prems(3) by (simp add: n_def algebra_simps of_nat_diff)
  next
    case False
    moreover have "0 \<le> sd_max_per_feed s"
      using Suc.prems(3) by (smt (verit) mult_neg_pos of_nat_0_le_iff)
    ultimately show ?thesis by simp
  qed
  from Suc.IH [OF list_all2_dropI [OF Suc.prems(1)], of ?s "[]" n] this
  have "feed_all ?s ([] # replicate j []) = (?s\<lparr>sd_buf := []\<rparr>, Inr (drop n vs))" by simp
  with feed show ?case by simp
qed

text \<open>One frame per call.\<close>

lemma feed_each:
  assumes "list_all2 good_frame bs vs" "sd_buf s = []" "1 \<le> sd_max_per_feed s"
  shows "feed_all s bs = (s, Inr vs)"
  using assms(1)
proof (induction bs vs rule: list_all2_induct)
  case (Cons b bs v vs)
  have "feed s b = (s\<lparr>sd_buf := []\<rparr>, Inr [v])"
    using feed_frames [of "[b]" "[v]" s b "[]"] Cons.hyps(1) assms(2,3) by (simp add: frame_prefix_def)
  moreover have "s\<lparr>sd_buf := []\<rparr> = s" using assms(2) by simp
  ultimately show ?case using Cons.IH by simp
qed simp

section \<open>Encoded packets are frames\<close>

text \<open>
  The decoder takes the trailer to be present exactly when flag 0x0100 is set, so a packet sent
  without a checksum must not have that flag.
\<close>

definition stream_packet :: "packet \<times> bool \<Rightarrow> bytes \<Rightarrow> bool" where
  "stream_packet = (\<lambda>(p, checksum) b. encode p checksum = Inr b \<and> core_operands p \<and>
     int (length b) \<le> MAX_PACKET_SIZE \<and> (checksum \<or> pkt_flags p AND FLAG_HAS_TRAILER = 0))"

lemma or_trailer_bit: "(f OR 0x0100) AND 0x0100 = (0x0100 :: int)"
  by (simp add: bit_eq_iff bit_and_iff bit_or_iff) blast

lemma stream_packet_frame:
  assumes "stream_packet (p, checksum) b"
  shows "\<exists>v. good_frame b v"
proof -
  have enc: "encode p checksum = Inr b" "core_operands p" "int (length b) \<le> MAX_PACKET_SIZE"
    and fl: "checksum \<or> pkt_flags p AND FLAG_HAS_TRAILER = 0"
    using assms by (auto simp: stream_packet_def)
  from decode_encoded [OF enc] obtain v where v: "decode b = Inr v"
    and f: "hdr_flags (view_hdr v) = wire_flags p checksum" by auto
  from enc(1) obtain n where n: "length b = 56 + n + (if checksum then 4 else 0)"
    "unpack_u (slice b 44 48) = int n"
    "validate_header (slice b 0 56) = (if int n > MAX_TLV_VALUE_SIZE then Inl HeaderError else Inr ())"
    by (rule encoded_layout)
  have ok: "validate_header (slice b 0 56) = Inr ()" using n(1,3) enc(3) by simp
  have "unpack_u (slice b 6 8) = wire_flags p checksum"
  proof -
    obtain pe where "view_init b HEADER_SIZE pe = Inr v" using decode_Inr(4) [OF v] by blast
    with view_init_outcome [of b HEADER_SIZE pe] have "unpack_header (slice b 0 56) = Inr (view_hdr v)" by simp
    then have "hdr_flags (view_hdr v) = unpack_u (slice b 6 8)"
      using n(1) unpack_header_fields [of b "view_hdr v"] by (simp add: unpack_header_slice)
    with f show ?thesis by simp
  qed
  then have "frame b" using ok n fl by (auto simp: frame_def wire_flags_def or_trailer_bit)
  with v show ?thesis by (auto simp: good_frame_def)
qed


lemma unpack_flags_encoded:
  assumes "encode p checksum = Inr b"
  shows "unpack_u (slice b 6 8) = wire_flags p checksum"
proof -
  from assms obtain payload mid cid header trailer where
    h: "pack_header (pkt_version p) (wire_flags p checksum) mid cid (pkt_deadline_ms p)
       (int (length payload)) = Inr header" and b: "b = header @ payload @ trailer" by (rule encode_shape)
  from h obtain fb where "has_at header 6 fb" "pack_u 2 (wire_flags p checksum) = Inr fb"
    by (rule pack_header_layout)
  from unpack_u_layout [OF this] show ?thesis using b pack_header_length [OF h] by simp
qed

text \<open>Without a checksum but with the shared flag, an encoded packet is the beginning of a longer frame.\<close>

lemma unchecked_flag_prefix:
  assumes "encode p False = Inr b" "pkt_flags p AND FLAG_HAS_TRAILER \<noteq> 0" "int (length b) \<le> MAX_PACKET_SIZE"
  shows "frame_prefix b"
proof -
  from assms(1) obtain n where n: "length b = 56 + n" "unpack_u (slice b 44 48) = int n"
    "validate_header (slice b 0 56) = (if int n > MAX_TLV_VALUE_SIZE then Inl HeaderError else Inr ())"
    by (rule encoded_layout) simp
  have "frame (b @ [0, 0, 0, 0])"
    using n assms(2,3) unpack_flags_encoded [OF assms(1)] by (simp add: frame_def wire_flags_def)
  moreover have "b = take (length b) (b @ [0, 0, 0, 0])" "length b < length (b @ [0, 0, 0, 0 :: byte])" by simp_all
  ultimately show ?thesis unfolding frame_prefix_def by blast
qed

lemma stream_frames:
  assumes "list_all2 stream_packet ps bs"
  obtains vs where "list_all2 good_frame bs vs" "map decode bs = map Inr vs"
proof -
  have "\<exists>vs. list_all2 good_frame bs vs"
    using assms stream_packet_frame
    by (induction ps bs rule: list_all2_induct) (auto, metis list_all2_Cons surj_pair)
  then obtain vs where vs: "list_all2 good_frame bs vs" by blast
  have "map decode bs = map Inr vs"
    using vs by (induction rule: list_all2_induct) (auto simp: good_frame_def)
  with vs show thesis by (rule that)
qed

section \<open>Properties\<close>

text \<open>
  C11. A stream of encoded packets, each with a checksum or without the flag 0x0100, within the size
  limit and with operands of the core kinds, cut into chunks anywhere (within headers, within
  payloads, many packets in a chunk or one packet over many chunks). After any part of the stream the
  incremental decoder has handed out exactly the views \<^verbatim>\<open>decode\<close> gives of the first packets, in order,
  and its buffer holds exactly the other bytes fed; if the packets are no more than one call hands
  out, these bytes are less than a packet. Once the whole stream is fed, further calls without
  bytes hand out what the limit per call held back: after \<open>j\<close> of them everything, if there are no
  more packets than \<open>j + 1\<close> calls hand out, and nothing stays in the buffer.
\<close>

theorem stream_chunking:
  assumes "list_all2 stream_packet ps bs" "concat chunks @ rest = concat bs"
  shows "\<exists>vs k left. map decode bs = map Inr vs \<and> k \<le> length bs \<and>
    feed_all (streaming_init m) chunks = (\<lparr>sd_buf = left, sd_max_per_feed = m\<rparr>, Inr (take k vs)) \<and>
    left @ rest = concat (drop k bs) \<and>
    (chunks \<noteq> [] \<and> int (length bs) \<le> m \<longrightarrow> k = length bs \<or> length left < length (bs ! k)) \<and>
    (rest = [] \<and> int (length bs) \<le> m * (1 + int j) \<longrightarrow>
      feed_all (streaming_init m) (chunks @ replicate j []) = (streaming_init m, Inr vs))"
proof -
  obtain vs where vs: "list_all2 good_frame bs vs" "map decode bs = map Inr vs"
    using stream_frames [OF assms(1)] .
  have init: "sd_buf (streaming_init m) = []" "sd_max_per_feed (streaming_init m) = m"
    "(streaming_init m)\<lparr>sd_buf := left\<rparr> = \<lparr>sd_buf = left, sd_max_per_feed = m\<rparr>" for left
    by (simp_all add: streaming_init_def)
  have "feed_all (streaming_init m) (chunks @ replicate j []) = (streaming_init m, Inr vs)"
    if end_: "rest = []" and few: "int (length bs) \<le> m * (1 + int j)"
  proof (cases chunks rule: rev_cases)
    case Nil
    then have "bs = []" using assms(2) end_ vs(1) good_frame_length by (cases bs) (fastforce simp: list_all2_Cons1)+
    then have "feed_all (streaming_init m) (replicate j []) = (streaming_init m, Inr [])"
      by (induction j) (use feed_frames_max [of "[]" "[]" "streaming_init m" "[]" "[]"] in
        \<open>simp_all add: frame_prefix_def streaming_init_def\<close>)
    with Nil \<open>bs = []\<close> vs(1) show ?thesis by simp
  next
    case (snoc front c)
    then have "sd_buf (streaming_init m) @ concat front @ c = concat bs" using assms(2) end_ init(1) by simp
    from feed_all_part [OF vs(1) this] obtain k left where
      k: "feed_all (streaming_init m) front = ((streaming_init m)\<lparr>sd_buf := left\<rparr>, Inr (take k vs))"
      "left @ c = concat (drop k bs)" by blast
    have "int (length (drop k bs)) \<le> m * (1 + int j)" using few by simp
    with feed_all_drain [OF list_all2_dropI [OF vs(1)], of "(streaming_init m)\<lparr>sd_buf := left\<rparr>" c k j] k(2) init
    have "feed_all ((streaming_init m)\<lparr>sd_buf := left\<rparr>) (c # replicate j []) = (streaming_init m, Inr (drop k vs))"
      by (simp add: streaming_init_def)
    from feed_all_append [OF k(1) this] snoc show ?thesis by simp
  qed
  moreover have "sd_buf (streaming_init m) @ concat chunks @ rest = concat bs" using assms(2) init(1) by simp
  from feed_all_part [OF vs(1) this] obtain k left where
    "k \<le> length bs" "feed_all (streaming_init m) chunks = (\<lparr>sd_buf = left, sd_max_per_feed = m\<rparr>, Inr (take k vs))"
    "left @ rest = concat (drop k bs)"
    "chunks \<noteq> [] \<and> int (length bs) \<le> m \<longrightarrow> k = length bs \<or> length left < length (bs ! k)"
    unfolding init by blast
  ultimately show ?thesis using vs(2) by blast
qed

lemma sample_stream_packet:
  obtains b where "stream_packet (sample_packet, checksum) b" "encode sample_packet checksum = Inr b"
    "length b = 103 + (if checksum then 4 else 0)"
proof -
  obtain b where b: "encode sample_packet checksum = Inr b" "int (length b) \<le> MAX_PACKET_SIZE"
    "length b = 103 + (if checksum then 4 else 0)" by (rule sample_encodes)
  have "pkt_flags sample_packet AND FLAG_HAS_TRAILER = 0"
    by (simp add: sample_packet_def default_packet_def)
  with b sample_core(1) show thesis by (intro that [of b]) (simp_all add: stream_packet_def)
qed

theorem stream_chunking_witness:
  "\<exists>a b vs. encode sample_packet True = Inr a \<and> encode sample_packet False = Inr b \<and>
     map decode [a, b] = map Inr vs \<and>
     feed_all (streaming_init 256) [take 30 a, drop 30 a @ take 70 b, drop 70 b] = (streaming_init 256, Inr vs) \<and>
     feed_all (streaming_init 1) [a @ b, []] = (streaming_init 1, Inr vs)"
proof -
  obtain a b where ab: "stream_packet (sample_packet, True) a" "encode sample_packet True = Inr a"
    "stream_packet (sample_packet, False) b" "encode sample_packet False = Inr b"
    using sample_stream_packet by metis
  then have st: "list_all2 stream_packet [(sample_packet, True), (sample_packet, False)] [a, b]" by simp
  note few = stream_chunking [OF st, of "[take 30 a, drop 30 a @ take 70 b, drop 70 b]" "[]" 256 0]
  have "concat [take 30 a, drop 30 a @ take 70 b, drop 70 b] @ [] = concat [a, b]" by simp
  from few [OF this] obtain vs where vs: "map decode [a, b] = map Inr vs"
    "feed_all (streaming_init 256) [take 30 a, drop 30 a @ take 70 b, drop 70 b] = (streaming_init 256, Inr vs)"
    by (elim exE conjE) (simp del: feed_all.simps list.map)
  note one = stream_chunking [OF st, of "[a @ b]" "[]" 1 1]
  have "concat [a @ b] @ [] = concat [a, b]" by simp
  from one [OF this] obtain ws where ws: "map decode [a, b] = map Inr ws"
    "feed_all (streaming_init 1) [a @ b, []] = (streaming_init 1, Inr ws)"
    by (elim exE conjE) (simp del: feed_all.simps list.map)
  have "map Inr vs = (map Inr ws :: packet_view res list)" using vs(1) ws(1) by (rule trans [OF sym])
  then have "vs = ws" by (simp add: inj_map_eq_map)
  with vs ws ab show ?thesis by blast
qed



text \<open>
  The flag 0x0100 means both \<^verbatim>\<open>ENCRYPTED\<close> and \<^verbatim>\<open>HAS_TRAILER\<close>: a packet with that flag encoded without
  a checksum decodes on its own, but the incremental decoder waits for four more bytes and
  hands out nothing, so the next packet's first bytes are taken for its trailer.
\<close>

theorem stream_flag_stalls:
  assumes "encode p False = Inr b" "core_operands p" "int (length b) \<le> MAX_PACKET_SIZE"
    and "pkt_flags p AND FLAG_ENCRYPTED \<noteq> 0" "0 \<le> m"
  shows "\<exists>v. decode b = Inr v \<and> feed (streaming_init m) b = (\<lparr>sd_buf = b, sd_max_per_feed = m\<rparr>, Inr [])"
proof -
  from decode_encoded [OF assms(1-3)] obtain v where "decode b = Inr v" by blast
  moreover have "frame_prefix b" using assms by (intro unchecked_flag_prefix)
  then have "feed (streaming_init m) b = ((streaming_init m)\<lparr>sd_buf := b\<rparr>, Inr [])"
    using assms(5) by (intro feed_frames [where bs = "[]"]) (simp_all add: streaming_init_def)
  ultimately show ?thesis by (simp add: streaming_init_def)
qed

theorem stream_flag_stalls_witness:
  "\<exists>b v. encode (sample_packet\<lparr>pkt_flags := 0x0101\<rparr>) False = Inr b \<and> decode b = Inr v \<and>
     feed (streaming_init 256) b = (\<lparr>sd_buf = b, sd_max_per_feed = 256\<rparr>, Inr [])"
proof -
  let ?p = "sample_packet\<lparr>pkt_flags := 0x0101\<rparr>"
  have p: "build_payload ?p = build_payload sample_packet" "wf_packet ?p" "core_operands ?p"
    using sample_wf sample_core(1)
    by (simp_all add: build_payload_def append_extensions_def ext_fields_def wf_packet_def wf_records_def
        core_operands_def u_ok_def)
  obtain pl where pl: "build_payload ?p = Inr pl" "length pl = 47" using sample_payload p(1) by auto
  from encode_total [OF p(2) pl(1), of False] pl(2) obtain b where
    b: "encode ?p False = Inr b" "length b = 103" by auto
  from stream_flag_stalls [OF b(1) p(3), of 256] b show ?thesis by auto
qed

end
