(* ===== verification/Ring.thy ===== *)
theory Ring
  imports Prelude
begin

text \<open>
  \<^verbatim>\<open>aicl/transport/shared_memory_ring.py\<close>: the single-producer, single-consumer ring in shared
  memory, byte for byte. The segment is a byte string that both ends see; each end has its own
  cursor. \<open>ring_step\<close> lets producer and consumer run at the same time, one memory access at a time,
  in any interleaving. Shown: no message is lost, duplicated, reordered or torn, at most
  \<open>capacity\<close> messages are in flight; the operations of the class are runs of that relation that
  answer, call by call, as a plain list bounded by the capacity does; and the waiting calls end as
  the clock and the other end say.
\<close>

section \<open>Memory\<close>

text \<open>\<^verbatim>\<open>buf[i] = b\<close>, \<^verbatim>\<open>buf[i:i+len(data)] = data\<close> on a memoryview, and \<^verbatim>\<open>struct.pack_into\<close>.\<close>

definition buf_set :: "bytes \<Rightarrow> nat \<Rightarrow> byte \<Rightarrow> bytes res" where
  "buf_set buf i b = (if i < length buf then Inr (buf[i := b]) else Inl PyIndexError)"

definition splice :: "bytes \<Rightarrow> nat \<Rightarrow> bytes \<Rightarrow> bytes" where
  "splice buf i data = take i buf @ data @ drop (i + length data) buf"

definition buf_write :: "exn \<Rightarrow> bytes \<Rightarrow> nat \<Rightarrow> bytes \<Rightarrow> bytes res" where
  "buf_write e buf i data =
     (if i + length data \<le> length buf then Inr (splice buf i data) else Inl e)"

section \<open>The ring\<close>

abbreviation (input) RING_HEADER_SIZE :: nat where "RING_HEADER_SIZE \<equiv> 20"
abbreviation (input) SLOT_USED_OFFSET :: nat where "SLOT_USED_OFFSET \<equiv> 0"
abbreviation (input) SLOT_LEN_OFFSET :: nat where "SLOT_LEN_OFFSET \<equiv> 1"
abbreviation (input) SLOT_DATA_OFFSET :: nat where "SLOT_DATA_OFFSET \<equiv> 5"

definition RING_MAGIC :: bytes where
  "RING_MAGIC = [0x53, 0x48, 0x4D, 0x52]"

record ring =
  capacity :: nat
  slot_size :: nat
  ring_owner :: bool
  write_idx :: nat
  read_idx :: nat

definition ring_init :: "nat \<Rightarrow> nat \<Rightarrow> bool \<Rightarrow> ring" where
  "ring_init cap ssz owner =
     \<lparr>capacity = cap, slot_size = ssz, ring_owner = owner, write_idx = 0, read_idx = 0\<rparr>"

definition slot_offset :: "nat \<Rightarrow> nat \<Rightarrow> nat \<Rightarrow> nat res" where
  "slot_offset cap ssz idx =
     (if cap = 0 then Inl ZeroDivisionError else Inr (RING_HEADER_SIZE + (idx mod cap) * ssz))"

definition ring_slot :: "ring \<Rightarrow> nat \<Rightarrow> nat res" where
  "ring_slot self idx = slot_offset (capacity self) (slot_size self) idx"

text \<open>
  \<^verbatim>\<open>create\<close>: the argument \<open>shm\<close> is the segment the operating system made, of the requested size
  or more. The loop clears the \<^verbatim>\<open>used\<close> byte of slot after slot.
\<close>

primrec clear_slots :: "nat \<Rightarrow> nat \<Rightarrow> nat list \<Rightarrow> bytes \<Rightarrow> bytes res" where
  "clear_slots cap ssz [] buf = Inr buf"
| "clear_slots cap ssz (i # is) buf =
     bindr (slot_offset cap ssz i) (\<lambda>off.
     bindr (buf_set buf (off + SLOT_USED_OFFSET) 0) (clear_slots cap ssz is))"

definition ring_create :: "bytes \<Rightarrow> nat \<Rightarrow> nat \<Rightarrow> (ring \<times> bytes) res" where
  "ring_create shm cap ssz =
     bindr (pack_u 8 (int cap)) (\<lambda>c. bindr (pack_u 8 (int ssz)) (\<lambda>s.
     bindr (buf_write StructError shm 0 (RING_MAGIC @ c @ s)) (\<lambda>buf.
     bindr (clear_slots cap ssz [0..<cap] buf) (\<lambda>buf'. Inr (ring_init cap ssz True, buf')))))"

text \<open>
  \<^verbatim>\<open>attach\<close>. The clock is a parameter: any type with an order and an addition (the code's is the
  float of \<^verbatim>\<open>time.monotonic\<close>), \<open>now0\<close> the reading before the loop. One entry per round of the loop:
  the reading at its head, and the segment opened in it, \<open>None\<close> where opening raised
  \<^verbatim>\<open>FileNotFoundError\<close>. \<^verbatim>\<open>sleep\<close> does nothing but move the clock. The result \<open>None\<close>: the rounds given
  are over and the loop still waits.
\<close>

definition ring_open :: "bytes \<Rightarrow> ring res" where
  "ring_open buf =
     (if length buf < RING_HEADER_SIZE then Inl StructError
      else if slice buf 0 4 \<noteq> RING_MAGIC then Inl ValueError
      else Inr (ring_init (nat (unpack_u (slice buf 4 12))) (nat (unpack_u (slice buf 12 20))) False))"

primrec attach_loop :: "'t::ord \<Rightarrow> ('t \<times> bytes option) list \<Rightarrow> ring res option" where
  "attach_loop deadline [] = None"
| "attach_loop deadline (r # rounds) =
     (if fst r < deadline then
        (case snd r of
           None \<Rightarrow> attach_loop deadline rounds
         | Some buf \<Rightarrow> Some (ring_open buf))
      else Some (Inl PyTimeoutError))"

definition ring_attach :: "'t::{plus,ord} \<Rightarrow> 't \<Rightarrow> ('t \<times> bytes option) list \<Rightarrow> ring res option" where
  "ring_attach retry_s now0 rounds = attach_loop (now0 + retry_s) rounds"

definition push_nowait :: "ring \<Rightarrow> bytes \<Rightarrow> bytes \<Rightarrow> (ring \<times> bytes) res" where
  "push_nowait self data buf =
     (let max_payload = int (slot_size self) - int SLOT_DATA_OFFSET in
      if int (length data) > max_payload then Inl ValueError
      else
        bindr (ring_slot self (write_idx self)) (\<lambda>off.
        bindr (byte_at buf (off + SLOT_USED_OFFSET)) (\<lambda>used.
          if used = 1 then Inl RingFull
          else
            bindr (pack_u 4 (int (length data))) (\<lambda>len.
            bindr (buf_write StructError buf (off + SLOT_LEN_OFFSET) len) (\<lambda>buf1.
            bindr (buf_write ValueError buf1 (off + SLOT_DATA_OFFSET) data) (\<lambda>buf2.
            bindr (buf_set buf2 (off + SLOT_USED_OFFSET) 1) (\<lambda>buf3.
              Inr (self\<lparr>write_idx := write_idx self + 1\<rparr>, buf3))))))))"

definition pop_nowait :: "ring \<Rightarrow> bytes \<Rightarrow> (bytes \<times> ring \<times> bytes) res" where
  "pop_nowait self buf =
     bindr (ring_slot self (read_idx self)) (\<lambda>off.
     bindr (byte_at buf (off + SLOT_USED_OFFSET)) (\<lambda>used.
       if used = 0 then Inl RingEmpty
       else
         bindr (unpack_from_u 4 buf (off + SLOT_LEN_OFFSET)) (\<lambda>len.
           let data = slice buf (off + SLOT_DATA_OFFSET) (off + SLOT_DATA_OFFSET + nat len) in
           bindr (buf_set buf (off + SLOT_USED_OFFSET) 0) (\<lambda>buf'.
             Inr (data, self\<lparr>read_idx := read_idx self + 1\<rparr>, buf')))))"

text \<open>
  The waiting versions, over the same kind of clock: one entry per round of the loop, with the
  memory found in that round and the reading taken after its try failed. The result \<open>None\<close>: the
  rounds given are over and the loop still waits.
\<close>

primrec push_loop :: "'t::ord \<Rightarrow> ring \<Rightarrow> bytes \<Rightarrow> (bytes \<times> 't) list \<Rightarrow> (ring \<times> bytes) res option" where
  "push_loop deadline self data [] = None"
| "push_loop deadline self data (r # rounds) =
     (case push_nowait self data (fst r) of
        Inl RingFull \<Rightarrow>
          if snd r > deadline then Some (Inl PyTimeoutError) else push_loop deadline self data rounds
      | x \<Rightarrow> Some x)"

definition push ::
  "ring \<Rightarrow> bytes \<Rightarrow> 't::{plus,ord} \<Rightarrow> 't \<Rightarrow> (bytes \<times> 't) list \<Rightarrow> (ring \<times> bytes) res option" where
  "push self data timeout_s now0 rounds = push_loop (now0 + timeout_s) self data rounds"

primrec pop_loop :: "'t::ord \<Rightarrow> ring \<Rightarrow> (bytes \<times> 't) list \<Rightarrow> (bytes \<times> ring \<times> bytes) res option" where
  "pop_loop deadline self [] = None"
| "pop_loop deadline self (r # rounds) =
     (case pop_nowait self (fst r) of
        Inl RingEmpty \<Rightarrow>
          if snd r > deadline then Some (Inl PyTimeoutError) else pop_loop deadline self rounds
      | x \<Rightarrow> Some x)"

definition pop ::
  "ring \<Rightarrow> 't::{plus,ord} \<Rightarrow> 't \<Rightarrow> (bytes \<times> 't) list \<Rightarrow> (bytes \<times> ring \<times> bytes) res option" where
  "pop self timeout_s now0 rounds = pop_loop (now0 + timeout_s) self rounds"

text \<open>\<^verbatim>\<open>close\<close>: whether the segment's name is still known afterwards; a missing name is no error.\<close>

definition ring_close :: "ring \<Rightarrow> bool \<Rightarrow> bool" where
  "ring_close self named = (named \<and> \<not> ring_owner self)"

section \<open>Memory: lemmas\<close>

lemma length_splice [simp]: "i + length data \<le> length buf \<Longrightarrow> length (splice buf i data) = length buf"
  by (simp add: splice_def)

lemma slice_drop_take: "slice xs a b = drop a (take b xs)"
  by (simp add: slice_def drop_take)

lemma slice_splice_other:
  assumes "i + length data \<le> length buf" "b \<le> i \<or> i + length data \<le> a"
  shows "slice (splice buf i data) a b = slice buf a b"
proof (cases "b \<le> i")
  case True
  then have "take b (splice buf i data) = take b buf" using assms(1) by (simp add: splice_def min_def)
  then show ?thesis by (simp add: slice_drop_take)
next
  case False
  with assms have "drop a (splice buf i data) = drop a buf" by (simp add: splice_def min_def)
  then show ?thesis by (simp add: slice_def)
qed

lemma slice_splice_same:
  "i + length data \<le> length buf \<Longrightarrow> slice (splice buf i data) i (i + length data) = data"
  by (simp add: splice_def slice_def)

lemma nth_splice_other:
  "i + length data \<le> length buf \<Longrightarrow> j < i \<or> i + length data \<le> j \<Longrightarrow> splice buf i data ! j = buf ! j"
  by (auto simp: splice_def nth_append)

section \<open>Producer and consumer at the same time\<close>

text \<open>
  Where each end is inside its operation: after the test of the \<^verbatim>\<open>used\<close> byte, after the write of the
  length, after the write of the payload; after the test, with the length read, with the
  payload read. The last access of each operation also moves its cursor. \<open>rs_pushed\<close> and
  \<open>rs_popped\<close> record what was published and what was returned; no step reads them.
\<close>

datatype producer_pc = P_Idle | P_Claimed bytes | P_Len bytes | P_Data bytes
datatype consumer_pc = C_Idle | C_Claimed | C_Len nat | C_Data bytes

record ring_state =
  rs_buf :: bytes
  rs_w :: nat
  rs_r :: nat
  rs_ppc :: producer_pc
  rs_cpc :: consumer_pc
  rs_pushed :: "bytes list"
  rs_popped :: "bytes list"

definition soff :: "nat \<Rightarrow> nat \<Rightarrow> nat \<Rightarrow> nat" where
  "soff cap ssz i = RING_HEADER_SIZE + (i mod cap) * ssz"

definition slot_len :: "bytes \<Rightarrow> nat \<Rightarrow> nat" where
  "slot_len buf off = nat (unpack_u (slice buf (off + SLOT_LEN_OFFSET) (off + SLOT_DATA_OFFSET)))"

definition slot_payload :: "bytes \<Rightarrow> nat \<Rightarrow> nat \<Rightarrow> bytes" where
  "slot_payload buf off n = slice buf (off + SLOT_DATA_OFFSET) (off + SLOT_DATA_OFFSET + n)"

inductive ring_step :: "nat \<Rightarrow> nat \<Rightarrow> ring_state \<Rightarrow> ring_state \<Rightarrow> bool" for cap ssz where
  p_claim:
    "\<lbrakk>rs_ppc s = P_Idle; length data + SLOT_DATA_OFFSET \<le> ssz; rs_buf s ! soff cap ssz (rs_w s) \<noteq> 1\<rbrakk>
      \<Longrightarrow> ring_step cap ssz s (s\<lparr>rs_ppc := P_Claimed data\<rparr>)"
| p_len:
    "\<lbrakk>rs_ppc s = P_Claimed data; pack_u 4 (int (length data)) = Inr n\<rbrakk>
      \<Longrightarrow> ring_step cap ssz s
            (s\<lparr>rs_buf := splice (rs_buf s) (soff cap ssz (rs_w s) + SLOT_LEN_OFFSET) n, rs_ppc := P_Len data\<rparr>)"
| p_data:
    "rs_ppc s = P_Len data
      \<Longrightarrow> ring_step cap ssz s
            (s\<lparr>rs_buf := splice (rs_buf s) (soff cap ssz (rs_w s) + SLOT_DATA_OFFSET) data, rs_ppc := P_Data data\<rparr>)"
| p_publish:
    "rs_ppc s = P_Data data
      \<Longrightarrow> ring_step cap ssz s
            (s\<lparr>rs_buf := (rs_buf s)[soff cap ssz (rs_w s) := 1], rs_w := rs_w s + 1, rs_ppc := P_Idle,
               rs_pushed := rs_pushed s @ [data]\<rparr>)"
| c_claim:
    "\<lbrakk>rs_cpc s = C_Idle; rs_buf s ! soff cap ssz (rs_r s) \<noteq> 0\<rbrakk>
      \<Longrightarrow> ring_step cap ssz s (s\<lparr>rs_cpc := C_Claimed\<rparr>)"
| c_len:
    "rs_cpc s = C_Claimed
      \<Longrightarrow> ring_step cap ssz s (s\<lparr>rs_cpc := C_Len (slot_len (rs_buf s) (soff cap ssz (rs_r s)))\<rparr>)"
| c_data:
    "rs_cpc s = C_Len n
      \<Longrightarrow> ring_step cap ssz s (s\<lparr>rs_cpc := C_Data (slot_payload (rs_buf s) (soff cap ssz (rs_r s)) n)\<rparr>)"
| c_release:
    "rs_cpc s = C_Data d
      \<Longrightarrow> ring_step cap ssz s
            (s\<lparr>rs_buf := (rs_buf s)[soff cap ssz (rs_r s) := 0], rs_r := rs_r s + 1, rs_cpc := C_Idle,
               rs_popped := rs_popped s @ [d]\<rparr>)"

inductive_cases ring_stepE: "ring_step cap ssz s s'"

definition rs_init :: "bytes \<Rightarrow> ring_state" where
  "rs_init buf = \<lparr>rs_buf = buf, rs_w = 0, rs_r = 0, rs_ppc = P_Idle, rs_cpc = C_Idle,
     rs_pushed = [], rs_popped = []\<rparr>"

section \<open>The invariant\<close>

definition slot_holds :: "bytes \<Rightarrow> nat \<Rightarrow> bytes \<Rightarrow> bool" where
  "slot_holds buf off d \<longleftrightarrow> slot_len buf off = length d \<and> slot_payload buf off (length d) = d"

definition ring_geom :: "nat \<Rightarrow> nat \<Rightarrow> bytes \<Rightarrow> bool" where
  "ring_geom cap ssz buf \<longleftrightarrow> 0 < cap \<and> SLOT_DATA_OFFSET \<le> ssz \<and> ssz \<le> 2 ^ 32 \<and>
     RING_HEADER_SIZE + cap * ssz \<le> length buf"

text \<open>
  The slots from the consumer's cursor to the producer's hold the messages published and not yet
  returned, the others of the window are free; an end inside its operation has the slot it works on.
\<close>

definition slots_ok :: "nat \<Rightarrow> nat \<Rightarrow> bytes \<Rightarrow> nat \<Rightarrow> nat \<Rightarrow> bytes list \<Rightarrow> bool" where
  "slots_ok cap ssz buf r w pushed \<longleftrightarrow>
     ring_geom cap ssz buf \<and> r \<le> w \<and> w \<le> r + cap \<and> length pushed = w \<and>
     (\<forall>i. r \<le> i \<and> i < w \<longrightarrow>
        buf ! soff cap ssz i = 1 \<and> slot_holds buf (soff cap ssz i) (pushed ! i) \<and>
        length (pushed ! i) + SLOT_DATA_OFFSET \<le> ssz) \<and>
     (\<forall>i. w \<le> i \<and> i < r + cap \<longrightarrow> buf ! soff cap ssz i = 0)"

fun producer_ok :: "nat \<Rightarrow> nat \<Rightarrow> bytes \<Rightarrow> nat \<Rightarrow> nat \<Rightarrow> producer_pc \<Rightarrow> bool" where
  "producer_ok cap ssz buf r w P_Idle = True"
| "producer_ok cap ssz buf r w (P_Claimed d) = (w < r + cap \<and> length d + SLOT_DATA_OFFSET \<le> ssz)"
| "producer_ok cap ssz buf r w (P_Len d) =
     (w < r + cap \<and> length d + SLOT_DATA_OFFSET \<le> ssz \<and> slot_len buf (soff cap ssz w) = length d)"
| "producer_ok cap ssz buf r w (P_Data d) =
     (w < r + cap \<and> length d + SLOT_DATA_OFFSET \<le> ssz \<and> slot_holds buf (soff cap ssz w) d)"

fun consumer_ok :: "nat \<Rightarrow> nat \<Rightarrow> bytes list \<Rightarrow> consumer_pc \<Rightarrow> bool" where
  "consumer_ok r w pushed C_Idle = True"
| "consumer_ok r w pushed C_Claimed = (r < w)"
| "consumer_ok r w pushed (C_Len n) = (r < w \<and> n = length (pushed ! r))"
| "consumer_ok r w pushed (C_Data d) = (r < w \<and> d = pushed ! r)"

definition ring_inv :: "nat \<Rightarrow> nat \<Rightarrow> ring_state \<Rightarrow> bool" where
  "ring_inv cap ssz s \<longleftrightarrow>
     slots_ok cap ssz (rs_buf s) (rs_r s) (rs_w s) (rs_pushed s) \<and>
     producer_ok cap ssz (rs_buf s) (rs_r s) (rs_w s) (rs_ppc s) \<and>
     consumer_ok (rs_r s) (rs_w s) (rs_pushed s) (rs_cpc s) \<and>
     rs_popped s = take (rs_r s) (rs_pushed s)"

section \<open>Slots do not overlap\<close>

lemma soff_end: "0 < cap \<Longrightarrow> RING_HEADER_SIZE + cap * ssz \<le> n \<Longrightarrow> soff cap ssz i + ssz \<le> n"
proof -
  assume "0 < cap" "RING_HEADER_SIZE + cap * ssz \<le> n"
  moreover from this have "(i mod cap + 1) * ssz \<le> cap * ssz"
    by (intro mult_le_mono1) (simp add: Suc_leI)
  ultimately show ?thesis by (simp add: soff_def algebra_simps)
qed

lemma soff_apart:
  assumes "i mod cap \<noteq> j mod cap"
  shows "soff cap ssz i + ssz \<le> soff cap ssz j \<or> soff cap ssz j + ssz \<le> soff cap ssz i"
proof (cases "i mod cap < j mod cap")
  case True
  then have "(i mod cap + 1) * ssz \<le> (j mod cap) * ssz" by (intro mult_le_mono1) simp
  then show ?thesis by (simp add: soff_def algebra_simps)
next
  case False
  with assms have "(j mod cap + 1) * ssz \<le> (i mod cap) * ssz" by (intro mult_le_mono1) simp
  then show ?thesis by (simp add: soff_def algebra_simps)
qed

lemma mod_window:
  "i < j \<Longrightarrow> j < i + cap \<Longrightarrow> i mod cap \<noteq> j mod (cap :: nat)"
proof
  assume "i < j" "j < i + cap" "i mod cap = j mod cap"
  then have "cap dvd j - i" by (metis mod_eq_dvd_iff_nat less_imp_le)
  with \<open>i < j\<close> \<open>j < i + cap\<close> show False by (auto dest!: dvd_imp_le)
qed

lemma window_apart:
  assumes "r \<le> i" "i < r + cap" "r \<le> j" "j < r + cap" "i \<noteq> j"
  shows "soff cap ssz i + ssz \<le> soff cap ssz j \<or> soff cap ssz j + ssz \<le> soff cap ssz i"
  using assms mod_window [of i j cap] mod_window [of j i cap]
  by (intro soff_apart) (cases "i < j"; force)

text \<open>What a slot says is determined by its own bytes.\<close>

lemma slot_determined:
  assumes "slice buf off (off + ssz) = slice buf' off (off + ssz)" "SLOT_DATA_OFFSET \<le> ssz"
    and "off + ssz \<le> length buf" "off + ssz \<le> length buf'"
  shows "buf' ! off = buf ! off" "slot_len buf' off = slot_len buf off"
    "length d + SLOT_DATA_OFFSET \<le> ssz \<Longrightarrow> slot_holds buf' off d \<longleftrightarrow> slot_holds buf off d"
proof -
  have sub: "slice buf (off + a) (off + c) = slice buf' (off + a) (off + c)" if "c \<le> ssz" for a c
  proof -
    have "slice buf (off + a) (off + c) = slice (slice buf off (off + ssz)) a c"
      using that by (simp add: slice_slice)
    also have "\<dots> = slice buf' (off + a) (off + c)" using that assms(1) by (simp add: slice_slice)
    finally show ?thesis .
  qed
  have "slice buf off (off + ssz) ! 0 = slice buf' off (off + ssz) ! 0" by (simp add: assms(1))
  then show "buf' ! off = buf ! off" using assms(2-4) by (simp add: nth_slice)
  show len: "slot_len buf' off = slot_len buf off"
    using sub [of 5 1] assms(2) by (simp add: slot_len_def)
  assume "length d + SLOT_DATA_OFFSET \<le> ssz"
  then have "slot_payload buf' off (length d) = slot_payload buf off (length d)"
    using sub [of "5 + length d" 5] by (simp add: slot_payload_def add.assoc)
  with len show "slot_holds buf' off d \<longleftrightarrow> slot_holds buf off d" by (simp add: slot_holds_def)
qed

text \<open>A write inside one slot of the window leaves every other slot of the window alone.\<close>

lemma write_frame:
  assumes g: "ring_geom cap ssz buf" and w: "r \<le> j" "j < r + cap"
    and k: "soff cap ssz j \<le> k" "k + length xs \<le> soff cap ssz j + ssz"
    and i: "r \<le> i" "i < r + cap" "i \<noteq> j"
  shows "splice buf k xs ! soff cap ssz i = buf ! soff cap ssz i"
    "length d + SLOT_DATA_OFFSET \<le> ssz \<Longrightarrow>
       slot_holds (splice buf k xs) (soff cap ssz i) d \<longleftrightarrow> slot_holds buf (soff cap ssz i) d"
    "slot_len (splice buf k xs) (soff cap ssz i) = slot_len buf (soff cap ssz i)"
proof -
  have geom: "0 < cap" "5 \<le> ssz" "20 + cap * ssz \<le> length buf" using g by (simp_all add: ring_geom_def)
  have fit: "soff cap ssz i + ssz \<le> length buf" "soff cap ssz j + ssz \<le> length buf"
    using soff_end [OF geom(1,3)] by simp_all
  have "slice (splice buf k xs) (soff cap ssz i) (soff cap ssz i + ssz) =
      slice buf (soff cap ssz i) (soff cap ssz i + ssz)"
    using window_apart [OF i(1,2) w i(3), of ssz] k fit by (intro slice_splice_other) auto
  note same = slot_determined [OF this [symmetric] geom(2) fit(1)]
  show "splice buf k xs ! soff cap ssz i = buf ! soff cap ssz i"
    "length d + SLOT_DATA_OFFSET \<le> ssz \<Longrightarrow>
       slot_holds (splice buf k xs) (soff cap ssz i) d \<longleftrightarrow> slot_holds buf (soff cap ssz i) d"
    "slot_len (splice buf k xs) (soff cap ssz i) = slot_len buf (soff cap ssz i)"
    using same fit k by simp_all
qed

lemma update_splice: "k < length buf \<Longrightarrow> buf[k := b] = splice buf k [b]"
  by (simp add: splice_def upd_conv_take_nth_drop)

text \<open>Writes inside one slot.\<close>

lemma own_slot:
  assumes g: "ring_geom cap ssz buf"
  shows "pack_u 4 (int (length d)) = Inr n \<Longrightarrow>
      slot_len (splice buf (soff cap ssz j + SLOT_LEN_OFFSET) n) (soff cap ssz j) = length d \<and>
      splice buf (soff cap ssz j + SLOT_LEN_OFFSET) n ! soff cap ssz j = buf ! soff cap ssz j"
    "length d + SLOT_DATA_OFFSET \<le> ssz \<Longrightarrow> slot_len buf (soff cap ssz j) = length d \<Longrightarrow>
      slot_holds (splice buf (soff cap ssz j + SLOT_DATA_OFFSET) d) (soff cap ssz j) d \<and>
      splice buf (soff cap ssz j + SLOT_DATA_OFFSET) d ! soff cap ssz j = buf ! soff cap ssz j"
    "slot_holds (buf[soff cap ssz j := b]) (soff cap ssz j) d \<longleftrightarrow> slot_holds buf (soff cap ssz j) d"
    "buf[soff cap ssz j := b] ! soff cap ssz j = b"
proof -
  have fit: "soff cap ssz j + ssz \<le> length buf" "5 \<le> ssz"
    using g soff_end [of cap ssz "length buf" j] by (simp_all add: ring_geom_def)
  show "slot_len (splice buf (soff cap ssz j + SLOT_LEN_OFFSET) n) (soff cap ssz j) = length d \<and>
      splice buf (soff cap ssz j + SLOT_LEN_OFFSET) n ! soff cap ssz j = buf ! soff cap ssz j"
    if n: "pack_u 4 (int (length d)) = Inr n"
    using slice_splice_same [of "soff cap ssz j + 1" n buf] pack_u_length [OF n] unpack_pack_u [OF n] fit
    by (simp add: slot_len_def nth_splice_other add.commute [of 5])
  show "slot_holds (splice buf (soff cap ssz j + SLOT_DATA_OFFSET) d) (soff cap ssz j) d \<and>
      splice buf (soff cap ssz j + SLOT_DATA_OFFSET) d ! soff cap ssz j = buf ! soff cap ssz j"
    if "length d + SLOT_DATA_OFFSET \<le> ssz" "slot_len buf (soff cap ssz j) = length d"
    using that fit slice_splice_same [of "soff cap ssz j + 5" d buf]
      slice_splice_other [of "soff cap ssz j + 5" d buf "soff cap ssz j + 5" "soff cap ssz j + 1"]
    by (simp add: slot_holds_def slot_payload_def slot_len_def nth_splice_other)
  show "slot_holds (buf[soff cap ssz j := b]) (soff cap ssz j) d \<longleftrightarrow> slot_holds buf (soff cap ssz j) d"
    using fit by (simp add: slot_holds_def slot_payload_def slot_len_def update_splice slice_splice_other)
  show "buf[soff cap ssz j := b] ! soff cap ssz j = b" using fit by simp
qed

lemma ring_geom_length: "length buf' = length buf \<Longrightarrow> ring_geom cap ssz buf' = ring_geom cap ssz buf"
  by (simp add: ring_geom_def)

lemma ring_geom_update [simp]: "ring_geom cap ssz (buf[i := b]) = ring_geom cap ssz buf"
  by (simp add: ring_geom_def)

lemma in_slot:
  assumes "ring_geom cap ssz buf"
  shows "soff cap ssz j < length buf" "length d + SLOT_DATA_OFFSET \<le> ssz \<Longrightarrow> soff cap ssz j + 5 + length d \<le> length buf"
    "soff cap ssz j + 5 \<le> length buf"
  using assms soff_end [of cap ssz "length buf" j] by (auto simp: ring_geom_def)

lemma slots_okD:
  assumes "slots_ok cap ssz buf r w pushed"
  shows "ring_geom cap ssz buf" "r \<le> w" "w \<le> r + cap" "length pushed = w"
    "r \<le> i \<Longrightarrow> i < w \<Longrightarrow> buf ! soff cap ssz i = 1 \<and> slot_holds buf (soff cap ssz i) (pushed ! i) \<and>
        length (pushed ! i) + SLOT_DATA_OFFSET \<le> ssz"
    "w \<le> i \<Longrightarrow> i < r + cap \<Longrightarrow> buf ! soff cap ssz i = 0"
  using assms by (auto simp: slots_ok_def)

text \<open>A write of the producer inside its own free slot that leaves the \<^verbatim>\<open>used\<close> byte alone.\<close>

lemma slots_ok_write:
  assumes ok: "slots_ok cap ssz buf r w pushed" and w: "w < r + cap"
    and k: "soff cap ssz w \<le> k" "k + length xs \<le> soff cap ssz w + ssz"
    and used: "splice buf k xs ! soff cap ssz w = buf ! soff cap ssz w"
  shows "slots_ok cap ssz (splice buf k xs) r w pushed"
proof -
  note d = slots_okD [OF ok]
  have g: "ring_geom cap ssz (splice buf k xs)"
    using d(1) k soff_end [of cap ssz "length buf" w] by (subst ring_geom_length) (auto simp: ring_geom_def)
  note fr = write_frame [OF d(1,2) w k]
  have "splice buf k xs ! soff cap ssz i = 0" if "w \<le> i" "i < r + cap" for i
    using that used fr(1) [of i] d(2,6) by (cases "i = w") auto
  moreover have "splice buf k xs ! soff cap ssz i = 1 \<and>
      slot_holds (splice buf k xs) (soff cap ssz i) (pushed ! i) \<and> length (pushed ! i) + 5 \<le> ssz"
    if "r \<le> i" "i < w" for i
    using d(5) [OF that] fr(1) [of i] fr(2) [of i "pushed ! i"] that w by simp
  ultimately show ?thesis using g d(2-4) by (simp add: slots_ok_def)
qed

lemma slots_ok_publish:
  assumes ok: "slots_ok cap ssz buf r w pushed" and w: "w < r + cap"
    and d: "slot_holds buf (soff cap ssz w) data" "length data + SLOT_DATA_OFFSET \<le> ssz"
  shows "slots_ok cap ssz (buf[soff cap ssz w := 1]) r (w + 1) (pushed @ [data])"
proof -
  note o = slots_okD [OF ok]
  have k: "soff cap ssz w \<le> soff cap ssz w" "soff cap ssz w + length [1 :: byte] \<le> soff cap ssz w + ssz"
    using o(1) by (simp_all add: ring_geom_def)
  note fr = write_frame [OF o(1,2) w k, folded update_splice [OF in_slot(1) [OF o(1)]]]
  note own = own_slot(3,4) [OF o(1)]
  have "buf[soff cap ssz w := 1] ! soff cap ssz i = 1 \<and>
      slot_holds (buf[soff cap ssz w := 1]) (soff cap ssz i) ((pushed @ [data]) ! i) \<and>
      length ((pushed @ [data]) ! i) + 5 \<le> ssz" if "r \<le> i" "i < w + 1" for i
  proof (cases "i = w")
    case True
    then show ?thesis using own d o(4) by (simp add: nth_append)
  next
    case False
    then have "i < w" using that by simp
    with o(5) [OF that(1) this] fr(1) [of i] fr(2) [of i "pushed ! i"] that w o(4) show ?thesis
      by (simp add: nth_append)
  qed
  moreover have "buf[soff cap ssz w := 1] ! soff cap ssz i = 0" if "w + 1 \<le> i" "i < r + cap" for i
    using that fr(1) [of i] o(2,6) by simp
  ultimately show ?thesis using o(1-4) w by (simp add: slots_ok_def)
qed

lemma slots_ok_release:
  assumes ok: "slots_ok cap ssz buf r w pushed" and r: "r < w"
  shows "slots_ok cap ssz (buf[soff cap ssz r := 0]) (r + 1) w pushed"
proof -
  note o = slots_okD [OF ok]
  have cap: "0 < cap" using o(1) by (simp add: ring_geom_def)
  then have rw: "r \<le> r" "r < r + cap" by simp_all
  have k: "soff cap ssz r \<le> soff cap ssz r" "soff cap ssz r + length [0 :: byte] \<le> soff cap ssz r + ssz"
    using o(1) by (simp_all add: ring_geom_def)
  note fr = write_frame [OF o(1) rw k, folded update_splice [OF in_slot(1) [OF o(1)]]]
  have "buf[soff cap ssz r := 0] ! soff cap ssz i = 1 \<and>
      slot_holds (buf[soff cap ssz r := 0]) (soff cap ssz i) (pushed ! i) \<and>
      length (pushed ! i) + 5 \<le> ssz" if "r + 1 \<le> i" "i < w" for i
    using o(5) [of i] fr(1) [of i] fr(2) [of i "pushed ! i"] that o(3) by simp
  moreover have "buf[soff cap ssz r := 0] ! soff cap ssz i = 0" if "w \<le> i" "i < r + 1 + cap" for i
  proof (cases "i = r + cap")
    case True
    then have "soff cap ssz i = soff cap ssz r" by (simp add: soff_def)
    then show ?thesis using own_slot(4) [OF o(1)] by simp
  next
    case False
    then show ?thesis using that fr(1) [of i] o(6) [of i] r by simp
  qed
  ultimately show ?thesis using o(1-4) r by (simp add: slots_ok_def)
qed

text \<open>What the other end relies on when one end writes.\<close>

lemma producer_ok_release:
  assumes "slots_ok cap ssz buf r w pushed" "producer_ok cap ssz buf r w pc" "r < w"
  shows "producer_ok cap ssz (buf[soff cap ssz r := 0]) (r + 1) w pc"
proof (cases "w < r + cap")
  case True
  have g: "ring_geom cap ssz buf" using assms(1) by (rule slots_okD)
  have rw: "r \<le> r" "r < r + cap" using g by (simp_all add: ring_geom_def)
  have k: "soff cap ssz r \<le> soff cap ssz r" "soff cap ssz r + length [0 :: byte] \<le> soff cap ssz r + ssz"
    using g by (simp_all add: ring_geom_def)
  note fr = write_frame(2,3) [OF g rw k, of w, folded update_splice [OF in_slot(1) [OF g]]]
  show ?thesis using assms(2,3) True fr by (cases pc) auto
next
  case False
  then show ?thesis using assms(2) by (cases pc) auto
qed

lemma consumer_ok_publish:
  "length pushed = w \<Longrightarrow> consumer_ok r w pushed pc \<Longrightarrow> consumer_ok r (w + 1) (pushed @ [d]) pc"
  by (cases pc) (auto simp: nth_append)

lemma ring_inv_step:
  assumes "ring_inv cap ssz s" "ring_step cap ssz s s'"
  shows "ring_inv cap ssz s'"
proof -
  have ok: "slots_ok cap ssz (rs_buf s) (rs_r s) (rs_w s) (rs_pushed s)"
    "producer_ok cap ssz (rs_buf s) (rs_r s) (rs_w s) (rs_ppc s)"
    "consumer_ok (rs_r s) (rs_w s) (rs_pushed s) (rs_cpc s)"
    "rs_popped s = take (rs_r s) (rs_pushed s)"
    using assms(1) by (simp_all add: ring_inv_def)
  note o = slots_okD [OF ok(1)]
  note own = own_slot [OF o(1)]
  have ssz: "5 \<le> ssz" "0 < cap" using o(1) by (simp_all add: ring_geom_def)
  from assms(2) show ?thesis
  proof cases
    case (p_claim data)
    have "rs_w s < rs_r s + cap"
    proof (rule ccontr)
      assume "\<not> rs_w s < rs_r s + cap"
      then have full: "rs_w s = rs_r s + cap" using o(3) by simp
      then have "soff cap ssz (rs_w s) = soff cap ssz (rs_r s)" by (simp add: soff_def)
      with o(5) [of "rs_r s"] full ssz p_claim show False by simp
    qed
    with p_claim ok show ?thesis by (simp add: ring_inv_def)
  next
    case (p_len data n)
    then have w: "rs_w s < rs_r s + cap" "length data + 5 \<le> ssz" using ok(2) by simp_all
    have "slots_ok cap ssz (splice (rs_buf s) (soff cap ssz (rs_w s) + 1) n) (rs_r s) (rs_w s) (rs_pushed s)"
      using own(1) [OF p_len(3)] pack_u_length [OF p_len(3)] ssz
      by (intro slots_ok_write [OF ok(1) w(1)]) simp_all
    with p_len(1) ok w own(1) [OF p_len(3)] show ?thesis by (simp add: ring_inv_def)
  next
    case (p_data data)
    then have w: "rs_w s < rs_r s + cap" "length data + 5 \<le> ssz"
      "slot_len (rs_buf s) (soff cap ssz (rs_w s)) = length data" using ok(2) by simp_all
    have "slots_ok cap ssz (splice (rs_buf s) (soff cap ssz (rs_w s) + 5) data) (rs_r s) (rs_w s) (rs_pushed s)"
      using own(2) [OF w(2,3)] w(2) by (intro slots_ok_write [OF ok(1) w(1)]) simp_all
    with p_data(1) ok w own(2) [OF w(2,3)] show ?thesis by (simp add: ring_inv_def)
  next
    case (p_publish data)
    then have w: "rs_w s < rs_r s + cap" "length data + 5 \<le> ssz"
      "slot_holds (rs_buf s) (soff cap ssz (rs_w s)) data" using ok(2) by simp_all
    from slots_ok_publish [OF ok(1) w(1,3,2)] consumer_ok_publish [OF o(4) ok(3)] p_publish(1) ok(4) o(2,4)
    show ?thesis by (simp add: ring_inv_def)
  next
    case c_claim
    have "rs_r s < rs_w s"
      using c_claim(3) o(2) o(6) [of "rs_r s"] ssz by (metis le_neq_implies_less less_add_same_cancel1 order_refl)
    with c_claim ok show ?thesis by (simp add: ring_inv_def)
  next
    case c_len
    with ok o(5) [of "rs_r s"] show ?thesis by (simp add: ring_inv_def slot_holds_def)
  next
    case (c_data n)
    with ok o(5) [of "rs_r s"] show ?thesis by (simp add: ring_inv_def slot_holds_def)
  next
    case (c_release d)
    then have r: "rs_r s < rs_w s" "d = rs_pushed s ! rs_r s" using ok(3) by simp_all
    from slots_ok_release [OF ok(1) r(1)] producer_ok_release [OF ok(1,2) r(1)] c_release(1) ok(4) r o(4)
    show ?thesis by (simp add: ring_inv_def take_Suc_conv_app_nth)
  qed
qed

section \<open>Runs\<close>

lemma ring_inv_run: "(ring_step cap ssz)\<^sup>*\<^sup>* s s' \<Longrightarrow> ring_inv cap ssz s \<Longrightarrow> ring_inv cap ssz s'"
  by (induction rule: rtranclp_induct) (auto intro: ring_inv_step)

lemma ring_inv_init: "slots_ok cap ssz buf 0 0 [] \<Longrightarrow> ring_inv cap ssz (rs_init buf)"
  by (simp add: ring_inv_def rs_init_def)

section \<open>Creating and attaching\<close>

lemma clear_slots_ok:
  assumes "ring_geom cap ssz buf" "list_all (\<lambda>i. i < cap) js"
  shows "\<exists>buf'. clear_slots cap ssz js buf = Inr buf' \<and> length buf' = length buf \<and>
    (\<forall>a b. b \<le> RING_HEADER_SIZE \<longrightarrow> slice buf' a b = slice buf a b) \<and>
    (\<forall>i < cap. (i \<in> set js \<longrightarrow> buf' ! soff cap ssz i = 0) \<and>
       (i \<notin> set js \<longrightarrow> buf' ! soff cap ssz i = buf ! soff cap ssz i))"
  using assms
proof (induction js arbitrary: buf)
  case (Cons j js)
  let ?buf = "buf[soff cap ssz j := 0]"
  have cap: "0 < cap" "j < cap" using Cons.prems by (simp_all add: ring_geom_def)
  have step: "clear_slots cap ssz (j # js) buf = clear_slots cap ssz js ?buf"
    using cap in_slot(1) [OF Cons.prems(1), of j] by (simp add: slot_offset_def buf_set_def soff_def)
  have hdr: "slice ?buf a b = slice buf a b" if "b \<le> 20" for a b
    using that by (intro slice_update_outside) (simp add: soff_def)
  have apart: "soff cap ssz i \<noteq> soff cap ssz j" if "i < cap" "i \<noteq> j" for i
    using that cap Cons.prems(1) by (auto simp: soff_def ring_geom_def)
  from Cons.IH [of ?buf] Cons.prems obtain buf' where b:
    "clear_slots cap ssz js ?buf = Inr buf'" "length buf' = length buf"
    "\<forall>a b. b \<le> 20 \<longrightarrow> slice buf' a b = slice ?buf a b"
    "\<forall>i < cap. (i \<in> set js \<longrightarrow> buf' ! soff cap ssz i = 0) \<and>
       (i \<notin> set js \<longrightarrow> buf' ! soff cap ssz i = ?buf ! soff cap ssz i)" by auto
  have "buf' ! soff cap ssz i = (if i \<in> set (j # js) then 0 else buf ! soff cap ssz i)" if "i < cap" for i
    using that b(4) apart [OF that] in_slot(1) [OF Cons.prems(1), of j] by (cases "i = j") auto
  with step b(1-3) hdr show ?case by auto
qed simp

lemma create_slots:
  assumes "0 < cap" "cap < 2 ^ 64" "SLOT_DATA_OFFSET \<le> ssz" "ssz \<le> 2 ^ 32"
    and "RING_HEADER_SIZE + cap * ssz \<le> length shm"
  shows "\<exists>buf. ring_create shm cap ssz = Inr (ring_init cap ssz True, buf) \<and>
    length buf = length shm \<and> slots_ok cap ssz buf 0 0 [] \<and>
    ring_open buf = Inr (ring_init cap ssz False)"
proof -
  have small: "int cap < 256 ^ 8" "int ssz < 256 ^ 8" using assms(2,4) by simp_all
  then obtain c s where cs: "pack_u 8 (int cap) = Inr c" "pack_u 8 (int ssz) = Inr s"
    by (auto simp: pack_u_def)
  have l: "length c = 8" "length s = 8" "unpack_u c = int cap" "unpack_u s = int ssz"
    using cs by (simp_all add: pack_u_length unpack_pack_u)
  let ?h = "RING_MAGIC @ c @ s"
  have lm: "length RING_MAGIC = 4" by (simp add: RING_MAGIC_def)
  then have lh: "length ?h = 20" using l by simp
  let ?b = "splice shm 0 ?h"
  have w: "buf_write StructError shm 0 ?h = Inr ?b" "length ?b = length shm"
    using assms(5) lh by (simp_all add: buf_write_def)
  have g: "ring_geom cap ssz ?b" using assms w(2) by (simp add: ring_geom_def)
  from clear_slots_ok [OF g, of "[0..<cap]"] obtain buf where buf:
    "clear_slots cap ssz [0..<cap] ?b = Inr buf" "length buf = length shm"
    "\<forall>a b. b \<le> 20 \<longrightarrow> slice buf a b = slice ?b a b" "\<forall>i < cap. buf ! soff cap ssz i = 0"
    using w(2) by (auto simp: list_all_iff)
  have "slots_ok cap ssz buf 0 0 []"
    using buf(2,4) assms by (simp add: slots_ok_def ring_geom_def)
  moreover have "slice buf 0 20 = ?h"
    using buf(3) slice_splice_same [of 0 ?h shm] lh assms(5) by simp
  then have "slice buf a b = slice ?h a b" if "b \<le> 20" for a b
    using slice_slice [of buf 0 20 a b] that by simp
  then have "slice buf 0 4 = RING_MAGIC" "slice buf 4 12 = c" "slice buf 12 20 = s"
    using l lm by (simp_all add: slice_append_right slice_head slice_whole)
  then have "ring_open buf = Inr (ring_init cap ssz False)"
    using buf(2) assms(5) l by (simp add: ring_open_def)
  ultimately show ?thesis using cs w(1) buf(1,2) by (simp add: ring_create_def)
qed

section \<open>The operations are runs\<close>

lemma ring_slot_soff: "0 < capacity r \<Longrightarrow> ring_slot r i = Inr (soff (capacity r) (slot_size r) i)"
  by (simp add: ring_slot_def slot_offset_def soff_def)

definition push_result :: "nat \<Rightarrow> nat \<Rightarrow> bytes \<Rightarrow> nat \<Rightarrow> bytes \<Rightarrow> bytes \<Rightarrow> bytes" where
  "push_result cap ssz buf w n data =
     (splice (splice buf (soff cap ssz w + SLOT_LEN_OFFSET) n) (soff cap ssz w + SLOT_DATA_OFFSET) data)
       [soff cap ssz w := 1]"

lemma push_nowait_cases:
  assumes g: "ring_geom (capacity r) (slot_size r) buf"
  shows "push_nowait r data buf =
    (if length data + SLOT_DATA_OFFSET > slot_size r then Inl ValueError
     else if buf ! soff (capacity r) (slot_size r) (write_idx r) = 1 then Inl RingFull
     else Inr (r\<lparr>write_idx := write_idx r + 1\<rparr>,
       push_result (capacity r) (slot_size r) buf (write_idx r) (be_bytes 4 (length data)) data))"
proof -
  let ?o = "soff (capacity r) (slot_size r) (write_idx r)"
  have geom: "0 < capacity r" "5 \<le> slot_size r" "slot_size r \<le> 2 ^ 32" using g by (simp_all add: ring_geom_def)
  have fit: "?o + slot_size r \<le> length buf"
    using soff_end [of "capacity r" "slot_size r" "length buf"] g by (simp add: ring_geom_def)
  have one: "uint (buf ! ?o) = 1 \<longleftrightarrow> buf ! ?o = 1" by (metis uint_1 word_uint_eqI)
  show ?thesis
  proof (cases "length data + 5 > slot_size r")
    case False
    then have "pack_u 4 (int (length data)) = Inr (be_bytes 4 (length data))" using geom by (simp add: pack_u_def)
    with False show ?thesis
      using geom fit one
      by (simp add: push_nowait_def ring_slot_soff byte_at_def buf_write_def buf_set_def push_result_def)
  qed (simp add: push_nowait_def)
qed

lemma pop_nowait_cases:
  assumes g: "ring_geom (capacity r) (slot_size r) buf"
  shows "pop_nowait r buf =
    (let off = soff (capacity r) (slot_size r) (read_idx r) in
     if buf ! off = 0 then Inl RingEmpty
     else Inr (slot_payload buf off (slot_len buf off), r\<lparr>read_idx := read_idx r + 1\<rparr>, buf[off := 0]))"
proof -
  let ?o = "soff (capacity r) (slot_size r) (read_idx r)"
  have "0 < capacity r" "5 \<le> slot_size r" using g by (simp_all add: ring_geom_def)
  moreover have "?o + slot_size r \<le> length buf"
    using soff_end [of "capacity r" "slot_size r" "length buf"] g by (simp add: ring_geom_def)
  moreover have "uint (buf ! ?o) = 0 \<longleftrightarrow> buf ! ?o = 0" by (simp add: unsigned_eq_0_iff)
  ultimately show ?thesis
    by (simp add: pop_nowait_def ring_slot_soff byte_at_def buf_set_def unpack_from_u_def slot_payload_def
        slot_len_def Let_def add.commute [of 5] add.assoc)
qed

lemma four_steps: "R a b \<Longrightarrow> R b c \<Longrightarrow> R c d \<Longrightarrow> R d e \<Longrightarrow> R\<^sup>*\<^sup>* a e"
  by (rule rtranclp.rtrancl_into_rtrancl [OF rtranclp.rtrancl_into_rtrancl
        [OF rtranclp.rtrancl_into_rtrancl [OF r_into_rtranclp]]])

lemma push_nowait_run:
  assumes inv: "ring_inv (capacity r) (slot_size r) s" "rs_ppc s = P_Idle" "rs_w s = write_idx r"
    and push: "push_nowait r data (rs_buf s) = Inr (r', buf')"
  shows "(ring_step (capacity r) (slot_size r))\<^sup>*\<^sup>* s
    (s\<lparr>rs_buf := buf', rs_w := write_idx r', rs_pushed := rs_pushed s @ [data]\<rparr>)"
proof -
  let ?S = "ring_step (capacity r) (slot_size r)" and ?o = "soff (capacity r) (slot_size r) (rs_w s)"
  let ?n = "be_bytes 4 (length data)"
  have g: "ring_geom (capacity r) (slot_size r) (rs_buf s)" using inv(1) by (simp add: ring_inv_def slots_ok_def)
  from push_nowait_cases [OF g, of data] push inv(3)
  have pre: "length data + 5 \<le> slot_size r" "rs_buf s ! ?o \<noteq> 1" "r' = r\<lparr>write_idx := write_idx r + 1\<rparr>"
    "buf' = push_result (capacity r) (slot_size r) (rs_buf s) (rs_w s) ?n data"
    by (auto split: if_splits)
  have n: "pack_u 4 (int (length data)) = Inr ?n" using pre(1) g by (simp add: pack_u_def ring_geom_def)
  let ?s1 = "s\<lparr>rs_ppc := P_Claimed data\<rparr>"
  let ?s2 = "?s1\<lparr>rs_buf := splice (rs_buf ?s1) (?o + 1) ?n, rs_ppc := P_Len data\<rparr>"
  let ?s3 = "?s2\<lparr>rs_buf := splice (rs_buf ?s2) (?o + 5) data, rs_ppc := P_Data data\<rparr>"
  let ?s4 = "?s3\<lparr>rs_buf := (rs_buf ?s3)[?o := 1], rs_w := rs_w ?s3 + 1, rs_ppc := P_Idle,
      rs_pushed := rs_pushed ?s3 @ [data]\<rparr>"
  have "?S s ?s1" using inv(2) pre by (intro p_claim)
  moreover have "?S ?s1 ?s2" using p_len [of ?s1 data ?n] n by simp
  moreover have "?S ?s2 ?s3" using p_data [of ?s2 data] by simp
  moreover have "?S ?s3 ?s4" using p_publish [of ?s3 data] by simp
  ultimately have "?S\<^sup>*\<^sup>* s ?s4" by (rule four_steps)
  moreover have "?s4 = s\<lparr>rs_buf := buf', rs_w := write_idx r', rs_pushed := rs_pushed s @ [data]\<rparr>"
    using pre inv(2,3) by (simp add: push_result_def)
  ultimately show ?thesis by simp
qed

lemma pop_nowait_run:
  assumes inv: "ring_inv (capacity r) (slot_size r) s" "rs_cpc s = C_Idle" "rs_r s = read_idx r"
    and pop: "pop_nowait r (rs_buf s) = Inr (data, r', buf')"
  shows "(ring_step (capacity r) (slot_size r))\<^sup>*\<^sup>* s
    (s\<lparr>rs_buf := buf', rs_r := read_idx r', rs_popped := rs_popped s @ [data]\<rparr>)"
proof -
  let ?S = "ring_step (capacity r) (slot_size r)" and ?o = "soff (capacity r) (slot_size r) (rs_r s)"
  have g: "ring_geom (capacity r) (slot_size r) (rs_buf s)" using inv(1) by (simp add: ring_inv_def slots_ok_def)
  from pop_nowait_cases [OF g] pop inv(3)
  have pre: "rs_buf s ! ?o \<noteq> 0" "data = slot_payload (rs_buf s) ?o (slot_len (rs_buf s) ?o)"
    "r' = r\<lparr>read_idx := read_idx r + 1\<rparr>" "buf' = (rs_buf s)[?o := 0]"
    by (auto simp: Let_def split: if_splits)
  let ?s1 = "s\<lparr>rs_cpc := C_Claimed\<rparr>"
  let ?s2 = "?s1\<lparr>rs_cpc := C_Len (slot_len (rs_buf s) ?o)\<rparr>"
  let ?s3 = "?s2\<lparr>rs_cpc := C_Data data\<rparr>"
  let ?s4 = "?s3\<lparr>rs_buf := (rs_buf ?s3)[?o := 0], rs_r := rs_r ?s3 + 1, rs_cpc := C_Idle,
      rs_popped := rs_popped ?s3 @ [data]\<rparr>"
  have "?S s ?s1" using inv(2) pre by (intro c_claim)
  moreover have "?S ?s1 ?s2" using c_len [of ?s1] by simp
  moreover have "?S ?s2 ?s3" using c_data [of ?s2] pre by simp
  moreover have "?S ?s3 ?s4" using c_release [of ?s3 data] by simp
  ultimately have "?S\<^sup>*\<^sup>* s ?s4" by (rule four_steps)
  moreover have "?s4 = s\<lparr>rs_buf := buf', rs_r := read_idx r', rs_popped := rs_popped s @ [data]\<rparr>"
    using pre inv(2,3) by simp
  ultimately show ?thesis by simp
qed

section \<open>The interface of a bounded queue\<close>

text \<open>
  What a client of a bounded queue relies on. A full queue accepts nothing, an empty one returns
  nothing.
\<close>

datatype 'a queue_op = Push 'a | Pop

locale bounded_queue =
  fixes put :: "'s \<Rightarrow> 'a \<Rightarrow> 'e + 's"
    and get :: "'s \<Rightarrow> 'e + 'a \<times> 's"
    and contents :: "'s \<Rightarrow> 'a list"
    and inv :: "'s \<Rightarrow> bool"
    and fits :: "'s \<Rightarrow> 'a \<Rightarrow> bool"
    and room :: "'s \<Rightarrow> nat"
  assumes bound: "inv s \<Longrightarrow> length (contents s) \<le> room s"
    and put_ok: "inv s \<Longrightarrow> put s x = Inr s' \<Longrightarrow> inv s' \<and> contents s' = contents s @ [x] \<and> room s' = room s"
    and put_total: "inv s \<Longrightarrow> fits s x \<Longrightarrow> length (contents s) < room s \<Longrightarrow> \<exists>s'. put s x = Inr s'"
    and get_ok: "inv s \<Longrightarrow> get s = Inr (x, s') \<Longrightarrow> inv s' \<and> contents s = x # contents s' \<and> room s' = room s"
    and get_total: "inv s \<Longrightarrow> contents s \<noteq> [] \<Longrightarrow> \<exists>x s'. get s = Inr (x, s')"
begin

lemma put_full: "inv s \<Longrightarrow> length (contents s) = room s \<Longrightarrow> \<exists>e. put s x = Inl e"
  using put_ok [of s x] bound by (cases "put s x") fastforce+

lemma get_empty: "inv s \<Longrightarrow> contents s = [] \<Longrightarrow> \<exists>e. get s = Inl e"
  using get_ok [of s] by (cases "get s") fastforce+

end

text \<open>
  What a sequence of calls answers, call by call. The reference is a queue that is a plain list,
  with the messages that fit and the capacity as its only bounds.
\<close>

datatype 'a call_answer = Accepted | Returned 'a | Raised exn

primrec call_answers ::
  "('s \<Rightarrow> 'a \<Rightarrow> 's res) \<Rightarrow> ('s \<Rightarrow> ('a \<times> 's) res) \<Rightarrow> 'a queue_op list \<Rightarrow> 's \<Rightarrow> 'a call_answer list \<times> 's" where
  "call_answers put get [] s = ([], s)"
| "call_answers put get (c # cs) s =
     (let (a, s') =
        (case c of
           Push x \<Rightarrow> (case put s x of Inl e \<Rightarrow> (Raised e, s) | Inr s' \<Rightarrow> (Accepted, s'))
         | Pop \<Rightarrow> (case get s of Inl e \<Rightarrow> (Raised e, s) | Inr (x, s') \<Rightarrow> (Returned x, s')));
        (as, t) = call_answers put get cs s'
      in (a # as, t))"

definition queue_put :: "nat \<Rightarrow> nat \<Rightarrow> bytes list \<Rightarrow> bytes \<Rightarrow> bytes list res" where
  "queue_put cap most q data =
     (if most < length data then Inl ValueError
      else if length q = cap then Inl RingFull else Inr (q @ [data]))"

fun queue_get :: "bytes list \<Rightarrow> (bytes \<times> bytes list) res" where
  "queue_get [] = Inl RingEmpty"
| "queue_get (d # q) = Inr (d, q)"

text \<open>A simulation that commutes with each single call commutes with every sequence of calls.\<close>

lemma call_answers_sim:
  assumes "\<And>s x. R s \<Longrightarrow> (case put s x of Inl e \<Rightarrow> put' (f s) x = Inl e
      | Inr s' \<Rightarrow> R s' \<and> put' (f s) x = Inr (f s'))"
    and "\<And>s. R s \<Longrightarrow> (case get s of Inl e \<Rightarrow> get' (f s) = Inl e
      | Inr (x, s') \<Rightarrow> R s' \<and> get' (f s) = Inr (x, f s'))"
  shows "R s \<Longrightarrow> call_answers put get cs s = (as, t) \<Longrightarrow> R t \<and> call_answers put' get' cs (f s) = (as, f t)"
proof (induction cs arbitrary: s as)
  case (Cons c cs)
  show ?case
  proof (cases c)
    case (Push x)
    with Cons assms(1) [OF Cons.prems(1), of x] show ?thesis
      by (cases "put s x") (auto split: prod.splits)
  next
    case Pop
    with Cons assms(2) [OF Cons.prems(1)] show ?thesis
      by (cases "get s") (auto split: prod.splits)
  qed
qed simp

text \<open>
  A bounded queue of byte strings that says why it refuses: the size of a message is bounded by
  \<open>most\<close>, and each refusal has its own exception. Its calls are those of the plain list, one by one
  and hence in every sequence.
\<close>

locale answering_queue = bounded_queue put get contents inv fits room
  for put :: "'s \<Rightarrow> bytes \<Rightarrow> 's res"
    and get :: "'s \<Rightarrow> (bytes \<times> 's) res"
    and contents :: "'s \<Rightarrow> bytes list"
    and inv :: "'s \<Rightarrow> bool"
    and fits :: "'s \<Rightarrow> bytes \<Rightarrow> bool"
    and room :: "'s \<Rightarrow> nat" +
  fixes most :: "'s \<Rightarrow> nat"
  assumes fits_most: "inv s \<Longrightarrow> fits s x \<longleftrightarrow> length x \<le> most s"
    and most_put: "inv s \<Longrightarrow> put s x = Inr s' \<Longrightarrow> most s' = most s"
    and most_get: "inv s \<Longrightarrow> get s = Inr (x, s') \<Longrightarrow> most s' = most s"
    and put_long: "inv s \<Longrightarrow> \<not> fits s x \<Longrightarrow> put s x = Inl ValueError"
    and put_no_room: "inv s \<Longrightarrow> fits s x \<Longrightarrow> length (contents s) = room s \<Longrightarrow> put s x = Inl RingFull"
    and get_nothing: "inv s \<Longrightarrow> contents s = [] \<Longrightarrow> get s = Inl RingEmpty"
begin

lemma put_queue:
  assumes "inv s"
  shows "case put s x of
      Inl e \<Rightarrow> queue_put (room s) (most s) (contents s) x = Inl e
    | Inr s' \<Rightarrow> (inv s' \<and> room s' = room s \<and> most s' = most s) \<and>
        queue_put (room s) (most s) (contents s) x = Inr (contents s')"
proof (cases "fits s x \<and> length (contents s) < room s")
  case True
  then obtain s' where put: "put s x = Inr s'" using put_total assms by blast
  with put_ok [OF assms put] most_put [OF assms put] True fits_most [OF assms] show ?thesis
    by (simp add: queue_put_def)
next
  case False
  with put_long [OF assms, of x] put_no_room [OF assms, of x] bound [OF assms] fits_most [OF assms, of x]
  show ?thesis by (cases "fits s x") (auto simp: queue_put_def)
qed

lemma get_queue:
  assumes "inv s"
  shows "case get s of
      Inl e \<Rightarrow> queue_get (contents s) = Inl e
    | Inr (x, s') \<Rightarrow> (inv s' \<and> room s' = room s \<and> most s' = most s) \<and> queue_get (contents s) = Inr (x, contents s')"
proof (cases "contents s = []")
  case True
  with get_nothing [OF assms] show ?thesis by simp
next
  case False
  then obtain x s' where get: "get s = Inr (x, s')" using get_total assms by blast
  with get_ok [OF assms get] most_get [OF assms get] show ?thesis by simp
qed

lemma run_refines:
  assumes "inv s" "call_answers put get cs s = (as, t)"
  shows "call_answers (queue_put (room s) (most s)) queue_get cs (contents s) = (as, contents t)"
    "length (contents t) \<le> room s"
proof -
  have "(inv t \<and> room t = room s \<and> most t = most s) \<and>
      call_answers (queue_put (room s) (most s)) queue_get cs (contents s) = (as, contents t)"
  proof (rule call_answers_sim [where R = "\<lambda>u. inv u \<and> room u = room s \<and> most u = most s", OF _ _ _ assms(2)])
    fix u x
    assume u: "inv u \<and> room u = room s \<and> most u = most s"
    show "case put u x of Inl e \<Rightarrow> queue_put (room s) (most s) (contents u) x = Inl e
        | Inr s' \<Rightarrow> (inv s' \<and> room s' = room s \<and> most s' = most s) \<and>
            queue_put (room s) (most s) (contents u) x = Inr (contents s')"
      using u put_queue [of u x] by (cases "put u x") simp_all
    show "case get u of Inl e \<Rightarrow> queue_get (contents u) = Inl e
        | Inr (x, s') \<Rightarrow> (inv s' \<and> room s' = room s \<and> most s' = most s) \<and> queue_get (contents u) = Inr (x, contents s')"
      using u get_queue [of u] by (cases "get u") auto
  qed (use assms(1) in simp)
  with bound [of t] show "call_answers (queue_put (room s) (most s)) queue_get cs (contents s) = (as, contents t)"
    "length (contents t) \<le> room s" by auto
qed

end

section \<open>The ring is a bounded queue\<close>

text \<open>Both ends and the segment between them; the calls of the class on the whole.\<close>

type_synonym ring_sys = "ring \<times> ring \<times> bytes"

definition sys_put :: "ring_sys \<Rightarrow> bytes \<Rightarrow> ring_sys res" where
  "sys_put = (\<lambda>(p, c, buf) data. bindr (push_nowait p data buf) (\<lambda>(p', buf'). Inr (p', c, buf')))"

definition sys_get :: "ring_sys \<Rightarrow> (bytes \<times> ring_sys) res" where
  "sys_get = (\<lambda>(p, c, buf). bindr (pop_nowait c buf) (\<lambda>(data, c', buf'). Inr (data, p, c', buf')))"

definition sys_contents :: "ring_sys \<Rightarrow> bytes list" where
  "sys_contents = (\<lambda>(p, c, buf).
     map (\<lambda>i. let off = soff (capacity p) (slot_size p) i in slot_payload buf off (slot_len buf off))
       [read_idx c..<write_idx p])"

definition sys_inv :: "ring_sys \<Rightarrow> bool" where
  "sys_inv = (\<lambda>(p, c, buf). capacity c = capacity p \<and> slot_size c = slot_size p \<and>
     (\<exists>pushed. slots_ok (capacity p) (slot_size p) buf (read_idx c) (write_idx p) pushed))"

definition sys_fits :: "ring_sys \<Rightarrow> bytes \<Rightarrow> bool" where
  "sys_fits = (\<lambda>(p, c, buf) data. length data + SLOT_DATA_OFFSET \<le> slot_size p)"

definition sys_room :: "ring_sys \<Rightarrow> nat" where
  "sys_room = (\<lambda>(p, c, buf). capacity p)"

definition sys_state :: "ring_sys \<Rightarrow> bytes list \<Rightarrow> ring_state" where
  "sys_state = (\<lambda>(p, c, buf) pushed. \<lparr>rs_buf = buf, rs_w = write_idx p, rs_r = read_idx c, rs_ppc = P_Idle,
     rs_cpc = C_Idle, rs_pushed = pushed, rs_popped = take (read_idx c) pushed\<rparr>)"

lemma slots_ok_contents:
  assumes "slots_ok (capacity p) (slot_size p) buf (read_idx c) (write_idx p) pushed"
  shows "sys_contents (p, c, buf) = drop (read_idx c) pushed"
proof (rule nth_equalityI)
  note o = slots_okD [OF assms]
  show "length (sys_contents (p, c, buf)) = length (drop (read_idx c) pushed)"
    using o(4) by (simp add: sys_contents_def)
  show "sys_contents (p, c, buf) ! k = drop (read_idx c) pushed ! k" if "k < length (sys_contents (p, c, buf))" for k
    using that o(4) o(5) [of "read_idx c + k"] by (simp add: sys_contents_def Let_def slot_holds_def)
qed

lemma sys_inv_state:
  "slots_ok (capacity p) (slot_size p) buf (read_idx c) (write_idx p) pushed \<Longrightarrow>
     ring_inv (capacity p) (slot_size p) (sys_state (p, c, buf) pushed)"
  by (simp add: ring_inv_def sys_state_def)

lemma sys_put_ok:
  assumes "sys_inv s" "sys_put s x = Inr s'"
  shows "sys_inv s' \<and> sys_contents s' = sys_contents s @ [x] \<and> sys_room s' = sys_room s"
proof -
  obtain p c buf where s: "s = (p, c, buf)" by (cases s)
  from assms(1) s obtain pushed where ok: "capacity c = capacity p" "slot_size c = slot_size p"
    "slots_ok (capacity p) (slot_size p) buf (read_idx c) (write_idx p) pushed" by (auto simp: sys_inv_def)
  from assms(2) s obtain p' buf' where push: "push_nowait p x buf = Inr (p', buf')" and s': "s' = (p', c, buf')"
    by (auto simp: sys_put_def bindr_eq_Inr)
  note g = slots_okD(1) [OF ok(3)]
  have p': "p' = p\<lparr>write_idx := write_idx p + 1\<rparr>" using push push_nowait_cases [OF g, of x] by (auto split: if_splits)
  let ?st = "sys_state (p, c, buf) pushed"
  have inv: "ring_inv (capacity p) (slot_size p) ?st" by (rule sys_inv_state [OF ok(3)])
  have "ring_inv (capacity p) (slot_size p)
      (?st\<lparr>rs_buf := buf', rs_w := write_idx p', rs_pushed := rs_pushed ?st @ [x]\<rparr>)"
    by (rule ring_inv_run [OF push_nowait_run [OF inv] inv]) (simp_all add: sys_state_def push)
  then have ok': "slots_ok (capacity p) (slot_size p) buf' (read_idx c) (write_idx p') (pushed @ [x])"
    by (simp add: ring_inv_def sys_state_def)
  have "sys_contents (p', c, buf') = drop (read_idx c) (pushed @ [x])"
    using slots_ok_contents [of p' buf' c] ok' p' by simp
  with ok' ok s s' p' slots_okD(2,4) [OF ok(3)] slots_ok_contents [OF ok(3)] show ?thesis
    by (auto simp: sys_inv_def sys_room_def)
qed

lemma sys_get_ok:
  assumes "sys_inv s" "sys_get s = Inr (x, s')"
  shows "sys_inv s' \<and> sys_contents s = x # sys_contents s' \<and> sys_room s' = sys_room s"
proof -
  obtain p c buf where s: "s = (p, c, buf)" by (cases s)
  from assms(1) s obtain pushed where ok: "capacity c = capacity p" "slot_size c = slot_size p"
    "slots_ok (capacity p) (slot_size p) buf (read_idx c) (write_idx p) pushed" by (auto simp: sys_inv_def)
  from assms(2) s obtain c' buf' where pop: "pop_nowait c buf = Inr (x, c', buf')" and s': "s' = (p, c', buf')"
    by (auto simp: sys_get_def bindr_eq_Inr)
  have g: "ring_geom (capacity c) (slot_size c) buf" using slots_okD(1) [OF ok(3)] ok(1,2) by simp
  have c': "c' = c\<lparr>read_idx := read_idx c + 1\<rparr>"
    using pop pop_nowait_cases [OF g] by (auto simp: Let_def split: if_splits)
  let ?st = "sys_state (p, c, buf) pushed"
  have inv: "ring_inv (capacity c) (slot_size c) ?st" using sys_inv_state [OF ok(3)] ok(1,2) by simp
  have "ring_inv (capacity c) (slot_size c)
      (?st\<lparr>rs_buf := buf', rs_r := read_idx c', rs_popped := rs_popped ?st @ [x]\<rparr>)"
    by (rule ring_inv_run [OF pop_nowait_run [OF inv] inv]) (simp_all add: sys_state_def pop)
  then have ok': "slots_ok (capacity p) (slot_size p) buf' (read_idx c') (write_idx p) pushed"
    and x: "take (read_idx c) pushed @ [x] = take (read_idx c + 1) pushed"
    using ok(1,2) c' by (simp_all add: ring_inv_def sys_state_def)
  have lt: "read_idx c < length pushed" using slots_okD(2,4) [OF ok'] c' by simp
  with x have "drop (read_idx c) pushed = x # drop (read_idx c') pushed"
    using c' by (simp add: take_Suc_conv_app_nth Cons_nth_drop_Suc [symmetric])
  with ok ok' s s' c' slots_ok_contents [OF ok(3)] slots_ok_contents [OF ok'] show ?thesis
    by (auto simp: sys_inv_def sys_room_def)
qed

interpretation ring: bounded_queue sys_put sys_get sys_contents sys_inv sys_fits sys_room
proof unfold_locales
  fix s :: ring_sys and x
  obtain p c buf where s: "s = (p, c, buf)" by (cases s)
  assume inv: "sys_inv s"
  then obtain pushed where eq: "capacity c = capacity p" "slot_size c = slot_size p"
    and ok: "slots_ok (capacity p) (slot_size p) buf (read_idx c) (write_idx p) pushed"
    using s by (auto simp: sys_inv_def)
  note o = slots_okD [OF ok] and con = slots_ok_contents [OF ok]
  show "length (sys_contents s) \<le> sys_room s" using con o(3,4) s by (simp add: sys_room_def)
  show "\<exists>s'. sys_put s x = Inr s'" if "sys_fits s x" "length (sys_contents s) < sys_room s"
  proof -
    have "buf ! soff (capacity p) (slot_size p) (write_idx p) = 0"
      using that con o(2,4) o(6) [of "write_idx p"] s by (simp add: sys_room_def)
    with push_nowait_cases [OF o(1), of x] that(1) s show ?thesis
      by (simp add: sys_put_def sys_fits_def)
  qed
  show "\<exists>x s'. sys_get s = Inr (x, s')" if "sys_contents s \<noteq> []"
  proof -
    have "buf ! soff (capacity p) (slot_size p) (read_idx c) = 1"
      using that con o(4) o(5) [of "read_idx c"] s by simp
    with pop_nowait_cases [of c buf] o(1) eq s show ?thesis by (simp add: sys_get_def Let_def)
  qed
next
  show "sys_inv s' \<and> sys_contents s' = sys_contents s @ [x] \<and> sys_room s' = sys_room s"
    if "sys_inv s" "sys_put s x = Inr s'" for s x s' using that by (rule sys_put_ok)
  show "sys_inv s' \<and> sys_contents s = x # sys_contents s' \<and> sys_room s' = sys_room s"
    if "sys_inv s" "sys_get s = Inr (x, s')" for s x s' using that by (rule sys_get_ok)
qed

lemma ring_create_Inr:
  assumes "ring_create shm cap ssz = Inr (r, buf)" "0 < cap" "SLOT_DATA_OFFSET \<le> ssz" "ssz \<le> 2 ^ 32"
    and "RING_HEADER_SIZE + cap * ssz \<le> length shm"
  shows "r = ring_init cap ssz True" "slots_ok cap ssz buf 0 0 []"
    "ring_open buf = Inr (ring_init cap ssz False)"
    "sys_inv (ring_init cap ssz True, ring_init cap ssz False, buf)"
proof -
  have "cap < 2 ^ 64" using assms(1) by (auto simp: ring_create_def bindr_eq_Inr pack_u_Inr)
  with create_slots [OF assms(2) _ assms(3-5)] assms(1)
  show "r = ring_init cap ssz True" and ok: "slots_ok cap ssz buf 0 0 []" and
    "ring_open buf = Inr (ring_init cap ssz False)" by auto
  from ok show "sys_inv (ring_init cap ssz True, ring_init cap ssz False, buf)"
    by (auto simp: sys_inv_def ring_init_def)
qed

text \<open>What a call does in a state that satisfies the invariant.\<close>

lemma sys_call_outcomes:
  assumes inv: "sys_inv (p, c, buf)"
  shows "(slot_size p < length data + SLOT_DATA_OFFSET \<longrightarrow> push_nowait p data buf = Inl ValueError) \<and>
    (length data + SLOT_DATA_OFFSET \<le> slot_size p \<and> length (sys_contents (p, c, buf)) = capacity p \<longrightarrow>
      push_nowait p data buf = Inl RingFull) \<and>
    (length data + SLOT_DATA_OFFSET \<le> slot_size p \<and> length (sys_contents (p, c, buf)) < capacity p \<longrightarrow>
      (\<exists>q buf2. push_nowait p data buf = Inr (q, buf2) \<and>
        sys_contents (q, c, buf2) = sys_contents (p, c, buf) @ [data])) \<and>
    (sys_contents (p, c, buf) = [] \<longrightarrow> pop_nowait c buf = Inl RingEmpty) \<and>
    (\<forall>d ds. sys_contents (p, c, buf) = d # ds \<longrightarrow>
      (\<exists>q buf2. pop_nowait c buf = Inr (d, q, buf2) \<and> sys_contents (p, q, buf2) = ds))"
proof (intro conjI allI impI)
  from inv obtain pushed where eq: "capacity c = capacity p" "slot_size c = slot_size p"
    and ok: "slots_ok (capacity p) (slot_size p) buf (read_idx c) (write_idx p) pushed"
    by (auto simp: sys_inv_def)
  note g = slots_okD(1) [OF ok]
  have gc: "ring_geom (capacity c) (slot_size c) buf" using g eq by simp
  show "push_nowait p data buf = Inl ValueError" if "slot_size p < length data + 5"
    using that push_nowait_cases [OF g] by simp
  show "push_nowait p data buf = Inl RingFull"
    if "length data + 5 \<le> slot_size p \<and> length (sys_contents (p, c, buf)) = capacity p"
  proof -
    have "length (sys_contents (p, c, buf)) = sys_room (p, c, buf)" using that by (simp add: sys_room_def)
    from ring.put_full [OF inv this, of data] obtain e where "sys_put (p, c, buf) data = Inl e" by blast
    with push_nowait_cases [OF g, of data] that show ?thesis
      by (auto simp: sys_put_def bindr_eq_Inl split: if_splits)
  qed
  show "\<exists>q buf2. push_nowait p data buf = Inr (q, buf2) \<and> sys_contents (q, c, buf2) = sys_contents (p, c, buf) @ [data]"
    if "length data + 5 \<le> slot_size p \<and> length (sys_contents (p, c, buf)) < capacity p"
  proof -
    have "sys_fits (p, c, buf) data" "length (sys_contents (p, c, buf)) < sys_room (p, c, buf)"
      using that by (simp_all add: sys_room_def sys_fits_def)
    from ring.put_total [OF inv this] obtain s' where s': "sys_put (p, c, buf) data = Inr s'" by blast
    with ring.put_ok [OF inv s'] show ?thesis by (auto simp: sys_put_def bindr_eq_Inr)
  qed
  show "pop_nowait c buf = Inl RingEmpty" if "sys_contents (p, c, buf) = []"
  proof -
    from ring.get_empty [OF inv that] obtain e where "sys_get (p, c, buf) = Inl e" by blast
    with pop_nowait_cases [OF gc] show ?thesis
      by (auto simp: sys_get_def bindr_eq_Inl Let_def split: if_splits)
  qed
  show "\<exists>q buf2. pop_nowait c buf = Inr (d, q, buf2) \<and> sys_contents (p, q, buf2) = ds"
    if "sys_contents (p, c, buf) = d # ds" for d ds
  proof -
    have "sys_contents (p, c, buf) \<noteq> []" using that by simp
    from ring.get_total [OF inv this] obtain x s' where s': "sys_get (p, c, buf) = Inr (x, s')" by blast
    with ring.get_ok [OF inv s'] that show ?thesis by (auto simp: sys_get_def bindr_eq_Inr)
  qed
qed

text \<open>The longest message a slot holds; no call changes it.\<close>

definition sys_most :: "ring_sys \<Rightarrow> nat" where
  "sys_most = (\<lambda>(p, c, buf). slot_size p - SLOT_DATA_OFFSET)"

lemma push_nowait_ring: "push_nowait r data buf = Inr (r', buf') \<Longrightarrow> r' = r\<lparr>write_idx := write_idx r + 1\<rparr>"
  by (auto simp: push_nowait_def Let_def bindr_eq_Inr split: if_splits)

interpretation ring_queue: answering_queue sys_put sys_get sys_contents sys_inv sys_fits sys_room sys_most
proof unfold_locales
  fix s :: ring_sys and x s'
  obtain p c buf where s: "s = (p, c, buf)" by (cases s)
  assume inv: "sys_inv s"
  then have "SLOT_DATA_OFFSET \<le> slot_size p" using s by (auto simp: sys_inv_def slots_ok_def ring_geom_def)
  then show "sys_fits s x \<longleftrightarrow> length x \<le> sys_most s" using s by (auto simp: sys_fits_def sys_most_def)
  show "sys_most s' = sys_most s" if "sys_put s x = Inr s'"
    using that s by (auto simp: sys_put_def sys_most_def bindr_eq_Inr dest!: push_nowait_ring)
  show "sys_most s' = sys_most s" if "sys_get s = Inr (x, s')"
    using that s by (auto simp: sys_get_def sys_most_def bindr_eq_Inr)
  note out = sys_call_outcomes [OF inv [unfolded s], of x]
  show "sys_put s x = Inl ValueError" if "\<not> sys_fits s x"
    using that out s by (auto simp: sys_put_def sys_fits_def)
  show "sys_put s x = Inl RingFull" if "sys_fits s x" "length (sys_contents s) = sys_room s"
    using that out s by (auto simp: sys_put_def sys_fits_def sys_room_def)
  show "sys_get s = Inl RingEmpty" if "sys_contents s = []"
    using that out s by (auto simp: sys_get_def)
qed

text \<open>The loops of the waiting calls.\<close>

lemma push_loop_waits:
  "\<forall>(b, now) \<in> set waits. push_nowait r data b = Inl RingFull \<and> \<not> now > deadline \<Longrightarrow>
     push_loop deadline r data (waits @ rest) = push_loop deadline r data rest"
  by (induction waits) auto

lemma pop_loop_waits:
  "\<forall>(b, now) \<in> set waits. pop_nowait r b = Inl RingEmpty \<and> \<not> now > deadline \<Longrightarrow>
     pop_loop deadline r (waits @ rest) = pop_loop deadline r rest"
  by (induction waits) auto

lemma push_loop_ends:
  "\<exists>(b, now) \<in> set rounds. now > deadline \<Longrightarrow> push_loop deadline r data rounds \<noteq> None"
  by (induction rounds) (auto split: sum.splits exn.splits)

lemma pop_loop_ends:
  "\<exists>(b, now) \<in> set rounds. now > deadline \<Longrightarrow> pop_loop deadline r rounds \<noteq> None"
  by (induction rounds) (auto split: sum.splits exn.splits)

text \<open>
  \<^verbatim>\<open>attach\<close> waits for the segment: as long as it is missing before the deadline the loop goes on, the
  first round before the deadline that opens it ends with what is read there, and the first
  reading at the deadline or later with \<^verbatim>\<open>TimeoutError\<close>.
\<close>

lemma ring_attach_waits:
  assumes "\<forall>(now, o') \<in> set waits. now < now0 + retry_s \<and> o' = None"
  shows "ring_attach retry_s now0 waits = None"
    "now < now0 + retry_s \<Longrightarrow> ring_attach retry_s now0 (waits @ (now, Some buf) # rest) = Some (ring_open buf)"
    "\<not> now < now0 + retry_s \<Longrightarrow> ring_attach retry_s now0 (waits @ (now, o') # rest) = Some (Inl PyTimeoutError)"
  using assms unfolding ring_attach_def by (induction waits) auto

lemma ring_run_fifo:
  assumes "ring_create shm cap ssz = Inr (r, buf)" "0 < cap" "SLOT_DATA_OFFSET \<le> ssz" "ssz \<le> 2 ^ 32"
    and "RING_HEADER_SIZE + cap * ssz \<le> length shm" "(ring_step cap ssz)\<^sup>*\<^sup>* (rs_init buf) s"
  shows "\<exists>between. rs_pushed s = rs_popped s @ between \<and> length between \<le> cap"
proof -
  have "ring_inv cap ssz s"
    using ring_inv_run [OF assms(6)] ring_inv_init ring_create_Inr(2) [OF assms(1-5)] by blast
  then have o: "slots_ok cap ssz (rs_buf s) (rs_r s) (rs_w s) (rs_pushed s)"
    "rs_popped s = take (rs_r s) (rs_pushed s)" by (simp_all add: ring_inv_def)
  then have "rs_pushed s = rs_popped s @ drop (rs_r s) (rs_pushed s)" by simp
  moreover have "length (drop (rs_r s) (rs_pushed s)) \<le> cap" using slots_okD(3,4) [OF o(1)] by simp
  ultimately show ?thesis by blast
qed

section \<open>Properties\<close>

text \<open>
  C3. Producer and consumer run at the same time on a freshly created ring, every memory access
  a step of its own, in any order: at every moment what the consumer has returned is a prefix
  of what the producer has published, byte for byte, and at most \<open>cap\<close> messages are in between.
\<close>

theorem ring_concurrent_fifo:
  assumes "ring_create shm cap ssz = Inr (r, buf)" "0 < cap" "SLOT_DATA_OFFSET \<le> ssz" "ssz \<le> 2 ^ 32"
    and "RING_HEADER_SIZE + cap * ssz \<le> length shm" "(ring_step cap ssz)\<^sup>*\<^sup>* (rs_init buf) s"
  shows "\<exists>between. rs_pushed s = rs_popped s @ between \<and> length between \<le> cap"
  by (rule ring_run_fifo [OF assms])

lemma small_ring:
  obtains buf where "ring_create (replicate 40 0) 2 10 = Inr (ring_init 2 10 True, buf)" "slots_ok 2 10 buf 0 0 []"
  using create_slots [of 2 10 "replicate 40 0"] by auto

theorem ring_concurrent_fifo_witness:
  "\<exists>buf s between. ring_create (replicate 40 0) 2 10 = Inr (ring_init 2 10 True, buf) \<and>
     (ring_step 2 10)\<^sup>*\<^sup>* (rs_init buf) s \<and> rs_pushed s = [[7, 8]] \<and>
     rs_pushed s = rs_popped s @ between \<and> length between \<le> 2"
proof -
  obtain buf where buf: "ring_create (replicate 40 0) 2 10 = Inr (ring_init 2 10 True, buf)"
    and ok: "slots_ok 2 10 buf 0 0 []" by (rule small_ring)
  let ?r = "ring_init 2 10 True"
  have geom: "capacity ?r = 2" "slot_size ?r = 10" "write_idx ?r = 0" by (simp_all add: ring_init_def)
  have g: "ring_geom (capacity ?r) (slot_size ?r) buf" using slots_okD(1) [OF ok] geom by simp
  have free: "buf ! soff 2 10 0 = 0" using slots_okD(6) [OF ok, of 0] by simp
  obtain r' buf' where push: "push_nowait ?r [7, 8] buf = Inr (r', buf')"
    using push_nowait_cases [OF g, of "[7, 8]"] free geom by auto
  let ?s = "(rs_init buf)\<lparr>rs_buf := buf', rs_w := write_idx r', rs_pushed := rs_pushed (rs_init buf) @ [[7, 8]]\<rparr>"
  have "(ring_step (capacity ?r) (slot_size ?r))\<^sup>*\<^sup>* (rs_init buf) ?s"
    by (rule push_nowait_run) (use ring_inv_init [OF ok] push geom in \<open>simp_all add: rs_init_def\<close>)
  then have run: "(ring_step 2 10)\<^sup>*\<^sup>* (rs_init buf) ?s" using geom by simp
  have "\<exists>between. rs_pushed ?s = rs_popped ?s @ between \<and> length between \<le> 2"
    by (rule ring_concurrent_fifo [OF buf _ _ _ _ run]) simp_all
  moreover have "rs_pushed ?s = [[7, 8]]" by (simp add: rs_init_def)
  ultimately show ?thesis using buf run by blast
qed

text \<open>
  C25. The ring refines a queue that is a plain list: for every sequence of \<^verbatim>\<open>push_nowait\<close> and
  \<^verbatim>\<open>pop_nowait\<close> calls on a created ring and the end attached to it, each call answers what the list
  answers, and what is left in the ring is what is left in the list. A message longer than a slot
  raises \<^verbatim>\<open>ValueError\<close>, a push on \<open>cap\<close> messages \<^verbatim>\<open>RingFull\<close>, any other push is accepted; a pop on no
  message raises \<^verbatim>\<open>RingEmpty\<close>, any other pop returns the oldest message.
\<close>

theorem ring_refines_queue:
  assumes "ring_create shm cap ssz = Inr (p, buf)" "0 < cap" "SLOT_DATA_OFFSET \<le> ssz" "ssz \<le> 2 ^ 32"
    and "RING_HEADER_SIZE + cap * ssz \<le> length shm"
    and "ring_attach retry_s now0 [(now, Some buf)] = Some (Inr c)"
    and "call_answers sys_put sys_get calls (p, c, buf) = (answers, t)"
  shows "call_answers (queue_put cap (ssz - SLOT_DATA_OFFSET)) queue_get calls [] = (answers, sys_contents t) \<and>
    length (sys_contents t) \<le> cap"
proof -
  note cr = ring_create_Inr [OF assms(1-5)]
  have c: "c = ring_init cap ssz False"
    using assms(6) cr(3) by (simp add: ring_attach_def split: if_splits)
  have "sys_inv (p, c, buf)" "sys_room (p, c, buf) = cap" "sys_most (p, c, buf) = ssz - 5"
    "sys_contents (p, c, buf) = []"
    using cr(1,4) c by (simp_all add: sys_room_def sys_most_def sys_contents_def ring_init_def)
  with ring_queue.run_refines [of "(p, c, buf)" calls answers t] assms(7) show ?thesis by simp
qed

theorem ring_refines_queue_witness:
  "\<exists>buf c t. ring_create (replicate 40 0) 2 10 = Inr (ring_init 2 10 True, buf) \<and>
     ring_attach 5 (0 :: int) [(1, Some buf)] = Some (Inr c) \<and>
     call_answers sys_put sys_get [Pop, Push [1], Push [2, 3], Push [4], Pop, Push [1, 2, 3, 4, 5, 6]]
       (ring_init 2 10 True, c, buf) =
       ([Raised RingEmpty, Accepted, Accepted, Raised RingFull, Returned [1], Raised ValueError], t) \<and>
     sys_contents t = [[2, 3]]"
proof -
  let ?calls = "[Pop, Push [1], Push [2, 3], Push [4], Pop, Push [1, 2, 3, 4, 5, 6]]"
  obtain buf where buf: "ring_create (replicate 40 0) 2 10 = Inr (ring_init 2 10 True, buf)"
    by (rule small_ring)
  have g: "0 < (2 :: nat)" "SLOT_DATA_OFFSET \<le> 10" "(10 :: nat) \<le> 2 ^ 32"
    "RING_HEADER_SIZE + 2 * 10 \<le> length (replicate 40 (0 :: byte))" by simp_all
  obtain c where c: "ring_attach 5 (0 :: int) [(1, Some buf)] = Some (Inr c)"
    using ring_create_Inr(3) [OF buf g] by (simp add: ring_attach_def)
  obtain a t where run: "call_answers sys_put sys_get ?calls (ring_init 2 10 True, c, buf) = (a, t)"
    by (cases "call_answers sys_put sys_get ?calls (ring_init 2 10 True, c, buf)")
  have ref: "call_answers (queue_put 2 (10 - SLOT_DATA_OFFSET)) queue_get ?calls [] =
      ([Raised RingEmpty, Accepted, Accepted, Raised RingFull, Returned [1], Raised ValueError], [[2, 3]])"
    by (simp add: queue_put_def)
  from ring_refines_queue [OF buf g c run] ref
  have "a = [Raised RingEmpty, Accepted, Accepted, Raised RingFull, Returned [1], Raised ValueError]"
    "sys_contents t = [[2, 3]]" by simp_all
  with buf c run show ?thesis by blast
qed

text \<open>
  C29. The waiting calls. Whatever the other end does between the rounds, \<^verbatim>\<open>push\<close> waits as long as it
  finds the ring full and the clock has not passed \<open>now0 + timeout_s\<close>; the first round that finds
  room appends the message, however late it is; the first failed try that ends after the deadline
  raises \<^verbatim>\<open>TimeoutError\<close>; and a message no slot can hold raises \<^verbatim>\<open>ValueError\<close> in the first round. Once a
  reading has passed the deadline the call is over. \<^verbatim>\<open>pop\<close> does the same with the empty ring and the
  oldest message.
\<close>

theorem ring_waiting_calls:
  fixes now0 timeout_s :: "'t :: {plus, ord}"
  assumes "\<forall>(c, b, now) \<in> set waits. sys_inv (p, c, b) \<and> length (sys_contents (p, c, b)) = capacity p \<and>
      \<not> now > now0 + timeout_s"
    and "\<forall>(p, b, now) \<in> set pwaits. sys_inv (p, c, b) \<and> sys_contents (p, c, b) = [] \<and>
      \<not> now > now0 + timeout_s"
    and "sys_inv (p, c, buf)" "length data + SLOT_DATA_OFFSET \<le> slot_size p" "slot_size p < length long + SLOT_DATA_OFFSET"
  shows "push p data timeout_s now0 (map snd waits) = None \<and>
    (length (sys_contents (p, c, buf)) < capacity p \<longrightarrow>
      (\<exists>q buf2. push p data timeout_s now0 (map snd waits @ (buf, now) # later) = Some (Inr (q, buf2)) \<and>
        sys_contents (q, c, buf2) = sys_contents (p, c, buf) @ [data])) \<and>
    (length (sys_contents (p, c, buf)) = capacity p \<and> now > now0 + timeout_s \<longrightarrow>
      push p data timeout_s now0 (map snd waits @ (buf, now) # later) = Some (Inl PyTimeoutError)) \<and>
    push p long timeout_s now0 ((buf, now) # later) = Some (Inl ValueError) \<and>
    ((\<exists>(b, now) \<in> set rounds. now > now0 + timeout_s) \<longrightarrow> push p data timeout_s now0 rounds \<noteq> None) \<and>
    pop c timeout_s now0 (map snd pwaits) = None \<and>
    (\<forall>d ds. sys_contents (p, c, buf) = d # ds \<longrightarrow>
      (\<exists>q buf2. pop c timeout_s now0 (map snd pwaits @ (buf, now) # later) = Some (Inr (d, q, buf2)) \<and>
        sys_contents (p, q, buf2) = ds)) \<and>
    (sys_contents (p, c, buf) = [] \<and> now > now0 + timeout_s \<longrightarrow>
      pop c timeout_s now0 (map snd pwaits @ (buf, now) # later) = Some (Inl PyTimeoutError)) \<and>
    ((\<exists>(b, now) \<in> set rounds. now > now0 + timeout_s) \<longrightarrow> pop c timeout_s now0 rounds \<noteq> None)"
proof -
  have "\<forall>(b, now) \<in> set (map snd waits). push_nowait p data b = Inl RingFull \<and> \<not> now > now0 + timeout_s"
    using assms(1,4) sys_call_outcomes by fastforce
  note push = push_loop_waits [OF this]
  have "\<forall>(b, now) \<in> set (map snd pwaits). pop_nowait c b = Inl RingEmpty \<and> \<not> now > now0 + timeout_s"
    using assms(2) sys_call_outcomes by fastforce
  note pop = pop_loop_waits [OF this]
  note out = sys_call_outcomes [OF assms(3), of data] sys_call_outcomes [OF assms(3), of long]
  show ?thesis
    unfolding push_def pop_def push pop push [of "[]", simplified] pop [of "[]", simplified]
    using out assms(4,5) push_loop_ends [of rounds "now0 + timeout_s" p data]
      pop_loop_ends [of rounds "now0 + timeout_s" c] by auto
qed

theorem ring_waiting_calls_witness:
  "\<exists>buf. ring_create (replicate 40 0) 2 10 = Inr (ring_init 2 10 True, buf) \<and>
     pop (ring_init 2 10 False) 5 (10 :: int) [(buf, 12), (buf, 15)] = None \<and>
     pop (ring_init 2 10 False) 5 (10 :: int) [(buf, 12), (buf, 15), (buf, 16)] = Some (Inl PyTimeoutError) \<and>
     (\<exists>q buf2. push (ring_init 2 10 True) [7, 8] 5 (10 :: int) [(buf, 16)] = Some (Inr (q, buf2)) \<and>
       sys_contents (q, ring_init 2 10 False, buf2) = [[7, 8]])"
proof -
  let ?p = "ring_init 2 10 True" and ?c = "ring_init 2 10 False"
  obtain buf where buf: "ring_create (replicate 40 0) 2 10 = Inr (?p, buf)" by (rule small_ring)
  have inv: "sys_inv (?p, ?c, buf)" using ring_create_Inr(4) [OF buf] by simp
  have empty: "sys_contents (?p, ?c, buf) = []" by (simp add: sys_contents_def ring_init_def)
  have shape: "slot_size ?p = 10" "capacity ?p = 2" by (simp_all add: ring_init_def)
  from ring_waiting_calls [of "[]" ?p 10 "5 :: int" "[(?p, buf, 12), (?p, buf, 15)]" ?c buf "[7, 8]"
      "[1, 2, 3, 4, 5, 6]" 16 "[]" "[]"] inv empty shape buf show ?thesis by simp
qed

end
