(* ===== verification/Py_Decimal.thy ===== *)
theory Py_Decimal
  imports Py_Text
begin

text \<open>
  Decimal numbers in strings, as \<^verbatim>\<open>int(s)\<close>, \<^verbatim>\<open>str(n)\<close> and the class \<^verbatim>\<open>\d\<close> of a regular expression see
  them: \<^verbatim>\<open>\d\<close> is every code point of the Unicode category Nd (blocks of ten), and \<^verbatim>\<open>int\<close> refuses more
  than 4300 digits.
\<close>

section \<open>Digits\<close>

text \<open>The zero of each block of ten digits (Unicode 14, the tables of Python 3.11).\<close>

definition digit_zeros :: "nat list" where
  "digit_zeros =
    [0x30, 0x660, 0x6F0, 0x7C0, 0x966, 0x9E6, 0xA66, 0xAE6, 0xB66, 0xBE6, 0xC66, 0xCE6, 0xD66,
     0xDE6, 0xE50, 0xED0, 0xF20, 0x1040, 0x1090, 0x17E0, 0x1810, 0x1946, 0x19D0, 0x1A80, 0x1A90,
     0x1B50, 0x1BB0, 0x1C40, 0x1C50, 0xA620, 0xA8D0, 0xA900, 0xA9D0, 0xA9F0, 0xAA50, 0xABF0,
     0xFF10, 0x104A0, 0x10D30, 0x11066, 0x110F0, 0x11136, 0x111D0, 0x112F0, 0x11450, 0x114D0,
     0x11650, 0x116C0, 0x11730, 0x118E0, 0x11950, 0x11C50, 0x11D50, 0x11DA0, 0x16A60, 0x16AC0,
     0x16B50, 0x1D7CE, 0x1D7D8, 0x1D7E2, 0x1D7EC, 0x1D7F6, 0x1E140, 0x1E2F0, 0x1E950, 0x1FBF0]"

definition digit :: "nat \<Rightarrow> nat option" where
  "digit c = map_option (\<lambda>z. c - z) (find (\<lambda>z. z \<le> c \<and> c < z + 10) digit_zeros)"

definition is_digit :: "nat \<Rightarrow> bool" where
  "is_digit c = (digit c \<noteq> None)"

abbreviation (input) INT_MAX_STR_DIGITS :: nat where "INT_MAX_STR_DIGITS \<equiv> 4300"

definition digits_value :: "pystr \<Rightarrow> nat" where
  "digits_value ds = foldl (\<lambda>a c. a * 10 + (case digit c of None \<Rightarrow> 0 | Some d \<Rightarrow> d)) 0 ds"

text \<open>\<^verbatim>\<open>int(s)\<close> of a string of digits.\<close>

definition int_of_digits :: "pystr \<Rightarrow> int res" where
  "int_of_digits ds =
     (if ds = [] \<or> \<not> list_all is_digit ds \<or> length ds > INT_MAX_STR_DIGITS then Inl ValueError
      else Inr (int (digits_value ds)))"

text \<open>\<^verbatim>\<open>str(n)\<close>.\<close>

fun dec :: "nat \<Rightarrow> pystr" where
  "dec n = (if n < 10 then [48 + n] else dec (n div 10) @ [48 + n mod 10])"

declare dec.simps [simp del]

definition dec_int :: "int \<Rightarrow> pystr" where
  "dec_int i = (if i < 0 then 45 # dec (nat (- i)) else dec (nat i))"

section \<open>Lemmas\<close>

lemma digit_ascii [simp]: "d < 10 \<Longrightarrow> digit (48 + d) = Some d"
  by (simp add: digit_def digit_zeros_def)

lemma is_digit_ascii [simp]: "d < 10 \<Longrightarrow> is_digit (48 + d)"
  by (simp add: is_digit_def)

lemma not_digit_below: "c < 48 \<Longrightarrow> digit c = None"
  by (simp add: digit_def digit_zeros_def)

lemma digit_less: "digit c = Some d \<Longrightarrow> d < 10"
  by (auto simp: digit_def find_Some_iff)

lemma digits_value_Nil [simp]: "digits_value [] = 0"
  by (simp add: digits_value_def)

lemma digits_value_snoc:
  "digits_value (ds @ [c]) = digits_value ds * 10 + (case digit c of None \<Rightarrow> 0 | Some d \<Rightarrow> d)"
  by (simp add: digits_value_def)

lemma digits_value_dec [simp]: "digits_value (dec n) = n"
proof (induction n rule: dec.induct)
  case (1 n)
  show ?case
  proof (cases "n < 10")
    case True
    then show ?thesis
      using digits_value_snoc [of "[]" "48 + n"] by (subst dec.simps) simp
  next
    case False
    with 1 have "digits_value (dec (n div 10) @ [48 + n mod 10]) = n"
      by (simp add: digits_value_snoc)
    then show ?thesis using False by (subst dec.simps) simp
  qed
qed

lemma dec_digits: "list_all is_digit (dec n)"
proof (induction n rule: dec.induct)
  case (1 n)
  then show ?case by (subst dec.simps) auto
qed

lemma dec_chars: "c \<in> set (dec n) \<Longrightarrow> 48 \<le> c \<and> c < 58"
proof (induction n rule: dec.induct)
  case (1 n)
  then show ?case by (subst (asm) (2) dec.simps) (auto split: if_splits)
qed

lemma dec_nonempty [simp]: "dec n \<noteq> []"
  by (subst dec.simps) simp

lemma length_dec: "n < 10 ^ Suc k \<Longrightarrow> length (dec n) \<le> Suc k"
proof (induction k arbitrary: n)
  case 0
  then show ?case by (subst dec.simps) simp
next
  case (Suc k)
  show ?case
  proof (cases "n < 10")
    case False
    have "n div 10 < 10 ^ Suc k" using Suc.prems by (simp add: less_mult_imp_div_less mult.commute)
    from Suc.IH [OF this] False show ?thesis by (subst dec.simps) simp
  qed (simp add: dec.simps)
qed

lemma digits_value_less: "list_all is_digit ds \<Longrightarrow> digits_value ds < 10 ^ length ds"
proof (induction ds rule: rev_induct)
  case (snoc c ds)
  then obtain d where d: "digit c = Some d" by (auto simp: is_digit_def)
  have "digits_value ds < 10 ^ length ds" using snoc by simp
  then have "(digits_value ds + 1) * 10 \<le> 10 ^ length ds * 10" by (intro mult_le_mono1) simp
  with digit_less [OF d] d show ?case by (simp add: digits_value_snoc)
qed simp

lemma dec_no_longer: "list_all is_digit ds \<Longrightarrow> ds \<noteq> [] \<Longrightarrow> length (dec (digits_value ds)) \<le> length ds"
  using digits_value_less [of ds] length_dec [of "digits_value ds" "length ds - 1"] by (cases ds) auto

text \<open>Reading a number and printing it again stays within the digit limit.\<close>

lemma int_of_digits_dec:
  assumes "int_of_digits ds = Inr i"
  shows "0 \<le> i" "int_of_digits (dec_int i) = Inr i"
proof -
  from assms have ds: "ds \<noteq> []" "list_all is_digit ds" "length ds \<le> 4300" "i = int (digits_value ds)"
    by (auto simp: int_of_digits_def split: if_splits)
  then show "0 \<le> i" by simp
  from dec_no_longer [OF ds(2,1)] ds(3) have "length (dec (digits_value ds)) \<le> 4300" by simp
  then show "int_of_digits (dec_int i) = Inr i"
    using ds(4) by (simp add: int_of_digits_def dec_int_def dec_digits)
qed

end
