(* ===== verification/Address.thy ===== *)
theory Address
  imports Py_Decimal
begin

text \<open>
  \<^verbatim>\<open>aicl/transport/address.py\<close>: endpoint addresses, parsed from and printed as URI-like strings.
  The regular expressions are written out as the recognisers they are. Shown: which strings
  parse; every parsed address is valid; printing and parsing again gives the address back,
  except where the printed form loses something (IPv6 hosts, empty paths).
\<close>

section \<open>Addresses\<close>

definition VALID_SCHEMES :: "pystr list" where
  "VALID_SCHEMES = [str ''unix'', str ''pipe'', str ''shm'', str ''tcp'', str ''quic'']"

record transport_address =
  addr_scheme :: pystr
  addr_path :: pystr
  addr_host :: "pystr option"
  addr_port :: "int option"

text \<open>The constructor with \<^verbatim>\<open>__post_init__\<close>.\<close>

definition new_address :: "pystr \<Rightarrow> pystr \<Rightarrow> pystr option \<Rightarrow> int option \<Rightarrow> transport_address res" where
  "new_address scheme path host port =
     (if scheme \<notin> set VALID_SCHEMES then Inl ValueError
      else Inr \<lparr>addr_scheme = scheme, addr_path = path, addr_host = host, addr_port = port\<rparr>)"

section \<open>Parsing\<close>

definition ascii_letter :: "nat \<Rightarrow> bool" where
  "ascii_letter c = ((65 \<le> c \<and> c \<le> 90) \<or> (97 \<le> c \<and> c \<le> 122))"

definition scheme_char :: "nat \<Rightarrow> bool" where
  "scheme_char c = (ascii_letter c \<or> (48 \<le> c \<and> c \<le> 57) \<or> c = 43 \<or> c = 45)"

text \<open>\<^verbatim>\<open>(.*)$\<close>: no newline, but one at the very end is left out of the group.\<close>

definition dot_rest :: "pystr \<Rightarrow> pystr option" where
  "dot_rest s =
     (if 10 \<notin> set s then Some s
      else if 10 \<notin> set (butlast s) then Some (butlast s)
      else None)"

text \<open>
  \<^verbatim>\<open>^([a-zA-Z][a-zA-Z0-9+-]*?)://(.*)$\<close>. The colon is no scheme character, so the group ends where
  the run of scheme characters ends.
\<close>

definition match_scheme :: "pystr \<Rightarrow> (pystr \<times> pystr) option" where
  "match_scheme uri =
     (case uri of
        [] \<Rightarrow> None
      | c # cs \<Rightarrow>
          if \<not> ascii_letter c then None
          else
            let r = dropWhile scheme_char cs in
            if take 3 r = [58, 47, 47]
            then map_option (\<lambda>rest. (c # takeWhile scheme_char cs, rest)) (dot_rest (drop 3 r))
            else None)"

text \<open>\<^verbatim>\<open>s.lower()\<close> of a string of scheme characters.\<close>

definition lower :: "pystr \<Rightarrow> pystr" where
  "lower s = map (\<lambda>c. if 65 \<le> c \<and> c \<le> 90 then c + 32 else c) s"

text \<open>\<^verbatim>\<open>\[([^\]]+)\]:(\d+)$\<close> and \<^verbatim>\<open>([^:]+):(\d+)$\<close>, on a string without a newline.\<close>

definition match_port :: "pystr \<Rightarrow> pystr option" where
  "match_port s = (if s \<noteq> [] \<and> list_all is_digit s then Some s else None)"

definition match_ipv6 :: "pystr \<Rightarrow> (pystr \<times> pystr) option" where
  "match_ipv6 s =
     (case s of
        [] \<Rightarrow> None
      | c # cs \<Rightarrow>
          let h = takeWhile (\<lambda>x. x \<noteq> 93) cs; r = dropWhile (\<lambda>x. x \<noteq> 93) cs in
          if c = 91 \<and> h \<noteq> [] \<and> take 2 r = [93, 58]
          then map_option (\<lambda>p. (h, p)) (match_port (drop 2 r)) else None)"

definition match_host :: "pystr \<Rightarrow> (pystr \<times> pystr) option" where
  "match_host s =
     (let h = takeWhile (\<lambda>x. x \<noteq> 58) s; r = dropWhile (\<lambda>x. x \<noteq> 58) s in
      if h \<noteq> [] \<and> take 1 r = [58]
      then map_option (\<lambda>p. (h, p)) (match_port (drop 1 r)) else None)"

definition parse_address :: "pystr \<Rightarrow> transport_address res" where
  "parse_address uri =
     (if uri = [] then Inl ValueError
      else
        case match_scheme uri of
          None \<Rightarrow> new_address (str ''unix'') uri None None
        | Some (g, rest) \<Rightarrow>
            (let scheme = lower g in
             if scheme \<in> {str ''tcp'', str ''quic''} then
               (case (case match_ipv6 rest of None \<Rightarrow> match_host rest | m \<Rightarrow> m) of
                  None \<Rightarrow> Inl ValueError
                | Some (host, port_str) \<Rightarrow>
                    bindr (int_of_digits port_str) (\<lambda>port. new_address scheme [] (Some host) (Some port)))
             else if scheme \<in> {str ''unix'', str ''pipe'', str ''shm''} then
               new_address scheme rest None None
             else Inl ValueError))"

section \<open>Properties of an address, and its printed form\<close>

definition is_local :: "transport_address \<Rightarrow> bool" where
  "is_local a = (addr_scheme a \<in> {str ''unix'', str ''pipe'', str ''shm''})"

definition is_stream :: "transport_address \<Rightarrow> bool" where
  "is_stream a = (addr_scheme a \<in> {str ''unix'', str ''pipe'', str ''tcp'', str ''quic''})"

definition is_datagram :: "transport_address \<Rightarrow> bool" where
  "is_datagram a = (addr_scheme a = str ''shm'')"

definition address_str :: "transport_address \<Rightarrow> pystr" where
  "address_str a =
     (case addr_host a of
        Some h \<Rightarrow> addr_scheme a @ [58, 47, 47] @ h @ [58] @
          (case addr_port a of None \<Rightarrow> str ''None'' | Some p \<Rightarrow> dec_int p)
      | None \<Rightarrow>
          if addr_path a \<noteq> [] then addr_scheme a @ [58, 47, 47] @ addr_path a
          else addr_scheme a @ [58])"

section \<open>Lemmas\<close>

lemmas str_simps = str_def of_char_def

lemma scheme_codes:
  "str ''unix'' = [117, 110, 105, 120]" "str ''pipe'' = [112, 105, 112, 101]"
  "str ''shm'' = [115, 104, 109]" "str ''tcp'' = [116, 99, 112]" "str ''quic'' = [113, 117, 105, 99]"
  by (simp_all add: str_def)

lemma match_scheme_valid:
  assumes "s \<in> set VALID_SCHEMES" "10 \<notin> set rest"
  shows "match_scheme (s @ [58, 47, 47] @ rest) = Some (s, rest)" "lower s = s"
  using assms
  by (auto simp: VALID_SCHEMES_def scheme_codes match_scheme_def ascii_letter_def scheme_char_def
      dot_rest_def lower_def)

lemma dot_rest_no_newline: "dot_rest s = Some r \<Longrightarrow> 10 \<notin> set r"
  by (auto simp: dot_rest_def split: if_splits)

lemma match_scheme_rest: "match_scheme uri = Some (g, rest) \<Longrightarrow> 10 \<notin> set rest"
  by (auto simp: match_scheme_def Let_def dest: dot_rest_no_newline split: list.splits if_splits)

lemma newline_free_dec_int: "10 \<notin> set (dec_int i)"
  using dec_chars [of 10] by (auto simp: dec_int_def)

lemma match_port_dec: "0 \<le> i \<Longrightarrow> match_port (dec_int i) = Some (dec_int i)"
  by (simp add: match_port_def dec_int_def dec_digits)

text \<open>A host that does not start with a bracket is no IPv6 match, whatever follows.\<close>

lemma match_ipv6_bracket: "h \<noteq> [] \<Longrightarrow> hd h \<noteq> 91 \<Longrightarrow> match_ipv6 (h @ r) = None"
  by (cases h) (simp_all add: match_ipv6_def Let_def)

lemma match_host_append:
  assumes "h \<noteq> []" "58 \<notin> set h"
  shows "match_host (h @ [58] @ p) = map_option (\<lambda>p. (h, p)) (match_port p)"
proof -
  have "takeWhile (\<lambda>x. x \<noteq> 58) (h @ [58] @ p) = h" "dropWhile (\<lambda>x. x \<noteq> 58) (h @ [58] @ p) = 58 # p"
    using assms(2) by (auto simp: takeWhile_append dropWhile_append)
  then show ?thesis using assms(1) unfolding match_host_def Let_def by simp
qed

lemma match_host_SomeD:
  assumes "match_host s = Some (h, p)"
  shows "h \<noteq> []" "58 \<notin> set h" "s = h @ [58] @ p" "match_port p = Some p"
proof -
  let ?h = "takeWhile (\<lambda>x. x \<noteq> 58) s" and ?r = "dropWhile (\<lambda>x. x \<noteq> 58) s"
  from assms have "h = ?h" "?h \<noteq> []" "take 1 ?r = [58]" "match_port (drop 1 ?r) = Some p"
    by (auto simp: match_host_def Let_def split: if_splits)
  moreover from this have "p = drop 1 ?r" by (auto simp: match_port_def split: if_splits)
  moreover have "?r = [58] @ drop 1 ?r"
    using \<open>take 1 ?r = [58]\<close> append_take_drop_id [of 1 ?r] by simp
  ultimately show "h \<noteq> []" "58 \<notin> set h" "s = h @ [58] @ p" "match_port p = Some p"
    using takeWhile_dropWhile_id [of "\<lambda>x. x \<noteq> 58" s] by (auto dest: set_takeWhileD)
qed

lemma match_ipv6_host:
  assumes "match_ipv6 s = Some (h, p)"
  shows "h \<noteq> []" "93 \<notin> set h" "match_port p = Some p" "\<exists>t. s = 91 # h @ [93, 58] @ t \<and> t = p"
proof -
  from assms obtain c cs where s: "s = c # cs" by (auto simp: match_ipv6_def split: list.splits)
  let ?h = "takeWhile (\<lambda>x. x \<noteq> 93) cs" and ?r = "dropWhile (\<lambda>x. x \<noteq> 93) cs"
  from assms s have *: "c = 91" "h = ?h" "?h \<noteq> []" "take 2 ?r = [93, 58]" "match_port (drop 2 ?r) = Some p"
    by (auto simp: match_ipv6_def Let_def split: if_splits)
  then have p: "p = drop 2 ?r" by (auto simp: match_port_def split: if_splits)
  have "?r = [93, 58] @ drop 2 ?r" using *(4) append_take_drop_id [of 2 ?r] by simp
  with * p show "h \<noteq> []" "93 \<notin> set h" "match_port p = Some p" "\<exists>t. s = 91 # h @ [93, 58] @ t \<and> t = p"
    using takeWhile_dropWhile_id [of "\<lambda>x. x \<noteq> 93" cs] s by (auto dest: set_takeWhileD)
qed

lemma local_or_network:
  "s \<in> set VALID_SCHEMES \<longleftrightarrow>
     s \<in> {str ''tcp'', str ''quic''} \<or> s \<in> {str ''unix'', str ''pipe'', str ''shm''}"
  by (auto simp: VALID_SCHEMES_def)

lemma schemes_disjoint: "s \<in> {str ''unix'', str ''pipe'', str ''shm''} \<Longrightarrow> s \<notin> {str ''tcp'', str ''quic''}"
  by (auto simp: scheme_codes)

text \<open>What the constructor accepts and what parsing may produce, as one predicate.\<close>

definition parsed_address :: "transport_address \<Rightarrow> bool" where
  "parsed_address a =
     (if is_local a then addr_host a = None \<and> addr_port a = None
      else addr_scheme a \<in> {str ''tcp'', str ''quic''} \<and> addr_path a = [] \<and>
        (case (addr_host a, addr_port a) of
           (Some h, Some p) \<Rightarrow> h \<noteq> [] \<and> 10 \<notin> set h \<and> 0 \<le> p
         | _ \<Rightarrow> False))"

lemma parse_network:
  assumes "s \<in> {str ''tcp'', str ''quic''}" "10 \<notin> set rest"
  shows "parse_address (s @ [58, 47, 47] @ rest) =
    (case (case match_ipv6 rest of None \<Rightarrow> match_host rest | m \<Rightarrow> m) of
       None \<Rightarrow> Inl ValueError
     | Some (h, p) \<Rightarrow> bindr (int_of_digits p) (\<lambda>port.
         Inr \<lparr>addr_scheme = s, addr_path = [], addr_host = Some h, addr_port = Some port\<rparr>))"
proof -
  have v: "s \<in> set VALID_SCHEMES" using assms(1) by (simp add: local_or_network)
  show ?thesis
    using assms(1) match_scheme_valid [OF v assms(2)] v
    by (auto simp: parse_address_def new_address_def Let_def split: option.splits)
qed

lemma parse_local:
  assumes "s \<in> {str ''unix'', str ''pipe'', str ''shm''}" "10 \<notin> set rest"
  shows "parse_address (s @ [58, 47, 47] @ rest) =
    Inr \<lparr>addr_scheme = s, addr_path = rest, addr_host = None, addr_port = None\<rparr>"
proof -
  have v: "s \<in> set VALID_SCHEMES" using assms(1) by (simp add: local_or_network)
  show ?thesis
    using assms(1) match_scheme_valid [OF v assms(2)] v schemes_disjoint [OF assms(1)]
    by (simp add: parse_address_def new_address_def Let_def)
qed

lemma no_scheme_match: "match_scheme uri = None \<Longrightarrow> uri \<noteq> [] \<Longrightarrow>
  parse_address uri = Inr \<lparr>addr_scheme = str ''unix'', addr_path = uri, addr_host = None, addr_port = None\<rparr>"
  by (simp add: parse_address_def new_address_def VALID_SCHEMES_def)

text \<open>The four ways in which parsing succeeds.\<close>

lemma parse_address_cases:
  assumes "parse_address uri = Inr a"
  obtains (bare) "match_scheme uri = None" "uri \<noteq> []"
      "a = \<lparr>addr_scheme = str ''unix'', addr_path = uri, addr_host = None, addr_port = None\<rparr>"
  | (local) s rest where "s \<in> {str ''unix'', str ''pipe'', str ''shm''}" "10 \<notin> set rest"
      "a = \<lparr>addr_scheme = s, addr_path = rest, addr_host = None, addr_port = None\<rparr>"
  | (network) s rest h ps p where "s \<in> {str ''tcp'', str ''quic''}" "10 \<notin> set rest"
      "match_ipv6 rest = Some (h, ps) \<or> match_ipv6 rest = None \<and> match_host rest = Some (h, ps)"
      "int_of_digits ps = Inr p"
      "a = \<lparr>addr_scheme = s, addr_path = [], addr_host = Some h, addr_port = Some p\<rparr>"
proof (cases "match_scheme uri")
  case None
  with assms show ?thesis using bare by (auto simp: parse_address_def new_address_def split: if_splits)
next
  case (Some gr)
  obtain g rest where gr: "gr = (g, rest)" by (cases gr)
  have nl: "10 \<notin> set rest" using match_scheme_rest Some gr by simp
  let ?s = "lower g"
  consider (n) "?s \<in> {str ''tcp'', str ''quic''}" | (l) "?s \<in> {str ''unix'', str ''pipe'', str ''shm''}"
    using assms Some gr by (auto simp: parse_address_def Let_def split: if_splits)
  then show ?thesis
  proof cases
    case n
    let ?m = "case match_ipv6 rest of None \<Rightarrow> match_host rest | m \<Rightarrow> m"
    from n assms Some gr have r: "(case ?m of None \<Rightarrow> Inl ValueError
      | Some (h, q) \<Rightarrow> bindr (int_of_digits q) (\<lambda>port. new_address ?s [] (Some h) (Some port))) = Inr a"
      by (simp add: parse_address_def Let_def split: if_splits)
    then obtain h ps where hp: "?m = Some (h, ps)" by (auto split: option.splits)
    with r have "bindr (int_of_digits ps) (\<lambda>port. new_address ?s [] (Some h) (Some port)) = Inr a" by simp
    then obtain p where p: "int_of_digits ps = Inr p" "new_address ?s [] (Some h) (Some p) = Inr a"
      by (auto simp: bindr_def split: sum.splits)
    have "match_ipv6 rest = Some (h, ps) \<or> match_ipv6 rest = None \<and> match_host rest = Some (h, ps)"
      using hp by (auto split: option.splits)
    with p show ?thesis using network [OF n nl _ p(1)] by (auto simp: new_address_def split: if_splits)
  next
    case l
    with assms Some gr schemes_disjoint [OF l] show ?thesis
      using local [OF l nl] by (auto simp: parse_address_def Let_def new_address_def split: if_splits)
  qed
qed

section \<open>Every string parses to a valid address or is refused\<close>

text \<open>
  Parsing always ends in an address of a known scheme, with host and port exactly for the network
  schemes, a non-empty host and a non-negative port, or in ValueError; and every address that comes
  out of it is either a stream or a datagram address, never both.
\<close>

theorem address_parse_safe:
  "case parse_address uri of
     Inl e \<Rightarrow> e = ValueError
   | Inr a \<Rightarrow> addr_scheme a \<in> set VALID_SCHEMES \<and> parsed_address a \<and> (is_stream a \<longleftrightarrow> \<not> is_datagram a)"
proof (cases "parse_address uri")
  case (Inl e)
  then show ?thesis
    by (auto simp: parse_address_def new_address_def Let_def bindr_def int_of_digits_def
        split: if_splits option.splits sum.splits)
next
  case (Inr a)
  have d: "is_stream a \<longleftrightarrow> \<not> is_datagram a" if "addr_scheme a \<in> set VALID_SCHEMES"
    using that by (auto simp: VALID_SCHEMES_def is_stream_def is_datagram_def scheme_codes)
  from Inr have "addr_scheme a \<in> set VALID_SCHEMES \<and> parsed_address a"
  proof (cases rule: parse_address_cases)
    case bare
    then show ?thesis by (simp add: parsed_address_def is_local_def VALID_SCHEMES_def)
  next
    case (local s rest)
    then show ?thesis by (auto simp: parsed_address_def is_local_def VALID_SCHEMES_def)
  next
    case (network s rest h ps p)
    have "h \<noteq> []" "set h \<subseteq> set rest"
      using network(3) match_ipv6_host match_host_SomeD by fastforce+
    moreover have "\<not> is_local a" using network(1,5) by (auto simp: is_local_def scheme_codes)
    ultimately show ?thesis
      using network int_of_digits_dec(1) by (auto simp: parsed_address_def VALID_SCHEMES_def)
  qed
  with d Inr show ?thesis by simp
qed

section \<open>Printing and parsing again\<close>

lemma network_reparse:
  assumes "s \<in> {str ''tcp'', str ''quic''}" "h \<noteq> []" "58 \<notin> set h" "10 \<notin> set h"
    "match_ipv6 (h @ [58] @ dec_int p) = None" "int_of_digits (dec_int p) = Inr p" "0 \<le> p"
  shows "parse_address (s @ [58, 47, 47] @ h @ [58] @ dec_int p) =
    Inr \<lparr>addr_scheme = s, addr_path = [], addr_host = Some h, addr_port = Some p\<rparr>"
proof -
  have nl: "10 \<notin> set (h @ [58] @ dec_int p)" using assms(4) newline_free_dec_int by simp
  show ?thesis
    using assms match_host_append [OF assms(2,3)] match_port_dec [OF assms(7)]
    unfolding parse_network [OF assms(1) nl] by (simp add: bindr_def)
qed

text \<open>No bracket closes in what is printed for a host without a closing bracket.\<close>

lemma match_ipv6_no_close:
  assumes "93 \<notin> set s"
  shows "match_ipv6 s = None"
proof (cases s)
  case (Cons c cs)
  then have "dropWhile (\<lambda>x. x \<noteq> 93) cs = []" using assms by auto
  then show ?thesis
    using Cons by (simp add: match_ipv6_def Let_def del: dropWhile_eq_Nil_conv)
qed (simp add: match_ipv6_def)

lemma dec_int_no_bracket: "0 \<le> p \<Longrightarrow> 93 \<notin> set (dec_int p)" "0 \<le> p \<Longrightarrow> 58 \<notin> set (dec_int p)"
  using dec_chars [of 93] dec_chars [of 58] by (auto simp: dec_int_def)

text \<open>Whether an IPv6 pattern matches does not depend on the digits of the port.\<close>

lemma match_ipv6_port:
  assumes "58 \<notin> set h" "match_port p = Some p" "match_ipv6 (h @ [58] @ p) = None" "match_port q = Some q"
  shows "match_ipv6 (h @ [58] @ q) = None"
proof (cases h)
  case (Cons c cs)
  show ?thesis
  proof (cases "93 \<in> set cs")
    case True
    then obtain us vs where cs: "cs = us @ 93 # vs" "93 \<notin> set us" by (meson split_list_first)
    then have t: "takeWhile (\<lambda>x. x \<noteq> 93) (cs @ 58 # r) = us"
      "dropWhile (\<lambda>x. x \<noteq> 93) (cs @ 58 # r) = 93 # vs @ 58 # r" for r
      by (auto simp: takeWhile_append dropWhile_append)
    show ?thesis
    proof (cases vs)
      case Nil
      with assms t Cons show ?thesis by (auto simp: match_ipv6_def Let_def split: if_splits)
    next
      case (Cons v vs')
      moreover have "v \<noteq> 58" using assms(1) \<open>h = c # cs\<close> cs Cons by auto
      ultimately show ?thesis using t \<open>h = c # cs\<close> by (auto simp: match_ipv6_def Let_def)
    qed
  next
    case False
    have "93 \<notin> set q"
      using assms(4) by (auto simp: match_port_def list_all_iff is_digit_def digit_def digit_zeros_def split: if_splits)
    with False have "c = 91 \<Longrightarrow> 93 \<notin> set (h @ [58] @ q)" using Cons by simp
    then show ?thesis
      using Cons match_ipv6_no_close [of "h @ [58] @ q"] by (cases "c = 91") (auto simp: match_ipv6_def Let_def)
  qed
qed (simp add: match_ipv6_def Let_def)

text \<open>A host with a colon, printed without brackets, is no host any more.\<close>

lemma match_host_colon:
  assumes "58 \<in> set h"
  shows "match_host (h @ [58] @ p) = None"
proof -
  from assms obtain us vs where h: "h = us @ 58 # vs" "58 \<notin> set us" by (meson split_list_first)
  then have "dropWhile (\<lambda>x. x \<noteq> 58) (h @ [58] @ p) = 58 # vs @ 58 # p" by (auto simp: dropWhile_append)
  moreover have "\<not> is_digit 58" by (simp add: is_digit_def digit_def digit_zeros_def)
  ultimately show ?thesis by (simp add: match_host_def match_port_def Let_def)
qed

lemma network_colon_refused:
  assumes "s \<in> {str ''tcp'', str ''quic''}" "58 \<in> set h" "93 \<notin> set h" "10 \<notin> set h" "0 \<le> p"
  shows "parse_address (s @ [58, 47, 47] @ h @ [58] @ dec_int p) = Inl ValueError"
proof -
  have nl: "10 \<notin> set (h @ [58] @ dec_int p)" using assms(4) newline_free_dec_int by simp
  have "match_ipv6 (h @ [58] @ dec_int p) = None"
    using assms(3,5) dec_int_no_bracket(1) by (intro match_ipv6_no_close) simp
  then show ?thesis unfolding parse_network [OF assms(1) nl] using match_host_colon [OF assms(2)] by simp
qed

lemma match_port_digits: "int_of_digits ps = Inr p \<Longrightarrow> match_port ps = Some ps"
  by (auto simp: int_of_digits_def match_port_def split: if_splits)

text \<open>Without \<^verbatim>\<open>//\<close> there is no scheme.\<close>

lemma match_scheme_colon: "s \<in> set VALID_SCHEMES \<Longrightarrow> match_scheme (s @ [58]) = None"
  by (auto simp: VALID_SCHEMES_def scheme_codes match_scheme_def ascii_letter_def scheme_char_def)

lemma match_scheme_newline:
  assumes "10 \<in> set path"
  shows "match_scheme (str ''unix'' @ [58, 47, 47] @ path) =
    (if 10 \<in> set (butlast path) then None else Some (str ''unix'', butlast path))"
  using assms
  by (simp add: scheme_codes match_scheme_def ascii_letter_def scheme_char_def dot_rest_def)

text \<open>The strings that come back as the address they print.\<close>

definition reparses :: "transport_address \<Rightarrow> bool" where
  "reparses a =
     (if is_local a then addr_path a \<noteq> [] \<and> 10 \<notin> set (addr_path a)
      else (case addr_host a of None \<Rightarrow> False | Some h \<Rightarrow> 58 \<notin> set h))"

lemma local_reparse:
  assumes "s \<in> {str ''unix'', str ''pipe'', str ''shm''}" "10 \<in> set path \<Longrightarrow> s = str ''unix''"
    "a = \<lparr>addr_scheme = s, addr_path = path, addr_host = None, addr_port = None\<rparr>"
  shows "parse_address (address_str a) = Inr a \<longleftrightarrow> reparses a"
proof -
  have l: "is_local a" using assms(1,3) by (auto simp: is_local_def)
  have v: "s \<in> set VALID_SCHEMES" using assms(1) by (simp add: local_or_network)
  consider (e) "path = []" | (nl) "path \<noteq> []" "10 \<in> set path" | (ok) "path \<noteq> []" "10 \<notin> set path" by blast
  then show ?thesis
  proof cases
    case e
    then have "address_str a = s @ [58]" using assms(3) by (simp add: address_str_def)
    with no_scheme_match [OF match_scheme_colon [OF v]] e l assms(3)
    show ?thesis by (simp add: reparses_def)
  next
    case nl
    then have u: "s = str ''unix''" "address_str a = str ''unix'' @ [58, 47, 47] @ path"
      using assms(2,3) by (simp_all add: address_str_def)
    have "butlast path \<noteq> path" using nl(1) by (metis length_butlast length_greater_0_conv diff_less zero_less_one less_irrefl)
    then have "parse_address (address_str a) \<noteq> Inr a"
      using match_scheme_newline [OF nl(2)] u assms(3)
      by (auto simp: parse_address_def new_address_def Let_def scheme_codes lower_def split: if_splits)
    then show ?thesis using nl l assms(3) by (simp add: reparses_def)
  next
    case ok
    then show ?thesis
      using parse_local [OF assms(1) ok(2)] l assms(3) by (simp add: address_str_def reparses_def)
  qed
qed

lemma network_host_reparse:
  assumes "s \<in> {str ''tcp'', str ''quic''}" "10 \<notin> set rest" "int_of_digits ps = Inr p"
    "match_ipv6 rest = Some (h, ps) \<or> match_ipv6 rest = None \<and> match_host rest = Some (h, ps)"
    "a = \<lparr>addr_scheme = s, addr_path = [], addr_host = Some h, addr_port = Some p\<rparr>"
  shows "parse_address (address_str a) = (if 58 \<in> set h then Inl ValueError else Inr a)"
proof -
  have str: "address_str a = s @ [58, 47, 47] @ h @ [58] @ dec_int p"
    using assms(5) by (simp add: address_str_def)
  have h: "h \<noteq> []" "10 \<notin> set h" using assms(2,4) match_ipv6_host match_host_SomeD by fastforce+
  note p = int_of_digits_dec [OF assms(3)]
  have ip: "match_ipv6 (h @ [58] @ dec_int p) = None" if "58 \<notin> set h"
  proof (cases "match_ipv6 rest")
    case None
    with assms(4) match_host_SomeD(3) [of rest h ps] have "match_ipv6 (h @ [58] @ ps) = None" by simp
    then show ?thesis
      using match_ipv6_port [OF that match_port_digits [OF assms(3)]] match_port_dec [OF p(1)] by blast
  next
    case (Some hp)
    with assms(4) match_ipv6_host(2) [of rest h ps] dec_int_no_bracket(1) [OF p(1)]
    show ?thesis by (intro match_ipv6_no_close) simp
  qed
  have "93 \<notin> set h" if "58 \<in> set h"
    using assms(4) match_ipv6_host(2) match_host_SomeD(2) that by blast
  then show ?thesis
    using network_reparse [OF assms(1) h(1) _ h(2) _ p(2,1)] ip
      network_colon_refused [OF assms(1) _ _ h(2) p(1)] assms(5) str by auto
qed

text \<open>
  C38. An address obtained by parsing prints to a string that parses to the same address exactly when
  its path is non-empty and holds no newline (local schemes) or its host holds no colon (network
  schemes).
\<close>

theorem address_roundtrip:
  assumes "parse_address uri = Inr a"
  shows "parse_address (address_str a) = Inr a \<longleftrightarrow> reparses a"
  using assms
proof (cases rule: parse_address_cases)
  case bare
  then show ?thesis by (intro local_reparse) simp_all
next
  case (local s rest)
  then show ?thesis by (intro local_reparse) auto
next
  case (network s rest h ps p)
  have "\<not> is_local a" using network(1,5) by (auto simp: is_local_def scheme_codes)
  then show ?thesis
    using network_host_reparse [OF network(1,2,4,3,5)] network(5) by (simp add: reparses_def)
qed

lemma parse_localhost:
  "parse_address (str ''tcp://localhost:7890'') =
     Inr \<lparr>addr_scheme = str ''tcp'', addr_path = [], addr_host = Some (str ''localhost''), addr_port = Some 7890\<rparr>"
  by (simp add: str_def parse_address_def match_scheme_def ascii_letter_def scheme_char_def dot_rest_def lower_def
      match_ipv6_def match_host_def match_port_def int_of_digits_def digits_value_def is_digit_def
      digit_def digit_zeros_def new_address_def VALID_SCHEMES_def bindr_def Let_def)

theorem address_roundtrip_witness:
  "\<exists>a. parse_address (str ''tcp://localhost:7890'') = Inr a \<and> reparses a \<and> parse_address (address_str a) = Inr a"
  using address_roundtrip [OF parse_localhost] parse_localhost
  by (simp add: reparses_def is_local_def scheme_codes) (simp add: str_def)

text \<open>
  The printed form of an address with an IPv6 host (a host with a colon) leaves the brackets out,
  and parsing it raises ValueError.
\<close>

theorem address_ipv6_unparsable:
  assumes "parse_address uri = Inr a" "addr_host a = Some h" "58 \<in> set h"
  shows "parse_address (address_str a) = Inl ValueError"
  using assms(1)
proof (cases rule: parse_address_cases)
  case (network s rest g ps p)
  then show ?thesis
    using network_host_reparse [OF network(1,2,4,3,5)] assms(2,3) by simp
qed (use assms(2) in simp_all)

lemma parse_ipv6:
  "parse_address (str ''tcp://[::1]:80'') =
     Inr \<lparr>addr_scheme = str ''tcp'', addr_path = [], addr_host = Some (str ''::1''), addr_port = Some 80\<rparr>"
  by (simp add: str_def parse_address_def match_scheme_def ascii_letter_def scheme_char_def dot_rest_def lower_def
      match_ipv6_def match_host_def match_port_def int_of_digits_def digits_value_def is_digit_def
      digit_def digit_zeros_def new_address_def VALID_SCHEMES_def bindr_def Let_def)

theorem address_ipv6_unparsable_witness:
  "\<exists>a. parse_address (str ''tcp://[::1]:80'') = Inr a \<and> parse_address (address_str a) = Inl ValueError"
  using address_ipv6_unparsable [OF parse_ipv6, of "str ''::1''"] parse_ipv6 by (simp add: str_def)

text \<open>Without the slashes a known scheme is no scheme: the whole string is the path of a unix socket.\<close>

lemma address_slashes_required:
  assumes "s \<in> set VALID_SCHEMES" "take 2 rest \<noteq> [47, 47]"
  shows "parse_address (s @ [58] @ rest) =
    Inr \<lparr>addr_scheme = str ''unix'', addr_path = s @ [58] @ rest, addr_host = None, addr_port = None\<rparr>"
proof -
  have "match_scheme (s @ [58] @ rest) = None"
    using assms
    by (auto simp: VALID_SCHEMES_def scheme_codes match_scheme_def ascii_letter_def scheme_char_def Let_def)
  then show ?thesis by (rule no_scheme_match) simp
qed

end
