(* ===== verification/Transport.thy ===== *)
theory Transport
  imports Address
begin

text \<open>
  The rest of \<^verbatim>\<open>aicl/transport\<close> but the ring: the exception classes (\<^verbatim>\<open>exceptions.py\<close>), the enumerations and
  connection metadata of \<^verbatim>\<open>interface.py\<close>, the session (\<^verbatim>\<open>session.py\<close>) and the factory (\<^verbatim>\<open>factory.py\<close>).
  A backend is a concrete subclass of \<^verbatim>\<open>Transport\<close>; there is none in the repository, so its operations
  are an argument of the session. Which backend modules can be imported is an argument of the
  factory. Shown: when a session lets data through after any sequence of calls, what awaiting a
  backend written to the interface does, and what the factory returns for every address.
\<close>

section \<open>Exceptions\<close>

text \<open>
  \<^verbatim>\<open>exceptions.ChecksumError\<close> is \<open>TransportChecksumError\<close> here; \<open>Other\<close> is any exception of another
  part of the program or of the interpreter.
\<close>

datatype texn =
    TransportError
  | ConnectionError | ConnectionRefusedError | ConnectionTimeoutError
  | ChannelError | ChannelClosedError | ChannelResetError | ChannelTimeoutError | BackpressureError
  | ProtocolError | FramingError | TransportChecksumError
  | ImportError
  | Other exn

fun texn_parent :: "texn \<Rightarrow> texn option" where
  "texn_parent ConnectionError = Some TransportError"
| "texn_parent ConnectionRefusedError = Some ConnectionError"
| "texn_parent ConnectionTimeoutError = Some ConnectionError"
| "texn_parent ChannelError = Some TransportError"
| "texn_parent ChannelClosedError = Some ChannelError"
| "texn_parent ChannelResetError = Some ChannelError"
| "texn_parent ChannelTimeoutError = Some ChannelError"
| "texn_parent BackpressureError = Some ChannelError"
| "texn_parent ProtocolError = Some TransportError"
| "texn_parent FramingError = Some ProtocolError"
| "texn_parent TransportChecksumError = Some ProtocolError"
| "texn_parent _ = None"

text \<open>How far a class is from the root of the hierarchy, and \<^verbatim>\<open>except cls\<close>: a walk up the base classes.\<close>

fun texn_depth :: "texn \<Rightarrow> nat" where
  "texn_depth e =
     (if e \<in> {ConnectionRefusedError, ConnectionTimeoutError, ChannelClosedError, ChannelResetError,
              ChannelTimeoutError, BackpressureError, FramingError, TransportChecksumError} then 2
      else if e \<in> {ConnectionError, ChannelError, ProtocolError} then 1 else 0)"

lemma texn_depth_parent: "texn_parent e = Some p \<Longrightarrow> texn_depth p < texn_depth e"
  by (cases e) auto

declare texn_depth.simps [simp del]

function caught_by :: "texn \<Rightarrow> texn \<Rightarrow> bool" where
  "caught_by cls e = (e = cls \<or> (case texn_parent e of None \<Rightarrow> False | Some p \<Rightarrow> caught_by cls p))"
  by pat_completeness auto
termination
  by (relation "measure (\<lambda>(_, e). texn_depth e)") (auto dest: texn_depth_parent)

declare caught_by.simps [simp del]

section \<open>Enumerations and metadata\<close>

datatype transport_protocol = UNIX_SOCKET | NAMED_PIPE | SHARED_MEMORY | TCP | QUIC

fun protocol_value :: "transport_protocol \<Rightarrow> int" where
  "protocol_value UNIX_SOCKET = 1"
| "protocol_value NAMED_PIPE = 2"
| "protocol_value SHARED_MEMORY = 3"
| "protocol_value TCP = 4"
| "protocol_value QUIC = 5"

datatype transport_role = CLIENT | SERVER

fun role_value :: "transport_role \<Rightarrow> int" where
  "role_value CLIENT = 1"
| "role_value SERVER = 2"

lemma protocol_value_eq [simp]: "protocol_value p = protocol_value q \<longleftrightarrow> p = q"
  by (cases p; cases q) simp_all

text \<open>An \<^verbatim>\<open>IntEnum\<close> is ordered by its values.\<close>

instantiation transport_protocol :: linorder
begin

definition less_eq_transport_protocol :: "transport_protocol \<Rightarrow> transport_protocol \<Rightarrow> bool" where
  "p \<le> q \<longleftrightarrow> protocol_value p \<le> protocol_value q"

definition less_transport_protocol :: "transport_protocol \<Rightarrow> transport_protocol \<Rightarrow> bool" where
  "p < q \<longleftrightarrow> protocol_value p < protocol_value q"

instance
  by standard (auto simp: less_eq_transport_protocol_def less_transport_protocol_def)

end

record 'x connection_metadata =
  cm_protocol :: transport_protocol
  cm_local_address :: pystr
  cm_remote_address :: pystr
  cm_is_accepting :: bool
  cm_extra :: "(pystr \<times> 'x) list"

text \<open>The constructor with its default for \<^verbatim>\<open>extra\<close>; a dict is the association list of its items.\<close>

definition new_metadata ::
  "transport_protocol \<Rightarrow> pystr \<Rightarrow> pystr \<Rightarrow> bool \<Rightarrow> (pystr \<times> 'x) list option \<Rightarrow> 'x connection_metadata" where
  "new_metadata proto loc rem acc extra =
     \<lparr>cm_protocol = proto, cm_local_address = loc, cm_remote_address = rem, cm_is_accepting = acc,
      cm_extra = (case extra of None \<Rightarrow> [] | Some d \<Rightarrow> d)\<rparr>"

section \<open>Backends\<close>

text \<open>
  What a call of a backend's method hands back: a value at once, or an awaitable that gives a value
  or raises when awaited. Awaiting a plain value is a TypeError of the interpreter.
\<close>

datatype 'v outcome = Raised texn | Plain 'v | Awaitable "texn + 'v"

fun await :: "'v outcome \<Rightarrow> texn + 'v" where
  "await (Raised e) = Inl e"
| "await (Plain v) = Inl (Other PyTypeError)"
| "await (Awaitable r) = r"

text \<open>The two operations of a backend with state \<open>'t\<close> that a session calls, and the defaults of the
  asynchronous variants.\<close>

record ('t, 'v) backend =
  be_send :: "'t \<Rightarrow> bytes \<Rightarrow> 't \<times> 'v outcome"
  be_recv :: "'t \<Rightarrow> 't \<times> 'v outcome"

definition send_async :: "bytes \<Rightarrow> 'v outcome" where
  "send_async data = Awaitable (Inl (Other NotImplementedError))"

definition recv_async :: "int \<Rightarrow> 'v outcome" where
  "recv_async max_bytes = Awaitable (Inl (Other NotImplementedError))"

section \<open>Sessions\<close>

text \<open>The role a session is given is a string (as its default is) or a member of the enumeration;
  a member is an integer and equals no string.\<close>

datatype role_arg = RoleStr pystr | RoleEnum transport_role

record 't session =
  se_address :: transport_address
  se_role :: role_arg
  se_transport :: "'t option"
  se_open :: bool

definition new_session :: "transport_address \<Rightarrow> role_arg \<Rightarrow> 't option \<Rightarrow> 't session" where
  "new_session address role transport =
     \<lparr>se_address = address, se_role = role, se_transport = transport, se_open = False\<rparr>"

definition session_connect :: "'t session \<Rightarrow> (texn + unit) \<times> 't session" where
  "session_connect s =
     (if se_transport s = None then (Inl TransportError, s) else (Inr (), s\<lparr>se_open := True\<rparr>))"

definition session_accept :: "'t session \<Rightarrow> (texn + unit) \<times> 't session" where
  "session_accept s =
     (if se_role s \<noteq> RoleStr (str ''server'') then (Inl TransportError, s)
      else (Inr (), s\<lparr>se_open := True\<rparr>))"

definition session_send :: "('t, 'v) backend \<Rightarrow> bytes \<Rightarrow> 't session \<Rightarrow> (texn + 'v) \<times> 't session" where
  "session_send be data s =
     (if \<not> se_open s then (Inl ChannelClosedError, s)
      else
        case se_transport s of
          None \<Rightarrow> (Inl TransportError, s)
        | Some t \<Rightarrow> let (t', r) = be_send be t data in (await r, s\<lparr>se_transport := Some t'\<rparr>))"

definition session_recv :: "('t, 'v) backend \<Rightarrow> 't session \<Rightarrow> (texn + 'v) \<times> 't session" where
  "session_recv be s =
     (if \<not> se_open s then (Inl ChannelClosedError, s)
      else
        case se_transport s of
          None \<Rightarrow> (Inl TransportError, s)
        | Some t \<Rightarrow> let (t', r) = be_recv be t in (await r, s\<lparr>se_transport := Some t'\<rparr>))"

definition session_close :: "'t session \<Rightarrow> 't session" where
  "session_close s = s\<lparr>se_open := False\<rparr>"

text \<open>\<^verbatim>\<open>__aenter__\<close> returns the session itself.\<close>

definition session_aenter :: "'t session \<Rightarrow> (texn + unit) \<times> 't session" where
  "session_aenter s = session_connect s"

definition session_aexit :: "'t session \<Rightarrow> 't session" where
  "session_aexit s = session_close s"

text \<open>The calls a client can make, in any order.\<close>

datatype session_call = Connect | Accept | Send bytes | Recv | Close | AEnter | AExit

fun do_call :: "('t, 'v) backend \<Rightarrow> session_call \<Rightarrow> 't session \<Rightarrow> 't session" where
  "do_call be Connect s = snd (session_connect s)"
| "do_call be Accept s = snd (session_accept s)"
| "do_call be (Send d) s = snd (session_send be d s)"
| "do_call be Recv s = snd (session_recv be s)"
| "do_call be Close s = session_close s"
| "do_call be AEnter s = snd (session_aenter s)"
| "do_call be AExit s = session_aexit s"

section \<open>The factory\<close>

datatype ctor_args = PathArg pystr | HostPortArg "pystr option" "int option"

text \<open>
  \<open>imports\<close> is the module system: \<^verbatim>\<open>from m import c\<close> gives the class, as its constructor, or raises
  ImportError. An ImportError raised while the constructor runs is caught as well.
\<close>

type_synonym 't import_system = "pystr \<Rightarrow> pystr \<Rightarrow> (ctor_args \<Rightarrow> texn + 't) option"

definition import_and_build :: "'t import_system \<Rightarrow> pystr \<Rightarrow> pystr \<Rightarrow> ctor_args \<Rightarrow> texn + 't" where
  "import_and_build imports m c args =
     (case (case imports m c of None \<Rightarrow> Inl ImportError | Some ctor \<Rightarrow> ctor args) of
        Inl e \<Rightarrow> if caught_by ImportError e then Inl TransportError else Inl e
      | Inr t \<Rightarrow> Inr t)"

definition create_unix_transport :: "'t import_system \<Rightarrow> transport_address \<Rightarrow> texn + 't" where
  "create_unix_transport imports address =
     import_and_build imports (str ''aicl.transport.unix_socket'') (str ''UnixSocketTransport'')
       (PathArg (addr_path address))"

definition create_pipe_transport :: "'t import_system \<Rightarrow> transport_address \<Rightarrow> texn + 't" where
  "create_pipe_transport imports address =
     import_and_build imports (str ''aicl.transport.named_pipe'') (str ''NamedPipeTransport'')
       (PathArg (addr_path address))"

definition create_shm_transport :: "'t import_system \<Rightarrow> transport_address \<Rightarrow> texn + 't" where
  "create_shm_transport imports address =
     import_and_build imports (str ''aicl.transport.shared_memory_ring'') (str ''SharedMemoryRingTransport'')
       (PathArg (addr_path address))"

definition create_tcp_transport :: "'t import_system \<Rightarrow> transport_address \<Rightarrow> texn + 't" where
  "create_tcp_transport imports address =
     import_and_build imports (str ''aicl.transport.tcp_socket'') (str ''TcpSocketTransport'')
       (HostPortArg (addr_host address) (addr_port address))"

definition create_transport :: "'t import_system \<Rightarrow> transport_address \<Rightarrow> role_arg \<Rightarrow> texn + 't" where
  "create_transport imports address role =
     (let scheme = lower (addr_scheme address) in
      if scheme = str ''unix'' then create_unix_transport imports address
      else if scheme = str ''pipe'' then create_pipe_transport imports address
      else if scheme = str ''shm'' then create_shm_transport imports address
      else if scheme = str ''tcp'' then create_tcp_transport imports address
      else Inl TransportError)"

text \<open>\<open>platform\<close> is \<^verbatim>\<open>sys.platform\<close>.\<close>

definition get_platform_transport :: "'t import_system \<Rightarrow> pystr \<Rightarrow> role_arg \<Rightarrow> texn + 't" where
  "get_platform_transport imports platform role =
     (let (scheme, path) =
        (if platform = str ''win32'' then (str ''pipe'', [92, 92] @ str ''.'' @ [92] @ str ''pipe'' @ [92] @ str ''aicl'')
         else (str ''unix'', str ''/tmp/aicl.sock''))
      in case new_address scheme path None None of
           Inl e \<Rightarrow> Inl (Other e)
         | Inr addr \<Rightarrow> create_transport imports addr role)"

text \<open>
  The modules of the repository that the factory names: only the ring's module exists, and it
  defines these names.
\<close>

definition repo_names :: "pystr \<Rightarrow> pystr set" where
  "repo_names m =
     (if m = str ''aicl.transport.shared_memory_ring'' then
        {str ''_HEADER_SIZE'', str ''_SLOT_USED_OFFSET'', str ''_SLOT_LEN_OFFSET'', str ''_SLOT_DATA_OFFSET'',
         str ''_MAGIC'', str ''RingFull'', str ''RingEmpty'', str ''SharedMemoryRing''}
      else {})"

section \<open>Lemmas on sessions\<close>

lemmas session_defs = session_connect_def session_accept_def session_send_def session_recv_def
  session_close_def session_aenter_def session_aexit_def

text \<open>The abstract session: whether a transport was configured, whether the role admits accepting,
  and which of the opening and closing calls came last.\<close>

fun gate :: "bool \<Rightarrow> bool \<Rightarrow> session_call \<Rightarrow> bool \<Rightarrow> bool" where
  "gate backend server Connect g = (backend \<or> g)"
| "gate backend server AEnter g = (backend \<or> g)"
| "gate backend server Accept g = (server \<or> g)"
| "gate backend server Close g = False"
| "gate backend server AExit g = False"
| "gate backend server _ g = g"

abbreviation has_backend :: "'t session \<Rightarrow> bool" where
  "has_backend s \<equiv> se_transport s \<noteq> None"

abbreviation is_server :: "'t session \<Rightarrow> bool" where
  "is_server s \<equiv> se_role s = RoleStr (str ''server'')"

text \<open>No call changes the role or the address, or takes the backend away; the open flag follows the
  abstract session.\<close>

lemma do_call_simulates:
  "se_open (do_call be c s) = gate (has_backend s) (is_server s) c (se_open s)"
  "has_backend (do_call be c s) = has_backend s"
  "se_role (do_call be c s) = se_role s"
  "se_address (do_call be c s) = se_address s"
  by (cases c; simp add: session_defs split: option.split prod.split)+

lemma do_calls_simulate:
  "se_open (fold (do_call be) cs s) = fold (gate (has_backend s) (is_server s)) cs (se_open s)"
  "has_backend (fold (do_call be) cs s) = has_backend s"
  "se_role (fold (do_call be) cs s) = se_role s"
  "se_address (fold (do_call be) cs s) = se_address s"
  by (induction cs arbitrary: s) (simp_all add: do_call_simulates del: not_None_eq)

text \<open>The gate is open when an opening call that could succeed has no closing call after it.\<close>

definition opens :: "bool \<Rightarrow> bool \<Rightarrow> session_call \<Rightarrow> bool" where
  "opens backend server c = (backend \<and> c \<in> {Connect, AEnter} \<or> server \<and> c = Accept)"

lemma fold_gate:
  "fold (gate b s) cs False \<longleftrightarrow>
     (\<exists>before c after. cs = before @ c # after \<and> opens b s c \<and> set after \<inter> {Close, AExit} = {})"
proof (induction cs rule: rev_induct)
  case (snoc c cs)
  let ?P = "\<lambda>cs. \<exists>before c after. cs = before @ c # after \<and> opens b s c \<and> set after \<inter> {Close, AExit} = {}"
  have "?P (cs @ [c]) \<longleftrightarrow> opens b s c \<or> ?P cs \<and> c \<notin> {Close, AExit}"
  proof
    assume "?P (cs @ [c])"
    then obtain u d v where *: "cs @ [c] = u @ d # v" "opens b s d" "set v \<inter> {Close, AExit} = {}" by blast
    show "opens b s c \<or> ?P cs \<and> c \<notin> {Close, AExit}"
    proof (cases v rule: rev_cases)
      case (snoc w x)
      with * have "cs = u @ d # w" "x = c" by simp_all
      with * snoc show ?thesis by auto
    qed (use * in simp)
  next
    assume "opens b s c \<or> ?P cs \<and> c \<notin> {Close, AExit}"
    then show "?P (cs @ [c])"
    proof
      assume "opens b s c"
      then have "cs @ [c] = cs @ c # [] \<and> opens b s c \<and> set [] \<inter> {Close, AExit} = {}" by simp
      then show ?thesis by blast
    next
      assume "?P cs \<and> c \<notin> {Close, AExit}"
      then obtain u d v where "cs = u @ d # v" "opens b s d" "set v \<inter> {Close, AExit} = {}" "c \<notin> {Close, AExit}" by blast
      then have "cs @ [c] = u @ d # (v @ [c]) \<and> opens b s d \<and> set (v @ [c]) \<inter> {Close, AExit} = {}" by auto
      then show ?thesis by blast
    qed
  qed
  with snoc.IH show ?case by (cases c) (auto simp: opens_def)
qed simp

section \<open>When a session lets data through\<close>

text \<open>
  C39. After any sequence of calls on a new session, sending raises ChannelClosedError unless a
  connect with a configured backend, or an accept with the role \<^verbatim>\<open>"server"\<close>, was made and not closed
  since; it raises TransportError in an accepting session without a backend; otherwise the result is
  the awaited result of the backend.
\<close>

theorem session_send_gate:
  "let s = fold (do_call be) cs (new_session address role t) in
   fst (session_send be data s) =
     (if \<not> (\<exists>before c after. cs = before @ c # after \<and> opens (t \<noteq> None) (role = RoleStr (str ''server'')) c \<and>
              set after \<inter> {Close, AExit} = {})
      then Inl ChannelClosedError
      else case se_transport s of
             None \<Rightarrow> Inl TransportError
           | Some b \<Rightarrow> await (snd (be_send be b data)))"
proof -
  let ?s = "fold (do_call be) cs (new_session address role t)"
  have "se_open ?s = fold (gate (t \<noteq> None) (role = RoleStr (str ''server''))) cs False"
    using do_calls_simulate(1) [of be cs "new_session address role t"] by (simp add: new_session_def)
  then show ?thesis
    unfolding fold_gate [symmetric]
    by (cases "se_transport ?s") (auto simp: session_send_def Let_def split: prod.split)
qed

text \<open>
  In a session whose role is a member of the enumeration, \<^verbatim>\<open>TransportRole.SERVER\<close> included, accept
  raises TransportError whatever was called before.
\<close>

theorem session_accept_enum:
  "fst (session_accept (fold (do_call be) cs (new_session address (RoleEnum r) t))) = Inl TransportError"
  using do_calls_simulate(3) [of be cs "new_session address (RoleEnum r) t"]
  by (simp add: session_accept_def new_session_def)

text \<open>A backend written to the abstract interface: both methods are ordinary ones and hand their
  result back at once.\<close>

definition sync_backend :: "('t, 'v) backend \<Rightarrow> bool" where
  "sync_backend be = ((\<forall>t d v. snd (be_send be t d) \<noteq> Awaitable v) \<and> (\<forall>t v. snd (be_recv be t) \<noteq> Awaitable v))"

lemma await_sync: "(\<And>v. r \<noteq> Awaitable v) \<Longrightarrow> \<exists>e. await r = Inl e"
  by (cases r) auto

text \<open>
  Over a backend written to the abstract interface no send and no receive of a session ever
  returns, in whatever state: each raises, also when the backend has taken or delivered the data.
\<close>

theorem session_sync_backend:
  assumes "sync_backend be"
  shows "(\<exists>e. fst (session_send be data s) = Inl e) \<and> (\<exists>e. fst (session_recv be s) = Inl e)"
proof -
  have "\<exists>e. await (snd (be_send be t data)) = Inl e" "\<exists>e. await (snd (be_recv be t)) = Inl e" for t
    using assms by (auto simp: sync_backend_def intro: await_sync)
  then show ?thesis
    by (auto simp: session_send_def session_recv_def case_prod_beta Let_def split: option.split)
qed

text \<open>A backend that keeps what was sent and hands it out again.\<close>

definition echo_backend :: "(bytes list, bytes) backend" where
  "echo_backend =
     \<lparr>be_send = \<lambda>q d. (q @ [d], Plain []),
      be_recv = \<lambda>q. case q of [] \<Rightarrow> (q, Raised ChannelTimeoutError) | d # q' \<Rightarrow> (q', Plain d)\<rparr>"

lemma echo_backend_sync: "sync_backend echo_backend"
  by (auto simp: sync_backend_def echo_backend_def split: list.split)

theorem session_sync_backend_witness:
  "sync_backend echo_backend \<and>
   (\<exists>e. fst (session_send echo_backend [1, 2]
     (snd (session_connect (new_session
       \<lparr>addr_scheme = str ''shm'', addr_path = str ''q'', addr_host = None, addr_port = None\<rparr>
       (RoleStr (str ''client'')) (Some []))))) = Inl e)"
  using session_sync_backend [OF echo_backend_sync] echo_backend_sync by blast

section \<open>The factory\<close>

lemma lower_valid: "s \<in> set VALID_SCHEMES \<Longrightarrow> lower s = s"
  using match_scheme_valid(2) [of s "[]"] by simp

lemmas create_defs = create_unix_transport_def create_pipe_transport_def create_shm_transport_def
  create_tcp_transport_def

text \<open>Which module, class and arguments stand behind each scheme.\<close>

definition backend_of :: "transport_address \<Rightarrow> (pystr \<times> pystr \<times> ctor_args) option" where
  "backend_of a =
     map_of
       [(str ''unix'', (str ''aicl.transport.unix_socket'', str ''UnixSocketTransport'', PathArg (addr_path a))),
        (str ''pipe'', (str ''aicl.transport.named_pipe'', str ''NamedPipeTransport'', PathArg (addr_path a))),
        (str ''shm'', (str ''aicl.transport.shared_memory_ring'', str ''SharedMemoryRingTransport'', PathArg (addr_path a))),
        (str ''tcp'', (str ''aicl.transport.tcp_socket'', str ''TcpSocketTransport'', HostPortArg (addr_host a) (addr_port a)))]
       (addr_scheme a)"

text \<open>
  For every address the constructor accepts, the factory builds the backend of its scheme from
  the path, or from host and port for TCP; QUIC has none, and a backend whose module or class cannot
  be imported is a TransportError.
\<close>

theorem create_transport_dispatch:
  assumes "addr_scheme a \<in> set VALID_SCHEMES"
  shows "create_transport imports a role =
      (case backend_of a of
         None \<Rightarrow> Inl TransportError
       | Some (m, c, args) \<Rightarrow> import_and_build imports m c args) \<and>
    (backend_of a = None \<longleftrightarrow> addr_scheme a = str ''quic'')"
  using assms lower_valid [OF assms]
  by (auto simp: create_transport_def create_defs backend_of_def VALID_SCHEMES_def Let_def)
    (auto simp: scheme_codes)

theorem create_transport_dispatch_witness:
  "create_transport (\<lambda>m c. Some (\<lambda>args. Inr (c, args)))
     \<lparr>addr_scheme = str ''tcp'', addr_path = [], addr_host = Some (str ''h''), addr_port = Some 80\<rparr>
     (RoleEnum CLIENT) =
   Inr (str ''TcpSocketTransport'', HostPortArg (Some (str ''h'')) (Some 80))"
  by (subst create_transport_dispatch [THEN conjunct1]) (simp_all add: VALID_SCHEMES_def backend_of_def import_and_build_def scheme_codes)

text \<open>
  With the modules the repository has, the factory returns no transport: every address and
  every platform ends in TransportError.
\<close>

theorem create_transport_repo:
  assumes "\<And>m c. c \<notin> repo_names m \<Longrightarrow> imports m c = None" "addr_scheme a \<in> set VALID_SCHEMES"
  shows "create_transport imports a role = Inl TransportError \<and>
    get_platform_transport imports platform role = Inl TransportError"
proof -
  have imp: "imports (str ''aicl.transport.unix_socket'') c = None"
    "imports (str ''aicl.transport.named_pipe'') c = None"
    "imports (str ''aicl.transport.tcp_socket'') c = None"
    "imports (str ''aicl.transport.shared_memory_ring'') (str ''SharedMemoryRingTransport'') = None" for c
    using assms(1) by (simp_all add: repo_names_def str_def)
  have all: "create_transport imports a role = Inl TransportError" if "addr_scheme a \<in> set VALID_SCHEMES" for a
    using that imp lower_valid [OF that]
    by (auto simp: create_transport_def create_defs import_and_build_def caught_by.simps Let_def)
  then show ?thesis
    using assms(2) by (simp add: get_platform_transport_def new_address_def VALID_SCHEMES_def Let_def)
qed

theorem create_transport_repo_witness:
  "create_transport (\<lambda>m c. if c \<in> repo_names m then Some (\<lambda>args. Inr ()) else None)
     \<lparr>addr_scheme = str ''shm'', addr_path = str ''aicl_buffer'', addr_host = None, addr_port = None\<rparr> (RoleEnum CLIENT) =
   Inl TransportError"
  by (rule create_transport_repo [THEN conjunct1]) (simp_all add: VALID_SCHEMES_def)

text \<open>
  Every transport exception class is caught by \<^verbatim>\<open>except TransportError\<close>, and nothing else is.
\<close>

theorem transport_error_catches:
  "caught_by TransportError e \<longleftrightarrow> e \<noteq> ImportError \<and> (\<forall>x. e \<noteq> Other x)"
  by (cases e) (simp_all add: caught_by.simps)

end
