(* ===== verification/Sdk_Errors.thy ===== *)
theory Sdk_Errors
  imports Py_Decimal
begin

text \<open>
  \<^verbatim>\<open>aicl/sdk/errors.py\<close>: the exception classes of the SDK with the code and the context each carries, and
  how keyword arguments travel through the chain of constructors. Messages are not modelled.
  \<open>sexn\<close> is every exception the SDK's operations can end with: its own, \<^verbatim>\<open>_ffi.NativeError\<close> with its
  status code (which is no AICLError), \<^verbatim>\<open>OSError\<close>, and those of the interpreter.
\<close>

section \<open>Classes and their constructors\<close>

datatype sdk_class =
    AICLError | TransportError | CodecError | CapabilityError | TimeoutError | CancelledError
  | SecurityError | NativeBridgeError | HTTPCompatError | HTTPCompatDisabledError

text \<open>Values of a context: integers and strings as such, any other object by its identity.\<close>

datatype ctx_value = CtxInt int | CtxStr pystr | CtxObject nat

type_synonym ctx = "(pystr \<times> ctx_value) list"

record sdk_error =
  er_class :: sdk_class
  er_code :: pystr
  er_context :: ctx
  er_native_code :: "int option"
  er_status_code :: "int option"

text \<open>\<^verbatim>\<open>AICLError.__init__\<close>: an empty or missing code or context is replaced by the default.\<close>

definition aicl_error_init :: "sdk_class \<Rightarrow> pystr option \<Rightarrow> ctx option \<Rightarrow> sdk_error" where
  "aicl_error_init cls code context =
     \<lparr>er_class = cls,
      er_code = (case code of None \<Rightarrow> str ''AICL_ERROR'' | Some c \<Rightarrow> if c = [] then str ''AICL_ERROR'' else c),
      er_context = (case context of None \<Rightarrow> [] | Some c \<Rightarrow> c),
      er_native_code = None, er_status_code = None\<rparr>"

text \<open>
  Keyword arguments that a subclass passes on with \<^verbatim>\<open>**kwargs\<close>, by name; only \<^verbatim>\<open>context\<close> has a place left
  in the base constructor, every other name is a TypeError (given twice, or unknown).
\<close>

type_synonym kwargs = "(pystr \<times> ctx option) list"

definition pass_context :: "kwargs \<Rightarrow> ctx option res" where
  "pass_context kwargs =
     (if \<exists>k \<in> fst ` set kwargs. k \<noteq> str ''context'' then Inl PyTypeError
      else Inr (case map_of kwargs (str ''context'') of None \<Rightarrow> None | Some c \<Rightarrow> c))"

definition coded_init :: "sdk_class \<Rightarrow> pystr \<Rightarrow> kwargs \<Rightarrow> sdk_error res" where
  "coded_init cls code kwargs =
     bindr (pass_context kwargs) (\<lambda>context. Inr (aicl_error_init cls (Some code) context))"

definition transport_error :: "kwargs \<Rightarrow> sdk_error res" where
  "transport_error kwargs = coded_init TransportError (str ''TRANSPORT_ERROR'') kwargs"

definition codec_error :: "kwargs \<Rightarrow> sdk_error res" where
  "codec_error kwargs = coded_init CodecError (str ''CODEC_ERROR'') kwargs"

definition capability_error :: "kwargs \<Rightarrow> sdk_error res" where
  "capability_error kwargs = coded_init CapabilityError (str ''CAPABILITY_ERROR'') kwargs"

definition timeout_error :: "kwargs \<Rightarrow> sdk_error res" where
  "timeout_error kwargs = coded_init TimeoutError (str ''TIMEOUT'') kwargs"

definition cancelled_error :: "kwargs \<Rightarrow> sdk_error res" where
  "cancelled_error kwargs = coded_init CancelledError (str ''CANCELLED'') kwargs"

definition security_error :: "kwargs \<Rightarrow> sdk_error res" where
  "security_error kwargs = coded_init SecurityError (str ''SECURITY_ERROR'') kwargs"

text \<open>These two fill the context themselves, so no keyword is left to pass on.\<close>

definition native_bridge_error :: "int \<Rightarrow> kwargs \<Rightarrow> sdk_error res" where
  "native_bridge_error native_code kwargs =
     (if kwargs \<noteq> [] then Inl PyTypeError
      else Inr ((aicl_error_init NativeBridgeError (Some (str ''NATIVE_BRIDGE_ERROR''))
                   (Some [(str ''native_code'', CtxInt native_code)]))
                 \<lparr>er_native_code := Some native_code\<rparr>))"

definition http_compat_error :: "int \<Rightarrow> kwargs \<Rightarrow> sdk_error res" where
  "http_compat_error status_code kwargs =
     (if kwargs \<noteq> [] then Inl PyTypeError
      else Inr ((aicl_error_init HTTPCompatError (Some (str ''HTTP_COMPAT_ERROR''))
                   (Some [(str ''status_code'', CtxInt status_code)]))
                 \<lparr>er_status_code := Some status_code\<rparr>))"

definition http_compat_disabled_error :: "kwargs \<Rightarrow> sdk_error res" where
  "http_compat_disabled_error kwargs = coded_init HTTPCompatDisabledError (str ''HTTP_DISABLED'') kwargs"

section \<open>Exceptions of the SDK\<close>

datatype sexn = Sdk sdk_error | NativeError int | OSError | Py exn

text \<open>The errors as the SDK itself raises them, with a message only.\<close>

fun class_code :: "sdk_class \<Rightarrow> pystr" where
  "class_code AICLError = str ''AICL_ERROR''"
| "class_code TransportError = str ''TRANSPORT_ERROR''"
| "class_code CodecError = str ''CODEC_ERROR''"
| "class_code CapabilityError = str ''CAPABILITY_ERROR''"
| "class_code TimeoutError = str ''TIMEOUT''"
| "class_code CancelledError = str ''CANCELLED''"
| "class_code SecurityError = str ''SECURITY_ERROR''"
| "class_code NativeBridgeError = str ''NATIVE_BRIDGE_ERROR''"
| "class_code HTTPCompatError = str ''HTTP_COMPAT_ERROR''"
| "class_code HTTPCompatDisabledError = str ''HTTP_DISABLED''"

fun construct :: "sdk_class \<Rightarrow> int \<Rightarrow> kwargs \<Rightarrow> sdk_error res" where
  "construct AICLError n kwargs = bindr (pass_context kwargs) (\<lambda>c. Inr (aicl_error_init AICLError None c))"
| "construct TransportError n kwargs = transport_error kwargs"
| "construct CodecError n kwargs = codec_error kwargs"
| "construct CapabilityError n kwargs = capability_error kwargs"
| "construct TimeoutError n kwargs = timeout_error kwargs"
| "construct CancelledError n kwargs = cancelled_error kwargs"
| "construct SecurityError n kwargs = security_error kwargs"
| "construct NativeBridgeError n kwargs = native_bridge_error n kwargs"
| "construct HTTPCompatError n kwargs = http_compat_error n kwargs"
| "construct HTTPCompatDisabledError n kwargs = http_compat_disabled_error kwargs"

definition raised :: "sdk_class \<Rightarrow> sexn" where
  "raised cls = (case construct cls 0 [] of Inr e \<Rightarrow> Sdk e | Inl e \<Rightarrow> Py e)"

text \<open>\<^verbatim>\<open>except cls\<close> for a class of the SDK: every class derives directly from AICLError.\<close>

fun sdk_caught :: "sdk_class \<Rightarrow> sexn \<Rightarrow> bool" where
  "sdk_caught cls (Sdk e) = (cls = AICLError \<or> er_class e = cls)"
| "sdk_caught cls _ = False"

section \<open>Lemmas\<close>

lemmas constructor_defs = transport_error_def codec_error_def capability_error_def timeout_error_def
  cancelled_error_def security_error_def native_bridge_error_def http_compat_error_def
  http_compat_disabled_error_def coded_init_def pass_context_def aicl_error_init_def bindr_def

lemma class_code_inj: "class_code c = class_code d \<Longrightarrow> c = d"
  by (cases c; cases d) (simp_all add: str_def)

lemma raised_class [simp]: "sdk_caught c (raised d) \<longleftrightarrow> c = AICLError \<or> c = d"
  by (cases d) (auto simp: raised_def constructor_defs)

lemma raised_Sdk [simp]: "raised c \<noteq> Py e" "raised c \<noteq> NativeError n" "raised c \<noteq> OSError"
  by (cases c; simp add: raised_def constructor_defs)+

lemma raised_inj [simp]: "raised c = raised d \<longleftrightarrow> c = d"
  by (cases c; cases d) (simp_all add: raised_def constructor_defs)

text \<open>
  Every error of the SDK that can be constructed without a code of its own is of the class asked
  for, carries the code of that class, which no other class has, and a NativeBridgeError or
  HTTPCompatError carries its number in attribute and context; any keyword other than \<^verbatim>\<open>context\<close>, and
  for those two also \<^verbatim>\<open>context\<close>, is a TypeError.
\<close>

theorem sdk_error_construct:
  "case construct cls n kwargs of
     Inl x \<Rightarrow> x = PyTypeError \<and>
       (cls \<in> {NativeBridgeError, HTTPCompatError} \<and> kwargs \<noteq> [] \<or> fst ` set kwargs - {str ''context''} \<noteq> {})
   | Inr e \<Rightarrow> er_class e = cls \<and> (\<forall>d. er_code e = class_code d \<longleftrightarrow> d = cls) \<and>
       (cls = NativeBridgeError \<longleftrightarrow> er_native_code e = Some n) \<and>
       (cls = HTTPCompatError \<longleftrightarrow> er_status_code e = Some n) \<and>
       (if cls \<in> {NativeBridgeError, HTTPCompatError} then map snd (er_context e) = [CtxInt n]
        else er_context e = (case map_of kwargs (str ''context'') of Some (Some c) \<Rightarrow> c | _ \<Rightarrow> []))"
proof -
  have code: "(class_code cls = class_code d) = (d = cls)" for d using class_code_inj by blast
  have ne: "str t = [] \<longleftrightarrow> t = []" for t by (simp add: str_def)
  show ?thesis
    using code by (cases cls) (auto simp: constructor_defs ne split: if_splits option.splits)
qed

end
