(* ===== verification/Cancellation.thy ===== *)
theory Cancellation
  imports Sdk_Errors
begin

text \<open>
  \<^verbatim>\<open>aicl/sdk/_cancellation.py\<close>: the cancellation token and the null token. Every method that takes the
  token's lock is one atomic operation; a run is a sequence of them, whatever thread each belongs to.
  A callback is arbitrary client code: it may return, raise an Exception (swallowed), raise another
  BaseException, or use the token again and so wait for the lock its caller holds. Shown: registered
  callbacks run exactly once and in order; a callback that uses the token blocks it for good; and
  what a client may rely on for either kind of token, as the interface \<open>cancellation\<close>.
\<close>

section \<open>The token\<close>

datatype callback_result = Returns | RaisesException | RaisesBaseException | UsesToken

record 'c cancellation_token =
  tk_cancelled :: bool
  tk_event :: bool
  tk_callbacks :: "'c list"
  tk_locked :: bool

text \<open>How a call ends: it returns, lets a BaseException through, or waits for the lock for ever.\<close>

datatype ending = Returned | Propagated | Blocked

definition new_token :: "'c cancellation_token" where
  "new_token = \<lparr>tk_cancelled = False, tk_event = False, tk_callbacks = [], tk_locked = False\<rparr>"

text \<open>The loop over the callbacks: which were started, and how it ends.\<close>

fun invoke :: "('c \<Rightarrow> callback_result) \<Rightarrow> 'c list \<Rightarrow> 'c list \<times> ending" where
  "invoke run [] = ([], Returned)"
| "invoke run (cb # cbs) =
     (case run cb of
        RaisesBaseException \<Rightarrow> ([cb], Propagated)
      | UsesToken \<Rightarrow> ([cb], Blocked)
      | _ \<Rightarrow> (let (started, e) = invoke run cbs in (cb # started, e)))"

text \<open>Leaving \<^verbatim>\<open>with self._lock\<close> releases the lock, also with an exception; a blocked call never leaves.\<close>

definition token_cancel ::
  "('c \<Rightarrow> callback_result) \<Rightarrow> 'c cancellation_token \<Rightarrow> 'c cancellation_token \<times> 'c list \<times> ending" where
  "token_cancel run t =
     (if tk_locked t then (t, [], Blocked)
      else if tk_cancelled t then (t, [], Returned)
      else
        let (started, e) = invoke run (tk_callbacks t)
        in (t\<lparr>tk_cancelled := True, tk_event := True, tk_locked := (e = Blocked)\<rparr>, started, e))"

definition on_cancelled ::
  "('c \<Rightarrow> callback_result) \<Rightarrow> 'c \<Rightarrow> 'c cancellation_token \<Rightarrow> 'c cancellation_token \<times> 'c list \<times> ending" where
  "on_cancelled run cb t =
     (if tk_locked t then (t, [], Blocked)
      else if tk_cancelled t then
        let (started, e) = invoke run [cb] in (t\<lparr>tk_locked := (e = Blocked)\<rparr>, started, e)
      else (t\<lparr>tk_callbacks := tk_callbacks t @ [cb]\<rparr>, [], Returned))"

definition is_cancelled :: "'c cancellation_token \<Rightarrow> bool" where
  "is_cancelled t = tk_cancelled t"

text \<open>
  \<^verbatim>\<open>wait\<close>: \<open>set_meanwhile\<close> says whether another thread sets the event before the timeout is over (or
  ever, without a timeout). None: the call does not return.
\<close>

definition token_wait :: "'c cancellation_token \<Rightarrow> bool \<Rightarrow> bool \<Rightarrow> bool option" where
  "token_wait t has_timeout set_meanwhile =
     (if tk_event t \<or> set_meanwhile then Some True else if has_timeout then Some False else None)"

definition token_check :: "'c cancellation_token \<Rightarrow> sexn + unit" where
  "token_check t = (if tk_cancelled t then Inl (raised CancelledError) else Inr ())"

section \<open>The null token\<close>

definition null_is_cancelled :: "unit \<Rightarrow> bool" where
  "null_is_cancelled _ = False"

definition null_cancel :: "unit \<Rightarrow> unit" where
  "null_cancel _ = ()"

definition null_on_cancelled :: "'c \<Rightarrow> unit \<Rightarrow> unit \<times> 'c list" where
  "null_on_cancelled cb _ = ((), [])"

definition null_wait :: "unit \<Rightarrow> bool" where
  "null_wait _ = False"

definition null_check :: "unit \<Rightarrow> sexn + unit" where
  "null_check _ = Inr ()"

text \<open>\<^verbatim>\<open>cancellation or NULL_TOKEN\<close>: a token object is always true.\<close>

definition or_null :: "'c cancellation_token option \<Rightarrow> 'c cancellation_token + unit" where
  "or_null c = (case c of Some t \<Rightarrow> Inl t | None \<Rightarrow> Inr ())"

fun any_is_cancelled :: "'c cancellation_token + unit \<Rightarrow> bool" where
  "any_is_cancelled (Inl t) = is_cancelled t"
| "any_is_cancelled (Inr n) = null_is_cancelled n"

fun any_check :: "'c cancellation_token + unit \<Rightarrow> sexn + unit" where
  "any_check (Inl t) = token_check t"
| "any_check (Inr n) = null_check n"

section \<open>What a client relies on\<close>

text \<open>A checkpoint raises CancelledError exactly when the token is cancelled.\<close>

locale cancellation =
  fixes cancelled :: "'s \<Rightarrow> bool" and check :: "'s \<Rightarrow> sexn + unit"
  assumes check_iff: "check s = (if cancelled s then Inl (raised CancelledError) else Inr ())"
begin

lemma check_cancelled: "cancelled s \<Longrightarrow> bindr (check s) f = Inl (raised CancelledError)"
  by (simp add: check_iff bindr_def)

lemma check_active: "\<not> cancelled s \<Longrightarrow> bindr (check s) f = f ()"
  by (simp add: check_iff bindr_def)

text \<open>An operation between two checkpoints is reached only while the token is active.\<close>

lemma check_then:
  "bindr (check s) (\<lambda>_. bindr r (\<lambda>x. bindr (check s') (\<lambda>_. f x))) = Inr y \<longleftrightarrow>
     \<not> cancelled s \<and> \<not> cancelled s' \<and> (\<exists>x. r = Inr x \<and> f x = Inr y)"
  by (auto simp: check_iff bindr_def split: sum.splits)

lemma check_raises: "check s = Inl e \<Longrightarrow> e = raised CancelledError"
  by (simp add: check_iff split: if_splits)

end

interpretation token: cancellation is_cancelled token_check
  by unfold_locales (simp add: is_cancelled_def token_check_def)

interpretation null: cancellation null_is_cancelled null_check
  by unfold_locales (simp add: null_is_cancelled_def null_check_def)

interpretation any: cancellation any_is_cancelled any_check
proof
  fix s :: "'c cancellation_token + unit"
  show "any_check s = (if any_is_cancelled s then Inl (raised CancelledError) else Inr ())"
    by (cases s) (simp_all add: token.check_iff null.check_iff)
qed

section \<open>Runs of a token\<close>

datatype 'c token_call = Cancel | OnCancelled 'c

fun token_do :: "('c \<Rightarrow> callback_result) \<Rightarrow> 'c token_call \<Rightarrow> 'c cancellation_token \<Rightarrow> 'c cancellation_token \<times> 'c list \<times> ending" where
  "token_do run Cancel t = token_cancel run t"
| "token_do run (OnCancelled cb) t = on_cancelled run cb t"

text \<open>The state after a sequence of calls, and the callbacks started, in order.\<close>

fun token_run :: "('c \<Rightarrow> callback_result) \<Rightarrow> 'c token_call list \<Rightarrow> 'c cancellation_token \<Rightarrow> 'c cancellation_token \<times> 'c list" where
  "token_run run [] t = (t, [])"
| "token_run run (c # cs) t =
     (let (t', started, _) = token_do run c t; (t'', more_started) = token_run run cs t'
      in (t'', started @ more_started))"

fun registered :: "'c token_call list \<Rightarrow> 'c list" where
  "registered [] = []"
| "registered (OnCancelled cb # cs) = cb # registered cs"
| "registered (Cancel # cs) = registered cs"

definition harmless :: "callback_result \<Rightarrow> bool" where
  "harmless r = (r \<in> {Returns, RaisesException})"

lemma invoke_harmless: "\<forall>cb \<in> set cbs. harmless (run cb) \<Longrightarrow> invoke run cbs = (cbs, Returned)"
  by (induction cbs) (auto simp: harmless_def)

lemma token_run_cancelled:
  assumes "tk_cancelled t" "\<not> tk_locked t" "\<forall>cb \<in> set (registered cs). harmless (run cb)"
  shows "token_run run cs t = (t, registered cs)"
  using assms
proof (induction cs rule: registered.induct)
  case (2 cb cs)
  then have i: "invoke run [cb] = ([cb], Returned)" by (intro invoke_harmless) simp
  have u: "t\<lparr>tk_locked := False\<rparr> = t" using 2(3) by simp
  show ?case using 2 by (simp add: on_cancelled_def i u del: invoke.simps)
qed (simp_all add: token_cancel_def)

lemma token_run_active:
  assumes "\<not> tk_cancelled t" "\<not> tk_locked t"
    "\<forall>cb \<in> set (tk_callbacks t) \<union> set (registered cs). harmless (run cb)"
  shows "snd (token_run run cs t) = (if Cancel \<in> set cs then tk_callbacks t @ registered cs else []) \<and>
    tk_cancelled (fst (token_run run cs t)) = (Cancel \<in> set cs) \<and>
    tk_event (fst (token_run run cs t)) = (Cancel \<in> set cs \<or> tk_event t)"
  using assms
proof (induction cs arbitrary: t rule: registered.induct)
  case (2 cb cs)
  then show ?case
    using "2.IH" [of "t\<lparr>tk_callbacks := tk_callbacks t @ [cb]\<rparr>"]
    by (auto simp: on_cancelled_def split: prod.split)
next
  case (3 cs)
  let ?t = "t\<lparr>tk_cancelled := True, tk_event := True, tk_locked := False\<rparr>"
  have "invoke run (tk_callbacks t) = (tk_callbacks t, Returned)" using 3(4) by (intro invoke_harmless) simp
  moreover have "token_run run cs ?t = (?t, registered cs)" using 3(4) by (intro token_run_cancelled) simp_all
  ultimately show ?case using 3(2,3) by (simp add: token_cancel_def)
qed simp

text \<open>
  C34. In any sequence of cancellations and registrations, in whatever order and however often, with
  callbacks that return or raise an Exception: once the token is cancelled every registered callback
  has been started exactly once, in the order of registration; before that none has. The flag and
  the event agree with whether a cancellation was made.
\<close>

theorem token_exactly_once:
  assumes "\<forall>cb \<in> set (registered calls). harmless (run cb)"
  shows "token_run run calls new_token =
      (fst (token_run run calls new_token), if Cancel \<in> set calls then registered calls else []) \<and>
    is_cancelled (fst (token_run run calls new_token)) = (Cancel \<in> set calls) \<and>
    tk_event (fst (token_run run calls new_token)) = (Cancel \<in> set calls)"
  using token_run_active [of new_token calls run] assms
  by (simp add: new_token_def is_cancelled_def prod_eq_iff)

theorem token_exactly_once_witness:
  "snd (token_run (\<lambda>n::nat. if n = 1 then RaisesException else Returns)
     [OnCancelled 1, OnCancelled 2, Cancel, OnCancelled 3, Cancel] new_token) = [1, 2, 3]"
  using token_exactly_once [of "[OnCancelled 1, OnCancelled 2, Cancel, OnCancelled 3, Cancel]"
      "\<lambda>n::nat. if n = 1 then RaisesException else Returns"]
  by (simp add: harmless_def prod_eq_iff)

lemma blocked_token: "tk_locked t \<Longrightarrow> token_run run calls t = (t, [])"
  by (induction calls) (auto simp: token_cancel_def on_cancelled_def elim!: token_do.elims split: prod.split)

text \<open>
  A callback that uses the token leaves it locked: from then on every cancellation and every
  registration blocks and starts nothing, while the token reads as cancelled.
\<close>

theorem token_reentry_blocks:
  assumes "token_do run c t = (t', started, Blocked)" "\<not> tk_locked t"
  shows "is_cancelled t' \<and> (\<forall>calls. token_run run calls t' = (t', [])) \<and>
    token_do run Cancel t' = (t', [], Blocked)"
proof -
  have "tk_cancelled t' \<and> tk_locked t'"
    using assms by (cases c) (auto simp: token_cancel_def on_cancelled_def Let_def split: if_splits prod.splits)
  then show ?thesis by (simp add: blocked_token is_cancelled_def token_cancel_def)
qed

theorem token_reentry_blocks_witness:
  "\<exists>t'. token_do (\<lambda>_. UsesToken) Cancel (new_token\<lparr>tk_callbacks := [0::nat, 1]\<rparr>) = (t', [0], Blocked) \<and>
     is_cancelled t' \<and> token_do (\<lambda>_. UsesToken) Cancel t' = (t', [], Blocked)"
proof -
  let ?t = "new_token\<lparr>tk_callbacks := [0::nat, 1]\<rparr>"
  have c: "token_do (\<lambda>_. UsesToken) Cancel ?t =
      (?t\<lparr>tk_cancelled := True, tk_event := True, tk_locked := True\<rparr>, [0], Blocked)"
    by (simp add: token_cancel_def new_token_def)
  from token_reentry_blocks [OF this] c show ?thesis by (simp add: new_token_def)
qed

end
