(* ===== verification/Capabilities.thy ===== *)
theory Capabilities
  imports Sdk_Errors "HOL-Library.Sublist" "HOL-Library.Code_Target_Nat"
begin

text \<open>
  \<^verbatim>\<open>aicl/sdk/capabilities.py\<close>: capabilities, searching a set of them, and the built-in set. Python's
  \<^verbatim>\<open>str.lower\<close> maps all of Unicode; it is the argument \<open>lower\<close>, of which the lemmas on the built-in set
  assume only what it does to ASCII. Shown: which capability each search returns.
\<close>

section \<open>Capabilities\<close>

record capability =
  cap_name :: pystr
  cap_version :: pystr
  cap_description :: pystr
  cap_max_payload :: int
  cap_tags :: "pystr list"

text \<open>A capability given by name and description, the other fields at their defaults.\<close>

definition new_capability :: "pystr \<Rightarrow> pystr \<Rightarrow> capability" where
  "new_capability name description =
     \<lparr>cap_name = name, cap_version = str ''1.0'', cap_description = description, cap_max_payload = 0, cap_tags = []\<rparr>"

definition cap_matches :: "(pystr \<Rightarrow> pystr) \<Rightarrow> capability \<Rightarrow> pystr \<Rightarrow> bool" where
  "cap_matches lower c query =
     (let q = lower query in
      sublist q (lower (cap_name c)) \<or> sublist q (lower (cap_description c)) \<or>
      (\<exists>t \<in> set (cap_tags c). sublist q (lower t)))"

section \<open>Sets of capabilities\<close>

type_synonym capability_set = "capability list"

definition caps_add :: "capability \<Rightarrow> capability_set \<Rightarrow> capability_set" where
  "caps_add c s = s @ [c]"

definition caps_find :: "(pystr \<Rightarrow> pystr) \<Rightarrow> pystr \<Rightarrow> capability_set \<Rightarrow> capability list" where
  "caps_find lower query s = filter (\<lambda>c. cap_matches lower c query) s"

definition caps_has :: "pystr \<Rightarrow> capability_set \<Rightarrow> bool" where
  "caps_has name s = list_ex (\<lambda>c. cap_name c = name) s"

fun caps_get :: "pystr \<Rightarrow> capability_set \<Rightarrow> capability option" where
  "caps_get name [] = None"
| "caps_get name (c # cs) = (if cap_name c = name then Some c else caps_get name cs)"

definition caps_names :: "capability_set \<Rightarrow> pystr list" where
  "caps_names s = map cap_name s"

definition caps_len :: "capability_set \<Rightarrow> nat" where
  "caps_len s = length s"

definition BUILTIN_CAPABILITIES :: capability_set where
  "BUILTIN_CAPABILITIES =
    [new_capability (str ''classify'') (str ''Classify text into categories''),
     new_capability (str ''generate'') (str ''Generate text from a prompt''),
     new_capability (str ''embed'') (str ''Compute text embeddings''),
     new_capability (str ''reason'') (str ''Chain-of-thought reasoning''),
     new_capability (str ''rank'') (str ''Rank documents by relevance''),
     new_capability (str ''summarize'') (str ''Summarize text''),
     new_capability (str ''verify'') (str ''Verify claims against evidence''),
     new_capability (str ''extract'') (str ''Extract structured data''),
     new_capability (str ''transform'') (str ''Transform text''),
     new_capability (str ''plan'') (str ''Generate action plans''),
     new_capability (str ''evaluate'') (str ''Evaluate text quality''),
     new_capability (str ''model_call'') (str ''Direct model invocation''),
     new_capability (str ''tool_call'') (str ''Invoke external tools''),
     new_capability (str ''memory_read'') (str ''Read from memory store''),
     new_capability (str ''memory_write'') (str ''Write to memory store''),
     new_capability (str ''memory_delete'') (str ''Delete from memory store''),
     new_capability (str ''index_query'') (str ''Query the index''),
     new_capability (str ''index_upsert'') (str ''Update the index'')]"

section \<open>Lemmas\<close>

lemma matches_own_name: "cap_matches lower c (cap_name c)"
  by (simp add: cap_matches_def)

lemma caps_get_Some: "caps_get name s = Some c \<longleftrightarrow> find (\<lambda>c. cap_name c = name) s = Some c"
  by (induction s) simp_all

lemma caps_get_names: "caps_get name s = None \<longleftrightarrow> name \<notin> set (caps_names s)"
  by (induction s) (auto simp: caps_names_def)

text \<open>
  The exact lookups agree: a name is listed exactly when the set has it and when get finds it, get
  returns the first capability of that name, and the search by text never misses a listed name. A
  capability added is listed last and hides none that was there.
\<close>

theorem capability_lookup:
  "(caps_has name s \<longleftrightarrow> name \<in> set (caps_names s)) \<and>
   (caps_get name s \<noteq> None \<longleftrightarrow> caps_has name s) \<and>
   \<not> (caps_has name s \<and> caps_find lower name s = []) \<and>
   caps_get name (caps_add c s) =
     (if caps_has name s then caps_get name s else if cap_name c = name then Some c else None) \<and>
   caps_names (caps_add c s) = caps_names s @ [cap_name c]"
proof -
  have has: "caps_has name s \<longleftrightarrow> name \<in> set (caps_names s)" for s
    by (auto simp: caps_has_def caps_names_def list_ex_iff)
  moreover have "caps_get name (caps_add c s) =
     (if caps_has name s then caps_get name s else if cap_name c = name then Some c else None)"
    by (induction s) (auto simp: caps_add_def caps_has_def)
  moreover have "caps_find lower name s \<noteq> []" if "caps_has name s"
    using that matches_own_name by (fastforce simp: caps_has_def caps_find_def list_ex_iff filter_empty_conv)
  ultimately show ?thesis using caps_get_names by (auto simp: caps_names_def caps_add_def)
qed

definition ascii_lower :: "pystr \<Rightarrow> pystr" where
  "ascii_lower s = map (\<lambda>c. if 65 \<le> c \<and> c \<le> 90 then c + 32 else c) s"

text \<open>What \<^verbatim>\<open>str.lower\<close> does to strings of ASCII characters.\<close>

definition lowers_ascii :: "(pystr \<Rightarrow> pystr) \<Rightarrow> bool" where
  "lowers_ascii lower = (\<forall>s. list_all (\<lambda>c. c < 128) s \<longrightarrow> lower s = ascii_lower s)"

lemma caps_find_cong:
  assumes "lowers_ascii lower" "list_all (\<lambda>c. c < 128) q"
    "\<forall>c \<in> set s. list_all (\<lambda>c. c < 128) (cap_name c) \<and> list_all (\<lambda>c. c < 128) (cap_description c) \<and> cap_tags c = []"
  shows "caps_find lower q s = caps_find ascii_lower q s"
  using assms by (auto simp: caps_find_def cap_matches_def lowers_ascii_def intro!: filter_cong)

lemma builtin_ascii:
  "\<forall>c \<in> set BUILTIN_CAPABILITIES. list_all (\<lambda>c. c < 128) (cap_name c) \<and>
     list_all (\<lambda>c. c < 128) (cap_description c) \<and> cap_tags c = []"
  by (simp add: BUILTIN_CAPABILITIES_def new_capability_def str_def)

lemma builtin_find_ascii:
  "list_all (\<lambda>c. hd (caps_find ascii_lower (cap_name c) BUILTIN_CAPABILITIES) = c) BUILTIN_CAPABILITIES"
  by code_simp

lemma builtin_find_first:
  assumes "lowers_ascii lower" "c \<in> set BUILTIN_CAPABILITIES"
  shows "hd (caps_find lower (cap_name c) BUILTIN_CAPABILITIES) = c"
proof -
  have "caps_find lower (cap_name c) BUILTIN_CAPABILITIES = caps_find ascii_lower (cap_name c) BUILTIN_CAPABILITIES"
    using caps_find_cong [OF assms(1) _ builtin_ascii] builtin_ascii assms(2) by blast
  then show ?thesis using builtin_find_ascii assms(2) by (simp add: list_all_iff)
qed

lemma lowers_ascii_lower: "lowers_ascii ascii_lower"
  by (simp add: lowers_ascii_def)

end
