(* ===== verification/Sdk_Result.thy ===== *)
theory Sdk_Result
  imports Sdk_Errors Py_Float
begin

text \<open>
  \<^verbatim>\<open>aicl/sdk/result.py\<close>: structured results, whose data is an exception or a value, and the one-pass
  stream of chunks. What \<^verbatim>\<open>str(x)\<close> gives for an object of a client's class is an argument. Shown: the
  laws of \<^verbatim>\<open>map\<close> and \<^verbatim>\<open>unwrap\<close>, and that a stream hands out each chunk once, in order, however it is
  read.
\<close>

section \<open>Structured results\<close>

record 'a structured_result =
  sr_data :: "sexn + 'a"
  sr_opcode :: int
  sr_message_id :: pystr
  sr_correlation_id :: pystr
  sr_latency_ms :: f64
  sr_metadata :: ctx

text \<open>\<^verbatim>\<open>self.data\<close> is an Exception.\<close>

definition sr_ok :: "'a structured_result \<Rightarrow> bool" where
  "sr_ok r = (case sr_data r of Inl _ \<Rightarrow> False | Inr _ \<Rightarrow> True)"

text \<open>The left injection is the exception raised.\<close>

definition unwrap :: "'a structured_result \<Rightarrow> sexn + 'a" where
  "unwrap r = (case sr_data r of Inl e \<Rightarrow> Inl e | Inr x \<Rightarrow> Inr x)"

text \<open>
  \<^verbatim>\<open>map\<close>: the function may raise (outer left injection), or return a value, which is itself an Exception
  (inner left) or not.
\<close>

definition result_map :: "('a \<Rightarrow> sexn + (sexn + 'b)) \<Rightarrow> 'a structured_result \<Rightarrow> sexn + 'b structured_result" where
  "result_map fn r =
     (case sr_data r of
        Inl e \<Rightarrow> Inr \<lparr>sr_data = Inl e, sr_opcode = sr_opcode r, sr_message_id = sr_message_id r,
                     sr_correlation_id = sr_correlation_id r, sr_latency_ms = sr_latency_ms r,
                     sr_metadata = sr_metadata r\<rparr>
      | Inr x \<Rightarrow> bindr (fn x) (\<lambda>d.
          Inr \<lparr>sr_data = d, sr_opcode = sr_opcode r, sr_message_id = sr_message_id r,
               sr_correlation_id = sr_correlation_id r, sr_latency_ms = sr_latency_ms r,
               sr_metadata = sr_metadata r\<rparr>))"

text \<open>The constructors with the fields they are not given at their defaults.\<close>

definition result_with :: "sexn + 'a \<Rightarrow> 'a structured_result" where
  "result_with d =
     \<lparr>sr_data = d, sr_opcode = 0, sr_message_id = [], sr_correlation_id = [], sr_latency_ms = 0, sr_metadata = []\<rparr>"

definition result_ok :: "'a \<Rightarrow> 'a structured_result" where
  "result_ok x = result_with (Inr x)"

definition result_err :: "sexn \<Rightarrow> 'a structured_result" where
  "result_err e = result_with (Inl e)"

section \<open>Streams of chunks\<close>

datatype 'o chunk_data = ChunkBytes bytes | ChunkObject 'o

record 'o stream_chunk =
  ch_data :: "'o chunk_data"
  ch_index :: int
  ch_is_final :: bool
  ch_metadata :: ctx

record 'o result_stream =
  rs_chunks :: "'o stream_chunk list"
  rs_index :: nat

definition new_stream :: "'o stream_chunk list \<Rightarrow> 'o result_stream" where
  "new_stream chunks = \<lparr>rs_chunks = chunks, rs_index = 0\<rparr>"

text \<open>\<^verbatim>\<open>__anext__\<close>; None is StopAsyncIteration.\<close>

definition anext :: "'o result_stream \<Rightarrow> 'o stream_chunk option \<times> 'o result_stream" where
  "anext s =
     (if rs_index s \<ge> length (rs_chunks s) then (None, s)
      else (Some (rs_chunks s ! rs_index s), s\<lparr>rs_index := rs_index s + 1\<rparr>))"

lemma anext_decreases:
  "anext s = (Some c, s') \<Longrightarrow> length (rs_chunks s') - rs_index s' < length (rs_chunks s) - rs_index s"
  by (auto simp: anext_def split: if_splits)

function collect_stream :: "'o result_stream \<Rightarrow> 'o stream_chunk list \<times> 'o result_stream" where
  "collect_stream s =
     (case anext s of
        (None, s') \<Rightarrow> ([], s')
      | (Some c, s') \<Rightarrow> (let (cs, s'') = collect_stream s' in (c # cs, s'')))"
  by pat_completeness auto
termination
  by (relation "measure (\<lambda>s. length (rs_chunks s) - rs_index s)") (auto dest!: anext_decreases [OF sym])

declare collect_stream.simps [simp del]

text \<open>\<^verbatim>\<open>to_bytes\<close>: bytes as they are, any other object through \<^verbatim>\<open>str(x).encode()\<close>, which may raise.\<close>

fun chunk_bytes :: "('o \<Rightarrow> sexn + pystr) \<Rightarrow> 'o chunk_data \<Rightarrow> sexn + bytes" where
  "chunk_bytes to_str (ChunkBytes b) = Inr b"
| "chunk_bytes to_str (ChunkObject x) =
     bindr (to_str x) (\<lambda>s. case utf8_encode s of Inl e \<Rightarrow> Inl (Py e) | Inr b \<Rightarrow> Inr b)"

function stream_to_bytes :: "('o \<Rightarrow> sexn + pystr) \<Rightarrow> bytes list \<Rightarrow> 'o result_stream \<Rightarrow> (sexn + bytes) \<times> 'o result_stream" where
  "stream_to_bytes to_str parts s =
     (case anext s of
        (None, s') \<Rightarrow> (Inr (concat parts), s')
      | (Some c, s') \<Rightarrow>
          (case chunk_bytes to_str (ch_data c) of
             Inl e \<Rightarrow> (Inl e, s')
           | Inr b \<Rightarrow> stream_to_bytes to_str (parts @ [b]) s'))"
  by pat_completeness auto
termination
  by (relation "measure (\<lambda>(_, _, s). length (rs_chunks s) - rs_index s)") (auto dest!: anext_decreases [OF sym])

declare stream_to_bytes.simps [simp del]

section \<open>Results\<close>

text \<open>
  Unwrapping a mapped result is unwrapping, then applying the function, raising whatever either
  raises and whatever exception the function returned; the metadata of the operation is kept;
  mapping twice is mapping once with the composition, where an exception returned by the first
  function skips the second.
\<close>

theorem result_map_laws:
  "bindr (result_map f r) unwrap = bindr (unwrap r) (\<lambda>x. bindr (f x) (\<lambda>d. d)) \<and>
   bindr (result_map f r) (result_map g) =
     result_map (\<lambda>x. bindr (f x) (\<lambda>d. case d of Inl e \<Rightarrow> Inr (Inl e) | Inr y \<Rightarrow> g y)) r \<and>
   (case result_map f r of
      Inl e \<Rightarrow> sr_ok r
    | Inr r' \<Rightarrow> (sr_opcode r', sr_message_id r', sr_correlation_id r', sr_latency_ms r', sr_metadata r') =
        (sr_opcode r, sr_message_id r, sr_correlation_id r, sr_latency_ms r, sr_metadata r))"
  by (auto simp: result_map_def unwrap_def bindr_def sr_ok_def split: sum.split)

section \<open>Reading a stream\<close>

text \<open>What is left of a stream.\<close>

definition remaining :: "'o result_stream \<Rightarrow> 'o stream_chunk list" where
  "remaining s = drop (rs_index s) (rs_chunks s)"

lemma anext_remaining:
  "remaining s = [] \<Longrightarrow> anext s = (None, s)"
  "remaining s = c # cs \<Longrightarrow> \<exists>s'. anext s = (Some c, s') \<and> remaining s' = cs"
proof -
  show "anext s = (None, s)" if "remaining s = []" using that by (simp add: remaining_def anext_def)
  assume r: "remaining s = c # cs"
  then have "rs_index s < length (rs_chunks s)" by (simp add: remaining_def) (metis drop_eq_Nil linorder_not_less list.distinct(1))
  moreover from this r have "rs_chunks s ! rs_index s = c" "drop (Suc (rs_index s)) (rs_chunks s) = cs"
    by (simp_all add: remaining_def Cons_nth_drop_Suc [symmetric])
  ultimately show "\<exists>s'. anext s = (Some c, s') \<and> remaining s' = cs"
    by (simp add: anext_def remaining_def)
qed

lemma collect_remaining: "\<exists>s'. collect_stream s = (remaining s, s') \<and> remaining s' = []"
proof (induction "remaining s" arbitrary: s)
  case Nil
  then show ?case using anext_remaining(1) [of s] by (simp add: collect_stream.simps)
next
  case (Cons c cs)
  then obtain s' where s': "anext s = (Some c, s')" "remaining s' = cs" using anext_remaining(2) by metis
  with Cons(1) [of s'] Cons(2) show ?case by (subst collect_stream.simps) force
qed

lemma to_bytes_remaining:
  "\<exists>s'. stream_to_bytes to_str parts s =
     (bindr (mapr (\<lambda>c. chunk_bytes to_str (ch_data c)) (remaining s)) (\<lambda>bs. Inr (concat (parts @ bs))), s')"
proof (induction "remaining s" arbitrary: s parts)
  case Nil
  then show ?case
    using anext_remaining(1) [of s] by (simp add: stream_to_bytes.simps [of _ _ s] bindr_def flip: Nil)
next
  case (Cons c cs)
  then obtain s' where s': "anext s = (Some c, s')" "remaining s' = cs" using anext_remaining(2) by metis
  show ?case
  proof (cases "chunk_bytes to_str (ch_data c)")
    case (Inl e)
    then show ?thesis using s' by (simp add: stream_to_bytes.simps [of _ _ s] bindr_def flip: Cons(2))
  next
    case (Inr b)
    from Cons(1) [of s' "parts @ [b]"] s'(2) obtain s'' where
      "stream_to_bytes to_str (parts @ [b]) s' =
        (bindr (mapr (\<lambda>c. chunk_bytes to_str (ch_data c)) cs) (\<lambda>bs. Inr (concat ((parts @ [b]) @ bs))), s'')" by blast
    then show ?thesis
      using s' Inr by (simp add: stream_to_bytes.simps [of _ _ s] bindr_def flip: Cons(2) split: sum.splits)
  qed
qed

text \<open>The calls that read a stream, and what they hand out.\<close>

datatype stream_call = ANext | Collect

fun stream_do :: "stream_call \<Rightarrow> 'o result_stream \<Rightarrow> 'o stream_chunk list \<times> 'o result_stream" where
  "stream_do ANext s = (case anext s of (None, s') \<Rightarrow> ([], s') | (Some c, s') \<Rightarrow> ([c], s'))"
| "stream_do Collect s = collect_stream s"

fun stream_run :: "stream_call list \<Rightarrow> 'o result_stream \<Rightarrow> 'o stream_chunk list \<times> 'o result_stream" where
  "stream_run [] s = ([], s)"
| "stream_run (c # cs) s = (let (out, s') = stream_do c s; (rest, s'') = stream_run cs s' in (out @ rest, s''))"

lemma stream_run_remaining:
  "fst (stream_run calls s) = (if Collect \<in> set calls then remaining s else take (length calls) (remaining s)) \<and>
   fst (stream_run calls s) @ remaining (snd (stream_run calls s)) = remaining s"
proof (induction calls arbitrary: s)
  case (Cons call calls)
  show ?case
  proof (cases call)
    case ANext
    show ?thesis
    proof (cases "remaining s")
      case Nil
      with Cons [of s] show ?thesis using ANext anext_remaining(1) [of s] by (auto split: prod.split)
    next
      case (Cons c cs)
      then obtain s' where "anext s = (Some c, s')" "remaining s' = cs" using anext_remaining(2) by metis
      with Cons.IH [of s'] Cons show ?thesis using ANext by (auto split: prod.split)
    qed
  next
    case Collect
    obtain s' where s': "collect_stream s = (remaining s, s')" "remaining s' = []" using collect_remaining by blast
    with Cons.IH [of s'] show ?thesis using Collect by (auto split: prod.split if_splits)
  qed
qed (simp add: take_Cons')

text \<open>
  However a stream is read, by single steps and by collect in any mixture, the chunks handed out
  are the first of the list, one per step and all once collect was called, each exactly once and in
  order; converting what is left to bytes concatenates the bytes of its chunks.
\<close>

theorem stream_read_once:
  "let (out, s) = stream_run calls (new_stream chunks) in
     out = (if Collect \<in> set calls then chunks else take (length calls) chunks) \<and>
     out @ remaining s = chunks \<and>
     fst (stream_to_bytes to_str [] s) =
       bindr (mapr (\<lambda>c. chunk_bytes to_str (ch_data c)) (remaining s)) (\<lambda>bs. Inr (concat bs))"
proof -
  obtain out s where r: "stream_run calls (new_stream chunks) = (out, s)" by (meson surj_pair)
  have "remaining (new_stream chunks) = chunks" by (simp add: remaining_def new_stream_def)
  with stream_run_remaining [of calls "new_stream chunks"] r to_bytes_remaining [of to_str "[]" s]
  show ?thesis by auto
qed

end
