(* ===== verification/Native.thy ===== *)
theory Native
  imports Sdk_Errors
begin

text \<open>
  \<^verbatim>\<open>aicl/sdk/_ffi.py\<close>: finding and loading the native core, the table of its functions, status codes,
  and the two managed handles. The environment, the file system and the dynamic loader are
  arguments. Of the core itself (\<^verbatim>\<open>core-rust\<close>), the functions behind the handles are modelled as far
  as the SDK depends on them: the buffer functions, and the checks of \<^verbatim>\<open>decode\<close> up to the version; the
  checks after that (checksums, opcode, operands) are the argument \<open>rest\<close>, which \<open>Core_Codec\<close> instantiates. Shown: what a failed load
  leaves behind, and that a native buffer gives back the bytes it was made from.
\<close>

section \<open>Loading the library\<close>

definition LIB_NAME :: pystr where "LIB_NAME = str ''aicl_core''"

text \<open>A path is the list of its components; \<open>here\<close> is \<^verbatim>\<open>Path(__file__)\<close>.\<close>

type_synonym path = "pystr list"

definition SEARCH_DIRS :: "path \<Rightarrow> path list" where
  "SEARCH_DIRS here =
     [butlast (butlast (butlast here)) @ [str ''core-rust'', str ''target'', str ''release''],
      butlast (butlast (butlast here)) @ [str ''core-rust'', str ''target'', str ''debug''],
      butlast (butlast here) @ [str ''lib''],
      butlast here]"

definition lib_file :: "pystr \<Rightarrow> pystr" where
  "lib_file platform =
     (if platform = str ''win32'' then LIB_NAME @ str ''.dll''
      else if platform = str ''darwin'' then str ''lib'' @ LIB_NAME @ str ''.dylib''
      else str ''lib'' @ LIB_NAME @ str ''.so'')"

text \<open>What is loaded: an explicit name (environment or system path), or a file of the search path.\<close>

datatype lib_source = LibName pystr | LibPath path

record system =
  sys_env :: "pystr option"
  sys_platform :: pystr
  sys_here :: path
  sys_exists :: "path \<Rightarrow> bool"
  sys_find_library :: "pystr option"

definition find_library :: "system \<Rightarrow> sexn + lib_source" where
  "find_library sys =
     (case sys_env sys of
        Some (c # cs) \<Rightarrow> Inr (LibName (c # cs))
      | _ \<Rightarrow>
          (case find (sys_exists sys) (map (\<lambda>d. d @ [lib_file (sys_platform sys)]) (SEARCH_DIRS (sys_here sys))) of
             Some p \<Rightarrow> Inr (LibPath p)
           | None \<Rightarrow>
               (case sys_find_library sys of
                  Some (c # cs) \<Rightarrow> Inr (LibName (c # cs))
                | _ \<Rightarrow> Inl OSError)))"

section \<open>The functions of the library\<close>

datatype ctype =
    CVoid | CVoidP | CSizeT | CInt | CUInt | CUInt32 | CCharP
  | CCtx | CPktView | CHandle | CBuffer | CStream | CBufRef | CPtr ctype

definition signatures :: "(pystr \<times> ctype list \<times> ctype) list" where
  "signatures =
    [(str ''aicl_context_new'', [], CPtr CCtx),
     (str ''aicl_context_free'', [CPtr CCtx], CVoid),
     (str ''aicl_decode'', [CPtr CCtx, CVoidP, CSizeT, CPtr (CPtr CPktView)], CInt),
     (str ''aicl_pkt_view_opcode'', [CPtr CPktView], CUInt),
     (str ''aicl_pkt_view_flags'', [CPtr CPktView], CUInt),
     (str ''aicl_pkt_view_operand_count'', [CPtr CPktView], CUInt),
     (str ''aicl_pkt_view_free'', [CPtr CPktView], CVoid),
     (str ''aicl_bufref_from_ptr'', [CVoidP, CUInt32], CBufRef),
     (str ''aicl_bufref_to_ptr'', [CPtr CBufRef, CPtr CVoidP, CPtr CUInt32], CInt),
     (str ''aicl_bufref_is_empty'', [CPtr CBufRef], CInt),
     (str ''aicl_buffer_from_ptr'', [CVoidP, CUInt32], CPtr CBuffer),
     (str ''aicl_buffer_borrow'', [CVoidP, CUInt32], CPtr CBuffer),
     (str ''aicl_buffer_from_ptr_shared'', [CVoidP, CUInt32], CPtr CBuffer),
     (str ''aicl_buffer_clone'', [CPtr CBuffer], CPtr CBuffer),
     (str ''aicl_buffer_free'', [CPtr CBuffer], CVoid),
     (str ''aicl_buffer_len'', [CPtr CBuffer], CUInt32),
     (str ''aicl_buffer_data'', [CPtr CBuffer], CVoidP),
     (str ''aicl_handle_free'', [CPtr CHandle], CVoid),
     (str ''aicl_handle_clone'', [CPtr CHandle], CPtr CHandle),
     (str ''aicl_handle_refcount'', [CPtr CHandle], CUInt),
     (str ''aicl_stream_new'', [], CPtr CStream),
     (str ''aicl_stream_push'', [CPtr CStream, CPtr CBuffer], CInt),
     (str ''aicl_stream_total_len'', [CPtr CStream], CUInt32),
     (str ''aicl_stream_chunk_count'', [CPtr CStream], CUInt),
     (str ''aicl_stream_free'', [CPtr CStream], CVoid),
     (str ''aicl_version'', [], CCharP),
     (str ''aicl_isa_version'', [], CUInt)]"

text \<open>A loaded library, by the names it exports. Declaring the types of a missing one raises AttributeError.\<close>

definition setup_signatures :: "pystr set \<Rightarrow> sexn + unit" where
  "setup_signatures exports =
     (if fst ` set signatures \<subseteq> exports then Inr () else Inl (Py AttributeError))"

text \<open>
  \<^verbatim>\<open>get_lib\<close> with the module variable \<^verbatim>\<open>_lib\<close>. \<open>load\<close> is \<^verbatim>\<open>ctypes.CDLL\<close>: the exports, or None for the OSError
  of a file that cannot be loaded.
\<close>

definition get_lib ::
  "system \<Rightarrow> (lib_source \<Rightarrow> pystr set option) \<Rightarrow> pystr set option \<Rightarrow> (sexn + pystr set) \<times> pystr set option" where
  "get_lib sys load lib =
     (case lib of
        Some l \<Rightarrow> (Inr l, lib)
      | None \<Rightarrow>
          (case find_library sys of
             Inl e \<Rightarrow> (Inl e, None)
           | Inr src \<Rightarrow>
               (case load src of
                  None \<Rightarrow> (Inl OSError, None)
                | Some l \<Rightarrow>
                    (case setup_signatures l of
                       Inl e \<Rightarrow> (Inl e, Some l)
                     | Inr _ \<Rightarrow> (Inr l, Some l)))))"

section \<open>Status codes\<close>

definition StatusCode :: "(pystr \<times> int) list" where
  "StatusCode =
    [(str ''OK'', 0),
     (str ''BAD_HEADER'', 1),
     (str ''UNSUPPORTED_VERSION'', 2),
     (str ''TRUNCATED'', 3),
     (str ''CHECKSUM'', 4),
     (str ''PAYLOAD_TOO_LARGE'', 5),
     (str ''OPCODE_INVALID'', 6),
     (str ''OPERAND_COUNT'', 7),
     (str ''UNKNOWN_TYPE'', 8),
     (str ''NO_HANDLER'', 9),
     (str ''EMPTY'', 10),
     (str ''BUFFER_FULL'', 11),
     (str ''TRANSPORT_CLOSED'', 12),
     (str ''NULL_POINTER'', 13),
     (str ''INVALID_LEN'', 14),
     (str ''INTERNAL'', 100)]"

definition STATUS_NAMES :: "(int \<times> pystr) list" where
  "STATUS_NAMES =
    [(0, str ''OK''),
     (1, str ''BAD_HEADER''),
     (2, str ''UNSUPPORTED_VERSION''),
     (3, str ''TRUNCATED''),
     (4, str ''CHECKSUM''),
     (5, str ''PAYLOAD_TOO_LARGE''),
     (6, str ''OPCODE_INVALID''),
     (7, str ''OPERAND_COUNT''),
     (8, str ''UNKNOWN_TYPE''),
     (9, str ''NO_HANDLER''),
     (10, str ''EMPTY''),
     (11, str ''BUFFER_FULL''),
     (12, str ''TRANSPORT_CLOSED''),
     (13, str ''NULL_POINTER''),
     (14, str ''INVALID_LEN''),
     (100, str ''INTERNAL'')]"

definition native_error_name :: "int \<Rightarrow> pystr" where
  "native_error_name code =
     (case map_of STATUS_NAMES code of
        Some n \<Rightarrow> n
      | None \<Rightarrow> str ''UNKNOWN('' @ dec_int code @ str '')'')"

definition check_status :: "int \<Rightarrow> sexn + unit" where
  "check_status code = (if code \<noteq> 0 then Inl (NativeError code) else Inr ())"

section \<open>The native core\<close>

record native_view =
  nv_opcode :: int
  nv_flags :: int
  nv_operand_count :: int

text \<open>
  \<^verbatim>\<open>AiclCodec::validate_header\<close> and the error codes of \<^verbatim>\<open>aicl_decode\<close>, up to the version; \<open>rest\<close> is what
  comes after.
\<close>

definition core_decode :: "(bytes \<Rightarrow> int + native_view) \<Rightarrow> bytes \<Rightarrow> int + native_view" where
  "core_decode rest data =
     (if length data < 56 then Inl 1
      else if slice data 0 4 \<noteq> map byte_of (str ''AICL'') then Inl 1
      else if be_val (slice data 4 6) div 256 \<noteq> 1 then Inl 2
      else rest data)"

text \<open>\<^verbatim>\<open>aicl_buffer_from_ptr\<close> and its shared variant copy; a null pointer is None.\<close>

definition core_buffer_from_ptr :: "bytes \<Rightarrow> nat \<Rightarrow> bytes option" where
  "core_buffer_from_ptr data len = (if len = 0 then None else Some (take len data))"

section \<open>Managed handles\<close>

text \<open>\<^verbatim>\<open>AiclContext.decode\<close>: the status is checked, the view handed out.\<close>

definition context_decode :: "(bytes \<Rightarrow> int + native_view) \<Rightarrow> bytes \<Rightarrow> sexn + native_view" where
  "context_decode rest data =
     (case core_decode rest data of
        Inl status \<Rightarrow> (case check_status status of Inl e \<Rightarrow> Inl e | Inr _ \<Rightarrow> Inr \<lparr>nv_opcode = 255, nv_flags = 0, nv_operand_count = 0\<rparr>)
      | Inr view \<Rightarrow> Inr view)"

text \<open>\<^verbatim>\<open>NativeBuffer\<close>: the length is passed as a 32-bit integer, which ctypes reduces without a check.\<close>

definition native_buffer :: "bytes \<Rightarrow> sexn + bytes" where
  "native_buffer data =
     (case core_buffer_from_ptr data (length data mod 2 ^ 32) of
        None \<Rightarrow> Inl (NativeError (- 1))
      | Some b \<Rightarrow> Inr b)"

definition buffer_length :: "bytes \<Rightarrow> nat" where
  "buffer_length b = length b mod 2 ^ 32"

definition as_bytes :: "bytes \<Rightarrow> bytes" where
  "as_bytes b = (if buffer_length b = 0 then [] else take (buffer_length b) b)"

text \<open>The version strings of the library, \<open>None\<close> for a null pointer.\<close>

definition get_version :: "bytes option \<Rightarrow> sexn + pystr" where
  "get_version ver =
     (case ver of
        Some (b # bs) \<Rightarrow> (case utf8_decode (b # bs) of Inl e \<Rightarrow> Inl (Py e) | Inr s \<Rightarrow> Inr s)
      | _ \<Rightarrow> Inr (str ''unknown''))"

section \<open>Finding the library\<close>

text \<open>
  Without an explicit path, the library loaded is the earliest existing one of the four candidates:
  release build, debug build, \<^verbatim>\<open>aicl/lib\<close>, the package itself; an explicit path in the environment takes
  precedence over all of them, and the system's library path comes last.
\<close>

theorem find_library_order:
  "find_library sys = Inr (LibPath p) \<longleftrightarrow>
     (sys_env sys = None \<or> sys_env sys = Some []) \<and>
     (\<exists>i < 4. p = SEARCH_DIRS (sys_here sys) ! i @ [lib_file (sys_platform sys)] \<and> sys_exists sys p \<and>
        list_all (\<lambda>d. \<not> sys_exists sys (d @ [lib_file (sys_platform sys)])) (take i (SEARCH_DIRS (sys_here sys))))"
proof -
  let ?f = "\<lambda>d. d @ [lib_file (sys_platform sys)]" and ?ds = "SEARCH_DIRS (sys_here sys)"
  have len: "length ?ds = 4" by (simp add: SEARCH_DIRS_def)
  have all: "list_all P (take i ?ds) \<longleftrightarrow> (\<forall>j < i. P (?ds ! j))" if "i < 4" for i and P :: "path \<Rightarrow> bool"
    using that len by (simp add: list_all_length)
  have "find (sys_exists sys) (map ?f ?ds) = Some p \<longleftrightarrow>
     (\<exists>i < 4. p = ?f (?ds ! i) \<and> sys_exists sys p \<and> list_all (\<lambda>d. \<not> sys_exists sys (?f d)) (take i ?ds))"
    using len by (auto simp: find_Some_iff all)
  moreover have "find_library sys = Inr (LibPath p) \<longleftrightarrow> (sys_env sys = None \<or> sys_env sys = Some []) \<and>
     find (sys_exists sys) (map ?f ?ds) = Some p"
    by (auto simp: find_library_def split: option.splits list.splits)
  ultimately show ?thesis by simp
qed

text \<open>
  A library that lacks one of the declared functions makes the first access raise AttributeError,
  and every later access hand that library out as if it had loaded.
\<close>

theorem get_lib_incomplete:
  assumes "find_library sys = Inr src" "load src = Some exports" "\<not> fst ` set signatures \<subseteq> exports"
  shows "get_lib sys load None = (Inl (Py AttributeError), Some exports) \<and>
    get_lib sys load (snd (get_lib sys load None)) = (Inr exports, Some exports)"
  using assms by (simp add: get_lib_def setup_signatures_def)

definition sample_system :: system where
  "sample_system = \<lparr>sys_env = Some (str ''old_core.so''), sys_platform = str ''linux'', sys_here = [],
     sys_exists = (\<lambda>_. False), sys_find_library = None\<rparr>"

theorem get_lib_incomplete_witness:
  "get_lib sample_system (\<lambda>_. Some {}) None = (Inl (Py AttributeError), Some {}) \<and>
   get_lib sample_system (\<lambda>_. Some {}) (snd (get_lib sample_system (\<lambda>_. Some {}) None)) = (Inr {}, Some {})"
  by (rule get_lib_incomplete [where src = "LibName (str ''old_core.so'')"])
    (simp_all add: sample_system_def find_library_def signatures_def str_def)

lemma native_buffer_prefix:
  assumes "native_buffer data = Inr b"
  shows "b = take (length data mod 2 ^ 32) data" "as_bytes b = b" "data \<noteq> []"
proof -
  let ?n = "length data mod 2 ^ 32"
  show b: "b = take ?n data"
    using assms by (simp add: native_buffer_def core_buffer_from_ptr_def split: if_splits option.splits)
  have "?n \<noteq> 0" using assms by (auto simp: native_buffer_def core_buffer_from_ptr_def split: if_splits)
  have "?n \<le> length data" "?n < 2 ^ 32" by (simp_all add: mod_less_eq_dividend)
  then have "buffer_length b = ?n" using b by (simp add: buffer_length_def)
  then show "as_bytes b = b" "data \<noteq> []" using \<open>?n \<noteq> 0\<close> b by (auto simp: as_bytes_def)
qed

text \<open>
  A native buffer made from at least one and less than 4 GiB of bytes gives exactly those bytes back;
  a length that is a multiple of 4 GiB, zero included, is a NativeError; any longer data is cut silently
  to its length modulo 4 GiB.
\<close>

theorem native_buffer_bytes:
  "case native_buffer data of
     Inl e \<Rightarrow> e = NativeError (- 1) \<and> 2 ^ 32 dvd length data
   | Inr b \<Rightarrow> as_bytes b = take (length data mod 2 ^ 32) data \<and> data \<noteq> [] \<and>
       (as_bytes b = data \<longleftrightarrow> length data < 2 ^ 32)"
proof (cases "native_buffer data")
  case (Inr b)
  let ?n = "length data mod 2 ^ 32"
  have "?n < 2 ^ 32" by simp
  then have "take ?n data = data \<longleftrightarrow> length data < 2 ^ 32"
    by (metis length_take min.absorb2 mod_less mod_less_eq_dividend take_all order_refl)
  with Inr native_buffer_prefix [OF Inr] show ?thesis by simp
next
  case (Inl e)
  then show ?thesis
    by (auto simp: native_buffer_def core_buffer_from_ptr_def dvd_eq_mod_eq_0 split: if_splits)
qed

text \<open>Every status code has its name, and no two share one.\<close>

lemma status_names: "map (\<lambda>(n, c). (c, n)) StatusCode = STATUS_NAMES" "distinct (map fst STATUS_NAMES)"
  by (simp_all add: StatusCode_def STATUS_NAMES_def)

end
