(* ===== verification/Sdk_Transport.thy ===== *)
theory Sdk_Transport
  imports Native Py_Float
begin

text \<open>
  \<^verbatim>\<open>aicl/sdk/transport.py\<close>: the native transport with the packet views it hands out, and the HTTP
  compatibility transport. The network (what a POST to a URL ends with) and \<^verbatim>\<open>json.loads\<close> are arguments.
  Two fields record effects that are not visible in the objects: the views the core has allocated
  and not freed, and the requests sent. Shown: what a closed transport does, and that sending over
  the native transport loses a view each time.
\<close>

section \<open>The native transport\<close>

record native_transport =
  nt_ctx :: bool
  nt_closed :: bool
  nt_live_views :: nat

definition new_native :: native_transport where
  "new_native = \<lparr>nt_ctx = True, nt_closed = False, nt_live_views = 0\<rparr>"

definition native_encode :: "bytes \<Rightarrow> native_transport \<Rightarrow> sexn + bytes" where
  "native_encode data t =
     (if nt_closed t then Inl (raised TransportError) else native_buffer data)"

text \<open>\<^verbatim>\<open>decode\<close>: the core allocates a view, which the \<^verbatim>\<open>AiclPacketView\<close> object made from it owns.\<close>

definition native_decode ::
  "(bytes \<Rightarrow> int + native_view) \<Rightarrow> bytes \<Rightarrow> native_transport \<Rightarrow> (sexn + native_view) \<times> native_transport" where
  "native_decode rest data t =
     (if nt_closed t then (Inl (raised TransportError), t)
      else
        case context_decode rest data of
          Inl e \<Rightarrow> (Inl e, t)
        | Inr view \<Rightarrow> (Inr view, t\<lparr>nt_live_views := nt_live_views t + 1\<rparr>))"

text \<open>\<^verbatim>\<open>AiclPacketView.__del__\<close>, when the object made by \<open>native_decode\<close> is dropped; it keeps the context alive
  itself.\<close>

definition view_del :: "native_transport \<Rightarrow> native_transport" where
  "view_del t = t\<lparr>nt_live_views := nt_live_views t - 1\<rparr>"

text \<open>\<^verbatim>\<open>send\<close> decodes to validate, and drops the pointer it gets.\<close>

definition native_send ::
  "(bytes \<Rightarrow> int + native_view) \<Rightarrow> bytes \<Rightarrow> native_transport \<Rightarrow> (sexn + unit) \<times> native_transport" where
  "native_send rest data t =
     (if nt_closed t then (Inl (raised TransportError), t)
      else
        case context_decode rest data of
          Inl e \<Rightarrow> (Inl e, t)
        | Inr view \<Rightarrow> (Inr (), t\<lparr>nt_live_views := nt_live_views t + 1\<rparr>))"

definition native_recv :: "native_transport \<Rightarrow> sexn + bytes" where
  "native_recv t =
     (if nt_closed t then Inl (raised TransportError) else Inl (raised TransportError))"

definition native_close :: "native_transport \<Rightarrow> native_transport" where
  "native_close t = t\<lparr>nt_closed := True, nt_ctx := False\<rparr>"

section \<open>The HTTP transport\<close>

record http_transport =
  ht_url :: pystr
  ht_timeout :: f64
  ht_closed :: bool
  ht_requests :: "(pystr \<times> bytes) list"

text \<open>\<^verbatim>\<open>s.rstrip("/")\<close>.\<close>

definition rstrip_slash :: "pystr \<Rightarrow> pystr" where
  "rstrip_slash s = rev (dropWhile (\<lambda>c. c = 47) (rev s))"

definition new_http :: "pystr \<Rightarrow> f64 \<Rightarrow> http_transport" where
  "new_http url timeout =
     \<lparr>ht_url = rstrip_slash url, ht_timeout = timeout, ht_closed = False, ht_requests = []\<rparr>"

definition http_encode :: "bytes \<Rightarrow> http_transport \<Rightarrow> sexn + bytes" where
  "http_encode data t = (if ht_closed t then Inl (raised TransportError) else Inr data)"

text \<open>What \<^verbatim>\<open>json.loads\<close> ends with: a value, a JSONDecodeError, or another exception.\<close>

datatype 'j json_outcome = JsonValue 'j | JsonDecodeError | JsonRaises exn

definition http_decode :: "(bytes \<Rightarrow> 'j json_outcome) \<Rightarrow> bytes \<Rightarrow> http_transport \<Rightarrow> sexn + 'j" where
  "http_decode loads data t =
     (if ht_closed t then Inl (raised TransportError)
      else
        case loads data of
          JsonValue v \<Rightarrow> Inr v
        | JsonDecodeError \<Rightarrow> Inl (raised HTTPCompatError)
        | JsonRaises e \<Rightarrow> Inl (Py e))"

text \<open>What a POST ends with: the body, a URLError (HTTPError included), the interpreter's TimeoutError, or
  another exception.\<close>

datatype http_outcome = HttpBody bytes | HttpURLError | HttpTimeout | HttpRaises exn

type_synonym network = "pystr \<Rightarrow> bytes \<Rightarrow> f64 \<Rightarrow> http_outcome"

definition request_url :: "http_transport \<Rightarrow> pystr" where
  "request_url t = ht_url t @ str ''/v1/aicl''"

definition http_send :: "network \<Rightarrow> bytes \<Rightarrow> http_transport \<Rightarrow> (sexn + bytes) \<times> http_transport" where
  "http_send net data t =
     (if ht_closed t then (Inl (raised TransportError), t)
      else
        (case net (request_url t) data (ht_timeout t) of
           HttpBody b \<Rightarrow> Inr b
         | HttpURLError \<Rightarrow> Inl (raised HTTPCompatError)
         | HttpTimeout \<Rightarrow> Inl (raised TimeoutError)
         | HttpRaises e \<Rightarrow> Inl (Py e),
         t\<lparr>ht_requests := ht_requests t @ [(request_url t, data)]\<rparr>))"

definition http_recv :: "http_transport \<Rightarrow> sexn + bytes" where
  "http_recv t = Inl (raised TransportError)"

definition http_close :: "http_transport \<Rightarrow> http_transport" where
  "http_close t = t\<lparr>ht_closed := True\<rparr>"

section \<open>Either transport\<close>

datatype transport = Native native_transport | Http http_transport

fun transport_is_native :: "transport \<Rightarrow> bool" where
  "transport_is_native (Native _) = True"
| "transport_is_native (Http _) = False"

fun transport_close :: "transport \<Rightarrow> transport" where
  "transport_close (Native t) = Native (native_close t)"
| "transport_close (Http t) = Http (http_close t)"

fun transport_closed :: "transport \<Rightarrow> bool" where
  "transport_closed (Native t) = nt_closed t"
| "transport_closed (Http t) = ht_closed t"

section \<open>What the transports do\<close>

text \<open>
  Once closed, a transport of either kind refuses every operation with TransportError and stays as
  it is; the HTTP transport then makes no request.
\<close>

lemma closed_transport_refuses:
  "native_encode data (native_close n) = Inl (raised TransportError) \<and>
   native_decode rest data (native_close n) = (Inl (raised TransportError), native_close n) \<and>
   native_send rest data (native_close n) = (Inl (raised TransportError), native_close n) \<and>
   native_recv (native_close n) = Inl (raised TransportError) \<and>
   http_encode data (http_close h) = Inl (raised TransportError) \<and>
   http_decode loads data (http_close h) = Inl (raised TransportError) \<and>
   http_send net data (http_close h) = (Inl (raised TransportError), http_close h) \<and>
   http_recv (http_close h) = Inl (raised TransportError)"
  by (simp add: native_encode_def native_decode_def native_send_def native_recv_def native_close_def
      http_encode_def http_decode_def http_send_def http_recv_def http_close_def)

text \<open>The views allocated by a sequence of sends.\<close>

definition sends :: "(bytes \<Rightarrow> int + native_view) \<Rightarrow> bytes list \<Rightarrow> native_transport \<Rightarrow> native_transport" where
  "sends rest ds t = fold (\<lambda>d t. snd (native_send rest d t)) ds t"

definition accepted :: "(bytes \<Rightarrow> int + native_view) \<Rightarrow> bytes \<Rightarrow> bool" where
  "accepted rest d = (case context_decode rest d of Inl _ \<Rightarrow> False | Inr _ \<Rightarrow> True)"

lemma native_send_views:
  "\<not> nt_closed t \<Longrightarrow> snd (native_send rest d t) =
     t\<lparr>nt_live_views := nt_live_views t + (if accepted rest d then 1 else 0)\<rparr>"
  by (auto simp: native_send_def accepted_def split: sum.split)

text \<open>
  Every packet sent over the native transport and accepted by the core leaves one view that is
  never freed, while decoding a packet and dropping the view frees it.
\<close>

theorem native_send_leaks:
  "nt_live_views (sends rest ds new_native) = length (filter (accepted rest) ds) \<and>
   view_del (snd (native_decode rest d (sends rest ds new_native))) =
     (if accepted rest d then sends rest ds new_native else view_del (sends rest ds new_native))"
proof -
  have "nt_live_views (sends rest ds t) = nt_live_views t + length (filter (accepted rest) ds) \<and>
      \<not> nt_closed (sends rest ds t)" if "\<not> nt_closed t" for t
    using that by (induction ds arbitrary: t) (auto simp: sends_def native_send_views)
  from this [of new_native]
  have *: "nt_live_views (sends rest ds new_native) = length (filter (accepted rest) ds)"
    "\<not> nt_closed (sends rest ds new_native)" by (simp_all add: new_native_def)
  then show ?thesis
    by (auto simp: native_decode_def view_del_def accepted_def split: sum.split)
qed

text \<open>The address of a request never has a doubled slash where the path is joined.\<close>

lemma rstrip_slash_last: "rstrip_slash s = [] \<or> last (rstrip_slash s) \<noteq> 47"
  using hd_dropWhile [of "\<lambda>c. c = 47" "rev s"] by (auto simp: rstrip_slash_def last_rev)

lemma rstrip_slash_suffix: "\<exists>n. s = rstrip_slash s @ replicate n 47"
proof -
  let ?r = "rev s"
  have "takeWhile (\<lambda>c. c = 47) ?r = replicate (length (takeWhile (\<lambda>c. c = 47) ?r)) 47"
    by (intro replicate_length_same [symmetric]) (auto dest: set_takeWhileD)
  then have "s = rstrip_slash s @ rev (replicate (length (takeWhile (\<lambda>c. c = 47) ?r)) 47)"
    unfolding rstrip_slash_def by (metis rev_append rev_rev_ident takeWhile_dropWhile_id)
  then show ?thesis by (metis rev_replicate)
qed

end
