(* ===== verification/Sdk_Model.thy ===== *)
theory Sdk_Model
  imports Cancellation Capabilities Sdk_Result Sdk_Transport "HOL-Library.Sublist"
begin

text \<open>
  \<^verbatim>\<open>aicl/sdk/model.py\<close>: the handle through which a client sends instructions. The transport is shared with
  the runtime and is passed in and out beside the model's own state. Arguments: how a client's object
  prints (\<^verbatim>\<open>f"{v}"\<close>), the network, \<^verbatim>\<open>json.loads\<close>, the rest of the native core's checks, the measured
  latency, and the state of the cancellation token at each checkpoint, since another thread may
  cancel in between. Shown: the frame and how its parts are recovered, what a call returns on every
  path, when a request is made, and that no message id is given out or sent twice.
\<close>

section \<open>The model\<close>

record model =
  mo_capability :: capability
  mo_name :: pystr
  mo_message_counter :: nat
  mo_closed :: bool
  mo_timeout :: f64

definition new_model :: "capability \<Rightarrow> pystr \<Rightarrow> f64 \<Rightarrow> model" where
  "new_model cap name timeout =
     \<lparr>mo_capability = cap, mo_name = (if name = [] then cap_name cap else name), mo_message_counter = 0,
      mo_closed = False, mo_timeout = timeout\<rparr>"

text \<open>\<^verbatim>\<open>f"{n:08d}"\<close>.\<close>

definition zero_padded :: "nat \<Rightarrow> pystr" where
  "zero_padded n = replicate (8 - length (dec n)) 48 @ dec n"

definition message_id :: "nat \<Rightarrow> pystr" where
  "message_id n = str ''msg-'' @ zero_padded n"

definition next_message_id :: "model \<Rightarrow> pystr \<times> model" where
  "next_message_id m =
     (let n = mo_message_counter m + 1 in (message_id n, m\<lparr>mo_message_counter := n\<rparr>))"

section \<open>The frame of an instruction\<close>

text \<open>\<^verbatim>\<open>s.encode("utf-8")\<close> in the SDK's exceptions, and \<^verbatim>\<open>b"\x00".join(parts)\<close>.\<close>

definition encode_str :: "pystr \<Rightarrow> sexn + bytes" where
  "encode_str s = (case utf8_encode s of Inl e \<Rightarrow> Inl (Py e) | Inr b \<Rightarrow> Inr b)"

fun join_zero :: "bytes list \<Rightarrow> bytes" where
  "join_zero [] = []"
| "join_zero [p] = p"
| "join_zero (p # ps) = p @ [0] @ join_zero ps"

text \<open>Values of keyword arguments: what the helpers pass, or any object of the client.\<close>

datatype 'o arg = ArgStr pystr | ArgStrs "pystr list" | ArgInt int | ArgFloat f64 | ArgObject 'o

definition encode_kwarg :: "('o arg \<Rightarrow> sexn + pystr) \<Rightarrow> pystr \<times> 'o arg \<Rightarrow> sexn + bytes" where
  "encode_kwarg fmt kv = bindr (fmt (snd kv)) (\<lambda>v. encode_str (fst kv @ [61] @ v))"

definition msg_id_field :: "bytes \<Rightarrow> bytes" where
  "msg_id_field b = take 16 (b @ replicate (16 - length b) 0)"

definition encode_instruction ::
  "('o arg \<Rightarrow> sexn + pystr) \<Rightarrow> pystr \<Rightarrow> pystr \<Rightarrow> (pystr \<times> 'o arg) list \<Rightarrow> sexn + bytes" where
  "encode_instruction fmt instruction msg_id kwargs =
     bindr (encode_str msg_id) (\<lambda>mid.
     bindr (encode_str instruction) (\<lambda>ins.
     bindr (mapr (encode_kwarg fmt) kwargs) (\<lambda>parts.
       let payload = join_zero (ins # parts) in
       case pack_u 4 (int (length payload)) of
         Inl e \<Rightarrow> Inl (Py e)
       | Inr payload_len \<Rightarrow>
           Inr (map byte_of (str ''AICL'') @ be_bytes 2 1 @ msg_id_field mid @ be_bytes 2 0 @ payload_len @ payload))))"

section \<open>Calls\<close>

text \<open>What the call depends on beside the model and the transport.\<close>

record ('o, 'j, 'c) world =
  w_fmt :: "'o arg \<Rightarrow> sexn + pystr"
  w_net :: network
  w_loads :: "bytes \<Rightarrow> 'j json_outcome"
  w_core :: "bytes \<Rightarrow> int + native_view"
  w_token :: "nat \<Rightarrow> 'c cancellation_token option"
  w_latency :: f64

text \<open>The data of a result: decoded JSON, or the two numbers read from a native view.\<close>

datatype 'j call_data = JsonData 'j | ViewData int int

definition checkpoint :: "('o, 'j, 'c) world \<Rightarrow> nat \<Rightarrow> sexn + unit" where
  "checkpoint w i = any_check (or_null (w_token w i))"

text \<open>Send and receive, then decode, over either transport, with the checkpoint between them.\<close>

fun exchange ::
  "('o, 'j, 'c) world \<Rightarrow> bytes \<Rightarrow> transport \<Rightarrow> (sexn + 'j call_data) \<times> transport" where
  "exchange w wire (Http t) =
     (let (r, t') = http_send (w_net w) wire t in
      (bindr r (\<lambda>response_data.
       bindr (checkpoint w 2) (\<lambda>_.
       bindr (http_decode (w_loads w) response_data t') (\<lambda>decoded. Inr (JsonData decoded)))), Http t'))"
| "exchange w wire (Native t) =
     (case bindr (native_encode wire t) (\<lambda>native_buf. bindr (checkpoint w 2) (\<lambda>_. Inr (as_bytes native_buf))) of
        Inl e \<Rightarrow> (Inl e, Native t)
      | Inr response_data \<Rightarrow>
          (case native_decode (w_core w) response_data t of
             (Inl e, t') \<Rightarrow> (Inl e, Native t')
           | (Inr view, t') \<Rightarrow> (Inr (ViewData (nv_opcode view) (nv_operand_count view)), Native (view_del t'))))"

text \<open>The \<^verbatim>\<open>except\<close> clauses: a fresh CancelledError or TimeoutError, any other exception as it is.\<close>

definition handled :: "sexn \<Rightarrow> sexn" where
  "handled e =
     (if sdk_caught CancelledError e then raised CancelledError
      else if sdk_caught TimeoutError e then raised TimeoutError
      else e)"

fun opcode_of :: "'j call_data \<Rightarrow> int" where
  "opcode_of (JsonData _) = 0"
| "opcode_of (ViewData opcode _) = opcode"

text \<open>\<^verbatim>\<open>timeout\<close> only enters the message of a TimeoutError.\<close>

definition call ::
  "('o, 'j, 'c) world \<Rightarrow> pystr \<Rightarrow> f64 option \<Rightarrow> (pystr \<times> 'o arg) list \<Rightarrow> model \<Rightarrow> transport \<Rightarrow>
     'j call_data structured_result \<times> model \<times> transport" where
  "call w instruction timeout kwargs m t =
     (if mo_closed m then (result_err (raised TransportError), m, t)
      else
        let (msg_id, m') = next_message_id m in
        case bindr (checkpoint w 0) (\<lambda>_.
             bindr (encode_instruction (w_fmt w) instruction msg_id kwargs) (\<lambda>wire.
             bindr (checkpoint w 1) (\<lambda>_. Inr wire))) of
          Inl e \<Rightarrow> (result_err (handled e), m', t)
        | Inr wire \<Rightarrow>
            (case exchange w wire t of
               (Inl e, t') \<Rightarrow> (result_err (handled e), m', t')
             | (Inr d, t') \<Rightarrow>
                 ((result_ok d)\<lparr>sr_opcode := opcode_of d, sr_message_id := msg_id, sr_latency_ms := w_latency w\<rparr>,
                  m', t')))"

text \<open>The helpers; \<^verbatim>\<open>x or []\<close> for a missing list.\<close>

definition or_empty :: "pystr list option \<Rightarrow> 'o arg" where
  "or_empty xs = ArgStrs (case xs of None \<Rightarrow> [] | Some ys \<Rightarrow> ys)"

definition classify where
  "classify w txt categories timeout kwargs m t =
     call w (str ''classify'') timeout ([(str ''text'', ArgStr txt), (str ''categories'', or_empty categories)] @ kwargs) m t"

definition generate where
  "generate w prompt max_tokens temperature timeout kwargs m t =
     call w (str ''generate'') timeout
       ([(str ''prompt'', ArgStr prompt), (str ''max_tokens'', ArgInt max_tokens), (str ''temperature'', ArgFloat temperature)] @ kwargs) m t"

definition reason where
  "reason w question evidence timeout kwargs m t =
     call w (str ''reason'') timeout ([(str ''question'', ArgStr question), (str ''evidence'', or_empty evidence)] @ kwargs) m t"

definition summarize where
  "summarize w txt max_length timeout kwargs m t =
     call w (str ''summarize'') timeout ([(str ''text'', ArgStr txt), (str ''max_length'', ArgInt max_length)] @ kwargs) m t"

text \<open>\<^verbatim>\<open>acall\<close> awaits the same call on a thread of the executor.\<close>

definition acall where
  "acall w instruction timeout kwargs m t = call w instruction timeout kwargs m t"

definition aclassify where
  "aclassify w txt categories timeout kwargs m t =
     acall w (str ''classify'') timeout ([(str ''text'', ArgStr txt), (str ''categories'', or_empty categories)] @ kwargs) m t"

definition agenerate where
  "agenerate w prompt max_tokens temperature timeout kwargs m t =
     acall w (str ''generate'') timeout
       ([(str ''prompt'', ArgStr prompt), (str ''max_tokens'', ArgInt max_tokens), (str ''temperature'', ArgFloat temperature)] @ kwargs) m t"

text \<open>
  \<^verbatim>\<open>stream\<close>, iterated to its end: one chunk or an exception. It has one checkpoint and does not look at
  \<^verbatim>\<open>_closed\<close>. The data of the chunk is the response, or the two numbers of the view.
\<close>

definition stream ::
  "('o, 'j, 'c) world \<Rightarrow> pystr \<Rightarrow> (pystr \<times> 'o arg) list \<Rightarrow> model \<Rightarrow> transport \<Rightarrow>
     (sexn + (int \<times> int) stream_chunk) \<times> model \<times> transport" where
  "stream w instruction kwargs m t =
     (let (msg_id, m') = next_message_id m;
          chunk = (\<lambda>d. \<lparr>ch_data = d, ch_index = 0, ch_is_final = True, ch_metadata = [(str ''message_id'', CtxStr msg_id)]\<rparr>)
      in
      case bindr (encode_instruction (w_fmt w) instruction msg_id kwargs) (\<lambda>wire.
           bindr (checkpoint w 0) (\<lambda>_. Inr wire)) of
        Inl e \<Rightarrow> (Inl e, m', t)
      | Inr wire \<Rightarrow>
          (case t of
             Http h \<Rightarrow>
               (let (r, h') = http_send (w_net w) wire h in (bindr r (\<lambda>b. Inr (chunk (ChunkBytes b))), m', Http h'))
           | Native n \<Rightarrow>
               (case native_encode wire n of
                  Inl e \<Rightarrow> (Inl e, m', t)
                | Inr buf \<Rightarrow>
                    (case native_decode (w_core w) (as_bytes buf) n of
                       (Inl e, n') \<Rightarrow> (Inl e, m', Native n')
                     | (Inr view, n') \<Rightarrow>
                         (Inr (chunk (ChunkObject (nv_opcode view, nv_operand_count view))), m', Native (view_del n'))))))"

definition model_close :: "model \<Rightarrow> model" where
  "model_close m = m\<lparr>mo_closed := True\<rparr>"

section \<open>The frame\<close>

lemma encode_str_Inr: "encode_str s = Inr b \<longleftrightarrow> utf8_encode s = Inr b"
  by (auto simp: encode_str_def split: sum.splits)

lemma encode_instruction_Inr:
  assumes "encode_instruction fmt instruction msg_id kwargs = Inr w"
  obtains mid ins parts where "utf8_encode msg_id = Inr mid" "utf8_encode instruction = Inr ins"
    "mapr (encode_kwarg fmt) kwargs = Inr parts" "length (join_zero (ins # parts)) < 2 ^ 32"
    "w = map byte_of (str ''AICL'') @ be_bytes 2 1 @ msg_id_field mid @ be_bytes 2 0 @
       be_bytes 4 (length (join_zero (ins # parts))) @ join_zero (ins # parts)"
  using assms
  by (auto simp: encode_instruction_def bindr_def Let_def pack_u_def encode_str_Inr split: sum.splits if_splits)

lemma msg_id_field_length [simp]: "length (msg_id_field b) = 16"
  by (simp add: msg_id_field_def)

text \<open>The reference for reading a payload: cut at every zero byte.\<close>

fun split_zero :: "bytes \<Rightarrow> bytes list" where
  "split_zero [] = [[]]"
| "split_zero (b # bs) =
     (if b = 0 then [] # split_zero bs
      else case split_zero bs of [] \<Rightarrow> [[b]] | p # ps \<Rightarrow> (b # p) # ps)"

lemma split_zero_nonempty: "split_zero bs \<noteq> []"
  by (induction bs) (auto split: list.split)

lemma split_zero_append: "0 \<notin> set p \<Longrightarrow> split_zero (p @ 0 # bs) = p # split_zero bs"
  by (induction p) auto

lemma split_zero_last: "0 \<notin> set p \<Longrightarrow> split_zero p = [p]"
  by (induction p) auto

lemma split_join_zero: "ps \<noteq> [] \<Longrightarrow> \<forall>p \<in> set ps. 0 \<notin> set p \<Longrightarrow> split_zero (join_zero ps) = ps"
  by (induction ps rule: join_zero.induct) (auto simp: split_zero_append split_zero_last)

lemma utf8_no_zero: "utf8_encode s = Inr b \<Longrightarrow> 0 \<notin> set s \<Longrightarrow> 0 \<notin> set b"
proof (induction s arbitrary: b)
  case (Cons c s)
  then obtain x y where "utf8_char c = Inr x" "utf8_encode s = Inr y" "b = x @ y"
    by (auto simp: utf8_encode_Cons bindr_eq_Inr)
  with Cons utf8_char_bytes [of c x 0] show ?case by auto
qed simp

lemma encode_kwarg_Inr:
  "encode_kwarg fmt kv = Inr b \<longleftrightarrow> (\<exists>s. fmt (snd kv) = Inr s \<and> utf8_encode (fst kv @ [61] @ s) = Inr b)"
  by (auto simp: encode_kwarg_def bindr_eq_Inr encode_str_Inr)

lemma encode_kwarg_parts:
  assumes "mapr (encode_kwarg fmt) kwargs = Inr parts"
    "\<forall>(k, v) \<in> set kwargs. 0 \<notin> set k \<and> 0 \<notin> set (projr (fmt v))"
  shows "(\<forall>p \<in> set parts. 0 \<notin> set p) \<and>
    map utf8_decode parts = map (\<lambda>(k, v). Inr (k @ [61] @ projr (fmt v))) kwargs"
  using assms
proof (induction kwargs arbitrary: parts)
  case (Cons kv kwargs)
  then obtain s b bs where "fmt (snd kv) = Inr s" "utf8_encode (fst kv @ [61] @ s) = Inr b"
    "mapr (encode_kwarg fmt) kwargs = Inr bs" "parts = b # bs"
    by (auto simp: encode_kwarg_Inr bindr_eq_Inr)
  moreover from this Cons.prems(2) have "0 \<notin> set b" by (intro utf8_no_zero [of "fst kv @ [61] @ s"]) auto
  ultimately show ?case using Cons.IH [of bs] Cons.prems(2) by (auto simp: utf8_decode_encode case_prod_beta)
qed simp

text \<open>
  C35. The frame of an instruction: magic, version 1, the message id cut or padded to 16 bytes, no
  flags, the length of the payload, the payload. Cutting the payload at its zero bytes and decoding
  the parts gives back the instruction and every keyword with its printed value, provided none of
  them contains a zero character.
\<close>

theorem instruction_frame:
  assumes "encode_instruction fmt instruction msg_id kwargs = Inr w" "0 \<notin> set instruction"
    "\<forall>(k, v) \<in> set kwargs. 0 \<notin> set k \<and> 0 \<notin> set (projr (fmt v))"
  shows "slice w 0 4 = map byte_of (str ''AICL'') \<and> be_val (slice w 4 6) = 1 \<and>
    Inr (slice w 6 22) = bindr (utf8_encode msg_id) (\<lambda>b. Inr (msg_id_field b)) \<and> be_val (slice w 22 24) = 0 \<and>
    be_val (slice w 24 28) = length (drop 28 w) \<and>
    map utf8_decode (split_zero (drop 28 w)) =
      Inr instruction # map (\<lambda>(k, v). Inr (k @ [61] @ projr (fmt v))) kwargs"
proof -
  from assms(1) obtain mid ins parts where u: "utf8_encode msg_id = Inr mid" "utf8_encode instruction = Inr ins"
      "mapr (encode_kwarg fmt) kwargs = Inr parts" "length (join_zero (ins # parts)) < 2 ^ 32"
    and w: "w = map byte_of (str ''AICL'') @ be_bytes 2 1 @ msg_id_field mid @ be_bytes 2 0 @
       be_bytes 4 (length (join_zero (ins # parts))) @ join_zero (ins # parts)"
    by (rule encode_instruction_Inr)
  let ?p = "join_zero (ins # parts)" and ?m = "map byte_of (str ''AICL'')"
  have len: "length ?m = 4" by (simp add: str_def)
  have "slice w 0 4 = ?m" "slice w 4 6 = be_bytes 2 1" "slice w 6 22 = msg_id_field mid"
    "slice w 22 24 = be_bytes 2 0" "slice w 24 28 = be_bytes 4 (length ?p)" "drop 28 w = ?p"
    unfolding w slice_def using len by simp_all
  moreover have "split_zero ?p = ins # parts"
    using utf8_no_zero [OF u(2) assms(2)] encode_kwarg_parts [OF u(3) assms(3)] by (intro split_join_zero) auto
  moreover have "be_val (be_bytes 4 (length ?p)) = length ?p" using u(4) by (simp add: be_val_be_bytes)
  moreover have "be_val (be_bytes 2 1) = 1" "be_val (be_bytes 2 0) = 0" by (simp_all add: be_val_be_bytes)
  ultimately show ?thesis
    using u(1,2) encode_kwarg_parts [OF u(3) assms(3)] by (simp add: bindr_def utf8_decode_encode)
qed

definition sample_fmt :: "unit arg \<Rightarrow> sexn + pystr" where
  "sample_fmt v = (case v of ArgStr s \<Rightarrow> Inr s | ArgInt i \<Rightarrow> Inr (dec_int i) | _ \<Rightarrow> Inr (str ''[]''))"

lemma sample_frame:
  "encode_instruction sample_fmt (str ''embed'') (message_id 1) [(str ''text'', ArgStr (str ''hi''))] =
     Inr (map byte_of (str ''AICL'') @ be_bytes 2 1 @ msg_id_field (map byte_of (message_id 1)) @ be_bytes 2 0 @
       be_bytes 4 13 @ map byte_of (str ''embed'') @ [0] @ map byte_of (str ''text=hi''))"
proof -
  have "list_all (\<lambda>c. c < 128) (message_id 1)"
    using dec_chars [of _ 1] by (auto simp: message_id_def zero_padded_def list_all_iff str_def dest: dec_chars)
  then show ?thesis
    by (simp add: encode_instruction_def encode_str_def utf8_ascii encode_kwarg_def sample_fmt_def bindr_def
        pack_u_def Let_def str_def)
qed

theorem instruction_frame_witness:
  "\<exists>w. encode_instruction sample_fmt (str ''embed'') (message_id 1) [(str ''text'', ArgStr (str ''hi''))] = Inr w \<and>
     map utf8_decode (split_zero (drop 28 w)) = [Inr (str ''embed''), Inr (str ''text=hi'')]"
  using instruction_frame [OF sample_frame] sample_frame by (simp add: sample_fmt_def) (simp add: str_def)

section \<open>Calls over the native transport\<close>

lemma handled_simps [simp]:
  "handled (raised c) = raised c" "handled (Py e) = Py e" "handled (NativeError n) = NativeError n"
  by (auto simp: handled_def)

lemma sr_ok_result [simp]: "\<not> sr_ok (result_err e)" "sr_ok (result_ok x)"
  by (simp_all add: result_err_def result_ok_def result_with_def sr_ok_def)

text \<open>The core takes no frame of an instruction, nor a prefix of one: it is shorter than a header, or its
  version is not the core's.\<close>

lemma core_rejects_frame:
  assumes "encode_instruction fmt instruction msg_id kwargs = Inr w"
  shows "context_decode core (take n w) = Inl (NativeError (if length (take n w) < 56 then 1 else 2))"
proof (cases "length (take n w) < 56")
  case False
  then have n: "n \<ge> 56" by simp
  from assms obtain r where w: "w = map byte_of (str ''AICL'') @ be_bytes 2 1 @ r"
    by (rule encode_instruction_Inr) simp
  have "slice (take n w) 0 4 = map byte_of (str ''AICL'')" "slice (take n w) 4 6 = be_bytes 2 1"
    using n unfolding w slice_def by (simp_all add: str_def take_Cons' drop_take)
  then show ?thesis using False by (simp add: context_decode_def core_decode_def check_status_def)
qed (simp add: context_decode_def core_decode_def check_status_def)

lemma as_bytes_native_buffer: "native_buffer data = Inr b \<Longrightarrow> \<exists>n. as_bytes b = take n data"
  using native_buffer_prefix(1,2) by metis

lemma exchange_native:
  assumes "encode_instruction fmt instruction msg_id kwargs = Inr wire"
  shows "\<exists>e. exchange w wire (Native t) = (Inl e, Native t)"
proof (cases "bindr (native_encode wire t) (\<lambda>native_buf. bindr (checkpoint w 2) (\<lambda>_. Inr (as_bytes native_buf)))")
  case (Inr response)
  then obtain b where b: "native_buffer wire = Inr b" "response = as_bytes b" "\<not> nt_closed t"
    by (auto simp: bindr_eq_Inr native_encode_def split: if_splits)
  then obtain n where "response = take n wire" using as_bytes_native_buffer by blast
  then show ?thesis using Inr core_rejects_frame [OF assms] by (simp add: native_decode_def b(3))
qed simp

text \<open>
  No call over the native transport succeeds: whatever the instruction, its arguments, the token
  and the state of model and transport, the result holds an exception and the transport is left as
  it was.
\<close>

lemma native_call_never_succeeds:
  "\<not> sr_ok (fst (call w instruction timeout kwargs m (Native t))) \<and>
   snd (snd (call w instruction timeout kwargs m (Native t))) = Native t"
proof -
  obtain msg_id m' where id: "next_message_id m = (msg_id, m')" by (meson surj_pair)
  let ?r = "bindr (checkpoint w 0) (\<lambda>_.
             bindr (encode_instruction (w_fmt w) instruction msg_id kwargs) (\<lambda>wire.
             bindr (checkpoint w 1) (\<lambda>_. Inr wire)))"
  show ?thesis
  proof (cases ?r)
    case (Inr wire)
    then have "encode_instruction (w_fmt w) instruction msg_id kwargs = Inr wire" by (auto simp: bindr_eq_Inr)
    from exchange_native [OF this] obtain e where "exchange w wire (Native t) = (Inl e, Native t)" by blast
    with Inr show ?thesis by (simp add: call_def id del: exchange.simps)
  qed (simp add: call_def id)
qed

text \<open>
  Over an open native transport, a call whose arguments can be encoded and whose token is never
  cancelled fails with the core's status 1 (bad header) for frames shorter than a header and 2
  (unsupported version) for all longer ones.
\<close>

theorem native_call_status:
  assumes "\<not> mo_closed m" "\<not> nt_closed t" "w_token w = (\<lambda>_. None)"
    "encode_instruction (w_fmt w) instruction (message_id (mo_message_counter m + 1)) kwargs = Inr wire"
    "length wire < 2 ^ 32"
  shows "call w instruction timeout kwargs m (Native t) =
    (result_err (NativeError (if length wire < 56 then 1 else 2)), snd (next_message_id m), Native t)"
proof -
  have cp: "checkpoint w i = Inr ()" for i by (simp add: checkpoint_def assms(3) or_null_def null_check_def)
  obtain b where b: "native_buffer wire = Inr b" "as_bytes b = wire"
  proof -
    have "wire \<noteq> []" using assms(4) by (rule encode_instruction_Inr) (simp add: str_def)
    then have "length wire mod 2 ^ 32 \<noteq> 0" using assms(5) by simp
    then have "native_buffer wire = Inr (take (length wire mod 2 ^ 32) wire)"
      by (simp add: native_buffer_def core_buffer_from_ptr_def)
    from that [OF this] native_buffer_prefix(2) [OF this] assms(5) show ?thesis by simp
  qed
  have "context_decode (w_core w) wire = Inl (NativeError (if length wire < 56 then 1 else 2))"
    using core_rejects_frame [OF assms(4), of "w_core w" "length wire"] by simp
  then have "exchange w wire (Native t) = (Inl (NativeError (if length wire < 56 then 1 else 2)), Native t)"
    using assms(2) b by (simp add: native_encode_def native_decode_def cp bindr_def)
  then show ?thesis
    using assms(1,4) by (simp add: call_def next_message_id_def cp bindr_def Let_def del: exchange.simps)
qed

definition sample_world :: "(unit, unit, unit) world" where
  "sample_world =
     \<lparr>w_fmt = sample_fmt, w_net = (\<lambda>_ _ _. HttpBody []), w_loads = (\<lambda>_. JsonValue ()),
      w_core = (\<lambda>_. Inr \<lparr>nv_opcode = 1, nv_flags = 0, nv_operand_count = 0\<rparr>), w_token = (\<lambda>_. None), w_latency = 0\<rparr>"

definition sample_model :: model where
  "sample_model = new_model (new_capability (str ''embed'') []) [] 0"

theorem native_call_status_witness:
  "sr_data (fst (call sample_world (str ''embed'') None [(str ''text'', ArgStr (str ''hi''))] sample_model (Native new_native))) =
     Inl (NativeError 1)"
proof -
  have "call sample_world (str ''embed'') None [(str ''text'', ArgStr (str ''hi''))] sample_model (Native new_native) =
      (result_err (NativeError 1), snd (next_message_id sample_model), Native new_native)"
    using native_call_status [of sample_model new_native sample_world "str ''embed''" "[(str ''text'', ArgStr (str ''hi''))]" _ None]
      sample_frame
    by (simp add: sample_model_def new_model_def new_native_def sample_world_def str_def)
  then show ?thesis by (simp add: result_err_def result_with_def)
qed

section \<open>Calls over HTTP\<close>

definition cancelled_at :: "('o, 'j, 'c) world \<Rightarrow> nat \<Rightarrow> bool" where
  "cancelled_at w i = any_is_cancelled (or_null (w_token w i))"

lemma checkpoint_iff: "checkpoint w i = (if cancelled_at w i then Inl (raised CancelledError) else Inr ())"
  by (simp add: checkpoint_def cancelled_at_def any.check_iff)




section \<open>Message ids\<close>

lemma digits_value_padded: "digits_value (replicate k 48 @ ds) = digits_value ds"
proof (induction ds rule: rev_induct)
  case Nil
  then show ?case by (induction k) (simp_all add: digits_value_snoc digit_def digit_zeros_def flip: replicate_append_same)
next
  case (snoc d ds)
  then show ?case using digits_value_snoc [of "replicate k 48 @ ds" d] by (simp add: digits_value_snoc)
qed

lemma message_id_value: "digits_value (drop 4 (message_id n)) = n"
proof -
  have "drop 4 (message_id n) = zero_padded n" by (simp add: message_id_def str_def)
  then show ?thesis using digits_value_padded [of "8 - length (dec n)" "dec n"] by (simp only: zero_padded_def digits_value_dec)
qed

lemma message_id_inj: "message_id a = message_id b \<Longrightarrow> a = b"
  by (metis message_id_value)

lemma message_id_ascii: "c \<in> set (message_id n) \<Longrightarrow> 0 < c \<and> c < 128"
  using dec_chars [of c n] by (auto simp: message_id_def zero_padded_def str_def)

lemma message_id_length: "n < 10 ^ 12 \<Longrightarrow> length (message_id n) \<le> 16"
  using length_dec [of n 11] by (auto simp: message_id_def zero_padded_def str_def)

text \<open>The field of the frame determines the id as long as the id fits.\<close>

lemma msg_id_field_inj:
  assumes "msg_id_field (map byte_of (message_id a)) = msg_id_field (map byte_of (message_id b))" "a < 10 ^ 12" "b < 10 ^ 12"
  shows "a = b"
proof -
  have "takeWhile (\<lambda>x. x \<noteq> 0) (msg_id_field (map byte_of (message_id n))) = map byte_of (message_id n)"
    if "n < 10 ^ 12" for n
  proof -
    have "byte_of c \<noteq> 0" if "c \<in> set (message_id n)" for c
    proof -
      have "unat (byte_of c) = c" "0 < c" using message_id_ascii [OF that] by simp_all
      then show ?thesis by auto
    qed
    then have "takeWhile (\<lambda>x. x \<noteq> 0) (map byte_of (message_id n) @ replicate k 0) = map byte_of (message_id n)" for k
      by (subst takeWhile_append2) (auto simp: takeWhile_replicate)
    with message_id_length [OF that] show ?thesis by (simp add: msg_id_field_def)
  qed
  from this [OF assms(2)] this [OF assms(3)] assms(1)
  have "map byte_of (message_id a) = map byte_of (message_id b)" by metis
  moreover have "inj_on byte_of (set (message_id a) \<union> set (message_id b))"
  proof (rule inj_onI)
    fix c d
    assume "c \<in> set (message_id a) \<union> set (message_id b)" "d \<in> set (message_id a) \<union> set (message_id b)"
      and eq: "byte_of c = byte_of d"
    then have "c < 128" "d < 128" using message_id_ascii by blast+
    then have "unat (byte_of c) = c" "unat (byte_of d) = d" by simp_all
    with eq show "c = d" by metis
  qed
  ultimately have "message_id a = message_id b" using map_inj_on by blast
  then show ?thesis by (rule message_id_inj)
qed

text \<open>A sequence of calls and streams on one model, with what each of them gave.\<close>

datatype ('o, 'j, 'c) model_op =
    CallOp "('o, 'j, 'c) world" pystr "(pystr \<times> 'o arg) list"
  | StreamOp "('o, 'j, 'c) world" pystr "(pystr \<times> 'o arg) list"

datatype 'j op_result =
    CallResult "'j call_data structured_result"
  | StreamResult "sexn + (int \<times> int) stream_chunk"

fun model_do :: "('o, 'j, 'c) model_op \<Rightarrow> model \<times> transport \<Rightarrow> 'j op_result \<times> model \<times> transport" where
  "model_do (CallOp w i k) (m, t) = (let (r, mt) = call w i None k m t in (CallResult r, mt))"
| "model_do (StreamOp w i k) (m, t) = (let (r, mt) = stream w i k m t in (StreamResult r, mt))"

primrec model_run ::
  "('o, 'j, 'c) model_op list \<Rightarrow> model \<times> transport \<Rightarrow> 'j op_result list \<times> model \<times> transport" where
  "model_run [] mt = ([], mt)"
| "model_run (x # xs) mt = (let (r, mt') = model_do x mt; (rs, mt'') = model_run xs mt' in (r # rs, mt''))"

text \<open>
  The ids a client is given: in the field of a result, where it is not the empty default of a failed
  call, and under \<^verbatim>\<open>"message_id"\<close> in the metadata of a chunk. The ids that leave: the 16 bytes of each frame
  that was sent in a request.
\<close>

fun reported_id :: "'j op_result \<Rightarrow> pystr list" where
  "reported_id (CallResult r) = (if sr_message_id r = [] then [] else [sr_message_id r])"
| "reported_id (StreamResult (Inl e)) = []"
| "reported_id (StreamResult (Inr c)) =
     (case map_of (ch_metadata c) (str ''message_id'') of Some (CtxStr i) \<Rightarrow> [i] | _ \<Rightarrow> [])"

definition reported_ids :: "'j op_result list \<Rightarrow> pystr list" where
  "reported_ids rs = concat (map reported_id rs)"

fun requests_made :: "transport \<Rightarrow> (pystr \<times> bytes) list" where
  "requests_made (Http h) = ht_requests h"
| "requests_made (Native n) = []"

definition frame_ids :: "(pystr \<times> bytes) list \<Rightarrow> bytes list" where
  "frame_ids reqs = map (\<lambda>(url, body). slice body 6 22) reqs"

definition id_field :: "nat \<Rightarrow> bytes" where
  "id_field n = msg_id_field (map byte_of (message_id n))"

lemma call_model: "fst (snd (call w i timeout k m t)) = (if mo_closed m then m else snd (next_message_id m))"
  by (auto simp: call_def next_message_id_def Let_def split: sum.split prod.split)

lemma stream_model: "fst (snd (stream w i k m t)) = snd (next_message_id m)"
  by (auto simp: stream_def next_message_id_def Let_def split: sum.split prod.split transport.split)

lemma frame_carries_id:
  assumes "encode_instruction fmt instruction (message_id n) kwargs = Inr w"
  shows "slice w 6 22 = id_field n"
proof -
  from assms obtain mid r where mid: "utf8_encode (message_id n) = Inr mid"
    and w: "w = map byte_of (str ''AICL'') @ be_bytes 2 1 @ msg_id_field mid @ r"
    by (rule encode_instruction_Inr) simp
  have "mid = map byte_of (message_id n)"
    using mid utf8_ascii [of "message_id n"] message_id_ascii [of _ n] by (simp add: list_all_iff)
  moreover have "length (map byte_of (str ''AICL'')) = 4" by (simp add: str_def)
  ultimately show ?thesis unfolding w slice_def by (simp add: id_field_def)
qed

lemma http_send_requests:
  "http_send net body h = (r, h') \<Longrightarrow>
     (if ht_closed h then (\<exists>e. r = Inl e) \<and> h' = h
      else h' = h\<lparr>ht_requests := ht_requests h @ [(request_url h, body)]\<rparr>)"
  by (auto simp: http_send_def split: if_splits)

lemma exchange_requests:
  assumes "exchange w wire t = (r, t')"
  shows "transport_is_native t' = transport_is_native t \<and>
    (requests_made t' = requests_made t \<or> (\<exists>u. requests_made t' = requests_made t @ [(u, wire)])) \<and>
    (\<not> transport_is_native t \<and> requests_made t' = requests_made t \<longrightarrow> (\<exists>e. r = Inl e))"
proof (cases t)
  case (Http h)
  obtain s h' where s: "http_send (w_net w) wire h = (s, h')" by (meson surj_pair)
  with assms Http have "t' = Http h'"
    "r = bindr s (\<lambda>b. bindr (checkpoint w 2) (\<lambda>_. bindr (http_decode (w_loads w) b h') (\<lambda>d. Inr (JsonData d))))" by auto
  with Http http_send_requests [OF s] show ?thesis by (auto simp: bindr_def split: if_splits)
next
  case (Native n)
  with assms show ?thesis by (auto split: sum.splits prod.splits)
qed

text \<open>One operation: the counter, the id it reports and the frame it sends.\<close>

definition op_ids :: "nat \<Rightarrow> nat \<Rightarrow> bool \<Rightarrow> pystr list \<Rightarrow> bytes list \<Rightarrow> bool" where
  "op_ids c c' http ids frames \<longleftrightarrow>
     c' = c \<and> ids = [] \<and> frames = [] \<or>
     c' = c + 1 \<and> ids \<in> {[], [message_id c']} \<and> frames \<in> {[], [id_field c']} \<and> (http \<and> frames = [] \<longrightarrow> ids = [])"

lemma message_id_nonempty [simp]: "message_id n \<noteq> []"
  by (simp add: message_id_def str_def)

lemma call_ids:
  assumes "call w instruction timeout kwargs m t = (r, m', t')"
  shows "transport_is_native t' = transport_is_native t \<and>
    (\<exists>new. requests_made t' = requests_made t @ new \<and>
       op_ids (mo_message_counter m) (mo_message_counter m') (\<not> transport_is_native t) (reported_id (CallResult r)) (frame_ids new))"
proof (cases "mo_closed m")
  case True
  with assms show ?thesis by (auto simp: call_def op_ids_def frame_ids_def result_err_def result_with_def)
next
  case False
  let ?n = "mo_message_counter m + 1"
  let ?wire = "bindr (checkpoint w 0) (\<lambda>_. bindr (encode_instruction (w_fmt w) instruction (message_id ?n) kwargs) (\<lambda>wire.
             bindr (checkpoint w 1) (\<lambda>_. Inr wire)))"
  have m': "mo_message_counter m' = ?n"
    using arg_cong [OF assms, of "\<lambda>x. fst (snd x)"] False by (auto simp: call_model next_message_id_def Let_def)
  have none: "reported_id (CallResult (result_err e :: 'c call_data structured_result)) = []" for e
    by (simp add: result_err_def result_with_def)
  show ?thesis
  proof (cases ?wire)
    case (Inl e)
    with assms False have "r = result_err (handled e)" "t' = t" by (auto simp: call_def next_message_id_def Let_def)
    with m' show ?thesis by (auto simp: op_ids_def frame_ids_def result_err_def result_with_def)
  next
    case (Inr wire)
    then have enc: "encode_instruction (w_fmt w) instruction (message_id ?n) kwargs = Inr wire" by (auto simp: bindr_eq_Inr)
    obtain x t2 where x: "exchange w wire t = (x, t2)" by (meson surj_pair)
    have t': "t' = t2" using assms False Inr x by (auto simp: call_def next_message_id_def Let_def split: sum.splits)
    have r: "reported_id (CallResult r) = (case x of Inl e \<Rightarrow> [] | Inr d \<Rightarrow> [message_id ?n])"
      using assms False Inr x
      by (auto simp: call_def next_message_id_def Let_def result_err_def result_with_def split: sum.splits)
    note ex = exchange_requests [OF x]
    have frame: "frame_ids [(u, wire)] = [id_field ?n]" for u using frame_carries_id [OF enc] by (simp add: frame_ids_def)
    from ex consider "requests_made t2 = requests_made t" | u where "requests_made t2 = requests_made t @ [(u, wire)]" by blast
    then show ?thesis
    proof cases
      case 1
      with ex r m' t' show ?thesis by (auto simp: op_ids_def frame_ids_def split: sum.splits)
    next
      case 2
      with ex r m' t' frame [of u] show ?thesis
        by (intro conjI exI [of _ "[(u, wire)]"]) (auto simp: op_ids_def split: sum.splits)
    qed
  qed
qed

lemma stream_ids:
  assumes "stream w instruction kwargs m t = (r, m', t')"
  shows "transport_is_native t' = transport_is_native t \<and>
    (\<exists>new. requests_made t' = requests_made t @ new \<and>
       op_ids (mo_message_counter m) (mo_message_counter m') (\<not> transport_is_native t) (reported_id (StreamResult r)) (frame_ids new))"
proof -
  let ?n = "mo_message_counter m + 1"
  let ?wire = "bindr (encode_instruction (w_fmt w) instruction (message_id ?n) kwargs) (\<lambda>wire.
           bindr (checkpoint w 0) (\<lambda>_. Inr wire))"
  have m': "mo_message_counter m' = ?n"
    using arg_cong [OF assms, of "\<lambda>x. fst (snd x)"] by (auto simp: stream_model next_message_id_def Let_def)
  show ?thesis
  proof (cases ?wire)
    case (Inl e)
    with assms have "r = Inl e" "t' = t" by (auto simp: stream_def next_message_id_def Let_def)
    with m' show ?thesis by (auto simp: op_ids_def frame_ids_def)
  next
    case (Inr wire)
    then have "encode_instruction (w_fmt w) instruction (message_id ?n) kwargs = Inr wire" by (auto simp: bindr_eq_Inr)
    then have frame: "slice wire 6 22 = id_field ?n" by (rule frame_carries_id)
    show ?thesis
    proof (cases t)
      case (Http h)
      obtain s h' where s: "http_send (w_net w) wire h = (s, h')" by (meson surj_pair)
      with assms Inr Http have t': "t' = Http h'" and
        r: "reported_id (StreamResult r) = (case s of Inl e \<Rightarrow> [] | Inr b \<Rightarrow> [message_id ?n])"
        by (auto simp: stream_def next_message_id_def Let_def bindr_def split: sum.splits)
      show ?thesis
      proof (cases "ht_closed h")
        case True
        with http_send_requests [OF s] r t' m' Http show ?thesis by (auto simp: op_ids_def frame_ids_def)
      next
        case False
        with http_send_requests [OF s] r t' m' Http frame show ?thesis
          by (auto simp: op_ids_def frame_ids_def split: sum.splits)
      qed
    next
      case (Native n)
      with assms Inr m' show ?thesis
        by (auto simp: stream_def next_message_id_def Let_def op_ids_def frame_ids_def split: sum.splits prod.splits)
    qed
  qed
qed

lemma model_do_ids:
  assumes "model_do x (m, t) = (r, m', t')"
  shows "transport_is_native t' = transport_is_native t \<and>
    (\<exists>new. requests_made t' = requests_made t @ new \<and>
       op_ids (mo_message_counter m) (mo_message_counter m') (\<not> transport_is_native t) (reported_id r) (frame_ids new))"
proof (cases x)
  case (CallOp w i k)
  with assms obtain r' where "call w i None k m t = (r', m', t')" "r = CallResult r'" by (auto split: prod.splits)
  with call_ids show ?thesis by blast
next
  case (StreamOp w i k)
  with assms obtain r' where "stream w i k m t = (r', m', t')" "r = StreamResult r'" by (auto split: prod.splits)
  with stream_ids show ?thesis by blast
qed

lemma model_run_ids:
  assumes "model_run ops (m, t) = (rs, m', t')"
  shows "\<exists>new ns ks. requests_made t' = requests_made t @ new \<and>
    reported_ids rs = map message_id ns \<and> frame_ids new = map id_field ks \<and>
    sorted_wrt (<) ns \<and> sorted_wrt (<) ks \<and>
    (\<forall>n \<in> set ns \<union> set ks. mo_message_counter m < n \<and> n \<le> mo_message_counter m + length ops) \<and>
    (\<not> transport_is_native t \<longrightarrow> subseq ns ks)"
  using assms
proof (induction ops arbitrary: m t rs)
  case Nil
  then show ?case by (intro exI [of _ "[]"]) (simp add: reported_ids_def frame_ids_def)
next
  case (Cons x xs)
  obtain r m1 t1 where x: "model_do x (m, t) = (r, m1, t1)" by (metis prod_cases3)
  with Cons.prems obtain rs1 where run: "model_run xs (m1, t1) = (rs1, m', t')" "rs = r # rs1"
    by (auto split: prod.splits)
  from model_do_ids [OF x] obtain new1 where one: "transport_is_native t1 = transport_is_native t"
    "requests_made t1 = requests_made t @ new1"
    "op_ids (mo_message_counter m) (mo_message_counter m1) (\<not> transport_is_native t) (reported_id r) (frame_ids new1)" by blast
  from Cons.IH [OF run(1)] obtain new ns ks where rest: "requests_made t' = requests_made t1 @ new"
    "reported_ids rs1 = map message_id ns" "frame_ids new = map id_field ks" "sorted_wrt (<) ns" "sorted_wrt (<) ks"
    "\<forall>n \<in> set ns \<union> set ks. mo_message_counter m1 < n \<and> n \<le> mo_message_counter m1 + length xs"
    "\<not> transport_is_native t1 \<longrightarrow> subseq ns ks" by blast
  let ?c = "mo_message_counter m1"
  define n1 where "n1 = (if reported_id r = [] then [] else [?c])"
  define k1 where "k1 = (if frame_ids new1 = [] then [] else [?c])"
  have c: "mo_message_counter m \<le> ?c" "?c \<le> mo_message_counter m + 1"
    "n1 \<noteq> [] \<or> k1 \<noteq> [] \<Longrightarrow> mo_message_counter m < ?c"
    using one(3) by (auto simp: op_ids_def n1_def k1_def split: if_splits)
  have ids: "reported_id r = map message_id n1" "frame_ids new1 = map id_field k1"
    "\<not> transport_is_native t \<Longrightarrow> subseq n1 k1"
    using one(3) by (auto simp: op_ids_def n1_def k1_def)
  have mem: "set n1 \<subseteq> {?c}" "set k1 \<subseteq> {?c}" by (auto simp: n1_def k1_def)
  have "sorted_wrt (<) (n1 @ ns)" "sorted_wrt (<) (k1 @ ks)"
    using rest(4-6) mem by (auto simp: sorted_wrt_append n1_def k1_def)
  moreover have "mo_message_counter m < n \<and> n \<le> mo_message_counter m + length (x # xs)"
    if n: "n \<in> set (n1 @ ns) \<union> set (k1 @ ks)" for n
  proof (cases "n \<in> set ns \<union> set ks")
    case True
    then have "?c < n" "n \<le> ?c + length xs" using rest(6) by blast+
    then show ?thesis using c(1,2) by simp
  next
    case False
    then have "n \<in> set n1 \<union> set k1" using n by auto
    then have "n = ?c" "n1 \<noteq> [] \<or> k1 \<noteq> []" using mem by auto
    then show ?thesis using c by simp
  qed
  then have "\<forall>n \<in> set (n1 @ ns) \<union> set (k1 @ ks).
      mo_message_counter m < n \<and> n \<le> mo_message_counter m + length (x # xs)" by blast
  moreover have "\<not> transport_is_native t \<longrightarrow> subseq (n1 @ ns) (k1 @ ks)"
    using ids(3) rest(7) one(1) by (simp add: list_emb_append_mono)
  ultimately show ?case
    using ids(1,2) rest(1-3) one(2) run(2)
    by (intro exI [of _ "new1 @ new"] exI [of _ "n1 @ ns"] exI [of _ "k1 @ ks"]) (simp add: reported_ids_def frame_ids_def)
qed

text \<open>
  C40. In any sequence of calls and streams on one model, with whatever arguments and over whatever
  transport, no two results or chunks carry the same message id; and, as long as fewer than ten to
  the twelfth have been made, no two frames sent carry the same 16 bytes of id. Over HTTP the ids given
  back are those of frames that were sent, in order.
\<close>

theorem message_ids_unique:
  assumes "mo_message_counter m + length ops < 10 ^ 12" "model_run ops (m, t) = (rs, m', t')"
  shows "distinct (reported_ids rs) \<and>
    (\<exists>new. requests_made t' = requests_made t @ new \<and> distinct (frame_ids new) \<and>
       (\<not> transport_is_native t \<longrightarrow>
         subseq (map (\<lambda>i. msg_id_field (map byte_of i)) (reported_ids rs)) (frame_ids new)))"
proof -
  obtain new ns ks where r: "requests_made t' = requests_made t @ new"
    "reported_ids rs = map message_id ns" "frame_ids new = map id_field ks" "sorted_wrt (<) ns" "sorted_wrt (<) ks"
    "\<forall>n \<in> set ns \<union> set ks. mo_message_counter m < n \<and> n \<le> mo_message_counter m + length ops"
    "\<not> transport_is_native t \<longrightarrow> subseq ns ks"
    using model_run_ids [OF assms(2)] by blast
  have "inj_on message_id (set ns)" using message_id_inj by (blast intro: inj_onI)
  then have d: "distinct (reported_ids rs)" using r(2,4) by (simp add: distinct_map strict_sorted_iff)
  have lt: "n < 10 ^ 12" if "n \<in> set ks" for n
  proof -
    have "n \<le> mo_message_counter m + length ops" using that r(6) by blast
    then show ?thesis using assms(1) by (rule le_less_trans)
  qed
  have "inj_on id_field (set ks)"
    using msg_id_field_inj lt by (intro inj_onI) (simp only: id_field_def)
  then have "distinct (frame_ids new)" using r(3,5) by (simp add: distinct_map strict_sorted_iff)
  moreover have "subseq (map (\<lambda>i. msg_id_field (map byte_of i)) (reported_ids rs)) (frame_ids new)"
    if "\<not> transport_is_native t"
    using r(2,3,7) that subseq_map [of ns ks id_field] by (simp add: o_def id_field_def [abs_def])
  ultimately show ?thesis using d r(1) by blast
qed

theorem message_ids_unique_witness:
  "\<exists>a b m' h. model_run [CallOp sample_world (str ''embed'') [], StreamOp sample_world (str ''embed'') []]
      (sample_model, Http (new_http (str ''http://localhost:8080'') 0)) = ([CallResult a, StreamResult (Inr b)], m', Http h) \<and>
     length (ht_requests h) = 2 \<and> sr_message_id a = message_id 1 \<and>
     distinct (reported_ids [CallResult a, StreamResult (Inr b)]) \<and> distinct (frame_ids (ht_requests h))"
proof -
  let ?ops = "[CallOp sample_world (str ''embed'') [], StreamOp sample_world (str ''embed'') []]"
  let ?t = "Http (new_http (str ''http://localhost:8080'') 0)"
  have enc: "\<exists>f. encode_instruction sample_fmt (str ''embed'') (message_id n) [] = Inr f" for n
    using message_id_ascii [of _ n]
    by (auto simp: encode_instruction_def encode_str_def utf8_ascii list_all_iff bindr_def pack_u_def Let_def str_def)
  obtain f g where f: "encode_instruction sample_fmt (str ''embed'') (message_id (Suc 0)) [] = Inr f"
    "encode_instruction sample_fmt (str ''embed'') (message_id (Suc (Suc 0))) [] = Inr g" using enc by metis
  obtain a b m' h where run: "model_run ?ops (sample_model, ?t) = ([CallResult a, StreamResult (Inr b)], m', Http h)"
    "length (ht_requests h) = 2" "sr_message_id a = message_id 1"
    using f
    by (simp add: call_def stream_def sample_model_def new_model_def sample_world_def next_message_id_def checkpoint_iff
        cancelled_at_def or_null_def null_is_cancelled_def bindr_def http_send_def new_http_def http_decode_def Let_def
        numeral_2_eq_2)
  have "mo_message_counter sample_model + length ?ops < 10 ^ 12" by (simp add: sample_model_def new_model_def)
  from message_ids_unique [OF this run(1)] obtain new where
    "distinct (reported_ids [CallResult a, StreamResult (Inr b)])"
    "requests_made (Http h) = requests_made ?t @ new" "distinct (frame_ids new)" by blast
  moreover from this(2) have "ht_requests h = new" by (simp add: new_http_def)
  ultimately show ?thesis using run by blast
qed

section \<open>Closed models\<close>

text \<open>
  Closing a model stops its calls but not its streams: a stream over a closed model does what it
  does over an open one, request included.
\<close>

theorem stream_ignores_close:
  "fst (stream w instruction kwargs (model_close m) t) = fst (stream w instruction kwargs m t) \<and>
   snd (snd (stream w instruction kwargs (model_close m) t)) = snd (snd (stream w instruction kwargs m t)) \<and>
   call w instruction timeout kwargs (model_close m) t = (result_err (raised TransportError), model_close m, t)"
  by (auto simp: stream_def call_def model_close_def next_message_id_def Let_def
      split: sum.split prod.split transport.split)

end
