(* ===== verification/Diagnostic.thy ===== *)
theory Diagnostic
  imports Py_Decimal
begin

text \<open>
  \<^verbatim>\<open>aicl/sdk/diagnostic.py\<close>: the snapshot of transport and codec, and its report.
\<close>

record transport_info =
  ti_transport :: pystr
  ti_runtime_language :: pystr
  ti_codec :: pystr
  ti_zero_copy :: bool
  ti_http_enabled :: bool
  ti_native_available :: bool
  ti_library_version :: pystr
  ti_isa_version :: int

definition diagnose :: "bool \<Rightarrow> bool \<Rightarrow> pystr \<Rightarrow> int \<Rightarrow> transport_info" where
  "diagnose native_available http_enabled library_version isa_version =
     (let (transport, runtime_language, codec, zero_copy) =
        (if native_available then (str ''native'', str ''rust'', str ''aicl-isa'', True)
         else if http_enabled then (str ''http'', str ''http'', str ''json'', False)
         else (str ''none'', str ''python'', str ''aicl-bin'', False))
      in \<lparr>ti_transport = transport, ti_runtime_language = runtime_language, ti_codec = codec,
          ti_zero_copy = zero_copy, ti_http_enabled = http_enabled, ti_native_available = native_available,
          ti_library_version = library_version, ti_isa_version = isa_version\<rparr>)"

text \<open>\<^verbatim>\<open>"\n".join(lines)\<close>.\<close>

fun join_lines :: "pystr list \<Rightarrow> pystr" where
  "join_lines [] = []"
| "join_lines [l] = l"
| "join_lines (l # ls) = l @ [10] @ join_lines ls"

definition report_lines :: "transport_info \<Rightarrow> pystr list" where
  "report_lines i =
    [str ''=== AICL Runtime Diagnostics ==='',
     str ''  transport:        '' @ ti_transport i,
     str ''  runtime language: '' @ ti_runtime_language i,
     str ''  codec:            '' @ ti_codec i,
     str ''  zero-copy:        '' @ (if ti_zero_copy i then str ''active'' else str ''inactive''),
     str ''  http enabled:     '' @ (if ti_http_enabled i then str ''yes'' else str ''no (default)''),
     str ''  native available: '' @ (if ti_native_available i then str ''yes'' else str ''no''),
     str ''  library version:  '' @ ti_library_version i,
     str ''  isa version:      '' @ dec_int (ti_isa_version i),
     replicate 36 61]"

definition report :: "transport_info \<Rightarrow> pystr" where
  "report i = join_lines (report_lines i)"

section \<open>Lemmas\<close>

text \<open>The lines can be read back from the report, as long as the version holds no newline.\<close>

fun split_lines :: "pystr \<Rightarrow> pystr list" where
  "split_lines [] = [[]]"
| "split_lines (c # s) =
     (if c = 10 then [] # split_lines s
      else case split_lines s of [] \<Rightarrow> [[c]] | l # ls \<Rightarrow> (c # l) # ls)"

lemma split_lines_append: "10 \<notin> set l \<Longrightarrow> split_lines (l @ 10 # s) = l # split_lines s"
  by (induction l) auto

lemma split_lines_last: "10 \<notin> set l \<Longrightarrow> split_lines l = [l]"
  by (induction l) auto

lemma split_join_lines: "ls \<noteq> [] \<Longrightarrow> \<forall>l \<in> set ls. 10 \<notin> set l \<Longrightarrow> split_lines (join_lines ls) = ls"
  by (induction ls rule: join_lines.induct) (auto simp: split_lines_append split_lines_last)

lemma dec_int_inj: "dec_int a = dec_int b \<Longrightarrow> a = b"
proof -
  have d: "digits_value (dec n) = n" for n by simp
  assume eq: "dec_int a = dec_int b"
  have no: "45 \<notin> set (dec n)" for n using dec_chars [of 45 n] by auto
  consider "a < 0" "b < 0" | "a \<ge> 0" "b \<ge> 0" | "(a < 0) \<noteq> (b < 0)" by linarith
  then show ?thesis
  proof cases
    case 1
    with eq have "dec (nat (- a)) = dec (nat (- b))" by (simp add: dec_int_def)
    then have "nat (- a) = nat (- b)" using d by metis
    with 1 show ?thesis by simp
  next
    case 2
    with eq have "dec (nat a) = dec (nat b)" by (simp add: dec_int_def)
    then have "nat a = nat b" using d by metis
    with 2 show ?thesis by simp
  next
    case 3
    with eq no show ?thesis by (auto simp: dec_int_def split: if_splits) (metis list.set_intros(1))+
  qed
qed

text \<open>
  Two snapshots taken by diagnose whose library versions hold no newline have the same report only
  if they are the same: the report shows every field.
\<close>

theorem report_faithful:
  assumes "report (diagnose n h v i) = report (diagnose n' h' v' i')" "10 \<notin> set v" "10 \<notin> set v'"
  shows "diagnose n h v i = diagnose n' h' v' i'"
proof -
  have nl: "\<forall>l \<in> set (report_lines (diagnose n h v i)). 10 \<notin> set l" if "10 \<notin> set v" for n h v i
    using that dec_chars [of 10] by (auto simp: report_lines_def diagnose_def str_def dec_int_def)
  have ne: "report_lines x \<noteq> []" for x by (simp add: report_lines_def)
  have "split_lines (report (diagnose n h v i)) = report_lines (diagnose n h v i)"
    "split_lines (report (diagnose n' h' v' i')) = report_lines (diagnose n' h' v' i')"
    unfolding report_def using split_join_lines [OF ne] nl assms(2,3) by blast+
  then have "report_lines (diagnose n h v i) = report_lines (diagnose n' h' v' i')" using assms(1) by metis
  then have "v = v'" "dec_int i = dec_int i'" "n = n'" "h = h'"
    by (simp_all add: report_lines_def diagnose_def str_eq split: if_splits)
  then show ?thesis using dec_int_inj by blast
qed

theorem report_faithful_witness:
  "report (diagnose True False (str ''1.0.0'') 1) \<noteq> report (diagnose True False (str ''1.0.0'') 2)"
  using report_faithful [of True False "str ''1.0.0''" 1 True False "str ''1.0.0''" 2]
  by (auto simp: str_def diagnose_def)

end
