(* ===== verification/Sdk_Runtime.thy ===== *)
theory Sdk_Runtime
  imports Sdk_Model Diagnostic "HOL-Library.AList"
begin

text \<open>
  \<^verbatim>\<open>aicl/sdk/runtime.py\<close>: the runtime with its transport, its capabilities and the models connected
  through it. Models are objects shared with the client, so they live in a heap (a list, an object
  being its index); the runtime's dict maps a capability's name to the object connected last. Shown:
  the invariant of every reachable state, which model connect returns, and what closing does to the
  models in the dict, to those replaced in it and to the transport.
\<close>

section \<open>State and construction\<close>

record runtime =
  rt_transport :: transport
  rt_http_enabled :: bool
  rt_http_url :: pystr
  rt_timeout :: f64
  rt_native_available :: bool
  rt_capabilities :: capability_set
  rt_models :: "(pystr \<times> nat) list"
  rt_closed :: bool
  rt_heap :: "model list"

text \<open>Detecting the library: OSError and NativeError mean there is none, anything else is raised.\<close>

fun native_detected :: "sexn + pystr set \<Rightarrow> sexn + bool" where
  "native_detected (Inr _) = Inr True"
| "native_detected (Inl OSError) = Inr False"
| "native_detected (Inl (NativeError _)) = Inr False"
| "native_detected (Inl e) = Inl e"

text \<open>\<^verbatim>\<open>capabilities or BUILTIN_CAPABILITIES\<close>: a set is false when its length is zero.\<close>

definition or_builtin :: "capability_set option \<Rightarrow> capability_set" where
  "or_builtin caps =
     (case caps of None \<Rightarrow> BUILTIN_CAPABILITIES | Some s \<Rightarrow> if caps_len s = 0 then BUILTIN_CAPABILITIES else s)"

definition runtime_init ::
  "sexn + pystr set \<Rightarrow> bool \<Rightarrow> pystr \<Rightarrow> f64 \<Rightarrow> capability_set option \<Rightarrow> sexn + runtime" where
  "runtime_init lib http http_url timeout capabilities =
     bindr (native_detected lib) (\<lambda>native_available.
     bindr (if native_available then Inr (Native new_native)
            else if http then Inr (Http (new_http http_url timeout))
            else Inl (raised AICLError)) (\<lambda>transport.
       Inr \<lparr>rt_transport = transport, rt_http_enabled = http, rt_http_url = http_url, rt_timeout = timeout,
            rt_native_available = native_available, rt_capabilities = or_builtin capabilities,
            rt_models = [], rt_closed = False, rt_heap = []\<rparr>))"

section \<open>Connections\<close>

definition or_timeout :: "f64 option \<Rightarrow> f64 \<Rightarrow> f64" where
  "or_timeout timeout dflt = (case timeout of None \<Rightarrow> dflt | Some t \<Rightarrow> if f64_true t then t else dflt)"

definition connect ::
  "(pystr \<Rightarrow> pystr) \<Rightarrow> pystr \<Rightarrow> pystr \<Rightarrow> f64 option \<Rightarrow> runtime \<Rightarrow> (sexn + nat) \<times> runtime" where
  "connect lower capability name timeout rt =
     (if rt_closed rt then (Inl (raised AICLError), rt)
      else
        case caps_find lower capability (rt_capabilities rt) of
          [] \<Rightarrow> (Inl (raised CapabilityError), rt)
        | cap # _ \<Rightarrow>
            (let obj = length (rt_heap rt); model = new_model cap name (or_timeout timeout (rt_timeout rt)) in
             (Inr obj,
              rt\<lparr>rt_heap := rt_heap rt @ [model], rt_models := AList.update (cap_name cap) obj (rt_models rt)\<rparr>)))"

fun connect_any ::
  "(pystr \<Rightarrow> pystr) \<Rightarrow> pystr list \<Rightarrow> pystr \<Rightarrow> f64 option \<Rightarrow> runtime \<Rightarrow> (sexn + nat) \<times> runtime" where
  "connect_any lower [] name timeout rt = (Inl (raised CapabilityError), rt)"
| "connect_any lower (c # cs) name timeout rt =
     (case connect lower c name timeout rt of
        (Inr obj, rt') \<Rightarrow> (Inr obj, rt')
      | (Inl e, rt') \<Rightarrow> if sdk_caught CapabilityError e then connect_any lower cs name timeout rt' else (Inl e, rt'))"

section \<open>Diagnostics and discovery\<close>

text \<open>\<open>version\<close> and \<open>isa\<close> are the results of \<^verbatim>\<open>get_version\<close> and \<^verbatim>\<open>get_isa_version\<close>.\<close>

definition runtime_diagnose :: "sexn + pystr \<Rightarrow> sexn + int \<Rightarrow> runtime \<Rightarrow> transport_info" where
  "runtime_diagnose version isa rt =
     (let (lib_version, isa_ver) =
        (case bindr (if rt_native_available rt then version else Inr (str ''N/A'')) (\<lambda>v.
              bindr (if rt_native_available rt then isa else Inr 0) (\<lambda>i. Inr (v, i))) of
           Inr r \<Rightarrow> r
         | Inl _ \<Rightarrow> (str ''error'', 0))
      in diagnose (rt_native_available rt) (rt_http_enabled rt) lib_version isa_ver)"

definition native_transport_info :: "sexn + pystr \<Rightarrow> sexn + int \<Rightarrow> runtime \<Rightarrow> transport_info" where
  "native_transport_info version isa rt = runtime_diagnose version isa rt"

definition has_capability :: "pystr \<Rightarrow> runtime \<Rightarrow> bool" where
  "has_capability name rt = caps_has name (rt_capabilities rt)"

definition list_capabilities :: "runtime \<Rightarrow> pystr list" where
  "list_capabilities rt = caps_names (rt_capabilities rt)"

section \<open>Closing\<close>

definition close_object :: "nat \<Rightarrow> model list \<Rightarrow> model list" where
  "close_object i heap = (if i < length heap then heap[i := model_close (heap ! i)] else heap)"

definition runtime_close :: "runtime \<Rightarrow> runtime" where
  "runtime_close rt =
     rt\<lparr>rt_heap := fold close_object (map snd (rt_models rt)) (rt_heap rt), rt_models := [], rt_closed := True,
        rt_transport := transport_close (rt_transport rt)\<rparr>"

definition runtime_exit :: "runtime \<Rightarrow> runtime" where
  "runtime_exit rt = runtime_close rt"

definition runtime_del :: "runtime \<Rightarrow> runtime" where
  "runtime_del rt = (if rt_closed rt then rt else runtime_close rt)"

section \<open>The client's calls on a model\<close>

definition object_call ::
  "('o, 'j, 'c) world \<Rightarrow> pystr \<Rightarrow> f64 option \<Rightarrow> (pystr \<times> 'o arg) list \<Rightarrow> nat \<Rightarrow> runtime \<Rightarrow>
     'j call_data structured_result \<times> runtime" where
  "object_call w instruction timeout kwargs i rt =
     (let (r, m', t') = call w instruction timeout kwargs (rt_heap rt ! i) (rt_transport rt) in
      (r, rt\<lparr>rt_heap := (rt_heap rt)[i := m'], rt_transport := t'\<rparr>))"

definition object_stream ::
  "('o, 'j, 'c) world \<Rightarrow> pystr \<Rightarrow> (pystr \<times> 'o arg) list \<Rightarrow> nat \<Rightarrow> runtime \<Rightarrow>
     (sexn + (int \<times> int) stream_chunk) \<times> runtime" where
  "object_stream w instruction kwargs i rt =
     (let (r, m', t') = stream w instruction kwargs (rt_heap rt ! i) (rt_transport rt) in
      (r, rt\<lparr>rt_heap := (rt_heap rt)[i := m'], rt_transport := t'\<rparr>))"

section \<open>Reachable states\<close>

text \<open>
  Everything a client can do with a runtime and the models it got, one call after the other; calls from
  several threads at once are not modelled. \<^verbatim>\<open>capabilities()\<close> hands out the set itself, so that a client can
  add to it at any time: the step is labelled with the capability added, and what is added through another
  runtime that shares the set (the built-in one is one object of the package), earlier or later,
  is such a step too. Objects of the client, decoded JSON and callbacks are named by numbers.
\<close>

inductive runtime_step :: "(pystr \<Rightarrow> pystr) \<Rightarrow> capability list \<Rightarrow> runtime \<Rightarrow> runtime \<Rightarrow> bool" for lower where
  step_connect: "runtime_step lower [] rt (snd (connect lower capability name timeout rt))"
| step_connect_any: "runtime_step lower [] rt (snd (connect_any lower caps name timeout rt))"
| step_add: "runtime_step lower [c] rt (rt\<lparr>rt_capabilities := caps_add c (rt_capabilities rt)\<rparr>)"
| step_close: "runtime_step lower [] rt (runtime_close rt)"
| step_del: "runtime_step lower [] rt (runtime_del rt)"
| step_model_close: "i < length (rt_heap rt) \<Longrightarrow> runtime_step lower [] rt (rt\<lparr>rt_heap := close_object i (rt_heap rt)\<rparr>)"
| step_call: "i < length (rt_heap rt) \<Longrightarrow>
    runtime_step lower [] rt (snd (object_call (w :: (nat, nat, nat) world) instruction timeout kwargs i rt))"
| step_stream: "i < length (rt_heap rt) \<Longrightarrow>
    runtime_step lower [] rt (snd (object_stream (w :: (nat, nat, nat) world) instruction kwargs i rt))"

text \<open>The states reached from a new runtime, with the capabilities added since, in order.\<close>

inductive runtime_reachable ::
  "(pystr \<Rightarrow> pystr) \<Rightarrow> bool \<Rightarrow> bool \<Rightarrow> capability_set option \<Rightarrow> capability list \<Rightarrow> runtime \<Rightarrow> bool"
  for lower native http caps where
  reach_init: "runtime_init lib http url timeout caps = Inr rt \<Longrightarrow> native = rt_native_available rt \<Longrightarrow>
    runtime_reachable lower native http caps [] rt"
| reach_step: "runtime_reachable lower native http caps added rt \<Longrightarrow> runtime_step lower a rt rt' \<Longrightarrow>
    runtime_reachable lower native http caps (added @ a) rt'"

inductive_cases runtime_stepE: "runtime_step lower a rt rt'"

section \<open>The invariant\<close>

definition runtime_wf :: "runtime \<Rightarrow> bool" where
  "runtime_wf rt =
     (distinct (map fst (rt_models rt)) \<and>
      (\<forall>(n, i) \<in> set (rt_models rt). i < length (rt_heap rt) \<and> cap_name (mo_capability (rt_heap rt ! i)) = n) \<and>
      (\<forall>m \<in> set (rt_heap rt). mo_capability m \<in> set (rt_capabilities rt)) \<and>
      (rt_closed rt \<longrightarrow> rt_models rt = [] \<and> transport_closed (rt_transport rt)) \<and>
      (transport_is_native (rt_transport rt) \<longleftrightarrow> rt_native_available rt) \<and>
      (rt_native_available rt \<or> rt_http_enabled rt))"

text \<open>A change of the models that keeps their number and capabilities, and of the transport that keeps
  its kind and does not open it, keeps the invariant.\<close>

lemma runtime_wf_update:
  assumes "runtime_wf rt" "map mo_capability heap = map mo_capability (rt_heap rt)"
    "transport_is_native t = transport_is_native (rt_transport rt)"
    "transport_closed (rt_transport rt) \<Longrightarrow> transport_closed t"
  shows "runtime_wf (rt\<lparr>rt_heap := heap, rt_transport := t\<rparr>)"
proof -
  have len: "length heap = length (rt_heap rt)" using assms(2) map_eq_imp_length_eq by blast
  then have cap: "mo_capability (heap ! i) = mo_capability (rt_heap rt ! i)" if "i < length (rt_heap rt)" for i
    using assms(2) that by (metis nth_map)
  have "mo_capability ` set heap = mo_capability ` set (rt_heap rt)" using assms(2) by (metis set_map)
  then have "(\<forall>m \<in> set heap. mo_capability m \<in> C) \<longleftrightarrow> (\<forall>m \<in> set (rt_heap rt). mo_capability m \<in> C)" for C
    by (simp flip: image_subset_iff)
  moreover have "(\<forall>(n, i) \<in> M. i < length heap \<and> cap_name (mo_capability (heap ! i)) = n) \<longleftrightarrow>
      (\<forall>(n, i) \<in> M. i < length (rt_heap rt) \<and> cap_name (mo_capability (rt_heap rt ! i)) = n)" for M
    using cap by (auto simp: len)
  ultimately show ?thesis using assms(1,3,4) by (simp add: runtime_wf_def)
qed

lemma close_object_map: "map mo_capability (close_object i heap) = map mo_capability heap"
  by (rule nth_equalityI) (auto simp: close_object_def model_close_def nth_list_update split: if_splits)

lemma close_objects_map: "map mo_capability (fold close_object is heap) = map mo_capability heap"
  by (induction "is" arbitrary: heap) (simp_all add: close_object_map)

lemma transport_close_kind [simp]:
  "transport_is_native (transport_close t) = transport_is_native t" "transport_closed (transport_close t)"
  by (cases t; simp add: native_close_def http_close_def)+

lemma call_transport:
  "transport_is_native (snd (snd (call w i timeout k m t))) = transport_is_native t"
  "transport_closed (snd (snd (call w i timeout k m t))) = transport_closed t"
proof -
  have "transport_is_native (snd (exchange w x t)) = transport_is_native t \<and>
      transport_closed (snd (exchange w x t)) = transport_closed t" for x
    by (cases t) (auto simp: http_send_def native_decode_def view_del_def Let_def split: sum.split prod.split)
  then show "transport_is_native (snd (snd (call w i timeout k m t))) = transport_is_native t"
    "transport_closed (snd (snd (call w i timeout k m t))) = transport_closed t"
    by (auto simp: call_def Let_def split: sum.split prod.split) (metis snd_conv)+
qed

lemma stream_transport:
  "transport_is_native (snd (snd (stream w i k m t))) = transport_is_native t"
  "transport_closed (snd (snd (stream w i k m t))) = transport_closed t"
  by (auto simp: stream_def http_send_def native_decode_def view_del_def Let_def
      split: sum.split prod.split transport.split if_splits)

lemma next_message_id_capability: "mo_capability (snd (next_message_id m)) = mo_capability m"
  by (simp add: next_message_id_def Let_def)

lemma object_update_wf:
  assumes "runtime_wf rt" "i < length (rt_heap rt)" "mo_capability m = mo_capability (rt_heap rt ! i)"
    "transport_is_native t = transport_is_native (rt_transport rt)"
    "transport_closed t = transport_closed (rt_transport rt)"
  shows "runtime_wf (rt\<lparr>rt_heap := (rt_heap rt)[i := m], rt_transport := t\<rparr>)"
proof -
  have "map mo_capability ((rt_heap rt)[i := m]) = map mo_capability (rt_heap rt)"
    using assms(2,3) by (intro nth_equalityI) (auto simp: nth_list_update)
  then show ?thesis by (rule runtime_wf_update [OF assms(1) _ assms(4)]) (simp add: assms(5))
qed

lemma object_call_wf: "runtime_wf rt \<Longrightarrow> i < length (rt_heap rt) \<Longrightarrow> runtime_wf (snd (object_call w ins timeout k i rt))"
  unfolding object_call_def Let_def case_prod_beta snd_conv
  by (rule object_update_wf) (simp_all add: call_transport call_model next_message_id_capability)

lemma object_stream_wf: "runtime_wf rt \<Longrightarrow> i < length (rt_heap rt) \<Longrightarrow> runtime_wf (snd (object_stream w ins k i rt))"
  unfolding object_stream_def Let_def case_prod_beta snd_conv
  by (rule object_update_wf) (simp_all add: stream_transport stream_model next_message_id_capability)

lemma runtime_close_wf: "runtime_wf rt \<Longrightarrow> runtime_wf (runtime_close rt)"
  using runtime_wf_update [of rt "fold close_object (map snd (rt_models rt)) (rt_heap rt)" "transport_close (rt_transport rt)"]
  by (auto simp: close_objects_map runtime_close_def runtime_wf_def)

lemma caps_find_member: "caps_find lower q s = c # cs \<Longrightarrow> c \<in> set s \<and> cap_matches lower c q"
  by (metis caps_find_def filter_eq_ConsD in_set_conv_decomp)

lemma AList_update_member: "x \<in> set (AList.update k v xs) \<Longrightarrow> x = (k, v) \<or> x \<in> set xs"
  by (induction xs) (auto split: if_splits)

lemma connect_wf:
  assumes "runtime_wf rt"
  shows "runtime_wf (snd (connect lower q name timeout rt))"
proof (cases "caps_find lower q (rt_capabilities rt)")
  case (Cons c cs)
  let ?ms = "AList.update (cap_name c) (length (rt_heap rt)) (rt_models rt)"
  and ?h = "rt_heap rt @ [new_model c name (or_timeout timeout (rt_timeout rt))]"
  have "\<forall>(n, i) \<in> set ?ms. i < length ?h \<and> cap_name (mo_capability (?h ! i)) = n"
    using assms by (auto simp: runtime_wf_def new_model_def nth_append dest!: AList_update_member)
  moreover have "distinct (map fst ?ms)" using assms by (simp add: runtime_wf_def distinct_update)
  moreover have "\<forall>m \<in> set ?h. mo_capability m \<in> set (rt_capabilities rt)"
    using assms caps_find_member [OF Cons] by (auto simp: runtime_wf_def new_model_def)
  ultimately show ?thesis using assms Cons by (simp add: connect_def Let_def runtime_wf_def)
qed (simp add: connect_def assms)

lemma connect_fails: "connect lower q name timeout rt = (Inl e, rt') \<Longrightarrow> rt' = rt"
  by (auto simp: connect_def Let_def split: if_splits list.splits)

lemma connect_any_eq:
  "snd (connect_any lower qs name timeout rt) = rt \<or>
   (\<exists>q \<in> set qs. connect_any lower qs name timeout rt = connect lower q name timeout rt)"
proof (induction qs)
  case (Cons q qs)
  show ?case
  proof (cases "fst (connect lower q name timeout rt)")
    case (Inl e)
    then have c: "connect lower q name timeout rt = (Inl e, rt)"
      using connect_fails [of lower q name timeout rt e] by (metis prod.collapse)
    show ?thesis using Cons by (auto simp: c)
  next
    case (Inr obj)
    then show ?thesis by (cases "connect lower q name timeout rt") simp
  qed
qed simp

lemma connect_any_wf: "runtime_wf rt \<Longrightarrow> runtime_wf (snd (connect_any lower qs name timeout rt))"
  using connect_any_eq [of lower qs name timeout rt] connect_wf by metis

text \<open>What no step changes, but for the capabilities a client adds.\<close>

lemma connect_fixed:
  "rt_capabilities (snd (connect lower q name timeout rt)) = rt_capabilities rt"
  "rt_native_available (snd (connect lower q name timeout rt)) = rt_native_available rt"
  "rt_http_enabled (snd (connect lower q name timeout rt)) = rt_http_enabled rt"
  by (simp_all add: connect_def Let_def split: list.split)

lemma connect_any_fixed:
  "rt_capabilities (snd (connect_any lower qs name timeout rt)) = rt_capabilities rt \<and>
   rt_native_available (snd (connect_any lower qs name timeout rt)) = rt_native_available rt \<and>
   rt_http_enabled (snd (connect_any lower qs name timeout rt)) = rt_http_enabled rt"
  using connect_any_eq [of lower qs name timeout rt] connect_fixed by metis

lemma runtime_step_fixed:
  "runtime_step lower a rt rt' \<Longrightarrow>
     rt_capabilities rt' = rt_capabilities rt @ a \<and> rt_native_available rt' = rt_native_available rt \<and>
     rt_http_enabled rt' = rt_http_enabled rt"
  by (induction rule: runtime_step.induct)
    (simp_all add: connect_fixed connect_any_fixed runtime_close_def runtime_del_def object_call_def object_stream_def
      caps_add_def case_prod_beta Let_def)

lemma runtime_step_wf: "runtime_step lower a rt rt' \<Longrightarrow> runtime_wf rt \<Longrightarrow> runtime_wf rt'"
proof (induction rule: runtime_step.induct)
  case (step_model_close i rt)
  then show ?case
    using runtime_wf_update [of rt "close_object i (rt_heap rt)" "rt_transport rt"] by (simp add: close_object_map)
next
  case (step_add c rt)
  then show ?case by (auto simp: runtime_wf_def caps_add_def)
qed (simp_all add: connect_wf connect_any_wf runtime_close_wf runtime_del_def object_call_wf object_stream_wf)

lemma runtime_init_wf:
  assumes "runtime_init lib http url timeout caps = Inr rt"
  shows "runtime_wf rt" "rt_http_enabled rt = http" "rt_capabilities rt = or_builtin caps"
  using assms by (auto simp: runtime_init_def runtime_wf_def bindr_eq_Inr split: if_splits)

lemma reachable_wf:
  assumes "runtime_reachable lower native http caps added rt"
  shows "runtime_wf rt \<and> rt_native_available rt = native \<and> rt_http_enabled rt = http \<and>
    rt_capabilities rt = or_builtin caps @ added"
  using assms
proof (induction rule: runtime_reachable.induct)
  case (reach_init lib url timeout rt)
  then show ?case using runtime_init_wf [OF reach_init(1)] by simp
next
  case (reach_step added rt a rt')
  then show ?case using runtime_step_wf runtime_step_fixed by auto
qed

text \<open>
  C32. In every state a client can reach: the dict has one entry per capability name, which refers to
  an existing model of that capability; every model ever connected has a capability of the set; a
  closed runtime has no entries and a closed transport; the transport is the native one exactly when
  the library was found, and without it HTTP was enabled; and the capabilities are those it was made
  with followed by those added to the set since.
\<close>

theorem runtime_invariant:
  assumes "runtime_reachable lower native http caps added rt"
  shows "runtime_wf rt \<and> rt_native_available rt = native \<and> rt_http_enabled rt = http \<and>
    rt_capabilities rt = or_builtin caps @ added"
  by (rule reachable_wf [OF assms])

definition sample_runtime :: runtime where
  "sample_runtime =
     \<lparr>rt_transport = Http (new_http (str ''http://localhost:8080'') 0), rt_http_enabled = True,
      rt_http_url = str ''http://localhost:8080'', rt_timeout = 0, rt_native_available = False,
      rt_capabilities = BUILTIN_CAPABILITIES, rt_models = [], rt_closed = False, rt_heap = []\<rparr>"

lemma sample_runtime_init:
  "runtime_init (Inl OSError) True (str ''http://localhost:8080'') 0 None = Inr sample_runtime"
  by (simp add: runtime_init_def sample_runtime_def or_builtin_def bindr_def)

lemma sample_runtime_reachable: "runtime_reachable ascii_lower False True None [] sample_runtime"
  by (rule reach_init [OF sample_runtime_init]) (simp add: sample_runtime_def)

theorem runtime_invariant_witness:
  "runtime_wf (snd (connect ascii_lower (str ''rank'') [] None sample_runtime))"
  using runtime_invariant [OF reach_step [OF sample_runtime_reachable step_connect]] by blast

section \<open>A closed runtime\<close>

lemma exchange_closed: "transport_closed t \<Longrightarrow> \<exists>e. exchange w x t = (Inl e, t)"
  by (cases t) (simp_all add: http_send_def native_encode_def bindr_def)

lemma call_closed_transport:
  assumes "transport_closed t"
  shows "\<not> sr_ok (fst (call w i timeout k m t)) \<and> snd (snd (call w i timeout k m t)) = t"
proof -
  have "\<exists>e. exchange w x t = (Inl e, t)" for x using exchange_closed [OF assms] .
  then show ?thesis
    by (auto simp: call_def Let_def split: sum.split prod.split) (metis Pair_inject Inl_Inr_False)+
qed

lemma stream_closed_transport:
  "transport_closed t \<Longrightarrow> (\<exists>e. fst (stream w i k m t) = Inl e) \<and> snd (snd (stream w i k m t)) = t"
  by (cases t) (auto simp: stream_def http_send_def native_encode_def bindr_def Let_def split: sum.split prod.split)

text \<open>
  C33. After the runtime is closed, whatever was done before and is done since, no call on any model
  ever connected succeeds, no stream yields a chunk, no request is made, and connecting raises
  AICLError.
\<close>

theorem closed_runtime_refuses:
  assumes "runtime_reachable lower native http caps added rt" "rt_closed rt"
  shows "\<not> sr_ok (fst (object_call w instruction timeout kwargs i rt)) \<and>
    (\<exists>e. fst (object_stream w instruction kwargs i rt) = Inl e) \<and>
    rt_transport (snd (object_call w instruction timeout kwargs i rt)) = rt_transport rt \<and>
    rt_transport (snd (object_stream w instruction kwargs i rt)) = rt_transport rt \<and>
    connect lower q name timeout' rt = (Inl (raised AICLError), rt)"
proof -
  have t: "transport_closed (rt_transport rt)"
    using reachable_wf [OF assms(1)] assms(2) by (simp add: runtime_wf_def)
  show ?thesis
    using assms(2)
    by (simp add: object_call_def object_stream_def connect_def case_prod_beta Let_def
        call_closed_transport [OF t] stream_closed_transport [OF t])
qed

theorem closed_runtime_refuses_witness:
  "\<not> sr_ok (fst (object_call sample_world (str ''embed'') None [] 0
     (runtime_close (snd (connect ascii_lower (str ''rank'') [] None sample_runtime)))))"
  by (rule closed_runtime_refuses [OF reach_step [OF reach_step [OF sample_runtime_reachable step_connect] step_close],
        THEN conjunct1]) (simp add: runtime_close_def)

section \<open>Which model is connected\<close>

text \<open>
  On an open runtime with the built-in capabilities, connecting by the exact name of a capability
  gives a new model of that capability, found in the dict under that name.
\<close>

theorem connect_builtin:
  assumes "lowers_ascii lower" "c \<in> set BUILTIN_CAPABILITIES" "rt_capabilities rt = BUILTIN_CAPABILITIES"
    "\<not> rt_closed rt"
  shows "case connect lower (cap_name c) name timeout rt of (r, rt') \<Rightarrow>
    r = Inr (length (rt_heap rt)) \<and> mo_capability (rt_heap rt' ! length (rt_heap rt)) = c \<and>
    map_of (rt_models rt') (cap_name c) = Some (length (rt_heap rt)) \<and> take (length (rt_heap rt)) (rt_heap rt') = rt_heap rt"
proof -
  have "caps_find lower (cap_name c) BUILTIN_CAPABILITIES \<noteq> []"
    using assms(2) matches_own_name by (force simp: caps_find_def filter_empty_conv)
  moreover have "hd (caps_find lower (cap_name c) BUILTIN_CAPABILITIES) = c"
    by (rule builtin_find_first [OF assms(1,2)])
  ultimately obtain cs where "caps_find lower (cap_name c) BUILTIN_CAPABILITIES = c # cs"
    by (metis list.collapse)
  then show ?thesis using assms(3,4) by (simp add: connect_def Let_def new_model_def update_conv')
qed

theorem connect_builtin_witness:
  "map_of (rt_models (snd (connect ascii_lower (str ''rank'') [] None sample_runtime))) (str ''rank'') = Some 0"
  using connect_builtin [OF lowers_ascii_lower, of "new_capability (str ''rank'') (str ''Rank documents by relevance'')"
      sample_runtime "[]" None]
  by (simp add: sample_runtime_def BUILTIN_CAPABILITIES_def new_capability_def case_prod_beta)

text \<open>
  Connecting to any of several capabilities is connecting to the first that matches; when none
  does, or the list is empty, it raises CapabilityError and changes nothing.
\<close>

theorem connect_any_first:
  assumes "\<not> rt_closed rt"
  shows "connect_any lower qs name timeout rt =
    (case find (\<lambda>q. caps_find lower q (rt_capabilities rt) \<noteq> []) qs of
       None \<Rightarrow> (Inl (raised CapabilityError), rt)
     | Some q \<Rightarrow> connect lower q name timeout rt)"
proof (induction qs)
  case (Cons q qs)
  then show ?case
    using assms by (cases "caps_find lower q (rt_capabilities rt)") (simp_all add: connect_def Let_def)
qed simp

theorem connect_any_first_witness:
  "connect_any (\<lambda>s. s) [] [] None sample_runtime = (Inl (raised CapabilityError), sample_runtime)"
  using connect_any_first [of sample_runtime "\<lambda>s. s" "[]"] by (simp add: sample_runtime_def)

section \<open>Models that were replaced\<close>

lemma close_objects_closed:
  "i < length heap \<Longrightarrow> mo_closed (fold close_object is heap ! i) \<longleftrightarrow> i \<in> set is \<or> mo_closed (heap ! i)"
proof (induction "is" arbitrary: heap)
  case (Cons j js)
  have "mo_closed (close_object j heap ! i) \<longleftrightarrow> i = j \<or> mo_closed (heap ! i)"
    using Cons.prems by (auto simp: close_object_def model_close_def nth_list_update)
  moreover have "i < length (close_object j heap)" using Cons.prems by (simp add: close_object_def)
  ultimately show ?case using Cons.IH by auto
qed simp

lemma connect_Inr:
  assumes "connect lower q name timeout rt = (Inr i, rt')"
  obtains c where "hd (caps_find lower q (rt_capabilities rt)) = c" "i = length (rt_heap rt)"
    "rt_heap rt' = rt_heap rt @ [new_model c name (or_timeout timeout (rt_timeout rt))]"
    "rt_models rt' = AList.update (cap_name c) i (rt_models rt)" "rt_capabilities rt' = rt_capabilities rt"
  using assms by (auto simp: connect_def Let_def split: if_splits list.splits)

text \<open>
  Connecting twice to the same capability and closing the runtime closes the model connected
  second and leaves the first one open.
\<close>

theorem replaced_model_stays_open:
  assumes "runtime_wf rt" "connect lower q name1 timeout1 rt = (Inr i, rt1)" "connect lower q name2 timeout2 rt1 = (Inr j, rt2)"
  shows "\<not> mo_closed (rt_heap (runtime_close rt2) ! i) \<and> mo_closed (rt_heap (runtime_close rt2) ! j)"
proof -
  let ?c = "hd (caps_find lower q (rt_capabilities rt))"
  from assms(2) obtain
      i: "i = length (rt_heap rt)" "rt_heap rt1 = rt_heap rt @ [new_model ?c name1 (or_timeout timeout1 (rt_timeout rt))]"
        "rt_models rt1 = AList.update (cap_name ?c) i (rt_models rt)" "rt_capabilities rt1 = rt_capabilities rt"
    by (auto elim: connect_Inr)
  from assms(3) obtain
      j: "j = length (rt_heap rt1)" "rt_heap rt2 = rt_heap rt1 @ [new_model ?c name2 (or_timeout timeout2 (rt_timeout rt1))]"
        "rt_models rt2 = AList.update (cap_name ?c) j (rt_models rt1)"
    using i(4) by (auto elim: connect_Inr)
  have m2: "rt_models rt2 = AList.update (cap_name ?c) j (rt_models rt)" using i(3) j(3) by simp
  have "i \<notin> snd ` set (rt_models rt2)"
  proof
    assume "i \<in> snd ` set (rt_models rt2)"
    then obtain n where n: "(n, i) \<in> set (rt_models rt2)" by force
    then have "(n, i) \<in> set (rt_models rt)"
      using AList_update_member [of "(n, i)"] m2 i(1,2) j(1) by fastforce
    then show False using assms(1) i(1) by (auto simp: runtime_wf_def)
  qed
  moreover have "j \<in> snd ` set (rt_models rt2)"
    using j(3) by (metis image_eqI map_of_SomeD snd_conv update_conv' fun_upd_same)
  moreover have "i < length (rt_heap rt2)" "j < length (rt_heap rt2)" "\<not> mo_closed (rt_heap rt2 ! i)"
    using i j by (simp_all add: nth_append new_model_def)
  ultimately show ?thesis by (simp add: runtime_close_def close_objects_closed)
qed

theorem replaced_model_stays_open_witness:
  "\<not> mo_closed (rt_heap (runtime_close (snd (connect ascii_lower (str ''rank'') [] None
      (snd (connect ascii_lower (str ''rank'') [] None sample_runtime))))) ! 0)"
proof -
  let ?r1 = "snd (connect ascii_lower (str ''rank'') [] None sample_runtime)"
  let ?r2 = "snd (connect ascii_lower (str ''rank'') [] None ?r1)"
  have ne: "caps_find ascii_lower (str ''rank'') BUILTIN_CAPABILITIES \<noteq> []"
    using matches_own_name [of ascii_lower "new_capability (str ''rank'') (str ''Rank documents by relevance'')"]
    by (auto simp: caps_find_def filter_empty_conv BUILTIN_CAPABILITIES_def new_capability_def)
  then obtain c cs where f: "caps_find ascii_lower (str ''rank'') BUILTIN_CAPABILITIES = c # cs" by (cases "caps_find ascii_lower (str ''rank'') BUILTIN_CAPABILITIES") auto
  have "connect ascii_lower (str ''rank'') [] None sample_runtime = (Inr 0, ?r1)"
    "connect ascii_lower (str ''rank'') [] None ?r1 = (Inr 1, ?r2)"
    using f by (simp_all add: connect_def sample_runtime_def Let_def)
  moreover have "runtime_wf sample_runtime" using runtime_init_wf(1) [OF sample_runtime_init] .
  ultimately show ?thesis using replaced_model_stays_open by blast
qed

section \<open>Diagnostics, defaults and the choice of transport\<close>

text \<open>
  In every reachable state the diagnostics name the transport actually in use: native with zero
  copy exactly over the native transport, and otherwise HTTP with JSON, never none.
\<close>

theorem diagnose_truthful:
  assumes "runtime_reachable lower native http caps added rt"
  shows "ti_zero_copy (runtime_diagnose version isa rt) = transport_is_native (rt_transport rt) \<and>
    ti_transport (runtime_diagnose version isa rt) =
      (if transport_is_native (rt_transport rt) then str ''native'' else str ''http'') \<and>
    ti_codec (runtime_diagnose version isa rt) =
      (if transport_is_native (rt_transport rt) then str ''aicl-isa'' else str ''json'')"
proof -
  have "transport_is_native (rt_transport rt) = rt_native_available rt" "rt_native_available rt \<or> rt_http_enabled rt"
    using reachable_wf [OF assms] by (auto simp: runtime_wf_def)
  then show ?thesis by (auto simp: runtime_diagnose_def diagnose_def case_prod_beta Let_def)
qed

theorem diagnose_truthful_witness:
  "ti_transport (runtime_diagnose (Inl OSError) (Inr 1) sample_runtime) = str ''http''"
  using diagnose_truthful [OF sample_runtime_reachable, of "Inl OSError" "Inr 1"] by (simp add: sample_runtime_def)

text \<open>
  A runtime asked for HTTP uses the native transport whenever the library loads, and a runtime
  given an empty set of capabilities gets the built-in ones.
\<close>

theorem http_request_ignored:
  "(case runtime_init (Inr exports) True url timeout caps of
      Inl e \<Rightarrow> False
    | Inr rt \<Rightarrow> rt_transport rt = Native new_native \<and> rt_http_enabled rt) \<and>
   (case runtime_init (Inr exports) http url timeout (Some []) of
      Inl e \<Rightarrow> False
    | Inr rt \<Rightarrow> rt_capabilities rt = BUILTIN_CAPABILITIES)"
  by (simp add: runtime_init_def bindr_def or_builtin_def caps_len_def)

text \<open>Searching by text, connect may prefer another capability to the one of exactly the name asked for.\<close>

lemma connect_shadowed:
  fixes rt :: runtime
  defines "c1 \<equiv> new_capability (str ''embed'') (str ''Embed and rank'')"
    and "c2 \<equiv> new_capability (str ''rank'') (str ''Rank documents'')"
  assumes "rt_capabilities rt = [c1, c2]" "\<not> rt_closed rt"
  shows "has_capability (str ''rank'') rt \<and>
    mo_capability (rt_heap (snd (connect ascii_lower (str ''rank'') name timeout rt)) ! length (rt_heap rt)) = c1"
proof -
  have "cap_matches ascii_lower c1 (str ''rank'')"
    unfolding c1_def by code_simp
  then have "caps_find ascii_lower (str ''rank'') (rt_capabilities rt) = c1 # filter (\<lambda>c. cap_matches ascii_lower c (str ''rank'')) [c2]"
    by (simp add: caps_find_def assms(3))
  then show ?thesis
    using assms(3,4) by (simp add: connect_def Let_def has_capability_def caps_has_def new_model_def c2_def new_capability_def)
qed

end
