(* ===== verification/Py_Float_Text.thy ===== *)
theory Py_Float_Text
  imports Complex_Main Py_Float Py_Decimal
begin

text \<open>
  The text of a float and float arithmetic, as far as the code uses them: \<^verbatim>\<open>repr(x)\<close> (also \<^verbatim>\<open>str\<close> and
  an f-string), reading a decimal number back, \<^verbatim>\<open>x * 1000\<close>, \<^verbatim>\<open>n / 1000.0\<close>, \<^verbatim>\<open>int(x)\<close> and the format \<^verbatim>\<open>.4f\<close>.
  All of them are a rounding of an exact ratio of natural numbers, half to even. \<^verbatim>\<open>repr\<close> gives the
  shortest digits that read back as the same float, the nearest of them where there are two; the
  search for them ends at the latest at the exact decimal expansion, so reading the text of a
  finite float always gives the float back.
\<close>

section \<open>Values and rounding\<close>

definition f64_mant :: "f64 \<Rightarrow> nat" where
  "f64_mant x = (if f64_exp x = 0 then f64_frac x else 2 ^ 52 + f64_frac x)"

text \<open>A finite float is its mantissa times two to this power.\<close>

definition f64_scale :: "f64 \<Rightarrow> int" where
  "f64_scale x = int (max (f64_exp x) 1) - 1075"

definition f64_num :: "f64 \<Rightarrow> nat" where "f64_num x = f64_mant x * 2 ^ nat (f64_scale x)"
definition f64_den :: "f64 \<Rightarrow> nat" where "f64_den x = 2 ^ nat (- f64_scale x)"

definition f64_finite :: "f64 \<Rightarrow> bool" where "f64_finite x = (f64_exp x \<noteq> 2047)"

text \<open>The magnitude of a float as an integer: its bits without the sign.\<close>

definition f64_mag :: "f64 \<Rightarrow> nat" where "f64_mag x = unat x mod 2 ^ 63"

text \<open>\<open>p / q\<close> rounded half to even, and the exponent \<open>e\<close> with \<open>2\<^sup>e \<le> a / b < 2\<^sup>e\<^sup>+\<^sup>1\<close>.\<close>

definition round_div :: "nat \<Rightarrow> nat \<Rightarrow> nat" where
  "round_div p q =
     (let d = p div q; r = p mod q in if q < 2 * r \<or> (q = 2 * r \<and> odd d) then d + 1 else d)"

definition ratio_exp :: "nat \<Rightarrow> nat \<Rightarrow> int" where
  "ratio_exp a b =
     (let d = int (top_bit a) - int (top_bit b)
      in if b * 2 ^ nat d \<le> a * 2 ^ nat (- d) then d else d - 1)"

text \<open>The magnitude of the float nearest to \<open>a / b\<close>, infinity from half a unit above the largest.\<close>

definition f64_bits :: "nat \<Rightarrow> nat \<Rightarrow> nat" where
  "f64_bits a b =
     (if a = 0 then 0
      else
        let e = max (ratio_exp a b) (- 1022); s = 52 - e;
            q = round_div (a * 2 ^ nat s) (b * 2 ^ nat (- s))
        in min (2047 * 2 ^ 52) (nat (e + 1022) * 2 ^ 52 + q))"

definition f64_of_ratio :: "nat \<Rightarrow> nat \<Rightarrow> nat \<Rightarrow> f64" where
  "f64_of_ratio s a b = mk_f64 s (f64_bits a b)"

definition dec_bits :: "nat \<Rightarrow> int \<Rightarrow> nat" where
  "dec_bits d k = f64_bits (d * 10 ^ nat k) (10 ^ nat (- k))"

section \<open>Arithmetic\<close>

text \<open>\<^verbatim>\<open>x * n\<close> for a small positive integer, \<^verbatim>\<open>n / d\<close> for two integers that are floats, \<^verbatim>\<open>int(x)\<close>.\<close>

definition f64_times :: "f64 \<Rightarrow> nat \<Rightarrow> f64" where
  "f64_times x n = (if f64_finite x then f64_of_ratio (f64_sign x) (f64_num x * n) (f64_den x) else x)"

definition f64_quot :: "nat \<Rightarrow> nat \<Rightarrow> f64" where
  "f64_quot n d = f64_of_ratio 0 n d"

definition f64_trunc :: "f64 \<Rightarrow> int res" where
  "f64_trunc x =
     (if f64_nan x then Inl ValueError
      else if \<not> f64_finite x then Inl OverflowError
      else Inr ((if f64_sign x = 0 then 1 else - 1) * int (f64_num x div f64_den x)))"

section \<open>Shortest digits\<close>

text \<open>The exact decimal form: an integer and a power of ten.\<close>

definition f64_exact :: "f64 \<Rightarrow> nat \<times> int" where
  "f64_exact x =
     (if 0 \<le> f64_scale x then (f64_num x, 0) else (f64_mant x * 5 ^ nat (- f64_scale x), f64_scale x))"

text \<open>
  The two neighbours of the value with all but the last \<open>j\<close> digits of the exact form, the one of
  them that reads back as the float, the nearer where both do.
\<close>

definition short_cand :: "f64 \<Rightarrow> nat \<Rightarrow> (nat \<times> int) option" where
  "short_cand x j =
     (let (d, k) = f64_exact x; lo = d div 10 ^ j; r = d mod 10 ^ j; k' = k + int j;
          down = (dec_bits lo k' = f64_mag x); up = (dec_bits (lo + 1) k' = f64_mag x)
      in if down \<and> (\<not> up \<or> 2 * r < 10 ^ j \<or> (2 * r = 10 ^ j \<and> even lo)) then Some (lo, k')
         else if up then Some (lo + 1, k') else None)"

text \<open>Fewest digits first: \<open>j\<close> counts the digits left out.\<close>

primrec short_search :: "f64 \<Rightarrow> nat \<Rightarrow> nat \<times> int" where
  "short_search x 0 = f64_exact x"
| "short_search x (Suc j) = (case short_cand x (Suc j) of None \<Rightarrow> short_search x j | Some c \<Rightarrow> c)"

definition short_digits :: "f64 \<Rightarrow> nat \<times> int" where
  "short_digits x = short_search x (length (dec (fst (f64_exact x))) - 1)"

section \<open>The text\<close>

definition strip_zeros :: "pystr \<Rightarrow> pystr" where
  "strip_zeros ds = rev (dropWhile (\<lambda>c. c = 48) (rev ds))"

definition exp_text :: "int \<Rightarrow> pystr" where
  "exp_text e =
     (if e < 0 then 45 else 43) # (if \<bar>e\<bar> < 10 then [48] else []) @ dec (nat \<bar>e\<bar>)"

text \<open>Digits with the position of the decimal point, from the left.\<close>

definition repr_text :: "pystr \<Rightarrow> int \<Rightarrow> pystr" where
  "repr_text ds pt =
     (if pt \<le> - 4 \<or> 16 < pt then
        take 1 ds @ (if length ds \<le> 1 then [] else 46 # drop 1 ds) @ 101 # exp_text (pt - 1)
      else if pt \<le> 0 then [48, 46] @ replicate (nat (- pt)) 48 @ ds
      else if length ds \<le> nat pt then ds @ replicate (nat pt - length ds) 48 @ [46, 48]
      else take (nat pt) ds @ 46 # drop (nat pt) ds)"

text \<open>The text of a finite float without its sign, and \<^verbatim>\<open>repr\<close>.\<close>

definition mag_text :: "f64 \<Rightarrow> pystr" where
  "mag_text x =
     (if f64_mag x = 0 then [48, 46, 48]
      else let (d, k) = short_digits x in repr_text (strip_zeros (dec d)) (int (length (dec d)) + k))"

definition f64_repr :: "f64 \<Rightarrow> pystr" where
  "f64_repr x =
     (if f64_nan x then str ''nan''
      else (if f64_sign x = 0 then [] else [45]) @ (if f64_finite x then mag_text x else str ''inf''))"

text \<open>\<^verbatim>\<open>f"{x:.4f}"\<close>.\<close>

definition f64_fixed4 :: "f64 \<Rightarrow> pystr" where
  "f64_fixed4 x =
     (if f64_nan x then str ''nan''
      else (if f64_sign x = 0 then [] else [45]) @
        (if \<not> f64_finite x then str ''inf''
         else
           let n = round_div (f64_num x * 10000) (f64_den x); f = dec (n mod 10000)
           in dec (n div 10000) @ 46 # replicate (4 - length f) 48 @ f))"

section \<open>Rounding an exact value\<close>

lemma powi_test: "b * 2 ^ nat d \<le> a * 2 ^ nat (- d) \<longleftrightarrow> real b * 2 powi d \<le> real a"
proof -
  have "b * 2 ^ nat d \<le> a * 2 ^ nat (- d) \<longleftrightarrow> real (b * 2 ^ nat d) \<le> real (a * 2 ^ nat (- d))"
    by (rule of_nat_le_iff [symmetric])
  also have "\<dots> \<longleftrightarrow> real b * 2 powi d \<le> real a"
    by (cases "0 \<le> d") (simp_all add: power_int_def field_simps)
  finally show ?thesis .
qed

lemma top_bit_real:
  assumes "0 < n"
  shows "2 powi int (top_bit n) \<le> real n" "real n < 2 powi (int (top_bit n) + 1)"
proof -
  have "real (2 ^ top_bit n) \<le> real n" "real n < real (2 ^ Suc (top_bit n))"
    using top_bit_bounds [OF assms] by (simp_all only: of_nat_le_iff of_nat_less_iff)
  then show "2 powi int (top_bit n) \<le> real n" "real n < 2 powi (int (top_bit n) + 1)"
    by (simp_all add: power_int_add)
qed

lemma ratio_exp_bounds:
  assumes "0 < a" "0 < b"
  shows "2 powi ratio_exp a b * real b \<le> real a" "real a < 2 powi (ratio_exp a b + 1) * real b"
proof -
  let ?i = "int (top_bit a)" and ?j = "int (top_bit b)"
  let ?d = "?i - ?j"
  note a = top_bit_real [OF assms(1)]
  note b = top_bit_real [OF assms(2)]
  have up: "real a < 2 powi (?d + 1) * real b"
  proof -
    have "?i + 1 = (?d + 1) + ?j" by simp
    then have "(2::real) powi (?i + 1) = 2 powi (?d + 1) * 2 powi ?j" by (metis power_int_add zero_neq_numeral)
    then have "real a < 2 powi (?d + 1) * 2 powi ?j" using a(2) by metis
    also have "\<dots> \<le> 2 powi (?d + 1) * real b" using b(1) by simp
    finally show ?thesis .
  qed
  have low: "2 powi (?d - 1) * real b \<le> real a"
  proof -
    have "2 powi (?d - 1) * real b \<le> 2 powi (?d - 1) * 2 powi (?j + 1)" using b(2) by simp
    also have "\<dots> = 2 powi ?i" by (simp flip: power_int_add)
    finally show ?thesis using a(1) by linarith
  qed
  show "2 powi ratio_exp a b * real b \<le> real a" "real a < 2 powi (ratio_exp a b + 1) * real b"
    using up low by (auto simp: ratio_exp_def Let_def powi_test mult.commute)
qed

lemma ratio_exp_unique:
  assumes "0 < a" "0 < b" "2 powi e * real b \<le> real a" "real a < 2 powi (e + 1) * real b"
  shows "ratio_exp a b = e"
proof -
  have no: False if "2 powi i * real b \<le> real a" "real a < 2 powi (j + 1) * real b" "j < i" for i j
  proof -
    have "(2::real) powi (j + 1) \<le> 2 powi i" using that(3) by (intro power_int_increasing) auto
    then have "2 powi (j + 1) * real b \<le> 2 powi i * real b" by (rule mult_right_mono) simp
    with that(1,2) show False by linarith
  qed
  note r = ratio_exp_bounds [OF assms(1,2)]
  from no [OF assms(3) r(2)] no [OF r(1) assms(4)] show ?thesis by (metis linorder_neqE)
qed

lemma round_div_exact: "0 < q \<Longrightarrow> round_div (m * q) q = m"
  by (simp add: round_div_def)

lemma f64_split: "unat x = f64_sign x * 2 ^ 63 + (f64_exp x * 2 ^ 52 + f64_frac x)"
  using div_mod_split3 [of "unat x" "2 ^ 52" 2048]
  by (simp add: f64_sign_def f64_exp_def f64_frac_def)

lemma f64_field_bounds: "f64_sign x < 2" "f64_exp x < 2048" "f64_frac x < 2 ^ 52"
proof -
  have "unat x < 2 ^ 64" by (rule order.strict_trans2 [OF unsigned_less]) simp
  then show "f64_sign x < 2" unfolding f64_sign_def by (simp add: div_less_iff_less_mult)
qed (simp_all add: f64_exp_def f64_frac_def)

lemma f64_mag_fields: "f64_mag x = f64_exp x * 2 ^ 52 + f64_frac x"
proof -
  have "f64_exp x * 2 ^ 52 + f64_frac x < 2 ^ 63" using f64_field_bounds [of x] by simp
  then show ?thesis unfolding f64_mag_def f64_split [of x] by simp
qed

lemma mk_f64_mag: "mk_f64 (f64_sign x) (f64_mag x) = x"
  unfolding mk_f64_def f64_mag_fields f64_split [symmetric] by simp

lemma f64_den_pos [simp]: "0 < f64_den x"
  by (simp add: f64_den_def)

lemma f64_value: "real (f64_num x) / real (f64_den x) = real (f64_mant x) * 2 powi f64_scale x"
  by (cases "0 \<le> f64_scale x") (simp_all add: f64_num_def f64_den_def power_int_def field_simps)

text \<open>A ratio that is exactly a finite float rounds to it.\<close>

lemma f64_bits_exact:
  assumes "f64_finite x" "0 < b" "real a / real b = real (f64_num x) / real (f64_den x)"
  shows "f64_bits a b = f64_mag x"
proof (cases "f64_mant x = 0")
  case True
  then have "f64_exp x = 0" "f64_frac x = 0" by (auto simp: f64_mant_def split: if_splits)
  moreover have "a = 0" using assms(2,3) True by (simp add: f64_num_def)
  ultimately show ?thesis by (simp add: f64_bits_def f64_mag_fields)
next
  case False
  have a: "real a = real (f64_mant x) * 2 powi f64_scale x * real b"
    using assms(2,3) unfolding f64_value by (simp add: field_simps)
  with False assms(2) have a0: "0 < a"
    by (metis gr0I mult_eq_0_iff of_nat_0 of_nat_eq_0_iff power_int_not_zero zero_neq_numeral less_numeral_extra(3))
  note fb = f64_field_bounds [of x]
  have e: "max (ratio_exp a b) (- 1022) = 52 + f64_scale x"
  proof (cases "f64_exp x = 0")
    case True
    have "real (f64_mant x) < 2 powi 52" using True fb(3) by (simp add: f64_mant_def)
    then have "real a < 2 powi 52 * 2 powi f64_scale x * real b"
      unfolding a using assms(2) by (intro mult_strict_right_mono) simp_all
    moreover have "(2::real) powi 52 * 2 powi f64_scale x = 2 powi (- 1022)"
      using True by (simp add: f64_scale_def flip: power_int_add)
    ultimately have "2 powi ratio_exp a b * real b < 2 powi (- 1022) * real b"
      using ratio_exp_bounds(1) [OF a0 assms(2)] by (metis le_less_trans)
    then have "(2::real) powi ratio_exp a b < 2 powi (- 1022)" using assms(2) by (simp add: mult_less_cancel_right)
    then have "ratio_exp a b < - 1022"
      by (meson linorder_not_less not_le power_int_increasing one_le_numeral)
    then show ?thesis using True by (simp add: f64_scale_def)
  next
    case normal: False
    have m: "2 powi 52 \<le> real (f64_mant x)" "real (f64_mant x) < 2 powi 53"
      using normal fb(3) by (simp_all add: f64_mant_def)
    have "2 powi 52 * 2 powi f64_scale x * real b \<le> real a"
      unfolding a using m(1) by (intro mult_right_mono) simp_all
    moreover have "real a < 2 powi 53 * 2 powi f64_scale x * real b"
      unfolding a using m(2) assms(2) by (intro mult_strict_right_mono) simp_all
    ultimately have "ratio_exp a b = 52 + f64_scale x"
      by (intro ratio_exp_unique a0 assms(2)) (simp_all add: power_int_add add.assoc)
    then show ?thesis using normal by (simp add: f64_scale_def)
  qed
  have "real (a * 2 ^ nat (- f64_scale x)) = real (f64_mant x * (b * 2 ^ nat (f64_scale x)))"
    unfolding of_nat_mult a by (cases "0 \<le> f64_scale x") (simp_all add: power_int_def field_simps)
  then have "a * 2 ^ nat (- f64_scale x) = f64_mant x * (b * 2 ^ nat (f64_scale x))" by (simp only: of_nat_eq_iff)
  then have q: "round_div (a * 2 ^ nat (52 - (52 + f64_scale x))) (b * 2 ^ nat (- (52 - (52 + f64_scale x)))) = f64_mant x"
    using assms(2) by (simp add: round_div_exact)
  have n: "nat (52 + f64_scale x + 1022) = max (f64_exp x) 1 - 1"
    by (simp add: f64_scale_def nat_diff_distrib max_def)
  have "nat (52 + f64_scale x + 1022) * 2 ^ 52 + f64_mant x = f64_mag x"
  proof (cases "f64_exp x")
    case (Suc k)
    then show ?thesis unfolding n by (simp add: f64_mant_def f64_mag_fields)
  qed (simp add: f64_scale_def f64_mant_def f64_mag_fields)
  moreover have "f64_mag x \<le> 2047 * 2 ^ 52"
    using assms(1) fb by (simp add: f64_mag_fields f64_finite_def)
  ultimately show ?thesis using a0 by (simp only: f64_bits_def Let_def e q) simp
qed

lemma round_div_scale: "0 < c \<Longrightarrow> round_div (p * c) (q * c) = round_div p q"
  by (simp add: round_div_def Let_def mult.assoc [symmetric])

lemma round_div_ratio:
  assumes "0 < q" "0 < q'" "p * q' = p' * q"
  shows "round_div p q = round_div p' q'"
proof -
  have "round_div p q = round_div (p * q') (q * q')" using assms(2) by (simp add: round_div_scale)
  also have "\<dots> = round_div (p' * q) (q' * q)" by (simp only: assms(3) mult.commute)
  also have "\<dots> = round_div p' q'" using assms(1) by (rule round_div_scale)
  finally show ?thesis .
qed

text \<open>The rounding depends on the ratio only.\<close>

lemma f64_bits_ratio:
  assumes "0 < b" "0 < b'" "a * b' = a' * b"
  shows "f64_bits a b = f64_bits a' b'"
proof (cases "a = 0")
  case False
  then have a: "0 < a" "0 < a'" using assms by (auto intro: gr0I)
  have r: "real a * real b' = real a' * real b" using assms(3) by (metis of_nat_mult)
  note e = ratio_exp_bounds [OF a(1) assms(1)]
  have "2 powi ratio_exp a b * real b * real b' \<le> real a' * real b"
    using mult_right_mono [OF e(1), of "real b'"] r by simp
  then have "2 powi ratio_exp a b * real b' \<le> real a'" using assms(1) by (simp add: ac_simps)
  moreover have "real a' * real b < 2 powi (ratio_exp a b + 1) * real b * real b'"
    using mult_strict_right_mono [OF e(2), of "real b'"] r assms(2) by simp
  then have "real a' < 2 powi (ratio_exp a b + 1) * real b'" using assms(1) by (simp add: ac_simps)
  ultimately have "ratio_exp a' b' = ratio_exp a b" by (rule ratio_exp_unique [OF a(2) assms(2)])
  moreover have "round_div (a * 2 ^ m) (b * 2 ^ n) = round_div (a' * 2 ^ m) (b' * 2 ^ n)" for m n
    using assms by (intro round_div_ratio) (simp_all add: ac_simps)
  ultimately show ?thesis using a by (simp add: f64_bits_def Let_def)
qed (use assms in \<open>simp add: f64_bits_def\<close>)

lemma dec_bits_shift: "dec_bits (d * 10 ^ z) k = dec_bits d (k + int z)"
proof -
  have "z + nat k + nat (- (k + int z)) = nat (k + int z) + nat (- k)" by linarith
  then have "d * 10 ^ (z + nat k + nat (- (k + int z))) = d * 10 ^ (nat (k + int z) + nat (- k))" by simp
  then show ?thesis unfolding dec_bits_def by (intro f64_bits_ratio) (simp_all add: power_add ac_simps)
qed

section \<open>The shortest digits read back\<close>

lemma dec_bits_exact: "f64_finite x \<Longrightarrow> f64_exact x = (d, k) \<Longrightarrow> dec_bits d k = f64_mag x"
proof -
  assume x: "f64_finite x" "f64_exact x = (d, k)"
  have "real (d * 10 ^ nat k) / real (10 ^ nat (- k)) = real (f64_num x) / real (f64_den x)"
  proof (cases "0 \<le> f64_scale x")
    case False
    have "(10::real) ^ n = 5 ^ n * 2 ^ n" for n by (simp flip: power_mult_distrib)
    then show ?thesis using x(2) False by (auto simp: f64_exact_def f64_num_def f64_den_def field_simps)
  qed (use x(2) in \<open>auto simp: f64_exact_def f64_den_def\<close>)
  then show ?thesis unfolding dec_bits_def by (intro f64_bits_exact x(1)) simp_all
qed

lemma short_cand_reads: "short_cand x j = Some (d, k) \<Longrightarrow> dec_bits d k = f64_mag x"
  by (auto simp: short_cand_def Let_def split: prod.splits if_splits)

lemma short_search_reads: "f64_finite x \<Longrightarrow> short_search x j = (d, k) \<Longrightarrow> dec_bits d k = f64_mag x"
  by (induction j) (auto split: option.splits dest: dec_bits_exact short_cand_reads)

lemma short_digits_reads: "f64_finite x \<Longrightarrow> short_digits x = (d, k) \<Longrightarrow> dec_bits d k = f64_mag x"
  unfolding short_digits_def by (rule short_search_reads)

lemma dec_bits_0 [simp]: "dec_bits 0 k = 0"
  by (simp add: dec_bits_def f64_bits_def)

section \<open>The shape of the text\<close>

definition ascii_digit :: "nat \<Rightarrow> bool" where "ascii_digit c = (48 \<le> c \<and> c < 58)"

lemma ascii_digit_value: "ascii_digit c \<Longrightarrow> digit c = Some (c - 48)"
  using digit_ascii by (auto simp: ascii_digit_def dest!: le_Suc_ex)

lemma dec_ascii: "list_all ascii_digit (dec n)"
  using dec_chars by (auto simp: list_all_iff ascii_digit_def)

lemma digits_value_append: "digits_value (a @ b) = digits_value a * 10 ^ length b + digits_value b"
proof (induction b rule: rev_induct)
  case (snoc c b)
  then show ?case by (simp add: digits_value_snoc algebra_simps flip: append_assoc)
qed simp

lemma digits_value_zeros [simp]: "digits_value (replicate n 48) = 0"
proof (induction n)
  case (Suc n)
  then show ?case using digits_value_snoc [of "replicate n 48" 48] digit_ascii [of 0]
    by (simp flip: replicate_append_same)
qed simp

lemma digits_value_leading: "digits_value (48 # replicate n 48 @ ds) = digits_value ds"
  using digits_value_append [of "replicate (Suc n) 48" ds] digits_value_zeros [of "Suc n"] by simp

lemma dec_hd: "0 < n \<Longrightarrow> hd (dec n) \<noteq> 48"
proof (induction n rule: dec.induct)
  case (1 n)
  then show ?case by (subst dec.simps) (auto simp: hd_append)
qed

lemma strip_zeros_ends: "\<exists>z. ds = strip_zeros ds @ replicate z 48"
proof -
  have "takeWhile (\<lambda>c. c = 48) (rev ds) = replicate (length (takeWhile (\<lambda>c. c = 48) (rev ds))) 48"
    by (auto dest: set_takeWhileD intro: replicate_eqI)
  moreover have "ds = strip_zeros ds @ rev (takeWhile (\<lambda>c. c = 48) (rev ds))"
    unfolding strip_zeros_def rev_append [symmetric] by simp
  ultimately show ?thesis by (metis rev_replicate)
qed

text \<open>Integer part, fraction and exponent put together.\<close>

definition num_text :: "pystr \<Rightarrow> pystr \<Rightarrow> int option \<Rightarrow> pystr" where
  "num_text ip fp ex =
     ip @ (if fp = [] then [] else 46 # fp) @ (case ex of None \<Rightarrow> [] | Some e \<Rightarrow> 101 # exp_text e)"

text \<open>What makes the three parts a JSON number that is a float, and the magnitude it stands for.\<close>

definition num_parts :: "pystr \<Rightarrow> pystr \<Rightarrow> int option \<Rightarrow> bool" where
  "num_parts ip fp ex =
     (list_all ascii_digit ip \<and> list_all ascii_digit fp \<and> ip \<noteq> [] \<and> (ip = [48] \<or> hd ip \<noteq> 48) \<and>
      (fp \<noteq> [] \<or> ex \<noteq> None))"

definition num_bits :: "pystr \<Rightarrow> pystr \<Rightarrow> int \<Rightarrow> nat" where
  "num_bits ip fp e = dec_bits (digits_value (ip @ fp)) (e - int (length fp))"

lemma ex3I: "P a b c \<Longrightarrow> \<exists>x y z. P x y z"
  by blast

lemma repr_text_shape:
  assumes "ds \<noteq> []" "list_all ascii_digit ds" "hd ds \<noteq> 48"
  shows "\<exists>ip fp ex. repr_text ds pt = num_text ip fp ex \<and> num_parts ip fp ex \<and>
    num_bits ip fp (case ex of None \<Rightarrow> 0 | Some e \<Rightarrow> e) = dec_bits (digits_value ds) (pt - int (length ds))"
proof -
  obtain c cs where ds: "ds = c # cs" using assms(1) by (cases ds) simp
  consider "pt \<le> - 4 \<or> 16 < pt" | "- 4 < pt" "pt \<le> 0" | "0 < pt" "pt \<le> 16" "length ds \<le> nat pt"
    | "0 < pt" "pt \<le> 16" "nat pt < length ds" by linarith
  then show ?thesis
  proof cases
    case 1
    then show ?thesis using assms ds
      by (intro ex3I [of _ "[c]" cs "Some (pt - 1)"])
        (auto simp: repr_text_def num_text_def num_parts_def num_bits_def diff_diff_eq)
  next
    case 2
    then show ?thesis using assms
      by (intro ex3I [of _ "[48]" "replicate (nat (- pt)) 48 @ ds" None])
        (auto simp: repr_text_def num_text_def num_parts_def num_bits_def ascii_digit_def list_all_iff digits_value_leading)
  next
    case 3
    define n where "n = nat pt - length ds"
    have v: "digits_value (ds @ replicate n 48 @ [48]) = digits_value ds * 10 ^ (n + 1)"
      using digits_value_append [of ds "replicate (n + 1) 48"] digits_value_zeros [of "n + 1"] by (simp add: replicate_append_same)
    have "dec_bits (digits_value ds * 10 ^ (n + 1)) (- 1) = dec_bits (digits_value ds) (pt - int (length ds))"
      unfolding dec_bits_shift using 3 by (simp add: n_def nat_diff_distrib)
    then show ?thesis using assms 3
      by (intro ex3I [of _ "ds @ replicate n 48" "[48]" None])
        (auto simp: repr_text_def num_text_def num_parts_def num_bits_def ascii_digit_def list_all_iff v simp flip: n_def)
  next
    case 4
    then show ?thesis using assms
      by (intro ex3I [of _ "take (nat pt) ds" "drop (nat pt) ds" None])
        (auto simp: repr_text_def num_text_def num_parts_def num_bits_def list_all_iff
          dest: in_set_takeD in_set_dropD)
  qed
qed

lemma mag_text_shape:
  assumes "f64_finite x"
  shows "\<exists>ip fp ex. mag_text x = num_text ip fp ex \<and> num_parts ip fp ex \<and>
    num_bits ip fp (case ex of None \<Rightarrow> 0 | Some e \<Rightarrow> e) = f64_mag x"
proof (cases "f64_mag x = 0")
  case True
  then show ?thesis
    by (intro ex3I [of _ "[48]" "[48]" None])
      (simp add: mag_text_def num_text_def num_parts_def num_bits_def ascii_digit_def digits_value_zeros [of 2, simplified numeral_2_eq_2 replicate.simps])
next
  case False
  obtain d k where d: "short_digits x = (d, k)" by fastforce
  have bits: "dec_bits d k = f64_mag x" by (rule short_digits_reads [OF assms d])
  then have "0 < d" using False by (auto intro: gr0I)
  obtain z where z: "dec d = strip_zeros (dec d) @ replicate z 48" using strip_zeros_ends by blast
  let ?ds = "strip_zeros (dec d)"
  have ne: "?ds \<noteq> []" using dec_hd [OF \<open>0 < d\<close>] dec_nonempty [of d] z by (metis append_Nil hd_replicate replicate_empty)
  have hd: "hd ?ds \<noteq> 48" using dec_hd [OF \<open>0 < d\<close>] z ne by (metis hd_append2)
  have dig: "list_all ascii_digit ?ds" using dec_ascii [of d] z by (metis list_all_append)
  have "digits_value (dec d) = digits_value ?ds * 10 ^ z"
    by (subst z) (simp add: digits_value_append)
  then have "d = digits_value ?ds * 10 ^ z" by simp
  then have "dec_bits (digits_value ?ds) (k + int z) = f64_mag x" using bits dec_bits_shift by metis
  moreover have "int (length (dec d)) + k - int (length ?ds) = k + int z" by (subst z) simp
  ultimately obtain ip fp ex where "repr_text ?ds (int (length (dec d)) + k) = num_text ip fp ex"
    "num_parts ip fp ex" "num_bits ip fp (case ex of None \<Rightarrow> 0 | Some e \<Rightarrow> e) = f64_mag x"
    using repr_text_shape [OF ne dig hd, of "int (length (dec d)) + k"] by metis
  then show ?thesis using False d by (intro exI conjI) (simp add: mag_text_def)
qed

end
