(* ===== verification/Py_Json.thy ===== *)
theory Py_Json
  imports Py_Float_Text "HOL-Library.AList"
begin

text \<open>
  The \<^verbatim>\<open>json\<close> module as the semantic layer uses it: \<^verbatim>\<open>json.dumps\<close> with either setting of \<^verbatim>\<open>ensure_ascii\<close> and any
  separators, and \<^verbatim>\<open>json.loads\<close> of a string or of bytes (with its detection of the encoding), as the
  accelerated scanner of CPython implements them. The scanner gets a bound on its calls that is shown
  to be enough for every text. Shown: reading a dumped value gives the value back, provided its strings
  have no surrogates, its dicts no repeated keys, its integers at most 4300 digits and its floats are
  not NaN.
\<close>

section \<open>Values\<close>

datatype json =
    JNull | JBool bool | JInt int | JFloat f64 | JStr pystr | JList "json list" | JObj "(pystr \<times> json) list"

text \<open>\<^verbatim>\<open>sep.join(parts)\<close>.\<close>

fun join_with :: "'a list \<Rightarrow> 'a list list \<Rightarrow> 'a list" where
  "join_with sep [] = []"
| "join_with sep [x] = x"
| "join_with sep (x # y # ys) = x @ sep @ join_with sep (y # ys)"

section \<open>dumps\<close>

definition hex_digit :: "nat \<Rightarrow> nat" where
  "hex_digit d = (if d < 10 then 48 + d else 87 + d)"

definition hex4 :: "nat \<Rightarrow> pystr" where
  "hex4 n = [hex_digit (n div 4096 mod 16), hex_digit (n div 256 mod 16), hex_digit (n div 16 mod 16), hex_digit (n mod 16)]"

definition json_char :: "bool \<Rightarrow> nat \<Rightarrow> pystr" where
  "json_char ascii c =
     (if c = 34 \<or> c = 92 then [92, c]
      else if c = 8 then [92, 98] else if c = 9 then [92, 116] else if c = 10 then [92, 110]
      else if c = 12 then [92, 102] else if c = 13 then [92, 114]
      else if c < 32 then [92, 117] @ hex4 c
      else if \<not> ascii \<or> c < 127 then [c]
      else if c < 0x10000 then [92, 117] @ hex4 c
      else [92, 117] @ hex4 (0xD800 + (c - 0x10000) div 1024) @ [92, 117] @ hex4 (0xDC00 + (c - 0x10000) mod 1024))"

definition json_string :: "bool \<Rightarrow> pystr \<Rightarrow> pystr" where
  "json_string ascii s = 34 # concat (map (json_char ascii) s) @ [34]"

text \<open>\<^verbatim>\<open>repr(n)\<close> refuses integers with too many digits.\<close>

definition json_int :: "int \<Rightarrow> pystr res" where
  "json_int n = (if length (dec (nat \<bar>n\<bar>)) > INT_MAX_STR_DIGITS then Inl ValueError else Inr (dec_int n))"

definition json_float :: "f64 \<Rightarrow> pystr" where
  "json_float x =
     (if f64_nan x then str ''NaN''
      else if f64_finite x then f64_repr x
      else if f64_sign x = 0 then str ''Infinity'' else str ''-Infinity'')"

fun json_dumps :: "bool \<Rightarrow> pystr \<Rightarrow> pystr \<Rightarrow> json \<Rightarrow> pystr res" where
  "json_dumps ascii isep ksep JNull = Inr (str ''null'')"
| "json_dumps ascii isep ksep (JBool b) = Inr (if b then str ''true'' else str ''false'')"
| "json_dumps ascii isep ksep (JInt n) = json_int n"
| "json_dumps ascii isep ksep (JFloat x) = Inr (json_float x)"
| "json_dumps ascii isep ksep (JStr s) = Inr (json_string ascii s)"
| "json_dumps ascii isep ksep (JList l) =
     bindr (mapr (json_dumps ascii isep ksep) l) (\<lambda>ts. Inr (91 # join_with isep ts @ [93]))"
| "json_dumps ascii isep ksep (JObj d) =
     bindr (mapr (\<lambda>(k, v). bindr (json_dumps ascii isep ksep v) (\<lambda>t. Inr (json_string ascii k @ ksep @ t))) d)
       (\<lambda>ts. Inr (123 # join_with isep ts @ [125]))"

section \<open>Strings and numbers of loads\<close>

definition is_ws :: "nat \<Rightarrow> bool" where "is_ws c = (c = 32 \<or> c = 9 \<or> c = 10 \<or> c = 13)"

abbreviation skip_ws :: "pystr \<Rightarrow> pystr" where "skip_ws \<equiv> dropWhile is_ws"

definition hex_val :: "nat \<Rightarrow> nat option" where
  "hex_val c =
     (if 48 \<le> c \<and> c < 58 then Some (c - 48) else if 97 \<le> c \<and> c < 103 then Some (c - 87)
      else if 65 \<le> c \<and> c < 71 then Some (c - 55) else None)"

fun hex4_val :: "pystr \<Rightarrow> (nat \<times> pystr) option" where
  "hex4_val (a # b # c # d # r) =
     (case (hex_val a, hex_val b, hex_val c, hex_val d) of
        (Some w, Some x, Some y, Some z) \<Rightarrow> Some (w * 4096 + x * 256 + y * 16 + z, r)
      | _ \<Rightarrow> None)"
| "hex4_val _ = None"

definition simple_escape :: "nat \<Rightarrow> nat option" where
  "simple_escape e =
     map_of [(34, 34), (92, 92), (47, 47), (98, 8), (102, 12), (110, 10), (114, 13), (116, 9)] e"

definition is_high :: "nat \<Rightarrow> bool" where "is_high c = (0xD800 \<le> c \<and> c < 0xDC00)"
definition is_low :: "nat \<Rightarrow> bool" where "is_low c = (0xDC00 \<le> c \<and> c < 0xE000)"

text \<open>One \<^verbatim>\<open>\uXXXX\<close>, joined with a following one where the two are a surrogate pair.\<close>

definition unicode_escape :: "pystr \<Rightarrow> (nat \<times> pystr) option" where
  "unicode_escape s =
     (case hex4_val s of
        None \<Rightarrow> None
      | Some (u, r) \<Rightarrow>
          if is_high u \<and> take 2 r = [92, 117] then
            (case hex4_val (drop 2 r) of
               None \<Rightarrow> None
             | Some (l, r') \<Rightarrow>
                 if is_low l then Some (0x10000 + (u - 0xD800) * 1024 + (l - 0xDC00), r') else Some (u, r))
          else Some (u, r))"

lemma hex4_val_shorter: "hex4_val s = Some (u, r) \<Longrightarrow> length r < length s"
  by (cases s rule: hex4_val.cases) (auto split: option.splits)

lemma unicode_escape_shorter: "unicode_escape s = Some (u, r) \<Longrightarrow> length r < length s"
  by (auto simp: unicode_escape_def split: option.splits if_splits dest!: hex4_val_shorter)

text \<open>The rest of a string after its opening quote, with what follows the closing one.\<close>

function scan_string :: "pystr \<Rightarrow> (pystr \<times> pystr) option" where
  "scan_string s =
     (case s of
        [] \<Rightarrow> None
      | c # r \<Rightarrow>
          if c = 34 then Some ([], r)
          else
            case (if c < 32 then None
                  else if c \<noteq> 92 then Some (c, r)
                  else case r of
                      [] \<Rightarrow> None
                    | e # t \<Rightarrow> if e = 117 then unicode_escape t else map_option (\<lambda>x. (x, t)) (simple_escape e)) of
              None \<Rightarrow> None
            | Some (x, t) \<Rightarrow> map_option (\<lambda>(y, u). (x # y, u)) (scan_string t))"
  by pat_completeness auto
termination
  by (relation "measure length") (auto split: if_splits list.splits dest: unicode_escape_shorter)

declare scan_string.simps [simp del]

definition scan_exp :: "pystr \<Rightarrow> int option \<times> pystr" where
  "scan_exp s =
     (case s of
        [] \<Rightarrow> (None, s)
      | e # t \<Rightarrow>
          let t' = (if take 1 t = [43] \<or> take 1 t = [45] then drop 1 t else t);
              ds = takeWhile ascii_digit t'
          in if (e = 101 \<or> e = 69) \<and> ds \<noteq> []
             then (Some ((if take 1 t = [45] then - 1 else 1) * int (digits_value ds)), dropWhile ascii_digit t')
             else (None, s))"

definition scan_frac :: "pystr \<Rightarrow> pystr \<times> pystr" where
  "scan_frac s =
     (if take 1 s = [46] then
        let fp = takeWhile ascii_digit (drop 1 s) in if fp = [] then ([], s) else (fp, dropWhile ascii_digit (drop 1 s))
      else ([], s))"

definition scan_number :: "pystr \<Rightarrow> (json \<times> pystr) res" where
  "scan_number s =
     (let neg = (take 1 s = [45]); s1 = (if neg then drop 1 s else s);
          ip = (if take 1 s1 = [48] then [48] else takeWhile ascii_digit s1)
      in if ip = [] then Inl JSONDecodeError
         else
           let (fp, s2) = scan_frac (drop (length ip) s1); (ex, s3) = scan_exp s2 in
           if fp = [] \<and> ex = None then
             (if length ip > INT_MAX_STR_DIGITS then Inl ValueError
              else Inr (JInt ((if neg then - 1 else 1) * int (digits_value ip)), s3))
           else
             Inr (JFloat (mk_f64 (if neg then 1 else 0) (num_bits ip fp (case ex of None \<Rightarrow> 0 | Some e \<Rightarrow> e))), s3))"

section \<open>loads\<close>

definition f64_qnan :: f64 where "f64_qnan = 0x7FF8000000000000"
definition f64_inf :: "nat \<Rightarrow> f64" where "f64_inf s = mk_f64 s (2047 * 2 ^ 52)"

definition json_words :: "(string \<times> json) list" where
  "json_words =
    [(''null'', JNull), (''true'', JBool True), (''false'', JBool False), (''NaN'', JFloat f64_qnan),
     (''Infinity'', JFloat (f64_inf 0)), (''-Infinity'', JFloat (f64_inf 1))]"

definition scan_word :: "pystr \<Rightarrow> (json \<times> pystr) option" where
  "scan_word s =
     map_option (\<lambda>(w, v). (v, drop (length w) s)) (find (\<lambda>(w, v). take (length w) s = str w) json_words)"

text \<open>
  \<^verbatim>\<open>scan_once\<close>: a value, the members of an object from a quote on, the items of a list. Each call counts
  down.
\<close>

fun scan_value :: "nat \<Rightarrow> pystr \<Rightarrow> (json \<times> pystr) res"
  and scan_members :: "nat \<Rightarrow> (pystr \<times> json) list \<Rightarrow> pystr \<Rightarrow> (json \<times> pystr) res"
  and scan_items :: "nat \<Rightarrow> json list \<Rightarrow> pystr \<Rightarrow> (json \<times> pystr) res" where
  "scan_value 0 s = Inl NestingExhausted"
| "scan_value (Suc n) s =
     (case s of
        [] \<Rightarrow> Inl JSONDecodeError
      | c # r \<Rightarrow>
          if c = 34 then (case scan_string r of None \<Rightarrow> Inl JSONDecodeError | Some (x, t) \<Rightarrow> Inr (JStr x, t))
          else if c = 123 then
            (if take 1 (skip_ws r) = [125] then Inr (JObj [], drop 1 (skip_ws r)) else scan_members n [] (skip_ws r))
          else if c = 91 then
            (if take 1 (skip_ws r) = [93] then Inr (JList [], drop 1 (skip_ws r)) else scan_items n [] (skip_ws r))
          else case scan_word s of None \<Rightarrow> scan_number s | Some p \<Rightarrow> Inr p)"
| "scan_members 0 acc s = Inl NestingExhausted"
| "scan_members (Suc n) acc s =
     (if take 1 s \<noteq> [34] then Inl JSONDecodeError
      else case scan_string (drop 1 s) of
        None \<Rightarrow> Inl JSONDecodeError
      | Some (k, r) \<Rightarrow>
          if take 1 (skip_ws r) \<noteq> [58] then Inl JSONDecodeError
          else
            bindr (scan_value n (skip_ws (drop 1 (skip_ws r)))) (\<lambda>(v, t).
              let acc' = AList.update k v acc; u = skip_ws t in
              if take 1 u = [125] then Inr (JObj acc', drop 1 u)
              else if take 1 u = [44] then scan_members n acc' (skip_ws (drop 1 u))
              else Inl JSONDecodeError))"
| "scan_items 0 acc s = Inl NestingExhausted"
| "scan_items (Suc n) acc s =
     bindr (scan_value n s) (\<lambda>(v, t).
       let acc' = acc @ [v]; u = skip_ws t in
       if take 1 u = [93] then Inr (JList acc', drop 1 u)
       else if take 1 u = [44] then scan_items n acc' (skip_ws (drop 1 u))
       else Inl JSONDecodeError)"

definition json_decode :: "pystr \<Rightarrow> json res" where
  "json_decode s =
     bindr (scan_value (2 * length s + 1) (skip_ws s)) (\<lambda>(v, r).
       if skip_ws r = [] then Inr v else Inl JSONDecodeError)"

text \<open>\<^verbatim>\<open>json.loads\<close> of a string.\<close>

definition json_loads :: "pystr \<Rightarrow> json res" where
  "json_loads s = (if take 1 s = [0xFEFF] then Inl JSONDecodeError else json_decode s)"

section \<open>loads of bytes\<close>

text \<open>The decoders with \<^verbatim>\<open>surrogatepass\<close>: UTF-8 that also takes the three bytes of a surrogate, UTF-16 that keeps an unpaired one.\<close>

definition utf8_next_pass :: "bytes \<Rightarrow> (nat \<times> bytes) option" where
  "utf8_next_pass bs =
     (case utf8_next bs of
        Some p \<Rightarrow> Some p
      | None \<Rightarrow>
          (case bs of
             a # b # c # r \<Rightarrow>
               if a = 0xED \<and> is_cont b \<and> is_cont c
               then Some (0xD000 + (unat b - 0x80) * 64 + (unat c - 0x80), r) else None
           | _ \<Rightarrow> None))"

lemma utf8_next_pass_shorter: "utf8_next_pass bs = Some (c, r) \<Longrightarrow> length r < length bs"
  by (auto simp: utf8_next_pass_def split: option.splits list.splits if_splits dest: utf8_next_shorter)

function utf8_decode_pass :: "bytes \<Rightarrow> pystr res" where
  "utf8_decode_pass bs =
     (if bs = [] then Inr []
      else case utf8_next_pass bs of
        None \<Rightarrow> Inl UnicodeDecodeError
      | Some (c, r) \<Rightarrow> bindr (utf8_decode_pass r) (\<lambda>s. Inr (c # s)))"
  by pat_completeness auto
termination
  by (relation "measure length") (auto dest: utf8_next_pass_shorter)

declare utf8_decode_pass.simps [simp del]

text \<open>Groups of \<open>n\<close> bytes in either byte order.\<close>

definition code_units :: "nat \<Rightarrow> bool \<Rightarrow> bytes \<Rightarrow> nat list res" where
  "code_units n be bs =
     (if length bs mod n \<noteq> 0 then Inl UnicodeDecodeError
      else Inr (map (\<lambda>i. (if be then be_val else le_val) (slice bs (i * n) (i * n + n))) [0..<length bs div n]))"

fun join_surrogates :: "nat list \<Rightarrow> pystr" where
  "join_surrogates (h # l # r) =
     (if is_high h \<and> is_low l then (0x10000 + (h - 0xD800) * 1024 + (l - 0xDC00)) # join_surrogates r
      else h # join_surrogates (l # r))"
| "join_surrogates r = r"

definition utf16_decode_pass :: "bool \<Rightarrow> bytes \<Rightarrow> pystr res" where
  "utf16_decode_pass be bs = bindr (code_units 2 be bs) (\<lambda>us. Inr (join_surrogates us))"

definition utf32_decode_pass :: "bool \<Rightarrow> bytes \<Rightarrow> pystr res" where
  "utf32_decode_pass be bs =
     bindr (code_units 4 be bs) (\<lambda>us. if list_all (\<lambda>c. c < 0x110000) us then Inr us else Inl UnicodeDecodeError)"

text \<open>\<^verbatim>\<open>json.detect_encoding\<close> and the decoding with what it finds.\<close>

definition json_text :: "bytes \<Rightarrow> pystr res" where
  "json_text b =
     (if take 4 b = [0x00, 0x00, 0xFE, 0xFF] then utf32_decode_pass True (drop 4 b)
      else if take 4 b = [0xFF, 0xFE, 0x00, 0x00] then utf32_decode_pass False (drop 4 b)
      else if take 2 b = [0xFE, 0xFF] then utf16_decode_pass True (drop 2 b)
      else if take 2 b = [0xFF, 0xFE] then utf16_decode_pass False (drop 2 b)
      else if take 3 b = [0xEF, 0xBB, 0xBF] then utf8_decode_pass (drop 3 b)
      else if 4 \<le> length b \<and> b ! 0 = 0 then (if b ! 1 \<noteq> 0 then utf16_decode_pass True b else utf32_decode_pass True b)
      else if 4 \<le> length b \<and> b ! 1 = 0 then
        (if b ! 2 \<noteq> 0 \<or> b ! 3 \<noteq> 0 then utf16_decode_pass False b else utf32_decode_pass False b)
      else if length b = 2 \<and> b ! 0 = 0 then utf16_decode_pass True b
      else if length b = 2 \<and> b ! 1 = 0 then utf16_decode_pass False b
      else utf8_decode_pass b)"

definition json_loads_bytes :: "bytes \<Rightarrow> json res" where
  "json_loads_bytes b = bindr (json_text b) json_decode"

section \<open>Reading a dumped string\<close>

lemma hex_val_digit: "d < 16 \<Longrightarrow> hex_val (hex_digit d) = Some d"
  by (auto simp: hex_val_def hex_digit_def)

lemma hex4_val_hex4: "n < 65536 \<Longrightarrow> hex4_val (hex4 n @ r) = Some (n, r)"
proof -
  assume n: "n < 65536"
  then have "n div 4096 mod 16 = n div 4096" "n div 4096 < 16" by (simp_all add: less_mult_imp_div_less)
  moreover have "n div 4096 * 4096 + n div 256 mod 16 * 256 + n div 16 mod 16 * 16 + n mod 16 = n"
  proof -
    have "n div 4096 = n div 256 div 16" "n div 256 = n div 16 div 16" by (simp_all add: div_mult2_eq [symmetric])
    then show ?thesis using div_mult_mod_eq [of n 16] div_mult_mod_eq [of "n div 16" 16] div_mult_mod_eq [of "n div 256" 16]
      by linarith
  qed
  ultimately show ?thesis by (simp add: hex4_def hex_val_digit)
qed

lemma scan_string_Cons:
  "scan_string (c # r) =
     (if c = 34 then Some ([], r)
      else
        case (if c < 32 then None
              else if c \<noteq> 92 then Some (c, r)
              else case r of
                  [] \<Rightarrow> None
                | e # t \<Rightarrow> if e = 117 then unicode_escape t else map_option (\<lambda>x. (x, t)) (simple_escape e)) of
          None \<Rightarrow> None
        | Some (x, t) \<Rightarrow> map_option (\<lambda>(y, u). (x # y, u)) (scan_string t))"
  by (subst scan_string.simps) simp

lemma unicode_escape_bmp: "n < 65536 \<Longrightarrow> \<not> is_high n \<Longrightarrow> unicode_escape (hex4 n @ t) = Some (n, t)"
  by (simp add: unicode_escape_def hex4_val_hex4)

lemma unicode_escape_pair:
  assumes "0x10000 \<le> c" "c < 0x110000"
  shows "unicode_escape (hex4 (0xD800 + (c - 0x10000) div 1024) @ [92, 117] @ hex4 (0xDC00 + (c - 0x10000) mod 1024) @ t)
    = Some (c, t)"
proof -
  define h l where "h = (c - 0x10000) div 1024" and "l = (c - 0x10000) mod 1024"
  have "h < 1024" "l < 1024" using assms by (simp_all add: h_def l_def less_mult_imp_div_less)
  moreover have "c = 0x10000 + h * 1024 + l" using assms(1) div_mult_mod_eq [of "c - 0x10000" 1024] by (simp add: h_def l_def)
  ultimately show ?thesis unfolding h_def [symmetric] l_def [symmetric]
    by (simp add: unicode_escape_def hex4_val_hex4 is_high_def is_low_def)
qed

lemma scan_string_char:
  assumes "scalar c"
  shows "scan_string (json_char ascii c @ t) = map_option (\<lambda>(y, u). (c # y, u)) (scan_string t)"
proof -
  consider "c \<in> {34, 92, 8, 9, 10, 12, 13}" | "c \<notin> {34, 92, 8, 9, 10, 12, 13}" "c < 32"
    | "c \<notin> {34, 92}" "32 \<le> c" "\<not> ascii \<or> c < 127" | "ascii" "127 \<le> c" "c < 0x10000" | "ascii" "0x10000 \<le> c"
    by force
  then show ?thesis
  proof cases
    case 1
    then show ?thesis by (auto simp: json_char_def scan_string_Cons simple_escape_def)
  next
    case 2
    then show ?thesis by (simp add: json_char_def scan_string_Cons unicode_escape_bmp is_high_def)
  next
    case 3
    then show ?thesis by (auto simp: json_char_def scan_string_Cons)
  next
    case 4
    then have "\<not> is_high c" using assms by (auto simp: scalar_def is_high_def)
    with 4 show ?thesis by (simp add: json_char_def scan_string_Cons unicode_escape_bmp)
  next
    case 5
    then have "c < 0x110000" using assms by (auto simp: scalar_def)
    with 5 show ?thesis using unicode_escape_pair [of c t] by (simp add: json_char_def scan_string_Cons)
  qed
qed

lemma scan_string_dumped: "encodable s \<Longrightarrow> scan_string (concat (map (json_char ascii) s) @ 34 # r) = Some (s, r)"
  by (induction s) (simp_all add: scan_string_Cons encodable_def scan_string_char)

section \<open>Reading a dumped number\<close>

text \<open>What follows a number does not continue it.\<close>

definition num_end :: "pystr \<Rightarrow> bool" where
  "num_end r = (case r of [] \<Rightarrow> True | c # _ \<Rightarrow> \<not> ascii_digit c \<and> c \<noteq> 46 \<and> c \<noteq> 101 \<and> c \<noteq> 69)"

definition digits_end :: "pystr \<Rightarrow> bool" where
  "digits_end r = (case r of [] \<Rightarrow> True | c # _ \<Rightarrow> \<not> ascii_digit c)"

lemma span_digits:
  assumes "list_all ascii_digit ds" "digits_end r"
  shows "takeWhile ascii_digit (ds @ r) = ds" "dropWhile ascii_digit (ds @ r) = r"
  using assms by (auto simp: list_all_iff takeWhile_append dropWhile_append digits_end_def split: list.splits)

lemma num_end_digits: "num_end r \<Longrightarrow> digits_end r"
  by (auto simp: num_end_def digits_end_def split: list.splits)

lemma scan_exp_none: "num_end r \<Longrightarrow> scan_exp r = (None, r)"
  by (auto simp: scan_exp_def num_end_def Let_def split: list.splits)

lemma exp_text_read:
  "\<exists>sg ds. exp_text e = sg # ds \<and> (sg = 43 \<or> sg = 45) \<and> list_all ascii_digit ds \<and> ds \<noteq> [] \<and>
     (if sg = 45 then - 1 else 1) * int (digits_value ds) = e"
  using dec_ascii [of "nat \<bar>e\<bar>"] digits_value_leading [of 0 "dec (nat \<bar>e\<bar>)"]
  by (auto simp: exp_text_def ascii_digit_def)

lemma scan_exp_text: "num_end r \<Longrightarrow> scan_exp (101 # exp_text e @ r) = (Some e, r)"
proof -
  assume r: "num_end r"
  obtain sg ds where x: "exp_text e = sg # ds" "sg = 43 \<or> sg = 45" "list_all ascii_digit ds" "ds \<noteq> []"
    "(if sg = 45 then - 1 else 1) * int (digits_value ds) = e" using exp_text_read by blast
  then show ?thesis using span_digits [OF x(3) num_end_digits [OF r]]
    by (auto simp: scan_exp_def Let_def)
qed

lemma scan_frac_text:
  assumes "list_all ascii_digit fp" "digits_end r" "take 1 r \<noteq> [46]"
  shows "scan_frac ((if fp = [] then [] else 46 # fp) @ r) = (fp, r)"
  using span_digits [OF assms(1,2)] assms(3) by (simp add: scan_frac_def Let_def)

lemma scan_number_split:
  assumes "ip \<noteq> []" "list_all ascii_digit ip" "ip = [48] \<or> hd ip \<noteq> 48" "digits_end F"
    and "scan_frac F = (fp, s2)" "scan_exp s2 = (ex, s3)"
  shows "scan_number ((if neg then [45] else []) @ ip @ F) =
    (if fp = [] \<and> ex = None then
       (if length ip > INT_MAX_STR_DIGITS then Inl ValueError
        else Inr (JInt ((if neg then - 1 else 1) * int (digits_value ip)), s3))
     else Inr (JFloat (mk_f64 (if neg then 1 else 0) (num_bits ip fp (case ex of None \<Rightarrow> 0 | Some e \<Rightarrow> e))), s3))"
proof -
  obtain c cs where ip: "ip = c # cs" using assms(1) by (cases ip) simp
  have "c \<noteq> 45" using assms(2) ip by (auto simp: ascii_digit_def)
  then have neg: "(take 1 ((if neg then [45] else []) @ ip @ F) = [45]) = neg"
    and s1: "(if neg then drop 1 ((if neg then [45] else []) @ ip @ F) else (if neg then [45] else []) @ ip @ F) = ip @ F"
    using ip by simp_all
  have i: "(if take 1 (ip @ F) = [48] then [48] else takeWhile ascii_digit (ip @ F)) = ip"
    using span_digits(1) [OF assms(2,4)] assms(3) ip by auto
  have d: "drop (length ip) (ip @ F) = F" by simp
  show ?thesis
    unfolding scan_number_def Let_def neg s1 i d assms(5) prod.case assms(6) using assms(1) by (simp only: if_False)
qed

lemma scan_number_parts:
  assumes "num_parts ip fp ex" "num_end r"
  shows "scan_number ((if neg then [45] else []) @ num_text ip fp ex @ r) =
    Inr (JFloat (mk_f64 (if neg then 1 else 0) (num_bits ip fp (case ex of None \<Rightarrow> 0 | Some e \<Rightarrow> e))), r)"
proof -
  let ?E = "(case ex of None \<Rightarrow> [] | Some e \<Rightarrow> 101 # exp_text e) @ r"
  let ?F = "(if fp = [] then [] else 46 # fp) @ ?E"
  have ip: "ip \<noteq> []" "list_all ascii_digit ip" "ip = [48] \<or> hd ip \<noteq> 48" "list_all ascii_digit fp" "\<not> (fp = [] \<and> ex = None)"
    using assms(1) by (auto simp: num_parts_def)
  have e: "digits_end ?E" "take 1 ?E \<noteq> [46]" "scan_exp ?E = (ex, r)"
    using assms(2) scan_exp_text [OF assms(2)] scan_exp_none [OF assms(2)]
    by (auto simp: digits_end_def num_end_def ascii_digit_def split: option.splits list.splits)
  have f: "digits_end ?F" using e(1) by (auto simp: digits_end_def ascii_digit_def)
  have t: "num_text ip fp ex @ r = ip @ ?F" by (simp add: num_text_def)
  show ?thesis
    unfolding t scan_number_split [OF ip(1-3) f scan_frac_text [OF ip(4) e(1,2)] e(3)] if_not_P [OF ip(5)] by (rule refl)
qed

lemma scan_number_int:
  assumes "length (dec (nat \<bar>n\<bar>)) \<le> 4300" "num_end r"
  shows "scan_number (dec_int n @ r) = Inr (JInt n, r)"
proof -
  let ?ip = "dec (nat \<bar>n\<bar>)"
  have h: "?ip = [48] \<or> hd ?ip \<noteq> 48" using dec_hd [of "nat \<bar>n\<bar>"] by (cases "n = 0") (simp_all add: dec.simps [of 0])
  have f: "scan_frac r = ([], r)" using assms(2) by (auto simp: scan_frac_def num_end_def split: list.splits)
  have t: "dec_int n @ r = (if n < 0 then [45] else []) @ ?ip @ r" by (simp add: dec_int_def)
  show ?thesis
    unfolding t scan_number_split [OF dec_nonempty dec_ascii h num_end_digits [OF assms(2)] f scan_exp_none [OF assms(2)]]
    using assms(1) by simp
qed

lemma f64_infinite: "\<not> f64_finite x \<Longrightarrow> \<not> f64_nan x \<Longrightarrow> x = f64_inf (f64_sign x)"
  using mk_f64_mag [of x] by (simp add: f64_finite_def f64_nan_def f64_inf_def f64_mag_fields)

lemma scan_word_digit:
  "ascii_digit c \<Longrightarrow> scan_word (c # r) = None" "ascii_digit c \<Longrightarrow> scan_word (45 # c # r) = None"
  by (auto simp: scan_word_def json_words_def ascii_digit_def str_def)

text \<open>A number text as \<open>scan_value\<close> sees it.\<close>

definition num_start :: "pystr \<Rightarrow> bool" where
  "num_start s =
     (case s of
        [] \<Rightarrow> False
      | c # r \<Rightarrow> ascii_digit c \<or> (c = 45 \<and> (case r of [] \<Rightarrow> False | d # _ \<Rightarrow> ascii_digit d)))"

lemma num_start_append: "num_start s \<Longrightarrow> num_start (s @ r)"
  by (auto simp: num_start_def split: list.splits)

lemma scan_value_number: "num_start s \<Longrightarrow> scan_value (Suc n) s = scan_number s"
  by (auto simp: num_start_def scan_word_digit split: list.splits) (auto simp: ascii_digit_def)

lemma num_parts_start: "num_parts ip fp ex \<Longrightarrow> num_start ((if neg then [45] else []) @ num_text ip fp ex)"
  unfolding num_start_def num_parts_def num_text_def by (cases ip) auto

lemma dec_int_start: "num_start (dec_int n)"
proof -
  obtain c r where "dec (nat \<bar>n\<bar>) = c # r" "ascii_digit c"
    using dec_ascii [of "nat \<bar>n\<bar>"] dec_nonempty [of "nat \<bar>n\<bar>"] by (cases "dec (nat \<bar>n\<bar>)") auto
  then show ?thesis by (auto simp: num_start_def dec_int_def)
qed

lemma f64_repr_finite:
  assumes "f64_finite x"
  obtains ip fp ex where "f64_repr x = (if f64_sign x = 1 then [45] else []) @ num_text ip fp ex" "num_parts ip fp ex"
    "num_bits ip fp (case ex of None \<Rightarrow> 0 | Some e \<Rightarrow> e) = f64_mag x"
proof -
  have "\<not> f64_nan x" using assms by (simp add: f64_nan_def f64_finite_def)
  moreover have "f64_sign x = 0 \<or> f64_sign x = 1" using f64_field_bounds(1) [of x] by linarith
  ultimately show ?thesis using mag_text_shape [OF assms] that assms by (auto simp: f64_repr_def)
qed

lemma scan_value_float:
  assumes "\<not> f64_nan x" "num_end r"
  shows "scan_value (Suc n) (json_float x @ r) = Inr (JFloat x, r)"
proof (cases "f64_finite x")
  case True
  obtain ip fp ex where t: "f64_repr x = (if f64_sign x = 1 then [45] else []) @ num_text ip fp ex" "num_parts ip fp ex"
    "num_bits ip fp (case ex of None \<Rightarrow> 0 | Some e \<Rightarrow> e) = f64_mag x" by (rule f64_repr_finite [OF True])
  have s: "f64_sign x = (if f64_sign x = 1 then 1 else 0)" using f64_field_bounds(1) [of x] by auto
  have "scan_value (Suc n) (json_float x @ r) = scan_number (f64_repr x @ r)"
    using True assms(1) num_parts_start [OF t(2), of "f64_sign x = 1"] t(1)
    by (simp only: json_float_def if_True if_False scan_value_number num_start_append)
  also have "\<dots> = Inr (JFloat (mk_f64 (f64_sign x) (f64_mag x)), r)"
    using scan_number_parts [OF t(2) assms(2), of "f64_sign x = 1"] t(1,3) s by simp
  finally show ?thesis by (simp add: mk_f64_mag)
next
  case False
  have "f64_sign x = 0 \<or> f64_sign x = 1" using f64_field_bounds(1) [of x] by linarith
  with False f64_infinite [OF False assms(1)] assms(1) show ?thesis
    by (auto simp: json_float_def scan_word_def json_words_def str_def)
qed

section \<open>Reading a dumped value\<close>

fun wf_json :: "json \<Rightarrow> bool" where
  "wf_json JNull = True"
| "wf_json (JBool b) = True"
| "wf_json (JInt n) = (length (dec (nat \<bar>n\<bar>)) \<le> INT_MAX_STR_DIGITS)"
| "wf_json (JFloat x) = (\<not> f64_nan x)"
| "wf_json (JStr s) = encodable s"
| "wf_json (JList l) = list_all wf_json l"
| "wf_json (JObj d) = (distinct (map fst d) \<and> list_all (\<lambda>(k, v). encodable k \<and> wf_json v) d)"

lemma wf_json_dumps: "wf_json v \<Longrightarrow> \<exists>t. json_dumps ascii isep ksep v = Inr t"
proof (induction v)
  case (JList l)
  then have "\<forall>x \<in> set l. \<exists>y. json_dumps ascii isep ksep x = Inr y" by (auto simp: list_all_iff)
  then show ?case using mapr_Inr_iff [of "json_dumps ascii isep ksep" l] by auto
next
  case (JObj d)
  let ?f = "\<lambda>(k, v). bindr (json_dumps ascii isep ksep v) (\<lambda>t. Inr (json_string ascii k @ ksep @ t))"
  have "\<exists>y. ?f kv = Inr y" if "kv \<in> set d" for kv
  proof -
    obtain k v where kv: "kv = (k, v)" by fastforce
    with that JObj obtain t where "json_dumps ascii isep ksep v = Inr t" by (fastforce simp: list_all_iff)
    then show ?thesis by (simp add: kv)
  qed
  then show ?case using mapr_Inr_iff [of ?f d] by auto
qed (simp_all add: json_int_def)

text \<open>The first character of a dumped value is no white space and closes nothing.\<close>

definition value_start :: "pystr \<Rightarrow> bool" where
  "value_start t = (case t of [] \<Rightarrow> False | c # _ \<Rightarrow> \<not> is_ws c \<and> c \<noteq> 93 \<and> c \<noteq> 125 \<and> 0 < c \<and> c < 128)"

lemma num_start_value: "num_start t \<Longrightarrow> value_start t"
  by (auto simp: num_start_def value_start_def is_ws_def ascii_digit_def split: list.splits)

lemma json_float_start: "value_start (json_float x)"
proof (cases "f64_finite x")
  case True
  then have "\<not> f64_nan x" by (simp add: f64_nan_def f64_finite_def)
  moreover obtain ip fp ex where t: "f64_repr x = (if f64_sign x = 1 then [45] else []) @ num_text ip fp ex" "num_parts ip fp ex"
    by (rule f64_repr_finite [OF True])
  ultimately show ?thesis
    using num_start_value [OF num_parts_start [OF t(2), of "f64_sign x = 1"]] True by (simp add: json_float_def)
qed (simp add: json_float_def value_start_def str_def is_ws_def)

lemma dumps_start: "json_dumps ascii isep ksep v = Inr t \<Longrightarrow> value_start t"
  using num_start_value [OF dec_int_start] json_float_start
  by (cases v) (auto simp: json_int_def json_string_def value_start_def str_def is_ws_def res_simps split: if_splits)

lemma value_start_skip: "value_start t \<Longrightarrow> skip_ws (t @ r) = t @ r"
  by (auto simp: value_start_def split: list.splits)

lemma value_start_close: "value_start t \<Longrightarrow> take 1 (t @ r) \<noteq> [93]" "value_start t \<Longrightarrow> take 1 (t @ r) \<noteq> [125]"
  by (auto simp: value_start_def split: list.splits)

text \<open>A separator: its first character, then white space.\<close>

definition separator :: "nat \<Rightarrow> pystr \<Rightarrow> bool" where
  "separator c sep = (take 1 sep = [c] \<and> list_all is_ws (drop 1 sep))"

lemma separator_skip:
  assumes "separator c sep" "\<not> is_ws c"
  shows "skip_ws (sep @ t) = sep @ t" "take 1 (sep @ t) = [c]" "skip_ws (drop 1 (sep @ t)) = skip_ws t"
proof -
  obtain ws where sep: "sep = c # ws" "list_all is_ws ws" using assms(1) by (cases sep) (auto simp: separator_def)
  then have "skip_ws (ws @ t) = skip_ws t" by (auto simp: dropWhile_append list_all_iff)
  with sep assms(2) show "skip_ws (sep @ t) = sep @ t" "take 1 (sep @ t) = [c]" "skip_ws (drop 1 (sep @ t)) = skip_ws t"
    by simp_all
qed

lemma separator_num_end: "separator c sep \<Longrightarrow> c = 44 \<or> c = 58 \<Longrightarrow> num_end (sep @ t)"
  by (cases sep) (auto simp: separator_def num_end_def ascii_digit_def)

text \<open>The text \<open>t\<close> reads as \<open>v\<close>, whatever follows it.\<close>

definition reads_as :: "pystr \<Rightarrow> json \<Rightarrow> bool" where
  "reads_as t v = (\<forall>n r. 2 * length t \<le> n \<longrightarrow> num_end r \<longrightarrow> scan_value (Suc n) (t @ r) = Inr (v, r))"

lemma reads_asD: "reads_as t v \<Longrightarrow> 2 * length t < n \<Longrightarrow> num_end r \<Longrightarrow> scan_value n (t @ r) = Inr (v, r)"
  by (cases n) (simp_all add: reads_as_def)

lemma length_join_with: "length (join_with sep (t # ts)) = length t + sum_list (map (\<lambda>u. length sep + length u) ts)"
  by (induction ts arbitrary: t) simp_all

lemma join_start: "ts \<noteq> [] \<Longrightarrow> list_all value_start ts \<Longrightarrow> value_start (join_with sep ts @ r)"
  by (cases "(sep, ts)" rule: join_with.cases) (auto simp: value_start_def split: list.splits)

lemma scan_items_dumped:
  assumes "separator 44 isep" "list_all2 reads_as ts vs" "ts \<noteq> []" "list_all value_start ts"
    and "2 * length (join_with isep ts) + 2 \<le> n"
  shows "scan_items n acc (join_with isep ts @ 93 # r) = Inr (JList (acc @ vs), r)"
  using assms(2-5)
proof (induction ts arbitrary: vs acc n)
  case (Cons t ts)
  then obtain v ws where vs: "vs = v # ws" "reads_as t v" "list_all2 reads_as ts ws" by (auto simp: list_all2_Cons1)
  obtain m where m: "n = Suc m" using Cons.prems(4) by (cases n) simp_all
  show ?case
  proof (cases ts)
    case Nil
    have "scan_value m (t @ 93 # r) = Inr (v, 93 # r)"
      using Cons.prems(4) Nil m by (intro reads_asD [OF vs(2)]) (simp_all add: num_end_def ascii_digit_def)
    then show ?thesis using vs Nil m by (simp add: is_ws_def)
  next
    case (Cons u us)
    let ?rest = "isep @ join_with isep ts @ 93 # r"
    have len: "length (join_with isep (t # ts)) = length t + length isep + length (join_with isep ts)" using Cons by simp
    have "1 \<le> length isep" using assms(1) by (cases isep) (simp_all add: separator_def)
    with len have m2: "2 * length t < m" "2 * length (join_with isep ts) + 2 \<le> m" using Cons.prems(4) m by linarith+
    have v: "scan_value m (t @ ?rest) = Inr (v, ?rest)"
      by (intro reads_asD [OF vs(2) m2(1)] separator_num_end [OF assms(1)]) simp
    have "value_start (join_with isep ts @ 93 # r)" using Cons.prems(3) Cons by (intro join_start) simp_all
    then have "skip_ws (join_with isep ts @ 93 # r) = join_with isep ts @ 93 # r"
      using value_start_skip [of "join_with isep ts @ 93 # r" "[]"] by simp
    with separator_skip [OF assms(1), of "join_with isep ts @ 93 # r"]
    have "skip_ws ?rest = ?rest" "take 1 ?rest = [44]" "skip_ws (drop 1 ?rest) = join_with isep ts @ 93 # r"
      by (simp_all add: is_ws_def)
    moreover have "scan_items m (acc @ [v]) (join_with isep ts @ 93 # r) = Inr (JList ((acc @ [v]) @ ws), r)"
      using Cons.IH [OF vs(3) _ _ m2(2)] Cons Cons.prems(3) by simp
    moreover have "join_with isep (t # ts) @ 93 # r = t @ ?rest" using Cons by simp
    ultimately show ?thesis using v vs(1) by (simp add: m Let_def)
  qed
qed simp

text \<open>The text of a member of an object.\<close>

definition member_text :: "bool \<Rightarrow> pystr \<Rightarrow> pystr \<times> pystr \<Rightarrow> pystr" where
  "member_text ascii ksep = (\<lambda>(k, t). json_string ascii k @ ksep @ t)"

lemma scan_members_step:
  assumes "encodable k" "separator 58 ksep" "reads_as t v" "value_start t" "2 * length t < n" "num_end r"
  shows "scan_members (Suc n) acc (member_text ascii ksep (k, t) @ r) =
    (let acc' = AList.update k v acc; u = skip_ws r in
     if take 1 u = [125] then Inr (JObj acc', drop 1 u)
     else if take 1 u = [44] then scan_members n acc' (skip_ws (drop 1 u)) else Inl JSONDecodeError)"
proof -
  have "scan_string (concat (map (json_char ascii) k) @ 34 # ksep @ t @ r) = Some (k, ksep @ t @ r)"
    by (rule scan_string_dumped [OF assms(1)])
  moreover have "skip_ws (ksep @ t @ r) = ksep @ t @ r" "take 1 (ksep @ t @ r) = [58]"
    "skip_ws (drop 1 (ksep @ t @ r)) = t @ r"
    using separator_skip [OF assms(2), of "t @ r"] value_start_skip [OF assms(4), of r] by (simp_all add: is_ws_def)
  moreover have "scan_value n (t @ r) = Inr (v, r)" by (rule reads_asD [OF assms(3,5,6)])
  ultimately show ?thesis by (simp add: member_text_def json_string_def)
qed

lemma scan_members_dumped:
  assumes "separator 44 isep" "separator 58 ksep" "list_all2 reads_as ts vs" "length ks = length ts" "ts \<noteq> []"
    and "list_all value_start ts" "list_all encodable ks" "distinct (map fst acc @ ks)"
    and "2 * length (join_with isep (map (member_text ascii ksep) (zip ks ts))) < n"
  shows "scan_members n acc (join_with isep (map (member_text ascii ksep) (zip ks ts)) @ 125 # r) =
    Inr (JObj (acc @ zip ks vs), r)"
  using assms(3-9)
proof (induction ts arbitrary: vs ks acc n)
  case (Cons t ts)
  then obtain v ws k ls where vs: "vs = v # ws" "reads_as t v" "list_all2 reads_as ts ws" "ks = k # ls" "length ls = length ts"
    by (auto simp: list_all2_Cons1 length_Suc_conv)
  obtain m where m: "n = Suc m" using Cons.prems(7) by (cases n) simp_all
  have k: "encodable k" "value_start t" "k \<notin> fst ` set acc" using Cons.prems vs(4) by auto
  have lt: "length t < length (member_text ascii ksep (k, t))" by (simp add: member_text_def json_string_def)
  note step = scan_members_step [OF k(1) assms(2) vs(2) k(2), of m _ acc ascii] and upd = update_fresh [OF k(3), of v]
  show ?case
  proof (cases "zip ls ts")
    case Nil
    then have "ts = []" "ls = []" using vs(5) by auto
    moreover have "2 * length t < m" using lt Cons.prems(7) vs(4) m \<open>ts = []\<close> by simp
    ultimately show ?thesis using step [of "125 # r"] upd vs m by (simp add: num_end_def ascii_digit_def is_ws_def Let_def)
  next
    case (Cons p ps)
    let ?tail = "join_with isep (map (member_text ascii ksep) (zip ls ts))"
    let ?rest = "isep @ ?tail @ 125 # r"
    have ne: "ts \<noteq> []" using Cons by auto
    have j: "join_with isep (map (member_text ascii ksep) (zip ks (t # ts))) = member_text ascii ksep (k, t) @ isep @ ?tail"
      using vs(4) Cons by simp
    have sz: "2 * length t < m" "2 * length ?tail < m" using Cons.prems(7) lt m unfolding j by simp_all
    have "value_start (?tail @ 125 # r)"
      using Cons by (cases ps; cases p) (simp_all add: member_text_def json_string_def value_start_def is_ws_def)
    then have "skip_ws (?tail @ 125 # r) = ?tail @ 125 # r" using value_start_skip [of "?tail @ 125 # r" "[]"] by simp
    with separator_skip [OF assms(1), of "?tail @ 125 # r"]
    have sk: "skip_ws ?rest = ?rest" "take 1 ?rest = [44]" "skip_ws (drop 1 ?rest) = ?tail @ 125 # r"
      by (simp_all add: is_ws_def)
    have ih: "scan_members m (acc @ [(k, v)]) (?tail @ 125 # r) = Inr (JObj ((acc @ [(k, v)]) @ zip ls ws), r)"
      using Cons.IH [OF vs(3,5) ne _ _ _ sz(2)] Cons.prems(4-6) vs(4) by simp
    have "num_end ?rest" by (rule separator_num_end [OF assms(1)]) simp
    from step [OF sz(1) this] show ?thesis
      unfolding j m using sk ih upd vs by (simp add: Let_def)
  qed
qed simp

lemma dumps_members:
  "mapr (\<lambda>(k, v). bindr (json_dumps ascii isep ksep v) (\<lambda>t. Inr (json_string ascii k @ ksep @ t))) d = Inr ms \<Longrightarrow>
   \<exists>ts. ms = map (member_text ascii ksep) (zip (map fst d) ts) \<and>
     list_all2 (\<lambda>kv t. json_dumps ascii isep ksep (snd kv) = Inr t) d ts"
proof (induction d arbitrary: ms)
  case (Cons kv d)
  then obtain t ms' where t: "json_dumps ascii isep ksep (snd kv) = Inr t"
    "ms = (json_string ascii (fst kv) @ ksep @ t) # ms'"
    "mapr (\<lambda>(k, v). bindr (json_dumps ascii isep ksep v) (\<lambda>t. Inr (json_string ascii k @ ksep @ t))) d = Inr ms'"
    by (cases kv) (auto simp: res_simps)
  from Cons.IH [OF t(3)] obtain ts where "ms' = map (member_text ascii ksep) (zip (map fst d) ts)"
    "list_all2 (\<lambda>kv t. json_dumps ascii isep ksep (snd kv) = Inr t) d ts" by blast
  with t show ?case by (intro exI [of _ "t # ts"]) (simp add: member_text_def)
qed simp

lemma dumps_reads:
  assumes "separator 44 isep" "separator 58 ksep"
  shows "wf_json v \<Longrightarrow> json_dumps ascii isep ksep v = Inr t \<Longrightarrow> reads_as t v"
proof (induction v arbitrary: t)
  case JNull
  then show ?case by (auto simp: reads_as_def scan_word_def json_words_def str_def)
next
  case (JBool b)
  then show ?case by (auto simp: reads_as_def scan_word_def json_words_def str_def split: if_splits)
next
  case (JInt n)
  then have t: "t = dec_int n" by (simp add: json_int_def split: if_splits)
  show ?case using JInt unfolding reads_as_def t
    by (simp add: scan_value_number [OF num_start_append [OF dec_int_start]] scan_number_int del: scan_value.simps)
next
  case (JFloat x)
  then show ?case by (auto simp: reads_as_def scan_value_float simp del: scan_value.simps)
next
  case (JStr s)
  then show ?case by (auto simp: reads_as_def json_string_def scan_string_dumped)
next
  case (JList l)
  then obtain ts where ts: "mapr (json_dumps ascii isep ksep) l = Inr ts" "t = 91 # join_with isep ts @ [93]"
    by (auto simp: res_simps)
  have "list_all2 (\<lambda>x t. json_dumps ascii isep ksep x = Inr t) l ts" by (rule mapr_list_all2 [OF ts(1)])
  then have rd: "list_all2 reads_as ts l" and st: "list_all value_start ts"
    using JList by (auto simp: list_all2_conv_all_nth list_all_length dumps_start)
  show ?case
  proof (cases "ts = []")
    case True
    then show ?thesis using rd ts(2) by (simp add: reads_as_def is_ws_def)
  next
    case False
    have "scan_value (Suc n) (t @ r) = Inr (JList l, r)" if "2 * length t \<le> n" for n r
    proof -
      let ?j = "join_with isep ts @ 93 # r"
      have "value_start ?j" by (rule join_start [OF False st])
      then have "skip_ws ?j = ?j" "take 1 ?j \<noteq> [93]"
        using value_start_skip [of ?j "[]"] value_start_close [of ?j "[]"] by simp_all
      moreover have "scan_items n [] ?j = Inr (JList l, r)"
        using scan_items_dumped [OF assms(1) rd False st, of n "[]" r] that ts(2) by simp
      ultimately show ?thesis using ts(2) by simp
    qed
    then show ?thesis by (simp add: reads_as_def del: scan_value.simps)
  qed
next
  case (JObj d)
  let ?f = "\<lambda>(k, v). bindr (json_dumps ascii isep ksep v) (\<lambda>t. Inr (json_string ascii k @ ksep @ t))"
  obtain ms where ms: "mapr ?f d = Inr ms" "t = 123 # join_with isep ms @ [125]" using JObj.prems(2) by (auto simp: res_simps)
  obtain ts where ts: "ms = map (member_text ascii ksep) (zip (map fst d) ts)"
    "list_all2 (\<lambda>kv t. json_dumps ascii isep ksep (snd kv) = Inr t) d ts" using dumps_members [OF ms(1)] by blast
  then have len: "length ts = length d" by (simp add: list_all2_lengthD)
  have rd: "list_all2 reads_as ts (map snd d)" and st: "list_all value_start ts"
    using JObj ts(2) by (auto simp: list_all2_conv_all_nth list_all_length dumps_start split: prod.splits)
      (metis nth_mem prod.collapse snds.intros)
  have wf: "distinct (map fst d)" "list_all encodable (map fst d)"
    using JObj.prems(1) by (auto simp: list_all_iff)
  show ?case
  proof (cases "d = []")
    case True
    then show ?thesis using ms ts by (simp add: reads_as_def is_ws_def)
  next
    case False
    then have ne: "ts \<noteq> []" "ms \<noteq> []" using len ts(1) by auto
    have ms_start: "list_all value_start ms"
      unfolding ts(1) by (auto simp: list_all_iff member_text_def json_string_def value_start_def is_ws_def)
    have "scan_value (Suc n) (t @ r) = Inr (JObj d, r)" if "2 * length t \<le> n" for n r
    proof -
      let ?j = "join_with isep ms @ 125 # r"
      have "value_start ?j" by (rule join_start [OF ne(2) ms_start])
      then have "skip_ws ?j = ?j" "take 1 ?j \<noteq> [125]"
        using value_start_skip [of ?j "[]"] value_start_close [of ?j "[]"] by simp_all
      moreover have "scan_members n [] ?j = Inr (JObj d, r)"
        using scan_members_dumped [OF assms rd _ ne(1) st wf(2), of "[]" ascii n r] that ms(2) len wf(1)
        unfolding ts(1) by (simp add: zip_map_fst_snd)
      ultimately show ?thesis using ms(2) by simp
    qed
    then show ?thesis by (simp add: reads_as_def del: scan_value.simps)
  qed
qed

text \<open>Loading a dumped value.\<close>

theorem json_loads_dumps:
  assumes "wf_json v" "separator 44 isep" "separator 58 ksep" "json_dumps ascii isep ksep v = Inr t"
  shows "json_loads t = Inr v"
proof -
  have st: "value_start t" by (rule dumps_start [OF assms(4)])
  have "scan_value (2 * length t + 1) (t @ []) = Inr (v, [])"
    by (intro reads_asD [OF dumps_reads [OF assms(2,3,1,4)]]) (simp_all add: num_end_def)
  moreover have "take 1 t \<noteq> [0xFEFF]" using st by (auto simp: value_start_def split: list.splits)
  ultimately show ?thesis using value_start_skip [OF st, of "[]"] by (simp add: json_loads_def json_decode_def)
qed

section \<open>Reading always ends\<close>

lemma length_skip_ws: "length (skip_ws s) \<le> length s"
  by (rule length_dropWhile_le)

lemma scan_string_shorter: "scan_string s = Some (x, r) \<Longrightarrow> length r < length s"
proof (induction s arbitrary: x rule: scan_string.induct)
  case (1 s)
  show ?case
  proof (cases s)
    case (Cons c t)
    then show ?thesis using "1.prems" "1.IH"
      by (auto simp: scan_string_Cons split: if_splits option.splits list.splits dest!: unicode_escape_shorter) fastforce+
  qed (use "1.prems" in \<open>simp add: scan_string.simps\<close>)
qed

lemma scan_exp_le: "length (snd (scan_exp s)) \<le> length s"
  using length_dropWhile_le [of ascii_digit "tl s"] length_dropWhile_le [of ascii_digit "tl (tl s)"]
  by (cases s) (auto simp: scan_exp_def Let_def drop_Suc intro: le_SucI)

lemma scan_frac_le: "length (snd (scan_frac s)) \<le> length s"
  using length_dropWhile_le [of ascii_digit "tl s"] by (cases s) (auto simp: scan_frac_def Let_def drop_Suc intro: le_SucI)

lemma scan_number_shorter: "scan_number s = Inr (v, r) \<Longrightarrow> length r < length s"
proof -
  assume a: "scan_number s = Inr (v, r)"
  define neg where "neg = (take 1 s = [45])"
  define s1 where "s1 = (if neg then drop 1 s else s)"
  define ip where "ip = (if take 1 s1 = [48] then [48] else takeWhile ascii_digit s1)"
  obtain fp s2 where f: "scan_frac (drop (length ip) s1) = (fp, s2)" by fastforce
  obtain ex s3 where e: "scan_exp s2 = (ex, s3)" by fastforce
  note run = a [unfolded scan_number_def Let_def, folded neg_def, folded s1_def, folded ip_def, unfolded f prod.case e]
  have ip: "ip \<noteq> []" and r: "r = s3" using run by (auto simp del: One_nat_def split: if_splits)
  have "s1 \<noteq> []" using ip by (auto simp: ip_def)
  then have "length (drop (length ip) s1) < length s1" using ip by (cases ip; cases s1) auto
  moreover have "length s1 \<le> length s" by (simp add: s1_def)
  ultimately show ?thesis using scan_frac_le [of "drop (length ip) s1"] scan_exp_le [of s2] f e r by simp
qed

lemma scan_word_shorter: "scan_word s = Some (v, r) \<Longrightarrow> length r < length s"
proof -
  assume "scan_word s = Some (v, r)"
  then obtain w where w: "(w, v) \<in> set json_words" "take (length w) s = str w" "r = drop (length w) s"
    by (auto simp: scan_word_def find_Some_iff) (metis nth_mem)
  have "w \<noteq> []" using w(1) by (auto simp: json_words_def)
  moreover have "s \<noteq> []" using w(2) \<open>w \<noteq> []\<close> by (auto simp: str_def)
  ultimately show ?thesis using w(3) by (cases w) auto
qed

lemma scan_shorter:
  "scan_value n s = Inr (v, r) \<Longrightarrow> length r < length s"
  "scan_members n acc s = Inr (v, r) \<Longrightarrow> length r < length s"
  "scan_items n acc' s = Inr (v, r) \<Longrightarrow> length r < length s"
proof (induction n s and n acc s and n acc' s arbitrary: v r and v r and v r rule: scan_value_scan_members_scan_items.induct)
  case (2 n s)
  show ?case
  proof (cases s)
    case (Cons c t)
    have "length (drop 1 (skip_ws t)) < length s" using length_skip_ws [of t] Cons by simp
    then show ?thesis using 2 Cons length_skip_ws [of t]
      by (fastforce split: if_splits option.splits dest: scan_string_shorter scan_word_shorter scan_number_shorter)
  qed (use 2 in simp)
next
  case (4 n acc s)
  from "4.prems" obtain k t where k: "take 1 s = [34]" "scan_string (drop 1 s) = Some (k, t)" "take 1 (skip_ws t) = [58]"
    by (auto split: if_splits option.splits)
  let ?s = "skip_ws (drop 1 (skip_ws t))"
  from "4.prems" k obtain w u where w: "scan_value n ?s = Inr (w, u)"
    "(if take 1 (skip_ws u) = [125] then Inr (JObj (AList.update k w acc), drop 1 (skip_ws u))
      else if take 1 (skip_ws u) = [44] then scan_members n (AList.update k w acc) (skip_ws (drop 1 (skip_ws u)))
      else Inl JSONDecodeError) = Inr (v, r)"
    by (auto simp: bindr_eq_Inr Let_def)
  have "length t < length s" using scan_string_shorter [OF k(2)] by simp
  then have s: "length ?s < length s" using length_skip_ws [of t] length_skip_ws [of "drop 1 (skip_ws t)"] by simp
  have u: "length u < length ?s" using "4.IH"(1) k w(1) by simp
  have "length (skip_ws (drop 1 (skip_ws u))) \<le> length u"
    using length_skip_ws [of u] length_skip_ws [of "drop 1 (skip_ws u)"] by simp
  moreover have "length r < length (skip_ws (drop 1 (skip_ws u)))" if "take 1 (skip_ws u) \<noteq> [125]"
    by (rule "4.IH"(2)) (use k w that in \<open>auto split: if_splits\<close>)
  moreover have "length r \<le> length u" if "take 1 (skip_ws u) = [125]"
    using that w(2) length_skip_ws [of u] by auto
  ultimately show ?case using s u by linarith
next
  case (6 n acc s)
  from "6.prems" obtain w u where w: "scan_value n s = Inr (w, u)"
    "(if take 1 (skip_ws u) = [93] then Inr (JList (acc @ [w]), drop 1 (skip_ws u))
      else if take 1 (skip_ws u) = [44] then scan_items n (acc @ [w]) (skip_ws (drop 1 (skip_ws u)))
      else Inl JSONDecodeError) = Inr (v, r)"
    by (auto simp: bindr_eq_Inr Let_def)
  have u: "length u < length s" using "6.IH"(1) w(1) by simp
  have "length (skip_ws (drop 1 (skip_ws u))) \<le> length u"
    using length_skip_ws [of u] length_skip_ws [of "drop 1 (skip_ws u)"] by simp
  moreover have "length r < length (skip_ws (drop 1 (skip_ws u)))" if "take 1 (skip_ws u) \<noteq> [93]"
    by (rule "6.IH"(2)) (use w that in \<open>auto split: if_splits\<close>)
  moreover have "length r \<le> length u" if "take 1 (skip_ws u) = [93]"
    using that w(2) length_skip_ws [of u] by auto
  ultimately show ?case using u by linarith
qed simp_all

lemma scan_number_errors: "scan_number s = Inl e \<Longrightarrow> e = JSONDecodeError \<or> e = ValueError"
  by (auto simp: scan_number_def Let_def split: if_splits prod.splits)

lemma scan_errors:
  "scan_value n s = Inl e \<Longrightarrow> 2 * length s < n \<Longrightarrow> e = JSONDecodeError \<or> e = ValueError"
  "scan_members n acc s = Inl e \<Longrightarrow> 2 * length s < n \<Longrightarrow> e = JSONDecodeError \<or> e = ValueError"
  "scan_items n acc' s = Inl e \<Longrightarrow> 2 * length s + 2 \<le> n \<Longrightarrow> e = JSONDecodeError \<or> e = ValueError"
proof (induction n s and n acc s and n acc' s rule: scan_value_scan_members_scan_items.induct)
  case (2 n s)
  show ?case
  proof (cases s)
    case (Cons c t)
    have "2 * length (skip_ws t) < n" "2 * length (skip_ws t) + 2 \<le> n"
      using length_skip_ws [of t] "2.prems"(2) Cons by simp_all
    then show ?thesis using 2 Cons by (auto split: if_splits option.splits dest: scan_number_errors)
  qed (use 2 in simp)
next
  case (4 n acc s)
  show ?case
  proof (cases "\<exists>k t. take 1 s = [34] \<and> scan_string (drop 1 s) = Some (k, t) \<and> take 1 (skip_ws t) = [58]")
    case False
    then show ?thesis using "4.prems"(1) by (auto simp del: One_nat_def split: if_splits option.splits)
  next
    case True
    then obtain k t where k: "take 1 s = [34]" "scan_string (drop 1 s) = Some (k, t)" "take 1 (skip_ws t) = [58]" by blast
    let ?s = "skip_ws (drop 1 (skip_ws t))"
    have "length t < length s" using scan_string_shorter [OF k(2)] by simp
    then have s: "length ?s < length s" using length_skip_ws [of t] length_skip_ws [of "drop 1 (skip_ws t)"] by simp
    show ?thesis
    proof (cases "scan_value n ?s")
      case (Inl e')
      then have "e' = e" using "4.prems"(1) k by simp
      with Inl show ?thesis using "4.IH"(1) k s "4.prems"(2) by simp
    next
      case (Inr wu)
      obtain w u where wu: "scan_value n ?s = Inr (w, u)" using Inr by (cases wu) simp
      have "length (skip_ws (drop 1 (skip_ws u))) < length ?s"
        using length_skip_ws [of u] length_skip_ws [of "drop 1 (skip_ws u)"] scan_shorter(1) [OF wu] by simp
      then have "2 * length (skip_ws (drop 1 (skip_ws u))) < n" using s "4.prems"(2) by linarith
      moreover have "e = JSONDecodeError \<or> scan_members n (AList.update k w acc) (skip_ws (drop 1 (skip_ws u))) = Inl e"
        and "take 1 (skip_ws u) \<noteq> [125]" and "e = JSONDecodeError \<or> take 1 (skip_ws u) = [44]"
        using "4.prems"(1) k wu by (auto simp: Let_def split: if_splits)
      ultimately show ?thesis using "4.IH"(2) k wu by fastforce
    qed
  qed
next
  case (6 n acc s)
  show ?case
  proof (cases "scan_value n s")
    case (Inl e')
    then show ?thesis using "6.IH"(1) "6.prems" by auto
  next
    case (Inr wu)
    obtain w u where wu: "scan_value n s = Inr (w, u)" using Inr by (cases wu) simp
    have "length (skip_ws (drop 1 (skip_ws u))) < length s"
      using length_skip_ws [of u] length_skip_ws [of "drop 1 (skip_ws u)"] scan_shorter(1) [OF wu] by simp
    then have "2 * length (skip_ws (drop 1 (skip_ws u))) + 2 \<le> n" using "6.prems"(2) by linarith
    moreover have "e = JSONDecodeError \<or> scan_items n (acc @ [w]) (skip_ws (drop 1 (skip_ws u))) = Inl e"
      and "take 1 (skip_ws u) \<noteq> [93]" and "e = JSONDecodeError \<or> take 1 (skip_ws u) = [44]"
      using "6.prems"(1) wu by (auto simp: Let_def split: if_splits)
    ultimately show ?thesis using "6.IH"(2) wu by fastforce
  qed
qed simp_all

text \<open>\<^verbatim>\<open>loads\<close> returns a value or raises one of two exceptions; the bound on the calls is never met.\<close>

lemma json_decode_errors: "json_decode s = Inl e \<Longrightarrow> e = JSONDecodeError \<or> e = ValueError"
  using scan_errors(1) [of "2 * length s + 1" "skip_ws s" e] length_skip_ws [of s]
  by (auto simp: json_decode_def res_simps split: prod.splits if_splits)

lemma json_loads_errors: "json_loads s = Inl e \<Longrightarrow> e = JSONDecodeError \<or> e = ValueError"
  by (auto simp: json_loads_def json_decode_errors split: if_splits)

lemma utf8_decode_pass_errors: "utf8_decode_pass b = Inl e \<Longrightarrow> e = UnicodeDecodeError"
  by (induction b rule: utf8_decode_pass.induct)
    (subst (asm) (2) utf8_decode_pass.simps, auto simp: res_simps split: if_splits option.splits)

lemma json_text_errors: "json_text b = Inl e \<Longrightarrow> e = UnicodeDecodeError"
  by (auto simp: json_text_def utf16_decode_pass_def utf32_decode_pass_def code_units_def res_simps utf8_decode_pass_errors
      split: if_splits)

lemma json_loads_bytes_errors:
  "json_loads_bytes b = Inl e \<Longrightarrow> e = JSONDecodeError \<or> e = ValueError \<or> e = UnicodeDecodeError"
  by (auto simp: json_loads_bytes_def res_simps dest: json_decode_errors json_text_errors)

section \<open>Dumped values as bytes\<close>

text \<open>A dumped value has no NUL and no surrogates.\<close>

definition plain :: "nat \<Rightarrow> bool" where "plain c = (scalar c \<and> 0 < c)"

lemma ascii_plain: "0 < c \<Longrightarrow> c < 128 \<Longrightarrow> plain c"
  by (simp add: plain_def scalar_def)

lemma hex4_plain: "list_all plain (hex4 n)"
proof -
  have "plain (hex_digit d)" if "d < 16" for d using that by (simp add: hex_digit_def ascii_plain)
  then show ?thesis by (simp add: hex4_def)
qed

lemma json_char_plain: "scalar c \<Longrightarrow> list_all plain (json_char ascii c)"
proof -
  assume "scalar c"
  then have "\<not> c < 32 \<Longrightarrow> plain c" by (simp add: plain_def)
  then show ?thesis using hex4_plain by (simp add: json_char_def ascii_plain)
qed

lemma json_string_plain: "encodable s \<Longrightarrow> list_all plain (json_string ascii s)"
  using json_char_plain by (auto simp: json_string_def encodable_def list_all_iff ascii_plain)

lemma digits_plain: "list_all ascii_digit ds \<Longrightarrow> list_all plain ds"
  by (auto simp: list_all_iff ascii_digit_def plain_def scalar_def)

lemma num_text_plain: "num_parts ip fp ex \<Longrightarrow> list_all plain (num_text ip fp ex)"
proof -
  have "list_all plain (exp_text e)" for e
    using digits_plain [OF dec_ascii] by (auto simp: exp_text_def ascii_plain)
  then show "num_parts ip fp ex \<Longrightarrow> list_all plain (num_text ip fp ex)"
    by (auto simp: num_parts_def num_text_def digits_plain ascii_plain split: option.splits)
qed

lemma json_float_plain: "list_all plain (json_float x)"
proof (cases "f64_finite x")
  case True
  then obtain ip fp ex where "f64_repr x = (if f64_sign x = 1 then [45] else []) @ num_text ip fp ex" "num_parts ip fp ex"
    by (rule f64_repr_finite)
  then show ?thesis using num_text_plain [of ip fp ex] True
    by (simp add: json_float_def f64_nan_def f64_finite_def ascii_plain)
qed (simp add: json_float_def str_def ascii_plain)

lemma join_with_all: "list_all P sep \<Longrightarrow> list_all (list_all P) ts \<Longrightarrow> list_all P (join_with sep ts)"
  by (induction sep ts rule: join_with.induct) auto

lemma dumps_plain:
  assumes "list_all plain isep" "list_all plain ksep"
  shows "wf_json v \<Longrightarrow> json_dumps ascii isep ksep v = Inr t \<Longrightarrow> list_all plain t"
proof (induction v arbitrary: t)
  case (JInt n)
  then show ?case using digits_plain [OF dec_ascii] by (auto simp: json_int_def dec_int_def ascii_plain split: if_splits)
next
  case (JList l)
  then obtain ts where ts: "mapr (json_dumps ascii isep ksep) l = Inr ts" "t = 91 # join_with isep ts @ [93]"
    by (auto simp: res_simps)
  have "list_all plain u" if "u \<in> set ts" for u
  proof -
    from mapr_result [OF ts(1) that] obtain x where "x \<in> set l" "json_dumps ascii isep ksep x = Inr u" by blast
    then show ?thesis using JList by (auto simp: list_all_iff)
  qed
  then have "list_all (list_all plain) ts" by (simp add: list_all_iff)
  then show ?case using ts(2) join_with_all [OF assms(1)] by (simp add: ascii_plain)
next
  case (JObj d)
  obtain ms where ms: "mapr (\<lambda>(k, v). bindr (json_dumps ascii isep ksep v) (\<lambda>t. Inr (json_string ascii k @ ksep @ t))) d = Inr ms"
    "t = 123 # join_with isep ms @ [125]" using JObj.prems(2) by (auto simp: res_simps)
  have "list_all plain m" if "m \<in> set ms" for m
  proof -
    from mapr_result [OF ms(1) that] obtain k v where kv: "(k, v) \<in> set d"
      "bindr (json_dumps ascii isep ksep v) (\<lambda>t. Inr (json_string ascii k @ ksep @ t)) = Inr m" by fast
    then obtain u where u: "json_dumps ascii isep ksep v = Inr u" "m = json_string ascii k @ ksep @ u" by (auto simp: res_simps)
    have "encodable k" "wf_json v" using JObj.prems(1) kv(1) by (auto simp: list_all_iff)
    with JObj.IH [OF kv(1), of v u] u show ?thesis using json_string_plain assms(2) by simp
  qed
  then have "list_all (list_all plain) ms" by (simp add: list_all_iff)
  then show ?case using ms(2) join_with_all [OF assms(1)] by (simp add: ascii_plain)
qed (auto simp: str_def ascii_plain json_float_plain json_string_plain)

lemma plain_encodable: "list_all plain t \<Longrightarrow> encodable t"
  by (auto simp: encodable_def list_all_iff plain_def)

lemma utf8_decode_pass_strict: "utf8_decode b = Inr s \<Longrightarrow> utf8_decode_pass b = Inr s"
proof (induction b arbitrary: s rule: utf8_decode.induct)
  case (1 b)
  show ?case
  proof (cases "b = []")
    case True
    with "1.prems" show ?thesis by (simp add: utf8_decode_pass.simps)
  next
    case False
    with "1.prems" obtain c r s' where n: "utf8_next b = Some (c, r)" "utf8_decode r = Inr s'" "s = c # s'"
      by (subst (asm) utf8_decode.simps) (auto simp: res_simps split: option.splits)
    with "1.IH" [OF False n(1) refl n(2)] False show ?thesis
      by (subst utf8_decode_pass.simps) (simp add: utf8_next_pass_def)
  qed
qed

lemma utf8_char_plain: "plain c \<Longrightarrow> utf8_char c = Inr bs \<Longrightarrow> 0 \<notin> set bs"
  using utf8_char_bytes [of c bs 0] by (auto simp: plain_def)

lemma utf8_encode_plain: "list_all plain s \<Longrightarrow> utf8_encode s = Inr bs \<Longrightarrow> 0 \<notin> set bs"
  by (induction s arbitrary: bs) (auto simp: utf8_encode_Cons res_simps dest: utf8_char_plain)

lemma utf8_encode_head: "c < 128 \<Longrightarrow> utf8_encode (c # s) = Inr bs \<Longrightarrow> \<exists>r. bs = byte_of c # r"
  by (auto simp: utf8_encode_Cons utf8_char_def res_simps)

text \<open>The encoding of a JSON text that starts with an ASCII character and has no NUL is found to be UTF-8.\<close>

lemma json_text_utf8:
  assumes "value_start t" "list_all plain t" "utf8_encode t = Inr b"
  shows "json_text b = Inr t"
proof -
  obtain c s where t: "t = c # s" "0 < c" "c < 128" using assms(1) by (cases t) (auto simp: value_start_def)
  obtain r where b: "b = byte_of c # r" using utf8_encode_head [of c s b] t assms(3) by auto
  have nul: "0 \<notin> set b" by (rule utf8_encode_plain [OF assms(2,3)])
  have small: "unat (byte_of c) < 128" using t(3) by simp
  then have head: "byte_of c \<noteq> 0xFE" "byte_of c \<noteq> 0xFF" "byte_of c \<noteq> 0xEF" by auto
  have nth: "b ! i \<noteq> 0" if "i < length b" for i using nul that by (metis nth_mem)
  have "utf8_decode_pass b = Inr t" by (rule utf8_decode_pass_strict [OF utf8_decode_encode [OF assms(3)]])
  moreover have "b ! 0 \<noteq> 0" "2 \<le> length b \<Longrightarrow> b ! 1 \<noteq> 0" using nth [of 0] nth [of 1] by (simp add: b, simp)
  ultimately show ?thesis using head unfolding json_text_def by (auto simp: b)
qed

text \<open>Dumping with \<^verbatim>\<open>ensure_ascii=False\<close> and compact separators, encoding, and loading the bytes.\<close>

theorem json_bytes_roundtrip:
  assumes "wf_json v"
  shows "\<exists>t b. json_dumps False [44] [58] v = Inr t \<and> utf8_encode t = Inr b \<and> json_loads_bytes b = Inr v"
proof -
  obtain t where t: "json_dumps False [44] [58] v = Inr t" using wf_json_dumps [OF assms] by blast
  have p: "list_all plain t" by (rule dumps_plain [OF _ _ assms t]) (simp_all add: ascii_plain)
  then obtain b where b: "utf8_encode t = Inr b" using plain_encodable utf8_encode_total by blast
  have st: "value_start t" by (rule dumps_start [OF t])
  have "json_loads t = Inr v" by (rule json_loads_dumps [OF assms _ _ t]) (simp_all add: separator_def)
  moreover have "take 1 t \<noteq> [0xFEFF]" using st by (auto simp: value_start_def split: list.splits)
  ultimately show ?thesis using t b json_text_utf8 [OF st p b] by (simp add: json_loads_def json_loads_bytes_def)
qed

end
