(* ===== verification/Py_Convert.thy ===== *)
theory Py_Convert
  imports Py_Json
begin

text \<open>
  Conversions of the standard library between text, numbers and bytes: \<^verbatim>\<open>str.strip\<close>, \<^verbatim>\<open>str.replace\<close>,
  \<^verbatim>\<open>int(s)\<close> and \<^verbatim>\<open>int(s, 16)\<close>, \<^verbatim>\<open>bytes.hex\<close> and \<^verbatim>\<open>bytes.fromhex\<close>, \<^verbatim>\<open>uuid.UUID\<close> from a string or from bytes and its
  text. Shown: reading the hexadecimal digits or the UUID text of bytes gives the bytes back.
\<close>

section \<open>Strings\<close>

text \<open>\<^verbatim>\<open>str.isspace\<close> of a character.\<close>

definition is_space :: "nat \<Rightarrow> bool" where
  "is_space c =
     (c \<in> {0x20, 0x85, 0xA0, 0x1680, 0x2028, 0x2029, 0x202F, 0x205F, 0x3000} \<or> (9 \<le> c \<and> c \<le> 13) \<or>
      (0x1C \<le> c \<and> c \<le> 0x1F) \<or> (0x2000 \<le> c \<and> c \<le> 0x200A))"

definition strip_by :: "(nat \<Rightarrow> bool) \<Rightarrow> pystr \<Rightarrow> pystr" where
  "strip_by p s = rev (dropWhile p (rev (dropWhile p s)))"

definition py_strip :: "pystr \<Rightarrow> pystr" where "py_strip s = strip_by is_space s"

text \<open>\<^verbatim>\<open>s.replace(old, new)\<close> for a non-empty \<open>old\<close>.\<close>

function py_replace :: "pystr \<Rightarrow> pystr \<Rightarrow> pystr \<Rightarrow> pystr" where
  "py_replace old new s =
     (if s = [] \<or> old = [] then s
      else if take (length old) s = old then new @ py_replace old new (drop (length old) s)
      else hd s # py_replace old new (tl s))"
  by pat_completeness auto
termination by (relation "measure (\<lambda>(old, new, s). length s)") auto

declare py_replace.simps [simp del]

section \<open>Integers from text\<close>

text \<open>ASCII white space; what the conversion makes of other characters before it looks at them.\<close>

definition ascii_space :: "nat \<Rightarrow> bool" where "ascii_space c = ((9 \<le> c \<and> c \<le> 13) \<or> c = 32)"

definition int_char :: "nat \<Rightarrow> nat" where
  "int_char c =
     (if c < 127 then c else if is_space c then 32
      else case digit c of Some d \<Rightarrow> 48 + d | None \<Rightarrow> 63)"

text \<open>Digits of a base with single underscores between them.\<close>

fun base_digits :: "nat \<Rightarrow> pystr \<Rightarrow> nat list option" where
  "base_digits b [] = None"
| "base_digits b [c] = (case hex_val c of None \<Rightarrow> None | Some d \<Rightarrow> if d < b then Some [d] else None)"
| "base_digits b (c # e # s) =
     (case hex_val c of
        None \<Rightarrow> None
      | Some d \<Rightarrow> if d < b then map_option (Cons d) (base_digits b (if e = 95 then s else e # s)) else None)"

definition digits_base :: "nat \<Rightarrow> nat list \<Rightarrow> nat" where
  "digits_base b ds = foldl (\<lambda>a d. a * b + d) 0 ds"

text \<open>\<^verbatim>\<open>int(s, b)\<close> for the bases 10 and 16.\<close>

definition py_int :: "nat \<Rightarrow> pystr \<Rightarrow> int res" where
  "py_int b s =
     (let t = strip_by ascii_space (map int_char s);
          neg = (take 1 t = [45]);
          u = (if neg \<or> take 1 t = [43] then drop 1 t else t);
          w = (if b = 16 \<and> (take 2 u = [48, 120] \<or> take 2 u = [48, 88])
               then (if take 1 (drop 2 u) = [95] then drop 3 u else drop 2 u) else u)
      in case base_digits b w of
           None \<Rightarrow> Inl ValueError
         | Some ds \<Rightarrow>
             if b = 10 \<and> length ds > INT_MAX_STR_DIGITS then Inl ValueError
             else Inr ((if neg then - 1 else 1) * int (digits_base b ds)))"

section \<open>Hexadecimal bytes\<close>

definition byte_hex :: "byte \<Rightarrow> pystr" where
  "byte_hex b = [hex_digit (unat b div 16), hex_digit (unat b mod 16)]"

definition bytes_hex :: "bytes \<Rightarrow> pystr" where
  "bytes_hex bs = concat (map byte_hex bs)"

fun bytes_fromhex :: "pystr \<Rightarrow> bytes res" where
  "bytes_fromhex [] = Inr []"
| "bytes_fromhex [c] = (if ascii_space c then Inr [] else Inl ValueError)"
| "bytes_fromhex (c # d # s) =
     (if ascii_space c then bytes_fromhex (d # s)
      else case (hex_val c, hex_val d) of
          (Some x, Some y) \<Rightarrow> bindr (bytes_fromhex s) (\<lambda>bs. Inr (byte_of (x * 16 + y) # bs))
        | _ \<Rightarrow> Inl ValueError)"

section \<open>UUIDs\<close>

text \<open>\<^verbatim>\<open>uuid.UUID(s).bytes\<close>.\<close>

definition uuid_hex :: "pystr \<Rightarrow> pystr" where
  "uuid_hex s =
     py_replace [45] [] (strip_by (\<lambda>c. c = 123 \<or> c = 125) (py_replace (str ''uuid:'') [] (py_replace (str ''urn:'') [] s)))"

definition uuid_parse :: "pystr \<Rightarrow> bytes res" where
  "uuid_parse s =
     (if length (uuid_hex s) \<noteq> 32 then Inl ValueError
      else bindr (py_int 16 (uuid_hex s)) (\<lambda>n.
        if 0 \<le> n \<and> n < 2 ^ 128 then Inr (be_bytes 16 (nat n)) else Inl ValueError))"

text \<open>\<^verbatim>\<open>str(uuid.UUID(bytes=b))\<close>.\<close>

definition uuid_text :: "bytes \<Rightarrow> pystr res" where
  "uuid_text b =
     (if length b \<noteq> 16 then Inl ValueError
      else let h = bytes_hex b in
        Inr (slice h 0 8 @ 45 # slice h 8 12 @ 45 # slice h 12 16 @ 45 # slice h 16 20 @ 45 # slice h 20 32))"

section \<open>repr and str\<close>

text \<open>
  \<^verbatim>\<open>repr\<close> of a string. Which characters beyond ASCII are printable is the argument \<open>pr\<close>, a table of the
  Unicode database.
\<close>

definition hex_width :: "nat \<Rightarrow> nat \<Rightarrow> pystr" where
  "hex_width w n = map (\<lambda>i. hex_digit (n div 16 ^ i mod 16)) (rev [0..<w])"

definition repr_char :: "(nat \<Rightarrow> bool) \<Rightarrow> nat \<Rightarrow> nat \<Rightarrow> pystr" where
  "repr_char pr q c =
     (if c = q \<or> c = 92 then [92, c]
      else if c = 9 then [92, 116] else if c = 10 then [92, 110] else if c = 13 then [92, 114]
      else if c < 32 \<or> c = 127 then [92, 120] @ hex_width 2 c
      else if c < 127 then [c]
      else if pr c then [c]
      else if c < 256 then [92, 120] @ hex_width 2 c
      else if c < 65536 then [92, 117] @ hex_width 4 c
      else [92, 85] @ hex_width 8 c)"

definition repr_str :: "(nat \<Rightarrow> bool) \<Rightarrow> pystr \<Rightarrow> pystr" where
  "repr_str pr s =
     (let q = (if 39 \<in> set s \<and> 34 \<notin> set s then 34 else 39) in q # concat (map (repr_char pr q) s) @ [q])"

text \<open>\<^verbatim>\<open>repr\<close> and \<^verbatim>\<open>str\<close> of a value made of JSON types.\<close>

fun py_repr :: "(nat \<Rightarrow> bool) \<Rightarrow> json \<Rightarrow> pystr res" where
  "py_repr pr JNull = Inr (str ''None'')"
| "py_repr pr (JBool b) = Inr (if b then str ''True'' else str ''False'')"
| "py_repr pr (JInt n) = json_int n"
| "py_repr pr (JFloat x) = Inr (f64_repr x)"
| "py_repr pr (JStr s) = Inr (repr_str pr s)"
| "py_repr pr (JList l) = bindr (mapr (py_repr pr) l) (\<lambda>ts. Inr (91 # join_with (str '', '') ts @ [93]))"
| "py_repr pr (JObj d) =
     bindr (mapr (\<lambda>(k, v). bindr (py_repr pr v) (\<lambda>t. Inr (repr_str pr k @ str '': '' @ t))) d)
       (\<lambda>ts. Inr (123 # join_with (str '', '') ts @ [125]))"

definition py_str :: "(nat \<Rightarrow> bool) \<Rightarrow> json \<Rightarrow> pystr res" where
  "py_str pr v = (case v of JStr s \<Rightarrow> Inr s | _ \<Rightarrow> py_repr pr v)"

section \<open>Lemmas\<close>

lemma length_bytes_hex [simp]: "length (bytes_hex b) = 2 * length b"
  by (induction b) (simp_all add: bytes_hex_def byte_hex_def)

lemma byte_nibbles: "unat (b :: byte) div 16 < 16" "unat (b :: byte) mod 16 < 16"
  using unat_byte_bound [of b] by (simp_all add: less_mult_imp_div_less)

lemma hex_digit_not_space: "d < 16 \<Longrightarrow> \<not> ascii_space (hex_digit d)"
  by (auto simp: ascii_space_def hex_digit_def)

lemma byte_of_nibbles: "byte_of (unat b div 16 * 16 + unat b mod 16) = b"
  by (simp only: div_mult_mod_eq byte_of_unat)

lemma fromhex_hex: "bytes_fromhex (bytes_hex b) = Inr b"
  by (induction b) (simp_all add: bytes_hex_def byte_hex_def byte_nibbles hex_digit_not_space hex_val_digit byte_of_nibbles)

lemma py_replace_absent: "hd old \<notin> set s \<Longrightarrow> py_replace old new s = s"
proof (induction s)
  case (Cons c s)
  then have "old = [] \<or> take (length old) (c # s) \<noteq> old" by (cases old) auto
  then show ?case using Cons by (subst py_replace.simps) auto
qed (simp add: py_replace.simps)

lemma py_replace_remove: "py_replace [c] [] s = filter (\<lambda>x. x \<noteq> c) s"
  by (induction s) (simp_all add: py_replace.simps [of "[c]" "[]"])

lemma strip_by_none: "list_all (\<lambda>c. \<not> p c) s \<Longrightarrow> strip_by p s = s"
proof -
  have d: "dropWhile p s = s" if "list_all (\<lambda>c. \<not> p c) s" for s using that by (cases s) simp_all
  assume a: "list_all (\<lambda>c. \<not> p c) s"
  then have "list_all (\<lambda>c. \<not> p c) (rev s)" by (simp add: list_all_iff)
  with d [OF a] d show ?thesis by (simp add: strip_by_def)
qed

text \<open>Hexadecimal digits as \<open>bytes_hex\<close> writes them.\<close>

definition lower_hex :: "nat \<Rightarrow> bool" where "lower_hex c = ((48 \<le> c \<and> c < 58) \<or> (97 \<le> c \<and> c < 103))"

lemma hex_digit_lower: "d < 16 \<Longrightarrow> lower_hex (hex_digit d)"
  by (simp add: lower_hex_def hex_digit_def)

lemma lower_hex_char:
  assumes "lower_hex c"
  shows "c \<noteq> 45" "c \<noteq> 43" "c \<noteq> 95" "c \<noteq> 117" "c \<noteq> 120" "c \<noteq> 88" "c \<noteq> 123" "c \<noteq> 125" "\<not> ascii_space c" "int_char c = c"
  using assms by (auto simp: lower_hex_def ascii_space_def int_char_def)

lemma bytes_hex_lower: "list_all lower_hex (bytes_hex b)"
  by (induction b) (auto simp: bytes_hex_def byte_hex_def hex_digit_lower byte_nibbles)

lemma base_digits_hex:
  "b \<noteq> [] \<Longrightarrow> base_digits 16 (bytes_hex b) = Some (concat (map (\<lambda>x. [unat x div 16, unat x mod 16]) b))"
proof (induction b)
  case (Cons x b)
  have n: "hex_digit d \<noteq> 95" if "d < 16" for d using that by (simp add: hex_digit_def)
  obtain s where s: "s = bytes_hex b" by simp
  show ?case
  proof (cases b)
    case Nil
    then show ?thesis by (simp add: bytes_hex_def byte_hex_def hex_val_digit byte_nibbles n)
  next
    case (Cons y ys)
    then obtain e t where e: "bytes_hex b = e # t" "e \<noteq> 95" by (simp add: bytes_hex_def byte_hex_def n byte_nibbles)
    have "bytes_hex (x # b) = hex_digit (unat x div 16) # hex_digit (unat x mod 16) # e # t"
      using e by (simp add: bytes_hex_def byte_hex_def)
    moreover have "base_digits 16 (e # t) = Some (concat (map (\<lambda>x. [unat x div 16, unat x mod 16]) b))"
      using Cons.IH Cons e by simp
    ultimately show ?thesis using e by (simp add: hex_val_digit byte_nibbles n)
  qed
qed simp

lemma digits_base_nibbles: "digits_base 16 (concat (map (\<lambda>x. [unat x div 16, unat x mod 16]) b)) = be_val b"
proof (induction b rule: rev_induct)
  case (snoc x b)
  then show ?case using div_mult_mod_eq [of "unat x" 16] by (simp add: digits_base_def algebra_simps)
qed (simp add: digits_base_def)

lemma py_int_hex:
  assumes "b \<noteq> []"
  shows "py_int 16 (bytes_hex b) = Inr (int (be_val b))"
proof -
  let ?h = "bytes_hex b"
  have low: "lower_hex c" if "c \<in> set ?h" for c using bytes_hex_lower that by (simp add: list_all_iff)
  have "map int_char ?h = ?h" using lower_hex_char(10) low by (simp add: map_idI)
  moreover have "strip_by ascii_space ?h = ?h" using lower_hex_char(9) low by (intro strip_by_none) (simp add: list_all_iff)
  moreover obtain x t where b: "b = x # t" using assms by (cases b) simp
  then have "take 1 ?h = [hex_digit (unat x div 16)]" "take 2 ?h = [hex_digit (unat x div 16), hex_digit (unat x mod 16)]"
    by (simp_all add: bytes_hex_def byte_hex_def)
  moreover have "hex_digit d \<noteq> 45" "hex_digit d \<noteq> 43" "hex_digit d \<noteq> 120" "hex_digit d \<noteq> 88" if "d < 16" for d
    using that by (simp_all add: hex_digit_def)
  ultimately show ?thesis using base_digits_hex [OF assms] byte_nibbles [of x]
    by (simp add: py_int_def digits_base_nibbles)
qed

theorem uuid_parse_text: "uuid_text b = Inr t \<Longrightarrow> uuid_parse t = Inr b"
proof -
  assume a: "uuid_text b = Inr t"
  let ?h = "bytes_hex b"
  have len: "length b = 16" and t: "t = slice ?h 0 8 @ 45 # slice ?h 8 12 @ 45 # slice ?h 12 16 @ 45 # slice ?h 16 20 @ 45 # slice ?h 20 32"
    using a by (auto simp: uuid_text_def Let_def split: if_splits)
  have sub: "set (slice ?h i j) \<subseteq> set ?h" for i j by (auto simp: slice_def dest: in_set_takeD in_set_dropD)
  have low: "lower_hex c \<or> c = 45" if "c \<in> set t" for c
    using that sub bytes_hex_lower [of b] unfolding t list_all_iff by auto
  have ch: "c \<noteq> 117 \<and> c \<noteq> 123 \<and> c \<noteq> 125" if "c \<in> set t" for c using low [OF that] lower_hex_char [of c] by auto
  then have u: "117 \<notin> set t" by auto
  have nodash: "filter (\<lambda>x. x \<noteq> 45) (slice ?h i j) = slice ?h i j" for i j
    using sub [of i j] bytes_hex_lower [of b] lower_hex_char(1) by (auto simp: list_all_iff filter_id_conv)
  have sl: "slice ?h 0 8 @ slice ?h 8 12 @ slice ?h 12 16 @ slice ?h 16 20 @ slice ?h 20 32 = ?h"
    using slice_split [of 0 8 12 ?h] slice_split [of 0 12 16 ?h] slice_split [of 0 16 20 ?h] slice_split [of 0 20 32 ?h] len
    by (simp flip: append_assoc) (simp add: slice_def)
  have "py_replace (str ''urn:'') [] t = t" "py_replace (str ''uuid:'') [] t = t"
    using u by (auto intro!: py_replace_absent simp: str_def)
  moreover have "strip_by (\<lambda>c. c = 123 \<or> c = 125) t = t" using ch by (intro strip_by_none) (auto simp: list_all_iff)
  ultimately have "uuid_hex t = ?h" unfolding uuid_hex_def py_replace_remove
    by (simp add: t nodash) (simp add: sl)
  moreover have "be_val b < 2 ^ 128" using be_val_bound [of b] len by simp
  moreover have "b \<noteq> []" using len by auto
  ultimately show ?thesis
    using len be_bytes_be_val [of b] by (simp add: uuid_parse_def py_int_hex)
qed

end
