(* ===== verification/Semantic_Types.thy ===== *)
theory Semantic_Types
  imports Py_Convert "HOL-Library.Sublist"
begin

text \<open>
  \<^verbatim>\<open>aicl/semantic/types.py\<close>: the objects a model emits and receives, their validation, and their
  conversion to and from dicts. Fields are annotated but not checked in Python, and \<^verbatim>\<open>from_dict\<close> stores
  whatever the dict holds, so every field is a value of any JSON type; \<open>typed_action\<close> and its like
  say that the fields have the annotated types. Shown: which objects survive the conversion, what
  validation accepts, and what the opcode tables do to an intent.
\<close>

section \<open>Values\<close>

text \<open>\<^verbatim>\<open>bool(v)\<close>.\<close>

fun j_true :: "json \<Rightarrow> bool" where
  "j_true JNull = False"
| "j_true (JBool b) = b"
| "j_true (JInt n) = (n \<noteq> 0)"
| "j_true (JFloat x) = f64_true x"
| "j_true (JStr s) = (s \<noteq> [])"
| "j_true (JList l) = (l \<noteq> [])"
| "j_true (JObj d) = (d \<noteq> [])"

text \<open>\<^verbatim>\<open>v == 1.0\<close> and \<^verbatim>\<open>v == n\<close> for an integer; a bool is a number.\<close>

fun j_eq_one :: "json \<Rightarrow> bool" where
  "j_eq_one (JBool b) = b"
| "j_eq_one (JInt n) = (n = 1)"
| "j_eq_one (JFloat x) = f64_eq x f64_one"
| "j_eq_one _ = False"

text \<open>\<^verbatim>\<open>d.get(k, default)\<close>.\<close>

definition j_get :: "(pystr \<times> json) list \<Rightarrow> pystr \<Rightarrow> json \<Rightarrow> json" where
  "j_get d k dflt = (case map_of d k of None \<Rightarrow> dflt | Some v \<Rightarrow> v)"

text \<open>\<^verbatim>\<open>if cond: d[k] = v\<close>, on a dict that does not have the key.\<close>

definition put_if :: "bool \<Rightarrow> string \<Rightarrow> json \<Rightarrow> (pystr \<times> json) list" where
  "put_if c k v = (if c then [(str k, v)] else [])"

datatype semantic_exn = SemanticError | ValidationError | SemPy exn

text \<open>An exception of the interpreter passing through.\<close>

definition sem :: "'a res \<Rightarrow> semantic_exn + 'a" where
  "sem r = (case r of Inl e \<Rightarrow> Inl (SemPy e) | Inr x \<Rightarrow> Inr x)"

lemma sem_simps [simp]:
  "sem (Inl e) = Inl (SemPy e)" "sem (Inr x) = Inr x" "sem r = Inr x \<longleftrightarrow> r = Inr x"
  "sem r = Inl y \<longleftrightarrow> (\<exists>e. r = Inl e \<and> y = SemPy e)"
  by (cases r; auto simp: sem_def)+

section \<open>Intents\<close>

datatype model_intent =
    CLASSIFY | GENERATE | REASON | EMBED | RANK | SUMMARIZE | SYNTHESIZE | VERIFY | EXTRACT
  | TRANSFORM | PLAN | EVALUATE | CALL_MODEL | CALL_TOOL | READ_MEMORY | WRITE_MEMORY 
  | DELETE_MEMORY | INDEX_QUERY | INDEX_UPSERT | ROUTE | FILTER | RETURN_RESULT 
  | STREAM_RESULT | CANCEL

fun intent_value :: "model_intent \<Rightarrow> pystr" where
  "intent_value CLASSIFY = str ''CLASSIFY''"
| "intent_value GENERATE = str ''GENERATE''"
| "intent_value REASON = str ''REASON''"
| "intent_value EMBED = str ''EMBED''"
| "intent_value RANK = str ''RANK''"
| "intent_value SUMMARIZE = str ''SUMMARIZE''"
| "intent_value SYNTHESIZE = str ''SYNTHESIZE''"
| "intent_value VERIFY = str ''VERIFY''"
| "intent_value EXTRACT = str ''EXTRACT''"
| "intent_value TRANSFORM = str ''TRANSFORM''"
| "intent_value PLAN = str ''PLAN''"
| "intent_value EVALUATE = str ''EVALUATE''"
| "intent_value CALL_MODEL = str ''CALL_MODEL''"
| "intent_value CALL_TOOL = str ''CALL_TOOL''"
| "intent_value READ_MEMORY = str ''READ_MEMORY''"
| "intent_value WRITE_MEMORY = str ''WRITE_MEMORY''"
| "intent_value DELETE_MEMORY = str ''DELETE_MEMORY''"
| "intent_value INDEX_QUERY = str ''INDEX_QUERY''"
| "intent_value INDEX_UPSERT = str ''INDEX_UPSERT''"
| "intent_value ROUTE = str ''ROUTE''"
| "intent_value FILTER = str ''FILTER''"
| "intent_value RETURN_RESULT = str ''RETURN_RESULT''"
| "intent_value STREAM_RESULT = str ''STREAM_RESULT''"
| "intent_value CANCEL = str ''CANCEL''"

definition all_intents :: "model_intent list" where
  "all_intents =
    [CLASSIFY, GENERATE, REASON, EMBED, RANK, SUMMARIZE,
     SYNTHESIZE, VERIFY, EXTRACT, TRANSFORM, PLAN, EVALUATE,
     CALL_MODEL, CALL_TOOL, READ_MEMORY, WRITE_MEMORY, DELETE_MEMORY, INDEX_QUERY,
     INDEX_UPSERT, ROUTE, FILTER, RETURN_RESULT, STREAM_RESULT, CANCEL]"

text \<open>\<^verbatim>\<open>ModelIntent(v)\<close>: the member with that value; any other value, of whatever type, is a ValueError.\<close>

definition intent_of :: "json \<Rightarrow> model_intent option" where
  "intent_of v = (case v of JStr s \<Rightarrow> find (\<lambda>i. intent_value i = s) all_intents | _ \<Rightarrow> None)"

definition INTENT_TO_OPCODE :: "(model_intent \<times> int) list" where
  "INTENT_TO_OPCODE =
    [(CLASSIFY, 0x43), (GENERATE, 0x46), (REASON, 0x44), (EMBED, 0x42),
     (RANK, 0x46), (SUMMARIZE, 0x46), (SYNTHESIZE, 0x46), (VERIFY, 0x44),
     (EXTRACT, 0x46), (TRANSFORM, 0x46), (PLAN, 0x46), (EVALUATE, 0x46),
     (CALL_MODEL, 0x40), (CALL_TOOL, 0x41), (READ_MEMORY, 0x20), (WRITE_MEMORY, 0x21),
     (DELETE_MEMORY, 0x22), (INDEX_QUERY, 0x23), (INDEX_UPSERT, 0x24), (ROUTE, 0x03),
     (FILTER, 0x46), (RETURN_RESULT, 0x11), (STREAM_RESULT, 0x12), (CANCEL, 0x09)]"

text \<open>The reverse dict: of several intents with one opcode the last stays.\<close>

definition OPCODE_TO_INTENT :: "(int \<times> model_intent) list" where
  "OPCODE_TO_INTENT = rev (map (\<lambda>(i, c). (c, i)) INTENT_TO_OPCODE)"

section \<open>Actions\<close>

text \<open>\<open>None\<close> as intent: an object that is no member of the enumeration.\<close>

record model_action =
  ac_intent :: "model_intent option"
  ac_target :: json
  ac_inputs :: json
  ac_params :: json
  ac_result :: json
  ac_confidence :: json
  ac_stream :: json
  ac_cancel :: json
  ac_correlation_id :: json
  ac_deadline_ms :: json
  ac_metadata :: json

datatype validation_error = InvalidIntent | ConfidenceRange | NegativeDeadline | RequiresTarget | RequiresToolName

text \<open>\<^verbatim>\<open>0.0 <= v <= 1.0\<close>, \<^verbatim>\<open>v < 0\<close> and \<^verbatim>\<open>"tool_name" in v\<close>, with the TypeError of a value they are not defined on.\<close>

fun in_unit :: "json \<Rightarrow> semantic_exn + bool" where
  "in_unit (JFloat x) = Inr (f64_le 0 x \<and> f64_le x f64_one)"
| "in_unit (JInt n) = Inr (0 \<le> n \<and> n \<le> 1)"
| "in_unit (JBool _) = Inr True"
| "in_unit _ = Inl (SemPy PyTypeError)"

fun is_negative :: "json \<Rightarrow> semantic_exn + bool" where
  "is_negative (JFloat x) = Inr (\<not> f64_nan x \<and> f64_rank x < 0)"
| "is_negative (JInt n) = Inr (n < 0)"
| "is_negative (JBool _) = Inr False"
| "is_negative _ = Inl (SemPy PyTypeError)"

fun has_tool_name :: "json \<Rightarrow> semantic_exn + bool" where
  "has_tool_name (JObj d) = Inr (str ''tool_name'' \<in> fst ` set d)"
| "has_tool_name (JList l) = Inr (JStr (str ''tool_name'') \<in> set l)"
| "has_tool_name (JStr s) = Inr (sublist (str ''tool_name'') s)"
| "has_tool_name _ = Inl (SemPy PyTypeError)"

definition needs_target :: "model_intent option \<Rightarrow> bool" where
  "needs_target i = (i \<in> {Some CLASSIFY, Some CALL_MODEL, Some CALL_TOOL, Some READ_MEMORY, Some WRITE_MEMORY})"

definition err_if :: "bool \<Rightarrow> validation_error \<Rightarrow> validation_error list" where
  "err_if c e = (if c then [e] else [])"

definition action_validate :: "model_action \<Rightarrow> semantic_exn + validation_error list" where
  "action_validate a =
     bindr (in_unit (ac_confidence a)) (\<lambda>conf_ok.
     bindr (is_negative (ac_deadline_ms a)) (\<lambda>neg.
     bindr (if ac_intent a = Some CALL_TOOL then has_tool_name (ac_params a) else Inr True) (\<lambda>tool_ok.
       Inr (err_if (ac_intent a = None) InvalidIntent @ err_if (\<not> conf_ok) ConfidenceRange @
            err_if neg NegativeDeadline @
            err_if (needs_target (ac_intent a) \<and> \<not> j_true (ac_target a)) RequiresTarget @
            err_if (\<not> tool_ok) RequiresToolName))))"

definition action_is_valid :: "model_action \<Rightarrow> semantic_exn + bool" where
  "action_is_valid a = bindr (action_validate a) (\<lambda>errors. Inr (length errors = 0))"

text \<open>\<^verbatim>\<open>self.intent.value\<close> of an object that is no member is taken as an AttributeError.\<close>

definition action_to_dict :: "model_action \<Rightarrow> semantic_exn + (pystr \<times> json) list" where
  "action_to_dict a =
     (case ac_intent a of
        None \<Rightarrow> Inl (SemPy AttributeError)
      | Some i \<Rightarrow> Inr
          ([(str ''intent'', JStr (intent_value i))] @
           put_if (j_true (ac_target a)) ''target'' (ac_target a) @
           put_if (j_true (ac_inputs a)) ''inputs'' (ac_inputs a) @
           put_if (j_true (ac_params a)) ''params'' (ac_params a) @
           put_if (j_true (ac_result a)) ''result'' (ac_result a) @
           put_if (\<not> j_eq_one (ac_confidence a)) ''confidence'' (ac_confidence a) @
           put_if (j_true (ac_stream a)) ''stream'' (JBool True) @
           put_if (j_true (ac_cancel a)) ''cancel'' (JBool True) @
           put_if (j_true (ac_correlation_id a)) ''correlation_id'' (ac_correlation_id a) @
           put_if (j_true (ac_deadline_ms a)) ''deadline_ms'' (ac_deadline_ms a) @
           put_if (j_true (ac_metadata a)) ''metadata'' (ac_metadata a)))"

definition action_from_dict :: "(pystr \<times> json) list \<Rightarrow> semantic_exn + model_action" where
  "action_from_dict d =
     (case intent_of (j_get d (str ''intent'') (JStr [])) of
        None \<Rightarrow> Inl SemanticError
      | Some i \<Rightarrow> Inr
          \<lparr>ac_intent = Some i,
           ac_target = j_get d (str ''target'') (JStr []),
           ac_inputs = j_get d (str ''inputs'') (JObj []),
           ac_params = j_get d (str ''params'') (JObj []),
           ac_result = j_get d (str ''result'') (JObj []),
           ac_confidence = j_get d (str ''confidence'') (JFloat f64_one),
           ac_stream = j_get d (str ''stream'') (JBool False),
           ac_cancel = j_get d (str ''cancel'') (JBool False),
           ac_correlation_id = j_get d (str ''correlation_id'') (JStr []),
           ac_deadline_ms = j_get d (str ''deadline_ms'') (JInt 0),
           ac_metadata = j_get d (str ''metadata'') (JObj [])\<rparr>)"

section \<open>Observations\<close>

record model_observation =
  ob_task :: json
  ob_context :: json
  ob_inputs :: json
  ob_params :: json
  ob_schema_id :: json
  ob_trace_id :: json
  ob_origin :: json
  ob_confidence :: json
  ob_deadline_ms :: json
  ob_metadata :: json

definition observation_to_dict :: "model_observation \<Rightarrow> (pystr \<times> json) list" where
  "observation_to_dict b =
     [(str ''task'', ob_task b)] @
     put_if (j_true (ob_context b)) ''context'' (ob_context b) @
     put_if (j_true (ob_inputs b)) ''inputs'' (ob_inputs b) @
     put_if (j_true (ob_params b)) ''params'' (ob_params b) @
     put_if (j_true (ob_schema_id b)) ''schema_id'' (ob_schema_id b) @
     put_if (j_true (ob_trace_id b)) ''trace_id'' (ob_trace_id b) @
     put_if (j_true (ob_origin b)) ''origin'' (ob_origin b) @
     put_if (\<not> j_eq_one (ob_confidence b)) ''confidence'' (ob_confidence b) @
     put_if (j_true (ob_deadline_ms b)) ''deadline_ms'' (ob_deadline_ms b) @
     put_if (j_true (ob_metadata b)) ''metadata'' (ob_metadata b)"

definition observation_from_dict :: "(pystr \<times> json) list \<Rightarrow> model_observation" where
  "observation_from_dict d =
     \<lparr>ob_task = j_get d (str ''task'') (JStr []),
      ob_context = j_get d (str ''context'') (JObj []),
      ob_inputs = j_get d (str ''inputs'') (JObj []),
      ob_params = j_get d (str ''params'') (JObj []),
      ob_schema_id = j_get d (str ''schema_id'') (JStr []),
      ob_trace_id = j_get d (str ''trace_id'') (JStr []),
      ob_origin = j_get d (str ''origin'') (JStr []),
      ob_confidence = j_get d (str ''confidence'') (JFloat f64_one),
      ob_deadline_ms = j_get d (str ''deadline_ms'') (JInt 0),
      ob_metadata = j_get d (str ''metadata'') (JObj [])\<rparr>"

section \<open>Requests\<close>

text \<open>\<^verbatim>\<open>v == 512\<close> and \<^verbatim>\<open>v == 0.7\<close>.\<close>

definition f64_512 :: f64 where "f64_512 = 0x4080000000000000"
definition f64_0_7 :: f64 where "f64_0_7 = 0x3FE6666666666666"

fun j_eq_512 :: "json \<Rightarrow> bool" where
  "j_eq_512 (JInt n) = (n = 512)"
| "j_eq_512 (JFloat x) = f64_eq x f64_512"
| "j_eq_512 _ = False"

fun j_eq_0_7 :: "json \<Rightarrow> bool" where
  "j_eq_0_7 (JFloat x) = f64_eq x f64_0_7"
| "j_eq_0_7 _ = False"

record model_request =
  rq_target_model :: json
  rq_task :: json
  rq_prompt :: json
  rq_inputs :: json
  rq_params :: json
  rq_max_tokens :: json
  rq_temperature :: json
  rq_stop :: json
  rq_stream :: json
  rq_grammar :: json
  rq_correlation_id :: json
  rq_deadline_ms :: json
  rq_metadata :: json

definition request_to_dict :: "model_request \<Rightarrow> (pystr \<times> json) list" where
  "request_to_dict r =
     [(str ''target_model'', rq_target_model r), (str ''task'', rq_task r)] @
     put_if (j_true (rq_prompt r)) ''prompt'' (rq_prompt r) @
     put_if (j_true (rq_inputs r)) ''inputs'' (rq_inputs r) @
     put_if (j_true (rq_params r)) ''params'' (rq_params r) @
     put_if (\<not> j_eq_512 (rq_max_tokens r)) ''max_tokens'' (rq_max_tokens r) @
     put_if (\<not> j_eq_0_7 (rq_temperature r)) ''temperature'' (rq_temperature r) @
     put_if (j_true (rq_stop r)) ''stop'' (rq_stop r) @
     put_if (j_true (rq_stream r)) ''stream'' (JBool True) @
     put_if (j_true (rq_grammar r)) ''grammar'' (rq_grammar r) @
     put_if (j_true (rq_correlation_id r)) ''correlation_id'' (rq_correlation_id r) @
     put_if (j_true (rq_deadline_ms r)) ''deadline_ms'' (rq_deadline_ms r) @
     put_if (j_true (rq_metadata r)) ''metadata'' (rq_metadata r)"

definition request_from_dict :: "(pystr \<times> json) list \<Rightarrow> model_request" where
  "request_from_dict d =
     \<lparr>rq_target_model = j_get d (str ''target_model'') (JStr []),
      rq_task = j_get d (str ''task'') (JStr []),
      rq_prompt = j_get d (str ''prompt'') (JStr []),
      rq_inputs = j_get d (str ''inputs'') (JObj []),
      rq_params = j_get d (str ''params'') (JObj []),
      rq_max_tokens = j_get d (str ''max_tokens'') (JInt 512),
      rq_temperature = j_get d (str ''temperature'') (JFloat f64_0_7),
      rq_stop = j_get d (str ''stop'') (JList []),
      rq_stream = j_get d (str ''stream'') (JBool False),
      rq_grammar = j_get d (str ''grammar'') JNull,
      rq_correlation_id = j_get d (str ''correlation_id'') (JStr []),
      rq_deadline_ms = j_get d (str ''deadline_ms'') (JInt 0),
      rq_metadata = j_get d (str ''metadata'') (JObj [])\<rparr>"

section \<open>Results\<close>

record model_result =
  mr_intent :: "model_intent option"
  mr_output :: json
  mr_confidence :: json
  mr_tokens_used :: json
  mr_latency_ms :: json
  mr_error :: json
  mr_done :: json
  mr_metadata :: json

definition result_is_error :: "model_result \<Rightarrow> bool" where
  "result_is_error r = (mr_error r \<noteq> JNull)"

definition result_to_dict :: "model_result \<Rightarrow> semantic_exn + (pystr \<times> json) list" where
  "result_to_dict r =
     (case mr_intent r of
        None \<Rightarrow> Inl (SemPy AttributeError)
      | Some i \<Rightarrow> Inr
          ([(str ''intent'', JStr (intent_value i)), (str ''confidence'', mr_confidence r), (str ''done'', mr_done r)] @
           put_if (mr_output r \<noteq> JNull) ''output'' (mr_output r) @
           put_if (j_true (mr_tokens_used r)) ''tokens_used'' (mr_tokens_used r) @
           put_if (j_true (mr_latency_ms r)) ''latency_ms'' (mr_latency_ms r) @
           put_if (j_true (mr_error r)) ''error'' (mr_error r) @
           put_if (j_true (mr_metadata r)) ''metadata'' (mr_metadata r)))"

definition result_from_dict :: "(pystr \<times> json) list \<Rightarrow> model_result" where
  "result_from_dict d =
     \<lparr>mr_intent = Some (case intent_of (j_get d (str ''intent'') (JStr [])) of None \<Rightarrow> RETURN_RESULT | Some i \<Rightarrow> i),
      mr_output = j_get d (str ''output'') JNull,
      mr_confidence = j_get d (str ''confidence'') (JFloat f64_one),
      mr_tokens_used = j_get d (str ''tokens_used'') (JInt 0),
      mr_latency_ms = j_get d (str ''latency_ms'') (JFloat 0),
      mr_error = j_get d (str ''error'') JNull,
      mr_done = j_get d (str ''done'') (JBool True),
      mr_metadata = j_get d (str ''metadata'') (JObj [])\<rparr>"

section \<open>Lemmas\<close>

lemma j_get_put_if:
  "j_get (put_if c k v @ d) (str k') dflt = (if c \<and> k' = k then v else j_get d (str k') dflt)"
  "j_get (put_if c k v) (str k') dflt = (if c \<and> k' = k then v else dflt)"
  by (simp_all add: j_get_def put_if_def str_eq)

lemma j_get_Cons: "j_get ((str k, v) # d) (str k') dflt = (if k' = k then v else j_get d (str k') dflt)"
  by (simp add: j_get_def str_eq)

lemmas j_get_simps = j_get_put_if j_get_Cons

lemma intent_of_value [simp]: "intent_of (JStr (intent_value i)) = Some i"
  by (cases i) (simp_all add: intent_of_def all_intents_def str_eq)

text \<open>What a field becomes when a false value is left out and the default put in.\<close>

definition or_default :: "json \<Rightarrow> json \<Rightarrow> json" where
  "or_default v dflt = (if j_true v then v else dflt)"

definition action_norm :: "model_action \<Rightarrow> model_action" where
  "action_norm a =
     a\<lparr>ac_target := or_default (ac_target a) (JStr []), ac_inputs := or_default (ac_inputs a) (JObj []),
       ac_params := or_default (ac_params a) (JObj []), ac_result := or_default (ac_result a) (JObj []),
       ac_confidence := (if j_eq_one (ac_confidence a) then JFloat f64_one else ac_confidence a),
       ac_stream := JBool (j_true (ac_stream a)), ac_cancel := JBool (j_true (ac_cancel a)),
       ac_correlation_id := or_default (ac_correlation_id a) (JStr []),
       ac_deadline_ms := or_default (ac_deadline_ms a) (JInt 0),
       ac_metadata := or_default (ac_metadata a) (JObj [])\<rparr>"

lemma action_from_to:
  "ac_intent a = Some i \<Longrightarrow> bindr (action_to_dict a) action_from_dict = Inr (action_norm a)"
  by (simp add: action_to_dict_def action_from_dict_def action_norm_def or_default_def bindr_def j_get_simps)

text \<open>The annotated types.\<close>

fun is_str :: "json \<Rightarrow> bool" where "is_str (JStr _) = True" | "is_str _ = False"
fun is_obj :: "json \<Rightarrow> bool" where "is_obj (JObj _) = True" | "is_obj _ = False"
fun is_bool :: "json \<Rightarrow> bool" where "is_bool (JBool _) = True" | "is_bool _ = False"
fun is_int :: "json \<Rightarrow> bool" where "is_int (JInt _) = True" | "is_int _ = False"
fun is_float :: "json \<Rightarrow> bool" where "is_float (JFloat _) = True" | "is_float _ = False"
fun is_list :: "json \<Rightarrow> bool" where "is_list (JList _) = True" | "is_list _ = False"

definition typed_action :: "model_action \<Rightarrow> bool" where
  "typed_action a =
     (ac_intent a \<noteq> None \<and> is_str (ac_target a) \<and> is_obj (ac_inputs a) \<and> is_obj (ac_params a) \<and>
      is_obj (ac_result a) \<and> is_float (ac_confidence a) \<and> is_bool (ac_stream a) \<and> is_bool (ac_cancel a) \<and>
      is_str (ac_correlation_id a) \<and> is_int (ac_deadline_ms a) \<and> is_obj (ac_metadata a))"

lemma or_default_typed:
  "is_str v \<Longrightarrow> or_default v (JStr []) = v" "is_obj v \<Longrightarrow> or_default v (JObj []) = v"
  "is_int v \<Longrightarrow> or_default v (JInt 0) = v" "is_bool v \<Longrightarrow> JBool (j_true v) = v"
  "is_list v \<Longrightarrow> or_default v (JList []) = v"
  by (cases v; simp add: or_default_def)+

lemma f64_eq_nonzero: "unat y mod 2 ^ 63 \<noteq> 0 \<Longrightarrow> f64_eq x y \<Longrightarrow> x = y"
  by (simp add: f64_eq_def)

lemma f64_eq_refl: "f64_eq f64_one f64_one" "f64_eq f64_0_7 f64_0_7"
  by (simp_all add: f64_eq_def f64_nan_def f64_exp_def f64_one_def f64_0_7_def)

lemma one_typed: "is_float v \<Longrightarrow> j_eq_one v \<longleftrightarrow> v = JFloat f64_one"
  using f64_eq_nonzero [of f64_one] f64_eq_refl by (cases v) (auto simp: f64_one_def)

lemma max_tokens_typed: "is_int v \<Longrightarrow> j_eq_512 v \<longleftrightarrow> v = JInt 512"
  by (cases v) auto

lemma temperature_typed: "is_float v \<Longrightarrow> j_eq_0_7 v \<longleftrightarrow> v = JFloat f64_0_7"
  using f64_eq_nonzero [of f64_0_7] f64_eq_refl by (cases v) (auto simp: f64_0_7_def)

lemma action_norm_typed: "typed_action a \<Longrightarrow> action_norm a = a"
  by (cases a) (simp add: typed_action_def action_norm_def or_default_typed one_typed)

text \<open>
  C36. An action whose fields have the annotated types survives the conversion to a dict and back; any
  other comes back with every false field replaced by its default, a confidence equal to one as 1.0,
  and the two switches as booleans, and converting that again changes nothing more.
\<close>

theorem action_roundtrip:
  assumes "ac_intent a = Some i"
  shows "bindr (action_to_dict a) action_from_dict = Inr (action_norm a) \<and>
    bindr (action_to_dict (action_norm a)) action_from_dict = Inr (action_norm a) \<and>
    (action_norm a = a \<or> \<not> typed_action a)"
proof -
  have one: "j_eq_one (JFloat f64_one)" by (simp add: f64_eq_refl)
  have "action_norm (action_norm a) = action_norm a" by (simp add: action_norm_def or_default_def one)
  moreover have "ac_intent (action_norm a) = Some i" using assms by (simp add: action_norm_def)
  ultimately show ?thesis using action_from_to [OF assms] action_from_to [of "action_norm a" i] action_norm_typed by metis
qed

definition sample_action :: model_action where
  "sample_action =
     \<lparr>ac_intent = Some CLASSIFY, ac_target = JStr (str ''sentiment''), ac_inputs = JObj [(str ''text'', JStr (str ''hi''))],
      ac_params = JObj [], ac_result = JObj [], ac_confidence = JFloat f64_one, ac_stream = JBool False,
      ac_cancel = JBool True, ac_correlation_id = JStr [], ac_deadline_ms = JInt 5000, ac_metadata = JObj []\<rparr>"

theorem action_roundtrip_witness:
  "bindr (action_to_dict sample_action) action_from_dict = Inr sample_action"
  using action_roundtrip [of sample_action CLASSIFY] by (simp add: sample_action_def typed_action_def)

section \<open>Validation\<close>

text \<open>
  Validation of an action with fields of the annotated types never raises, and what it accepts is
  exactly: a confidence between 0 and 1, no negative deadline, a target for the intents that address
  one, a tool name among the parameters of a tool call; the dict of an accepted action converts back
  to an accepted one.
\<close>

theorem action_validation:
  assumes "typed_action a"
  shows "\<exists>errors. action_validate a = Inr errors \<and>
    (errors = [] \<longleftrightarrow>
       in_unit (ac_confidence a) = Inr True \<and> is_negative (ac_deadline_ms a) = Inr False \<and>
       (\<not> needs_target (ac_intent a) \<or> ac_target a \<noteq> JStr []) \<and>
       (ac_intent a \<noteq> Some CALL_TOOL \<or> has_tool_name (ac_params a) = Inr True)) \<and>
    bindr (bindr (action_to_dict a) action_from_dict) action_validate = Inr errors"
proof -
  from assms obtain i t c p n where a: "ac_intent a = Some i" "ac_target a = JStr t" "ac_params a = JObj p"
    "ac_confidence a = JFloat c" "ac_deadline_ms a = JInt n"
    by (cases "ac_target a"; cases "ac_params a"; cases "ac_confidence a"; cases "ac_deadline_ms a")
      (auto simp: typed_action_def)
  have "bindr (action_to_dict a) action_from_dict = Inr a"
    using action_from_to [OF a(1)] action_norm_typed [OF assms] by simp
  then show ?thesis using a by (auto simp: action_validate_def bindr_def err_if_def)
qed

theorem action_validation_witness: "action_validate sample_action = Inr []"
  using action_validation [of sample_action]
  by (auto simp: sample_action_def typed_action_def needs_target_def f64_le_def f64_rank_def f64_sign_def
      f64_one_def f64_nan_def f64_exp_def str_def)

section \<open>The other objects\<close>

definition typed_observation :: "model_observation \<Rightarrow> bool" where
  "typed_observation b =
     (is_str (ob_task b) \<and> is_obj (ob_context b) \<and> is_obj (ob_inputs b) \<and> is_obj (ob_params b) \<and>
      is_str (ob_schema_id b) \<and> is_str (ob_trace_id b) \<and> is_str (ob_origin b) \<and> is_float (ob_confidence b) \<and>
      is_int (ob_deadline_ms b) \<and> is_obj (ob_metadata b))"

definition typed_request :: "model_request \<Rightarrow> bool" where
  "typed_request r =
     (is_str (rq_target_model r) \<and> is_str (rq_task r) \<and> is_str (rq_prompt r) \<and> is_obj (rq_inputs r) \<and>
      is_obj (rq_params r) \<and> is_int (rq_max_tokens r) \<and> is_float (rq_temperature r) \<and> is_list (rq_stop r) \<and>
      is_bool (rq_stream r) \<and> (rq_grammar r = JNull \<or> is_str (rq_grammar r)) \<and> is_str (rq_correlation_id r) \<and>
      is_int (rq_deadline_ms r) \<and> is_obj (rq_metadata r))"

definition typed_result :: "model_result \<Rightarrow> bool" where
  "typed_result r =
     (mr_intent r \<noteq> None \<and> is_float (mr_confidence r) \<and> is_int (mr_tokens_used r) \<and> is_float (mr_latency_ms r) \<and>
      (mr_error r = JNull \<or> is_str (mr_error r)) \<and> is_bool (mr_done r) \<and> is_obj (mr_metadata r))"

lemma if_differs: "(if v \<noteq> d then v else d) = v" "(if v = d then d else v) = v"
  by simp_all

lemma or_default_null: "v = JNull \<or> is_str v \<Longrightarrow> v \<noteq> JStr [] \<Longrightarrow> or_default v JNull = v"
  by (cases v) (simp_all add: or_default_def)

lemma bool_typed:
  "is_bool v \<Longrightarrow> JBool True = v \<longleftrightarrow> j_true v" "is_bool v \<Longrightarrow> JBool False = v \<longleftrightarrow> \<not> j_true v"
  by (cases v; simp)+

lemmas typed_simps = or_default_def [symmetric] or_default_typed one_typed max_tokens_typed temperature_typed
  if_differs or_default_null bool_typed

lemma observation_from_to: "typed_observation b \<Longrightarrow> observation_from_dict (observation_to_dict b) = b"
  by (cases b) (simp add: typed_observation_def observation_to_dict_def observation_from_dict_def j_get_simps typed_simps)

lemma request_from_to:
  "typed_request r \<Longrightarrow> rq_grammar r \<noteq> JStr [] \<Longrightarrow> request_from_dict (request_to_dict r) = r"
  by (cases r) (simp add: typed_request_def request_to_dict_def request_from_dict_def j_get_simps typed_simps)

lemma latency_typed: "is_float v \<Longrightarrow> v \<noteq> JFloat 0x8000000000000000 \<Longrightarrow> or_default v (JFloat 0) = v"
proof (cases v)
  case (JFloat x)
  assume "v \<noteq> JFloat 0x8000000000000000"
  moreover have "x = 0 \<or> x = 0x8000000000000000" if "unat x mod 2 ^ 63 = 0"
  proof -
    have "unat x < 2 ^ 64" by (rule order.strict_trans2 [OF unsigned_less]) simp
    then have "unat x div 2 ^ 63 < 2" by (simp add: less_mult_imp_div_less)
    moreover have "unat x = 2 ^ 63 * (unat x div 2 ^ 63)" using that by (metis add_0_right mult_div_mod_eq)
    ultimately consider "unat x = 0" | "unat x = 2 ^ 63"
      by (cases "unat x div 2 ^ 63 = 0") (auto simp: less_2_cases_iff)
    then show ?thesis
    proof cases
      case 2
      then have "unat x = unat (0x8000000000000000 :: f64)" by simp
      then show ?thesis by (simp only: word_unat_eq_iff [symmetric] simp_thms)
    qed (simp add: unat_eq_0)
  qed
  ultimately show ?thesis using JFloat by (auto simp: or_default_def f64_true_def)
qed simp_all

lemma result_from_to:
  assumes "typed_result r" "mr_error r \<noteq> JStr []" "mr_latency_ms r \<noteq> JFloat 0x8000000000000000"
  shows "bindr (result_to_dict r) (\<lambda>d. Inr (result_from_dict d)) = Inr r"
proof -
  obtain i where "mr_intent r = Some i" using assms(1) by (auto simp: typed_result_def)
  then show ?thesis
    using assms by (cases r) (simp add: typed_result_def result_to_dict_def result_from_dict_def j_get_simps typed_simps
        latency_typed bindr_def)
qed

text \<open>
  C37. Observations, requests and results with fields of the annotated types survive the conversion to a
  dict and back, except that an empty grammar of a request, an empty error of a result and a latency of
  minus zero are lost: a result that is an error with an empty message comes back as no error.
\<close>

theorem objects_roundtrip:
  assumes "typed_observation b" "typed_request q" "typed_result r"
  shows "observation_from_dict (observation_to_dict b) = b \<and>
    (rq_grammar q = JStr [] \<or> request_from_dict (request_to_dict q) = q) \<and>
    (mr_error r = JStr [] \<or> mr_latency_ms r = JFloat 0x8000000000000000 \<or>
       bindr (result_to_dict r) (\<lambda>d. Inr (result_from_dict d)) = Inr r) \<and>
    (mr_error r \<noteq> JStr [] \<or> result_is_error r \<and>
       (\<exists>d. result_to_dict r = Inr d \<and> \<not> result_is_error (result_from_dict d)))"
proof -
  have "result_is_error r \<and> (\<exists>d. result_to_dict r = Inr d \<and> \<not> result_is_error (result_from_dict d))"
    if "mr_error r = JStr []"
    using that assms(3)
    by (auto simp: typed_result_def result_is_error_def result_to_dict_def result_from_dict_def j_get_simps)
  then show ?thesis
    using observation_from_to [OF assms(1)] request_from_to [OF assms(2)] result_from_to [OF assms(3)] by blast
qed

definition sample_result :: model_result where
  "sample_result =
     \<lparr>mr_intent = Some RETURN_RESULT, mr_output = JNull, mr_confidence = JFloat f64_one, mr_tokens_used = JInt 0,
      mr_latency_ms = JFloat 0, mr_error = JStr [], mr_done = JBool True, mr_metadata = JObj []\<rparr>"

theorem objects_roundtrip_witness:
  "result_is_error sample_result \<and>
   (\<exists>d. result_to_dict sample_result = Inr d \<and> \<not> result_is_error (result_from_dict d))"
proof -
  have "typed_observation (observation_from_dict [])" "typed_request (request_from_dict [])" "typed_result sample_result"
    by (simp_all add: typed_observation_def observation_from_dict_def typed_request_def request_from_dict_def
        typed_result_def sample_result_def j_get_def)
  from objects_roundtrip [OF this] show ?thesis by (simp add: sample_result_def)
qed

section \<open>Intents and opcodes\<close>

text \<open>The intents that share their opcode with a later one.\<close>

definition merged_intents :: "model_intent set" where
  "merged_intents = {GENERATE, REASON, RANK, SUMMARIZE, SYNTHESIZE, EXTRACT, TRANSFORM, PLAN, EVALUATE}"

text \<open>
  Every intent has an opcode, and the reverse table gives the intent back for all but the nine that
  share an opcode with a later one; those come back as FILTER, and REASON as VERIFY.
\<close>

theorem intent_opcodes:
  "\<exists>c. map_of INTENT_TO_OPCODE i = Some c \<and>
     map_of OPCODE_TO_INTENT c = Some (if i = REASON then VERIFY else if i \<in> merged_intents then FILTER else i)"
  by (cases i) (simp_all add: INTENT_TO_OPCODE_def OPCODE_TO_INTENT_def merged_intents_def)

end
