(* ===== verification/Grammar.thy ===== *)
theory Grammar
  imports Semantic_Types
begin

text \<open>
  \<^verbatim>\<open>aicl/semantic/grammar.py\<close>: the grammars that constrain a model's output, as BNF text for llama.cpp and
  as a JSON schema. Shown: what the schemas promise of the actions they admit and what they leave to
  validation, and what the text of the grammars is.
\<close>

section \<open>The templates\<close>

text \<open>
  The lines of a text, each with its line feed. The templates are not raw strings: Python reads \<^verbatim>\<open>\"\<close> in
  them as a quotation mark alone.
\<close>

definition template_lines :: "string list \<Rightarrow> pystr" where
  "template_lines ls = concat (map (\<lambda>l. str l @ [10]) ls)"

definition GRAMMAR_ACTION_TEMPLATE :: pystr where
  \<open>GRAMMAR_ACTION_TEMPLATE =
    template_lines
     [''root   ::= "{" action_fields "}"'',
      ''action_fields ::= ""intent"" ":" intent_value ("," other_fields)*'',
      '''',
      ''intent_value  ::= "{intent_values}"'',
      '''',
      ''other_fields  ::= field_target | field_inputs | field_params | field_result'',
      ''                | field_confidence | field_stream | field_cancel'',
      ''                | field_correlation_id | field_deadline_ms | field_metadata'',
      '''',
      ''field_target  ::= ""target"" ":" string'',
      ''field_inputs  ::= ""inputs"" ":" object'',
      ''field_params  ::= ""params"" ":" object'',
      ''field_result  ::= ""result"" ":" object'',
      ''field_confidence ::= ""confidence"" ":" number'',
      ''field_stream  ::= ""stream"" ":" bool'',
      ''field_cancel  ::= ""cancel"" ":" bool'',
      ''field_correlation_id ::= ""correlation_id"" ":" string'',
      ''field_deadline_ms ::= ""deadline_ms"" ":" integer'',
      ''field_metadata ::= ""metadata"" ":" object'',
      '''',
      ''string  ::= """ chars """'',
      ''chars   ::= [^"]*'',
      ''number  ::= [0-9]+ ("." [0-9]+)?'',
      ''integer ::= [0-9]+'',
      ''bool    ::= "true" | "false"'',
      ''object  ::= "{" (string ":" value ("," string ":" value)*)? "}"'',
      ''value   ::= string | number | integer | bool | object | array'',
      ''array   ::= "[" (value ("," value)*)? "]"'']\<close>

definition GRAMMAR_CLASSIFY_TEMPLATE :: pystr where
  \<open>GRAMMAR_CLASSIFY_TEMPLATE =
    template_lines
     [''root   ::= "{" classify_fields "}"'',
      ''classify_fields ::= ""intent"" ":" ""CLASSIFY"" "," ""target"" ":" string "," ""inputs"" ":" inputs_obj ("," other_fields)*'',
      '''',
      ''other_fields ::= field_params | field_result | field_confidence | field_metadata'',
      ''field_params ::= ""params"" ":" params_obj'',
      ''field_result ::= ""result"" ":" result_obj'',
      ''field_confidence ::= ""confidence"" ":" number'',
      ''field_metadata ::= ""metadata"" ":" object'',
      '''',
      ''inputs_obj  ::= "{" ""text"" ":" string "}"'',
      ''params_obj  ::= "{" ""labels"" ":" labels_array ("," string ":" value)* "}"'',
      ''labels_array ::= "[" string ("," string)* "]"'',
      ''result_obj  ::= "{" ""label"" ":" string "," ""confidence"" ":" number "}"'',
      '''',
      ''string  ::= """ chars """'',
      ''chars   ::= [^"]*'',
      ''number  ::= [0-9]+ ("." [0-9]+)?'',
      ''integer ::= [0-9]+'',
      ''bool    ::= "true" | "false"'',
      ''object  ::= "{" (string ":" value ("," string ":" value)*)? "}"'',
      ''value   ::= string | number | integer | bool | object | array'',
      ''array   ::= "[" (value ("," value)*)? "]"'']\<close>

definition GRAMMAR_GENERATE_TEMPLATE :: pystr where
  \<open>GRAMMAR_GENERATE_TEMPLATE =
    template_lines
     [''root   ::= "{" gen_fields "}"'',
      ''gen_fields ::= ""intent"" ":" ""GENERATE"" ("," other_fields)*'',
      '''',
      ''other_fields ::= field_target | field_inputs | field_params | field_result'',
      ''                | field_confidence | field_stream | field_metadata'',
      '''',
      ''field_target  ::= ""target"" ":" string'',
      ''field_inputs  ::= ""inputs"" ":" object'',
      ''field_params  ::= ""params"" ":" object'',
      ''field_result  ::= ""result"" ":" object'',
      ''field_confidence ::= ""confidence"" ":" number'',
      ''field_stream  ::= ""stream"" ":" bool'',
      ''field_metadata ::= ""metadata"" ":" object'',
      '''',
      ''string  ::= """ chars """'',
      ''chars   ::= [^"]*'',
      ''number  ::= [0-9]+ ("." [0-9]+)?'',
      ''integer ::= [0-9]+'',
      ''bool    ::= "true" | "false"'',
      ''object  ::= "{" (string ":" value ("," string ":" value)*)? "}"'',
      ''value   ::= string | number | integer | bool | object | array'',
      ''array   ::= "[" (value ("," value)*)? "]"'']\<close>

definition GRAMMAR_TOOL_TEMPLATE :: pystr where
  \<open>GRAMMAR_TOOL_TEMPLATE =
    template_lines
     [''root   ::= "{" tool_fields "}"'',
      ''tool_fields ::= ""intent"" ":" ""CALL_TOOL"" "," ""target"" ":" string "," ""params"" ":" params_obj ("," other_fields)*'',
      '''',
      ''other_fields ::= field_inputs | field_result | field_confidence | field_metadata'',
      ''field_inputs  ::= ""inputs"" ":" object'',
      ''field_result  ::= ""result"" ":" object'',
      ''field_confidence ::= ""confidence"" ":" number'',
      ''field_metadata ::= ""metadata"" ":" object'',
      '''',
      ''params_obj ::= "{" ""tool_name"" ":" string ("," string ":" value)* "}"'',
      '''',
      ''string  ::= """ chars """'',
      ''chars   ::= [^"]*'',
      ''number  ::= [0-9]+ ("." [0-9]+)?'',
      ''integer ::= [0-9]+'',
      ''bool    ::= "true" | "false"'',
      ''object  ::= "{" (string ":" value ("," string ":" value)*)? "}"'',
      ''value   ::= string | number | integer | bool | object | array'',
      ''array   ::= "[" (value ("," value)*)? "]"'']\<close>

section \<open>Schemas\<close>

definition INTENT_VALUES :: "(model_intent \<times> pystr) list" where
  "INTENT_VALUES = map (\<lambda>i. (i, 34 # intent_value i @ [34])) all_intents"

text \<open>\<^verbatim>\<open>{"type": t}\<close>.\<close>

definition schema_type :: "string \<Rightarrow> json" where
  "schema_type t = JObj [(str ''type'', JStr (str t))]"

definition intent_enum :: "pystr list \<Rightarrow> json" where
  "intent_enum vs = JObj [(str ''type'', JStr (str ''string'')), (str ''enum'', JList (map JStr vs))]"

text \<open>\<^verbatim>\<open>{"type": "object", "required": req, "properties": ps}\<close>.\<close>

definition object_schema :: "string list \<Rightarrow> (pystr \<times> json) list \<Rightarrow> (pystr \<times> json) list" where
  "object_schema req ps =
     [(str ''type'', JStr (str ''object'')), (str ''required'', JList (map (\<lambda>k. JStr (str k)) req)),
      (str ''properties'', JObj ps)]"

definition build_json_schema :: "model_intent list \<Rightarrow> json" where
  "build_json_schema intents =
     JObj
      (object_schema [''intent'']
         [(str ''intent'', intent_enum (map intent_value (filter (\<lambda>i. i \<in> fst ` set INTENT_VALUES) intents))),
          (str ''target'', schema_type ''string''),
          (str ''inputs'', schema_type ''object''),
          (str ''params'', schema_type ''object''),
          (str ''result'', schema_type ''object''),
          (str ''confidence'',
           JObj [(str ''type'', JStr (str ''number'')), (str ''minimum'', JFloat 0), (str ''maximum'', JFloat f64_one)]),
          (str ''stream'', schema_type ''boolean''),
          (str ''cancel'', schema_type ''boolean''),
          (str ''correlation_id'', schema_type ''string''),
          (str ''deadline_ms'', JObj [(str ''type'', JStr (str ''integer'')), (str ''minimum'', JInt 0)]),
          (str ''metadata'', schema_type ''object'')] @
       [(str ''additionalProperties'', JBool False)])"

text \<open>The entry \<^verbatim>\<open>"enum"\<close> that is put into the schema of a label or a tool name.\<close>

definition enum_string :: "pystr list \<Rightarrow> json" where
  "enum_string vs =
     JObj ((str ''type'', JStr (str ''string'')) # (if vs = [] then [] else [(str ''enum'', JList (map JStr vs))]))"

definition build_classify_schema :: "pystr list option \<Rightarrow> json" where
  "build_classify_schema labels =
     JObj
      (object_schema [''intent'', ''target'', ''inputs'', ''result'']
         [(str ''intent'', intent_enum [str ''CLASSIFY'']),
          (str ''target'', schema_type ''string''),
          (str ''inputs'', JObj (object_schema [''text''] [(str ''text'', schema_type ''string'')])),
          (str ''result'',
           JObj
            (object_schema [''label'', ''confidence'']
               [(str ''label'', enum_string (case labels of None \<Rightarrow> [] | Some ls \<Rightarrow> ls)),
                (str ''confidence'', schema_type ''number'')]))])"

definition build_tool_schema :: "pystr option \<Rightarrow> json" where
  "build_tool_schema tool_name =
     JObj
      (object_schema [''intent'', ''target'', ''params'']
         [(str ''intent'', intent_enum [str ''CALL_TOOL'']),
          (str ''target'', schema_type ''string''),
          (str ''params'',
           JObj
            (object_schema [''tool_name'']
               [(str ''tool_name'',
                 enum_string (case tool_name of None \<Rightarrow> [] | Some t \<Rightarrow> if t = [] then [] else [t])),
                (str ''parameters'', schema_type ''object'')]))])"

section \<open>Grammars\<close>

record aicl_grammar =
  gr_bnf :: pystr
  gr_description :: pystr
  gr_intents :: "model_intent list"
  gr_json_schema :: "json option"

definition for_intents :: "model_intent list \<Rightarrow> pystr \<Rightarrow> aicl_grammar" where
  "for_intents intents description =
     \<lparr>gr_bnf = py_replace (str ''{intent_values}'')
        (join_with (str '' | '')
          (map (\<lambda>i. the (map_of INTENT_VALUES i)) (filter (\<lambda>i. i \<in> fst ` set INTENT_VALUES) intents)))
        GRAMMAR_ACTION_TEMPLATE,
      gr_description =
        (if description \<noteq> [] then description
         else str ''AICL actions: '' @ join_with (str '', '') (map intent_value intents)),
      gr_intents = intents,
      gr_json_schema = Some (build_json_schema intents)\<rparr>"

text \<open>The text of a list of labels in the description is that of the interpreter; \<open>pr\<close> as for \<open>repr_str\<close>.\<close>

definition for_classify :: "(nat \<Rightarrow> bool) \<Rightarrow> pystr list option \<Rightarrow> aicl_grammar" where
  "for_classify pr labels =
     \<lparr>gr_bnf = GRAMMAR_CLASSIFY_TEMPLATE,
      gr_description =
        str ''AICL classify action (labels: '' @
        (case labels of
           None \<Rightarrow> str ''None''
         | Some ls \<Rightarrow> 91 # join_with (str '', '') (map (repr_str pr) ls) @ [93]) @ str '')'',
      gr_intents = [CLASSIFY],
      gr_json_schema = Some (build_classify_schema labels)\<rparr>"

definition for_generate :: aicl_grammar where
  "for_generate =
     \<lparr>gr_bnf = GRAMMAR_GENERATE_TEMPLATE, gr_description = str ''AICL generate action'',
      gr_intents = [GENERATE], gr_json_schema = None\<rparr>"

definition for_tool :: "pystr option \<Rightarrow> aicl_grammar" where
  "for_tool tool_name =
     \<lparr>gr_bnf = GRAMMAR_TOOL_TEMPLATE,
      gr_description =
        str ''AICL tool call action (tool: '' @ (case tool_name of None \<Rightarrow> str ''None'' | Some t \<Rightarrow> t) @ str '')'',
      gr_intents = [CALL_TOOL],
      gr_json_schema = Some (build_tool_schema tool_name)\<rparr>"

definition for_all :: aicl_grammar where
  "for_all = for_intents all_intents (str ''All AICL intents'')"

section \<open>What a schema admits\<close>

text \<open>
  The meaning the JSON Schema specification gives to the keywords the schemas use; an integer is a number
  written without fraction, and the keywords of objects and numbers say nothing of other values.
\<close>

definition has_type :: "pystr \<Rightarrow> json \<Rightarrow> bool" where
  "has_type t v =
     (case v of
        JNull \<Rightarrow> t = str ''null''
      | JBool _ \<Rightarrow> t = str ''boolean''
      | JInt _ \<Rightarrow> t = str ''integer'' \<or> t = str ''number''
      | JFloat _ \<Rightarrow> t = str ''number''
      | JStr _ \<Rightarrow> t = str ''string''
      | JList _ \<Rightarrow> t = str ''array''
      | JObj _ \<Rightarrow> t = str ''object'')"

text \<open>The exact order of the numbers.\<close>

definition f64_top :: "f64 \<Rightarrow> int" where
  "f64_top x = (if f64_sign x = 0 then 1 else - 1) * int (f64_num x)"

fun num_le :: "json \<Rightarrow> json \<Rightarrow> bool" where
  "num_le (JInt m) (JInt n) = (m \<le> n)"
| "num_le (JFloat x) (JFloat y) = f64_le x y"
| "num_le (JInt m) (JFloat y) =
     (\<not> f64_nan y \<and> (if f64_finite y then m * int (f64_den y) \<le> f64_top y else f64_sign y = 0))"
| "num_le (JFloat x) (JInt n) =
     (\<not> f64_nan x \<and> (if f64_finite x then f64_top x \<le> n * int (f64_den x) else f64_sign x \<noteq> 0))"
| "num_le _ _ = False"

definition is_number :: "json \<Rightarrow> bool" where
  "is_number v = (is_int v \<or> is_float v)"

definition required_keys :: "json list \<Rightarrow> (pystr \<times> json) list \<Rightarrow> bool" where
  "required_keys ks d = list_all (\<lambda>k. k \<in> (\<lambda>(x, _). JStr x) ` set d) ks"

definition known_keys :: "(pystr \<times> json) list \<Rightarrow> (pystr \<times> json) list \<Rightarrow> bool" where
  "known_keys s d =
     (case map_of s (str ''properties'') of
        Some (JObj ps) \<Rightarrow> fst ` set d \<subseteq> fst ` set ps
      | _ \<Rightarrow> d = [])"

text \<open>The keywords that hold no schemas; \<open>s\<close> is the whole schema.\<close>

definition keyword_ok :: "(pystr \<times> json) list \<Rightarrow> pystr \<Rightarrow> json \<Rightarrow> json \<Rightarrow> bool" where
  "keyword_ok s k c v =
     ((k = str ''type'' \<longrightarrow> (case c of JStr t \<Rightarrow> has_type t v | _ \<Rightarrow> False)) \<and>
      (k = str ''enum'' \<longrightarrow> (case c of JList l \<Rightarrow> v \<in> set l | _ \<Rightarrow> False)) \<and>
      (k = str ''minimum'' \<longrightarrow> is_number v \<longrightarrow> num_le c v) \<and>
      (k = str ''maximum'' \<longrightarrow> is_number v \<longrightarrow> num_le v c) \<and>
      (k = str ''required'' \<longrightarrow> (case (c, v) of (JList l, JObj d) \<Rightarrow> required_keys l d | (JList l, _) \<Rightarrow> True | _ \<Rightarrow> False)) \<and>
      (k = str ''additionalProperties'' \<longrightarrow> (case (c, v) of (JBool False, JObj d) \<Rightarrow> known_keys s d | _ \<Rightarrow> True)))"

fun admits :: "json \<Rightarrow> json \<Rightarrow> bool"
  and admits_keywords :: "(pystr \<times> json) list \<Rightarrow> (pystr \<times> json) list \<Rightarrow> json \<Rightarrow> bool"
  and admits_members :: "(pystr \<times> json) list \<Rightarrow> (pystr \<times> json) list \<Rightarrow> bool" where
  "admits (JObj s) v = admits_keywords s s v"
| "admits (JBool b) v = b"
| "admits _ v = False"
| "admits_keywords [] s v = True"
| "admits_keywords ((k, c) # ks) s v =
     ((if k = str ''properties''
       then (case c of JObj ps \<Rightarrow> (case v of JObj d \<Rightarrow> admits_members ps d | _ \<Rightarrow> True) | _ \<Rightarrow> False)
       else keyword_ok s k c v) \<and> admits_keywords ks s v)"
| "admits_members [] d = True"
| "admits_members ((k, s) # ps) d =
     ((case map_of d k of None \<Rightarrow> True | Some v \<Rightarrow> admits s v) \<and> admits_members ps d)"

section \<open>Lemmas\<close>

text \<open>A member that is absent or that a schema admits.\<close>

definition member_ok :: "(pystr \<times> json) list \<Rightarrow> string \<Rightarrow> (json \<Rightarrow> bool) \<Rightarrow> bool" where
  "member_ok d k P = (case map_of d (str k) of None \<Rightarrow> True | Some v \<Rightarrow> P v)"

lemma has_type_simps:
  "has_type (str ''string'') v \<longleftrightarrow> is_str v" "has_type (str ''object'') v \<longleftrightarrow> is_obj v"
  "has_type (str ''boolean'') v \<longleftrightarrow> is_bool v" "has_type (str ''integer'') v \<longleftrightarrow> is_int v"
  "has_type (str ''number'') v \<longleftrightarrow> is_number v"
  by (cases v; simp add: has_type_def is_number_def str_eq)+

lemma f64_den_nz: "f64_den x \<noteq> 0"
  using f64_den_pos [of x] by linarith

lemma in_unit_iff: "is_number v \<and> num_le (JFloat 0) v \<and> num_le v (JFloat f64_one) \<longleftrightarrow> is_number v \<and> in_unit v = Inr True"
proof -
  have "f64_top f64_one = 2 ^ 52 \<and> f64_den f64_one = 2 ^ 52 \<and> f64_finite f64_one \<and> \<not> f64_nan f64_one \<and>
      f64_top 0 = 0 \<and> f64_finite 0 \<and> \<not> f64_nan 0"
    by (simp add: f64_top_def f64_num_def f64_den_def f64_finite_def f64_nan_def f64_scale_def f64_mant_def
        f64_exp_def f64_frac_def f64_sign_def f64_one_def)
  then show ?thesis by (cases v) (auto simp: is_number_def zero_le_mult_iff f64_den_nz)
qed

lemma not_negative_iff: "is_int v \<and> num_le (JInt 0) v \<longleftrightarrow> is_int v \<and> is_negative v = Inr False"
  by (cases v) auto

lemma intent_values_all [simp]: "i \<in> fst ` set INTENT_VALUES" "map_of INTENT_VALUES i = Some (34 # intent_value i @ [34])"
  by (cases i; simp add: INTENT_VALUES_def all_intents_def)+

lemma intent_value_inj: "intent_value i = intent_value j \<longleftrightarrow> i = j"
  by (metis intent_of_value option.inject)

lemma required_key: "JStr k \<in> (\<lambda>(x, _). JStr x) ` set d \<longleftrightarrow> map_of d k \<noteq> None"
  by (force simp: map_of_eq_None_iff)

text \<open>Schemas as predicates.\<close>

lemma admits_member: "admits_members ((str k, s) # ps) d \<longleftrightarrow> member_ok d k (admits s) \<and> admits_members ps d"
  by (simp add: member_ok_def)

lemma admits_type:
  "admits (schema_type ''string'') = is_str" "admits (schema_type ''object'') = is_obj"
  "admits (schema_type ''boolean'') = is_bool" "admits (schema_type ''number'') = is_number"
  by (simp_all add: fun_eq_iff schema_type_def keyword_ok_def str_eq has_type_simps)

lemma admits_enum:
  "admits (intent_enum vs) = (\<lambda>v. \<exists>s. v = JStr s \<and> s \<in> set vs)"
  "admits (enum_string vs) = (\<lambda>v. \<exists>s. v = JStr s \<and> (vs = [] \<or> s \<in> set vs))"
proof -
  have "is_str v \<longleftrightarrow> (\<exists>s. v = JStr s)" for v by (cases v) simp_all
  then show "admits (intent_enum vs) = (\<lambda>v. \<exists>s. v = JStr s \<and> s \<in> set vs)"
    "admits (enum_string vs) = (\<lambda>v. \<exists>s. v = JStr s \<and> (vs = [] \<or> s \<in> set vs))"
    by (auto simp: fun_eq_iff intent_enum_def enum_string_def keyword_ok_def str_eq has_type_simps)
qed

lemma admits_range:
  "admits (JObj [(str ''type'', JStr (str ''number'')), (str ''minimum'', JFloat 0), (str ''maximum'', JFloat f64_one)]) =
     (\<lambda>v. is_number v \<and> in_unit v = Inr True)"
  "admits (JObj [(str ''type'', JStr (str ''integer'')), (str ''minimum'', JInt 0)]) =
     (\<lambda>v. is_int v \<and> is_negative v = Inr False)"
  using in_unit_iff not_negative_iff
  by (auto simp: fun_eq_iff keyword_ok_def str_eq has_type_simps is_number_def)

text \<open>A schema of an object, alone and without further properties.\<close>

lemma admits_object:
  "admits (JObj (object_schema req ps)) =
     (\<lambda>v. \<exists>d. v = JObj d \<and> (\<forall>k \<in> set req. map_of d (str k) \<noteq> None) \<and> admits_members ps d)"
  "admits (JObj (object_schema req ps @ [(str ''additionalProperties'', JBool False)])) (JObj d) \<longleftrightarrow>
     (\<forall>k \<in> set req. map_of d (str k) \<noteq> None) \<and> admits_members ps d \<and> fst ` set d \<subseteq> fst ` set ps"
proof -
  show "admits (JObj (object_schema req ps)) =
     (\<lambda>v. \<exists>d. v = JObj d \<and> (\<forall>k \<in> set req. map_of d (str k) \<noteq> None) \<and> admits_members ps d)"
  proof
    fix v show "admits (JObj (object_schema req ps)) v = (\<exists>d. v = JObj d \<and> (\<forall>k \<in> set req. map_of d (str k) \<noteq> None) \<and> admits_members ps d)"
      by (cases v) (auto simp: object_schema_def keyword_ok_def str_eq has_type_simps required_keys_def required_key list_all_iff)
  qed
qed (auto simp: object_schema_def keyword_ok_def str_eq has_type_simps required_keys_def required_key list_all_iff known_keys_def)

declare admits.simps [simp del] admits_members.simps(2) [simp del]

definition action_keys :: "string list" where
  "action_keys =
     [''intent'', ''target'', ''inputs'', ''params'', ''result'', ''confidence'', ''stream'', ''cancel'',
      ''correlation_id'', ''deadline_ms'', ''metadata'']"

lemma action_schema_admits:
  "admits (build_json_schema intents) (JObj d) \<longleftrightarrow>
     (\<exists>i. map_of d (str ''intent'') = Some (JStr (intent_value i)) \<and> i \<in> set intents) \<and>
     member_ok d ''target'' is_str \<and> member_ok d ''inputs'' is_obj \<and> member_ok d ''params'' is_obj \<and>
     member_ok d ''result'' is_obj \<and> member_ok d ''confidence'' (\<lambda>v. is_number v \<and> in_unit v = Inr True) \<and>
     member_ok d ''stream'' is_bool \<and> member_ok d ''cancel'' is_bool \<and> member_ok d ''correlation_id'' is_str \<and>
     member_ok d ''deadline_ms'' (\<lambda>v. is_int v \<and> is_negative v = Inr False) \<and> member_ok d ''metadata'' is_obj \<and>
     fst ` set d \<subseteq> str ` set action_keys"
proof -
  have intent: "map_of d (str ''intent'') \<noteq> None \<and>
      member_ok d ''intent'' (\<lambda>v. \<exists>s. v = JStr s \<and> s \<in> set (map intent_value intents)) \<longleftrightarrow>
      (\<exists>i. map_of d (str ''intent'') = Some (JStr (intent_value i)) \<and> i \<in> set intents)"
    by (cases "map_of d (str ''intent'')") (auto simp: member_ok_def)
  show ?thesis
    using intent
    by (simp add: build_json_schema_def admits_object admits_member admits_type admits_enum admits_range action_keys_def) blast
qed

section \<open>Schemas and validation\<close>

lemma validate_needs:
  assumes "in_unit (ac_confidence a) = Inr c" "is_negative (ac_deadline_ms a) = Inr n" "is_obj (ac_params a)"
  obtains errors where "action_validate a = Inr errors"
    "ConfidenceRange \<in> set errors \<longleftrightarrow> \<not> c" "NegativeDeadline \<in> set errors \<longleftrightarrow> n"
    "InvalidIntent \<in> set errors \<longleftrightarrow> ac_intent a = None"
proof -
  obtain tool where "(if ac_intent a = Some CALL_TOOL then has_tool_name (ac_params a) else Inr True) = Inr tool"
    using assms(3) by (cases "ac_params a"; cases "ac_intent a = Some CALL_TOOL") simp_all
  then show ?thesis using assms(1,2) that by (simp add: action_validate_def bindr_def err_if_def)
qed

lemma member_default: "member_ok d k P \<Longrightarrow> P dflt \<Longrightarrow> P (j_get d (str k) dflt)"
  by (simp add: member_ok_def j_get_def split: option.splits)

lemma member_put:
  "member_ok (put_if c k v @ d) k' P \<longleftrightarrow> (if k = k' then (if c then P v else member_ok d k' P) else member_ok d k' P)"
  "member_ok (put_if c k v) k' P \<longleftrightarrow> (c \<and> k = k' \<longrightarrow> P v)"
  "member_ok ((str k, v) # d) k' P \<longleftrightarrow> (if k = k' then P v else member_ok d k' P)"
  by (auto simp: member_ok_def put_if_def str_eq)

lemma keys_put: "fst ` set (put_if c k v) \<subseteq> S \<longleftrightarrow> (c \<longrightarrow> str k \<in> S)"
  by (auto simp: put_if_def)

lemma json_forms:
  "is_str v \<longleftrightarrow> (\<exists>s. v = JStr s)" "is_obj v \<longleftrightarrow> (\<exists>d. v = JObj d)" "is_bool v \<longleftrightarrow> (\<exists>b. v = JBool b)"
  "is_int v \<longleftrightarrow> (\<exists>n. v = JInt n)" "is_float v \<longleftrightarrow> (\<exists>x. v = JFloat x)"
  by (cases v; simp)+

lemma unit_one: "in_unit (JFloat f64_one) = Inr True"
  by (simp add: f64_le_def f64_nan_def f64_rank_def f64_exp_def f64_sign_def f64_one_def)

text \<open>
  C16. The schema of a list of intents admits the dict of an action with fields of the annotated types
  exactly when the intent is one of the list and validation has nothing to object but a missing target
  or a missing tool name: those two rules of validation are not in the schema, and every other one is.
\<close>

theorem schema_is_validation:
  assumes "typed_action a" "action_to_dict a = Inr d"
  shows "admits (build_json_schema intents) (JObj d) \<longleftrightarrow>
    (\<exists>i errors. ac_intent a = Some i \<and> i \<in> set intents \<and> action_validate a = Inr errors \<and>
       set errors \<subseteq> {RequiresTarget, RequiresToolName})"
proof -
  from assms(1) obtain i t c p n ins r cid md where a: "ac_intent a = Some i" "ac_target a = JStr t" "ac_params a = JObj p"
    "ac_confidence a = JFloat c" "ac_deadline_ms a = JInt n" "ac_inputs a = JObj ins" "ac_result a = JObj r"
    "ac_correlation_id a = JStr cid" "ac_metadata a = JObj md"
    by (auto simp: typed_action_def json_forms)
  have v: "in_unit (ac_confidence a) = Inr (f64_le 0 c \<and> f64_le c f64_one)"
    "is_negative (ac_deadline_ms a) = Inr (n < 0)" "is_obj (ac_params a)"
    using a by simp_all
  obtain errors where e: "action_validate a = Inr errors"
    "ConfidenceRange \<in> set errors \<longleftrightarrow> \<not> (f64_le 0 c \<and> f64_le c f64_one)" "NegativeDeadline \<in> set errors \<longleftrightarrow> n < 0"
    "InvalidIntent \<in> set errors \<longleftrightarrow> ac_intent a = None"
    by (rule validate_needs [OF v])
  have "set errors \<subseteq> {RequiresTarget, RequiresToolName} \<longleftrightarrow>
      ConfidenceRange \<notin> set errors \<and> NegativeDeadline \<notin> set errors \<and> InvalidIntent \<notin> set errors"
    by (auto, metis validation_error.exhaust)
  then have errs: "set errors \<subseteq> {RequiresTarget, RequiresToolName} \<longleftrightarrow> f64_le 0 c \<and> f64_le c f64_one \<and> 0 \<le> n"
    using e a by auto
  have dd: "d = projr (action_to_dict a)" using assms(2) by simp
  then have "map_of d (str ''intent'') = Some (JStr (intent_value i))"
    using assms(2) a by (auto simp: action_to_dict_def)
  then have "admits (build_json_schema intents) (JObj d) \<longleftrightarrow> i \<in> set intents \<and> f64_le 0 c \<and> f64_le c f64_one \<and> 0 \<le> n"
    using a unit_one
    by (cases "c = f64_one"; cases "n = 0")
      (simp_all add: dd action_schema_admits action_to_dict_def member_put keys_put image_Un str_eq action_keys_def intent_value_inj
        is_number_def not_less)
  then show ?thesis using a errs e(1) by auto
qed

definition sample_dict :: "(pystr \<times> json) list" where
  "sample_dict = projr (action_to_dict sample_action)"

theorem schema_is_validation_witness:
  "admits (build_json_schema [CLASSIFY, RANK]) (JObj sample_dict) \<and> \<not> admits (build_json_schema [RANK]) (JObj sample_dict)"
proof -
  have t: "typed_action sample_action" and d: "action_to_dict sample_action = Inr sample_dict"
    and i: "ac_intent sample_action = Some CLASSIFY"
    by (simp_all add: sample_action_def typed_action_def sample_dict_def action_to_dict_def)
  have "action_validate sample_action = Inr []"
    by (simp add: sample_action_def action_validate_def bindr_def unit_one err_if_def needs_target_def str_def
        del: in_unit.simps)
  then show ?thesis using schema_is_validation [OF t d] i by simp
qed

text \<open>
  A dict the schema admits converts to an action with one of the intents, and its validation does not
  raise: at most it asks for a target or a tool name.
\<close>

lemma admitted_validates:
  assumes "admits (build_json_schema intents) (JObj d)"
  shows "\<exists>a i errors. action_from_dict d = Inr a \<and> ac_intent a = Some i \<and> i \<in> set intents \<and>
    action_validate a = Inr errors \<and> set errors \<subseteq> {RequiresTarget, RequiresToolName}"
proof -
  note s = assms [unfolded action_schema_admits]
  obtain i where i: "map_of d (str ''intent'') = Some (JStr (intent_value i))" "i \<in> set intents" using s by auto
  then obtain a where a: "action_from_dict d = Inr a" "ac_intent a = Some i"
    "ac_confidence a = j_get d (str ''confidence'') (JFloat f64_one)"
    "ac_deadline_ms a = j_get d (str ''deadline_ms'') (JInt 0)" "ac_params a = j_get d (str ''params'') (JObj [])"
    by (simp add: action_from_dict_def j_get_def)
  have v: "in_unit (ac_confidence a) = Inr True" "is_negative (ac_deadline_ms a) = Inr False" "is_obj (ac_params a)"
    using s member_default [of d "''confidence''" "\<lambda>v. is_number v \<and> in_unit v = Inr True" "JFloat f64_one"]
      member_default [of d "''deadline_ms''" "\<lambda>v. is_int v \<and> is_negative v = Inr False" "JInt 0"]
      member_default [of d "''params''" is_obj "JObj []"] unit_one
    by (simp_all add: a is_number_def)
  obtain errors where e: "action_validate a = Inr errors" "ConfidenceRange \<in> set errors \<longleftrightarrow> \<not> True"
    "NegativeDeadline \<in> set errors \<longleftrightarrow> False" "InvalidIntent \<in> set errors \<longleftrightarrow> ac_intent a = None"
    by (rule validate_needs [OF v])
  then have "set errors \<subseteq> {RequiresTarget, RequiresToolName}"
    using a by (auto, metis validation_error.exhaust)
  then show ?thesis using a e(1) i(2) by blast
qed

lemma tool_schema_admits:
  "admits (build_tool_schema (Some t)) (JObj d) \<longleftrightarrow>
     map_of d (str ''intent'') = Some (JStr (str ''CALL_TOOL'')) \<and>
     (\<exists>target. map_of d (str ''target'') = Some (JStr target)) \<and>
     (\<exists>ps name. map_of d (str ''params'') = Some (JObj ps) \<and> map_of ps (str ''tool_name'') = Some (JStr name) \<and>
        (t = [] \<or> name = t) \<and> member_ok ps ''parameters'' is_obj)"
proof -
  have tn: "(\<lambda>v. \<exists>s. v = JStr s \<and> ((if t = [] then [] else [t]) = [] \<or> s \<in> set (if t = [] then [] else [t]))) =
      (\<lambda>v. \<exists>s. v = JStr s \<and> (t = [] \<or> s = t))"
    by (cases "t = []") simp_all
  have req: "map_of e (str k) \<noteq> None \<and> member_ok e k P \<longleftrightarrow> (\<exists>v. map_of e (str k) = Some v \<and> P v)" for e k P
    by (auto simp: member_ok_def)
  have "admits (build_tool_schema (Some t)) (JObj d) \<longleftrightarrow>
     (map_of d (str ''intent'') \<noteq> None \<and> member_ok d ''intent'' (\<lambda>v. \<exists>s. v = JStr s \<and> s = str ''CALL_TOOL'')) \<and>
     (map_of d (str ''target'') \<noteq> None \<and> member_ok d ''target'' is_str) \<and>
     (map_of d (str ''params'') \<noteq> None \<and> member_ok d ''params'' (\<lambda>v. \<exists>ps. v = JObj ps \<and>
        (map_of ps (str ''tool_name'') \<noteq> None \<and> member_ok ps ''tool_name'' (\<lambda>v. \<exists>s. v = JStr s \<and> (t = [] \<or> s = t))) \<and>
        member_ok ps ''parameters'' is_obj))"
    by (cases "t = []"; simp add: build_tool_schema_def admits_object admits_member admits_type admits_enum; blast)
  then show ?thesis unfolding req json_forms by blast
qed

text \<open>
  What the schema of a tool call promises: the dict converts to a tool call with a target of text and
  the name of the tool, if one was given, among its parameters. What it leaves open: the target may be
  empty, which validation refuses, and neither the confidence nor the deadline is bounded, so that a text
  as confidence is admitted and validation raises a TypeError.
\<close>

theorem tool_schema:
  assumes "admits (build_tool_schema (Some t)) (JObj d)"
    "map_of d (str ''confidence'') = None" "map_of d (str ''deadline_ms'') = None"
  shows "(\<exists>a target ps name. action_from_dict d = Inr a \<and> ac_intent a = Some CALL_TOOL \<and> ac_target a = JStr target \<and>
      ac_params a = JObj ps \<and> map_of ps (str ''tool_name'') = Some (JStr name) \<and> (t = [] \<or> name = t) \<and>
      action_validate a = Inr (err_if (target = []) RequiresTarget)) \<and>
    (\<exists>a. admits (build_tool_schema (Some t)) (JObj ((str ''confidence'', JStr []) # d)) \<and>
      action_from_dict ((str ''confidence'', JStr []) # d) = Inr a \<and> action_validate a = Inl (SemPy PyTypeError))"
proof -
  from assms(1) obtain target ps name where d: "map_of d (str ''intent'') = Some (JStr (str ''CALL_TOOL''))"
    "map_of d (str ''target'') = Some (JStr target)" "map_of d (str ''params'') = Some (JObj ps)"
    "map_of ps (str ''tool_name'') = Some (JStr name)" "t = [] \<or> name = t" "member_ok ps ''parameters'' is_obj"
    unfolding tool_schema_admits by blast
  have i: "intent_of (JStr (str ''CALL_TOOL'')) = Some CALL_TOOL" using intent_of_value [of CALL_TOOL] by simp
  have "str ''tool_name'' \<in> fst ` set ps" using d(4) by (force dest: map_of_SomeD)
  then show ?thesis using d i assms(2,3) unit_one
    by (auto simp: tool_schema_admits action_from_dict_def j_get_def action_validate_def bindr_def needs_target_def
        err_if_def str_eq simp del: in_unit.simps(1))
qed

theorem tool_schema_witness:
  "\<exists>a. action_from_dict [(str ''confidence'', JStr []), (str ''intent'', JStr (str ''CALL_TOOL'')), (str ''target'', JStr (str ''agent'')),
         (str ''params'', JObj [(str ''tool_name'', JStr (str ''search''))])] = Inr a \<and>
       action_validate a = Inl (SemPy PyTypeError)"
  using tool_schema [of "str ''search''" "[(str ''intent'', JStr (str ''CALL_TOOL'')), (str ''target'', JStr (str ''agent'')),
         (str ''params'', JObj [(str ''tool_name'', JStr (str ''search''))])]"]
  by (auto simp: tool_schema_admits str_eq member_ok_def)

section \<open>The text of the grammars\<close>

text \<open>
  The rule of the intents in the text for llama.cpp: the alternatives, each in quotation marks, are put
  between the quotation marks of the template, so that the rule begins with an empty literal and ends
  with one, and each intent stands between them as a bare word.
\<close>

lemma replace_skip:
  "c \<noteq> x \<Longrightarrow> py_replace (x # xs) new (c # s) = c # py_replace (x # xs) new s"
  "d \<noteq> y \<Longrightarrow> py_replace (x # y # ys) new (c # d # s) = c # py_replace (x # y # ys) new (d # s)"
  by (subst py_replace.simps, simp)+

lemma replace_here: "xs \<noteq> [] \<Longrightarrow> py_replace xs new (xs @ s) = new @ py_replace xs new s"
  by (subst py_replace.simps) simp

lemma replace_nil: "py_replace xs new [] = []"
  by (subst py_replace.simps) simp

lemma bnf_intent_rule:
  "\<exists>before after. \<forall>intents description.
     gr_bnf (for_intents intents description) =
       before @ str ''intent_value  ::= '' @
       34 # join_with (str '' | '') (map (\<lambda>i. 34 # intent_value i @ [34]) intents) @ 34 # 10 # after"
proof -
  let ?old = "str ''{intent_values}''"
  let ?before = \<open>template_lines
     [''root   ::= "{" action_fields "}"'', ''action_fields ::= ""intent"" ":" intent_value ("," other_fields)*'', '''']\<close>
  let ?after = "drop 136 GRAMMAR_ACTION_TEMPLATE"
  let ?rule = "str ''intent_value  ::= '' @ [34]"
  have t: "GRAMMAR_ACTION_TEMPLATE = ?before @ ?rule @ ?old @ [34, 10] @ ?after"
    by (simp add: GRAMMAR_ACTION_TEMPLATE_def template_lines_def str_def)
  have r: "py_replace ?old new ([34, 10] @ ?after) = [34, 10] @ ?after" for new
    by (simp add: GRAMMAR_ACTION_TEMPLATE_def template_lines_def str_def replace_skip replace_nil)
  have ne: "?old \<noteq> []" by (simp add: str_def)
  have "py_replace ?old new GRAMMAR_ACTION_TEMPLATE = ?before @ ?rule @ py_replace ?old new (?old @ [34, 10] @ ?after)" for new
    by (subst t) (simp add: template_lines_def str_def replace_skip)
  then have "py_replace ?old new GRAMMAR_ACTION_TEMPLATE = ?before @ ?rule @ new @ [34, 10] @ ?after" for new
    by (simp only: replace_here [OF ne] r)
  then show ?thesis by (intro exI [of _ ?before] exI [of _ ?after]) (simp add: for_intents_def)
qed

end
