(* ===== verification/Adapter.thy ===== *)
theory Adapter
  imports Codec_Api Grammar
begin

text \<open>
  \<^verbatim>\<open>aicl/semantic/adapter.py\<close>: the adapter between what a model emits or receives and the packets of
  the binary protocol, with the gate that may refuse either. The text of a JSON value inside a message
  depends on the table \<open>pr\<close> of printable characters, upper case on \<open>upper\<close>; the random identifiers
  are arguments. Shown: no action and no incoming packet passes that validation or the gate refuses (results are
  sent without either), what of an action arrives at the other end, which tool calls cannot be sent, and what the text a model emits is taken for.
\<close>

section \<open>Outcomes\<close>

text \<open>
  Python puts a value of any type into a field of a packet; the record \<open>packet\<close> has places for values of
  the annotated types. \<open>Unheld\<close> stands for the packets it has no place for.
\<close>

datatype adapter_exn = Raised semantic_exn | Unheld

type_synonym 'a adapted = "adapter_exn + 'a"

definition up :: "semantic_exn + 'a \<Rightarrow> 'a adapted" where
  "up r = (case r of Inl e \<Rightarrow> Inl (Raised e) | Inr x \<Rightarrow> Inr x)"

abbreviation py :: "'a res \<Rightarrow> 'a adapted" where "py r \<equiv> up (sem r)"

lemma up_simps [simp]:
  "up (Inl e) = Inl (Raised e)" "up (Inr x) = Inr x" "up r = Inr x \<longleftrightarrow> r = Inr x"
  "up r = Inl y \<longleftrightarrow> (\<exists>e. r = Inl e \<and> y = Raised e)"
  by (cases r; auto simp: up_def)+

fun as_text :: "json \<Rightarrow> pystr adapted" where
  "as_text (JStr s) = Inr s"
| "as_text _ = Inl Unheld"

fun as_int :: "json \<Rightarrow> int adapted" where
  "as_int (JInt n) = Inr n"
| "as_int (JBool b) = Inr (if b then 1 else 0)"
| "as_int _ = Inl Unheld"

fun as_num :: "json \<Rightarrow> f64 adapted" where
  "as_num (JFloat x) = Inr x"
| "as_num (JInt n) = (case f64_of_int n of None \<Rightarrow> Inl Unheld | Some x \<Rightarrow> Inr x)"
| "as_num (JBool b) = Inr (if b then f64_one else 0)"
| "as_num _ = Inl Unheld"

text \<open>\<^verbatim>\<open>v.get(k, default)\<close>, \<^verbatim>\<open>v.items()\<close> and \<^verbatim>\<open>{**v}\<close>, which only a dict has.\<close>

fun py_items :: "json \<Rightarrow> (pystr \<times> json) list adapted" where
  "py_items (JObj d) = Inr d"
| "py_items _ = Inl (Raised (SemPy AttributeError))"

definition py_get :: "json \<Rightarrow> string \<Rightarrow> json \<Rightarrow> json adapted" where
  "py_get v k dflt = bindr (py_items v) (\<lambda>d. Inr (j_get d (str k) dflt))"

fun py_mapping :: "json \<Rightarrow> (pystr \<times> json) list adapted" where
  "py_mapping (JObj d) = Inr d"
| "py_mapping _ = Inl (Raised (SemPy PyTypeError))"

section \<open>The gate\<close>

record gate_result =
  allowed :: bool
  reason :: pystr
  audit_entry :: "json option"

text \<open>A gate is supplied by the user of the adapter; its checks may raise.\<close>

record gate =
  check_outbound :: "model_action \<Rightarrow> gate_result res"
  check_inbound :: "packet_view \<Rightarrow> gate_result res"

definition gate_passes :: gate_result where
  "gate_passes = \<lparr>allowed = True, reason = [], audit_entry = None\<rparr>"

definition allow_all_gate :: gate where
  "allow_all_gate = \<lparr>check_outbound = \<lambda>action. Inr gate_passes, check_inbound = \<lambda>packet_view. Inr gate_passes\<rparr>"

section \<open>The adapter\<close>

definition INTENT_TO_SL_OP :: "(model_intent \<times> pystr) list" where
  "INTENT_TO_SL_OP =
    [(CLASSIFY, str ''CLS''), (GENERATE, str ''GEN''), (REASON, str ''RSN''), (EMBED, str ''EMB''),
     (RANK, str ''RNK''), (SUMMARIZE, str ''SUM''), (SYNTHESIZE, str ''SYN''), (VERIFY, str ''VRF''),
     (EXTRACT, str ''XTR''), (TRANSFORM, str ''TRN''), (PLAN, str ''PLN''), (EVALUATE, str ''EVL''),
     (CALL_MODEL, str ''EXE_MODEL''), (CALL_TOOL, str ''EXE_TOOL''), (READ_MEMORY, str ''MEM_READ''),
     (WRITE_MEMORY, str ''MEM_WRITE''), (DELETE_MEMORY, str ''MEM_DELETE''), (INDEX_QUERY, str ''IDX_QUERY''),
     (INDEX_UPSERT, str ''IDX_UPSERT''), (ROUTE, str ''RTE''), (FILTER, str ''FLT''), (RETURN_RESULT, str ''RES''),
     (STREAM_RESULT, str ''GEN''), (CANCEL, str ''CANCEL'')]"

record semantic_adapter =
  ad_origin :: pystr
  ad_gate :: gate
  ad_identity_type :: int
  ad_session_counter :: int

text \<open>
  \<^verbatim>\<open>gate or _AllowAllGate()\<close>: a gate object comes with its truth value, and one that is false is replaced
  like a missing one. (A gate set by \<^verbatim>\<open>set_gate\<close> is taken as it is.)
\<close>

definition semantic_adapter_init :: "pystr \<Rightarrow> (bool \<times> gate) option \<Rightarrow> int \<Rightarrow> semantic_adapter" where
  "semantic_adapter_init origin g identity_type =
     \<lparr>ad_origin = origin,
      ad_gate = (case g of Some (truth, g) \<Rightarrow> if truth then g else allow_all_gate | None \<Rightarrow> allow_all_gate),
      ad_identity_type = identity_type, ad_session_counter = 0\<rparr>"

definition set_gate :: "gate \<Rightarrow> semantic_adapter \<Rightarrow> semantic_adapter" where
  "set_gate g self = self\<lparr>ad_gate := g\<rparr>"

section \<open>Symbols\<close>

fun to_binary_symbol :: "json \<Rightarrow> symbol res" where
  "to_binary_symbol (JStr s) = Inr (Symbol S_STRING (VStr s))"
| "to_binary_symbol (JBool b) = Inr (Symbol S_BOOL (VBool b))"
| "to_binary_symbol (JInt n) = Inr (Symbol S_I64 (VInt n))"
| "to_binary_symbol (JFloat x) = Inr (Symbol S_F64 (VFloat x))"
| "to_binary_symbol (JList l) = bindr (mapr to_binary_symbol l) (\<lambda>syms. Inr (Symbol S_LIST (VList syms)))"
| "to_binary_symbol (JObj d) =
     bindr (json_dumps True [44] [58] (JObj d)) (\<lambda>t. Inr (Symbol S_STRING (VStr t)))"
| "to_binary_symbol JNull = Inr (Symbol S_NULL VNone)"

definition symbol_if :: "bool \<Rightarrow> json \<Rightarrow> symbol list adapted" where
  "symbol_if c v = (if c then bindr (py (to_binary_symbol v)) (\<lambda>s. Inr [s]) else Inr [])"

definition build_symbols :: "model_action \<Rightarrow> symbol list adapted" where
  "build_symbols action =
     bindr (py_get (ac_inputs action) ''text'' JNull) (\<lambda>text.
     bindr (symbol_if (j_true text) text) (\<lambda>a.
     bindr (py_items (ac_inputs action)) (\<lambda>items.
     bindr (mapr (\<lambda>(k, v). py (to_binary_symbol v)) (filter (\<lambda>(k, v). k \<noteq> str ''text'') items)) (\<lambda>b.
     bindr (symbol_if (j_true (ac_params action)) (ac_params action)) (\<lambda>c.
     bindr (symbol_if (j_true (ac_result action)) (ac_result action)) (\<lambda>d.
       Inr (a @ b @ c @ d)))))))"

section \<open>From an action to a packet\<close>

text \<open>\<^verbatim>\<open>uuid.UUID(c).bytes if c else bytes(16)\<close>.\<close>

definition correlation_bytes :: "json \<Rightarrow> bytes res" where
  "correlation_bytes c =
     (if j_true c then (case c of JStr s \<Rightarrow> uuid_parse s | _ \<Rightarrow> Inl AttributeError) else Inr (replicate 16 0))"

text \<open>\<^verbatim>\<open>{**d, **e}\<close>; the packet holds the texts of the values.\<close>

definition dict_merge :: "(pystr \<times> json) list \<Rightarrow> (pystr \<times> json) list \<Rightarrow> (pystr \<times> json) list" where
  "dict_merge d e = foldl (\<lambda>acc (k, v). AList.update k v acc) d e"

definition metadata_texts :: "(nat \<Rightarrow> bool) \<Rightarrow> (pystr \<times> json) list \<Rightarrow> (pystr \<times> pystr) list adapted" where
  "metadata_texts pr d = mapr (\<lambda>(k, v). bindr (py (py_str pr v)) (\<lambda>t. Inr (k, t))) d"

definition action_flags :: "model_action \<Rightarrow> int" where
  "action_flags action =
     (let flags = 0x0001;
          flags = (if j_true (ac_stream action) then flags OR 0x0080 else flags)
      in if j_true (ac_cancel action) then flags OR 0x0020 else flags)"

definition adapter_tool :: "model_action \<Rightarrow> tool_invocation option adapted" where
  "adapter_tool action =
     (if ac_intent action \<noteq> Some CALL_TOOL then Inr None
      else
        bindr (py_get (ac_params action) ''tool_name'' JNull) (\<lambda>name.
        if \<not> j_true name then Inr None
        else
          bindr (py_get (ac_params action) ''parameters'' (JObj [])) (\<lambda>parameters.
          bindr (py (json_dumps True (str '', '') (str '': '') parameters)) (\<lambda>text.
          bindr (py_get (ac_params action) ''timeout_ms'' (JInt 5000)) (\<lambda>timeout.
          bindr (as_text name) (\<lambda>n.
          bindr (as_int timeout) (\<lambda>ms.
            Inr (Some \<lparr>tool_name = n, tool_parameters_json = text, tool_timeout_ms = ms\<rparr>))))))))"

definition adapter_model :: "model_intent \<Rightarrow> model_action \<Rightarrow> model_invocation option adapted" where
  "adapter_model i action =
     (if i \<noteq> CALL_MODEL \<or> \<not> j_true (ac_target action) then Inr None
      else
        bindr (py_get (ac_params action) ''task'' (JStr (intent_value i))) (\<lambda>task.
        bindr (py (json_dumps True (str '', '') (str '': '') (ac_params action))) (\<lambda>text.
        bindr (py_get (ac_params action) ''timeout_ms'' (JInt 5000)) (\<lambda>timeout.
        bindr (as_text (ac_target action)) (\<lambda>n.
        bindr (as_text task) (\<lambda>t.
        bindr (as_int timeout) (\<lambda>ms.
          Inr (Some \<lparr>model_name = n, model_task = t, model_parameters_json = text, model_timeout_ms = ms\<rparr>))))))))"

text \<open>The packet of a valid action; \<open>sid\<close> and \<open>mid\<close> are the bytes of the two random identifiers.\<close>

definition packet_of_action ::
  "(nat \<Rightarrow> bool) \<Rightarrow> semantic_adapter \<Rightarrow> bytes \<Rightarrow> bytes \<Rightarrow> model_intent \<Rightarrow> model_action \<Rightarrow> packet adapted" where
  "packet_of_action pr self sid mid i action =
     (let opcode = (case map_of INTENT_TO_OPCODE i of None \<Rightarrow> 0x01 | Some c \<Rightarrow> c) in
      bindr (build_symbols action) (\<lambda>symbols.
      bindr (py (correlation_bytes (ac_correlation_id action))) (\<lambda>corr_id.
      bindr (if j_true (ac_target action) then bindr (as_text (ac_target action)) (\<lambda>t. Inr [t]) else Inr []) (\<lambda>targets.
      bindr (as_num (ac_confidence action)) (\<lambda>confidence.
      bindr (as_int (ac_deadline_ms action)) (\<lambda>deadline.
      bindr (py_mapping (ac_metadata action)) (\<lambda>extra.
      bindr (metadata_texts pr (dict_merge [(str ''semantic_intent'', JStr (intent_value i))] extra)) (\<lambda>metadata.
      bindr (py (packet_post_init sid mid
        (default_packet
          \<lparr>pkt_flags := action_flags action, pkt_session_id := Some sid, pkt_message_id := Some mid,
           pkt_correlation_id := Some corr_id,
           pkt_origin := Some \<lparr>id_type = ad_identity_type self, id_name = ad_origin self, id_instance_id = 0\<rparr>,
           pkt_targets := targets, pkt_operation := opcode, pkt_intent := intent_value i, pkt_symbols := symbols,
           pkt_confidence := confidence, pkt_deadline_ms := deadline, pkt_metadata := metadata\<rparr>))) (\<lambda>pkt.
      bindr (adapter_tool action) (\<lambda>tool.
      bindr (adapter_model i action) (\<lambda>model.
        Inr (pkt\<lparr>pkt_tool_invocation := tool, pkt_model_invocation := model\<rparr>))))))))))))"

definition action_to_packet ::
  "(nat \<Rightarrow> bool) \<Rightarrow> semantic_adapter \<Rightarrow> bytes \<Rightarrow> bytes \<Rightarrow> model_action \<Rightarrow> packet adapted" where
  "action_to_packet pr self sid mid action =
     bindr (up (action_validate action)) (\<lambda>errors.
     if errors \<noteq> [] then Inl (Raised ValidationError)
     else
       bindr (py (check_outbound (ad_gate self) action)) (\<lambda>gate_result.
       if \<not> allowed gate_result then Inl (Raised SemanticError)
       else case ac_intent action of
           None \<Rightarrow> Inl (Raised (SemPy AttributeError))
         | Some i \<Rightarrow> packet_of_action pr self sid mid i action))"

definition action_to_bytes ::
  "(nat \<Rightarrow> bool) \<Rightarrow> semantic_adapter \<Rightarrow> bytes \<Rightarrow> bytes \<Rightarrow> model_action \<Rightarrow> bool \<Rightarrow> bytes adapted" where
  "action_to_bytes pr self sid mid action checksum =
     bindr (action_to_packet pr self sid mid action) (\<lambda>pkt. py (encode pkt checksum))"

section \<open>AICL-SL text\<close>

text \<open>The symbols, each a prefix and a value; a bool is an int, so that it takes the branch of the numbers.\<close>

definition sl_input :: "json \<Rightarrow> (pystr \<times> json) list" where
  "sl_input v =
     (case v of
        JStr _ \<Rightarrow> [(str ''S'', v)]
      | JInt _ \<Rightarrow> [(str ''N'', v)]
      | JFloat _ \<Rightarrow> [(str ''N'', v)]
      | JBool _ \<Rightarrow> [(str ''N'', v)]
      | JObj _ \<Rightarrow> [(str ''J'', v)]
      | _ \<Rightarrow> [])"

definition build_sl_symbols :: "model_action \<Rightarrow> (pystr \<times> json) list adapted" where
  "build_sl_symbols action =
     bindr (py_get (ac_inputs action) ''text'' JNull) (\<lambda>text.
     bindr (py_items (ac_inputs action)) (\<lambda>items.
       Inr ((if j_true text then [(str ''S'', text)] else []) @
            concat (map (\<lambda>(k, v). sl_input v) (filter (\<lambda>(k, v). k \<noteq> str ''text'') items)) @
            (if j_true (ac_result action) then [(str ''J'', ac_result action)] else []))))"

definition sl_encode :: "(nat \<Rightarrow> bool) \<Rightarrow> pystr \<times> json \<Rightarrow> pystr res" where
  "sl_encode pr = (\<lambda>(prefix, val).
     if prefix = str ''S'' then
       bindr (py_str pr val) (\<lambda>t. Inr (str ''S:'' @ 34 # py_replace [34] [92, 34] t @ [34]))
     else if prefix = str ''N'' then bindr (py_str pr val) (\<lambda>t. Inr (str ''N:'' @ t))
     else if prefix = str ''B'' then Inr (str ''B:'' @ (if j_true val then str ''true'' else str ''false''))
     else if prefix = str ''T'' then bindr (py_str pr val) (\<lambda>t. Inr (str ''T:'' @ t))
     else if prefix = str ''J'' then bindr (json_dumps True (str '', '') (str '': '') val) (\<lambda>t. Inr (str ''J:'' @ t))
     else bindr (py_str pr val) (\<lambda>t. Inr (str ''S:'' @ t)))"

text \<open>
  \<open>now_ms\<close> is \<^verbatim>\<open>int(time.time()*1000)\<close> and \<open>u\<close> the bytes of the random identifier. \<open>join_with\<close> is
  \<^verbatim>\<open>sep.join(parts)\<close>.
\<close>

definition action_to_sl :: "(nat \<Rightarrow> bool) \<Rightarrow> semantic_adapter \<Rightarrow> int \<Rightarrow> bytes \<Rightarrow> model_action \<Rightarrow> pystr adapted" where
  "action_to_sl pr self now_ms u action =
     bindr (if j_true (ac_target action)
            then bindr (py (py_str pr (ac_target action))) (\<lambda>t. Inr [str ''TGT:'' @ t]) else Inr []) (\<lambda>tgt.
     case ac_intent action of
       None \<Rightarrow> Inl (Raised (SemPy AttributeError))
     | Some i \<Rightarrow>
         bindr (build_sl_symbols action) (\<lambda>syms.
         bindr (if syms \<noteq> []
                then bindr (mapr (\<lambda>s. py (sl_encode pr s)) syms) (\<lambda>encoded. Inr [str ''SYM:'' @ join_with (str '','') encoded])
                else Inr []) (\<lambda>sym.
         bindr (py (py_str pr (ac_confidence action))) (\<lambda>cnf.
         bindr (py_items (ac_metadata action)) (\<lambda>items.
         bindr (mapr (\<lambda>(k, v). bindr (py (py_str pr v)) (\<lambda>t. Inr (k @ str ''='' @ t))) items) (\<lambda>meta.
           Inr (join_with (str ''|'')
             ([str ''AICL/1.0'',
               str ''SID:'' @ str ''s-'' @ dec_int now_ms @ str ''-'' @ take 8 (bytes_hex u),
               str ''ORI:'' @ ad_origin self] @ tgt @
              [str ''OP:'' @ (case map_of INTENT_TO_SL_OP i of None \<Rightarrow> intent_value i | Some c \<Rightarrow> c)] @ sym @
              [str ''CNF:'' @ cnf,
               str ''META:'' @ join_with (str '';'') (meta @ [str ''semantic_intent='' @ intent_value i])])))))))) "

section \<open>From a packet to an observation\<close>

text \<open>
  The loop over the operands looks at pairs only; the operands of a view are \<^verbatim>\<open>Symbol\<close> objects, so that
  \<^verbatim>\<open>inputs\<close> and \<^verbatim>\<open>params\<close> stay empty. Every property the view has is read in this order.
\<close>

definition view_to_observation :: "packet_view \<Rightarrow> model_observation res" where
  "view_to_observation pv =
     bindr (view_intent pv) (\<lambda>intent_str.
     bindr (view_metadata pv) (\<lambda>metadata.
     bindr (view_schema_id pv) (\<lambda>schema_id.
     bindr (view_origin pv) (\<lambda>origin.
     bindr (view_confidence pv) (\<lambda>confidence.
       Inr \<lparr>ob_task = JStr intent_str, ob_context = JObj [(str ''intent'', JStr intent_str)],
            ob_inputs = JObj [], ob_params = JObj [], ob_schema_id = JStr schema_id,
            ob_trace_id = JStr (case view_session_id pv of None \<Rightarrow> [] | Some b \<Rightarrow> bytes_hex b),
            ob_origin = JStr (case origin of None \<Rightarrow> [] | Some i \<Rightarrow> id_name i),
            ob_confidence = JFloat confidence, ob_deadline_ms = JInt (view_deadline_ms pv),
            ob_metadata = JObj (map (\<lambda>(k, v). (k, JStr v)) metadata)\<rparr>)))))"

definition packet_view_to_observation :: "semantic_adapter \<Rightarrow> packet_view \<Rightarrow> semantic_exn + model_observation" where
  "packet_view_to_observation self pv =
     bindr (sem (check_inbound (ad_gate self) pv)) (\<lambda>gate_result.
     if \<not> allowed gate_result then Inl SemanticError else sem (view_to_observation pv))"

definition bytes_to_observation :: "semantic_adapter \<Rightarrow> bytes \<Rightarrow> semantic_exn + model_observation" where
  "bytes_to_observation self data =
     bindr (sem (decode data)) (\<lambda>pv.
     bindr (sem (check_inbound (ad_gate self) pv)) (\<lambda>gate_result.
     if \<not> allowed gate_result then Inl SemanticError else sem (view_to_observation pv)))"

section \<open>From an observation to a request\<close>

fun py_upper :: "(pystr \<Rightarrow> pystr) \<Rightarrow> json \<Rightarrow> pystr adapted" where
  "py_upper upper (JStr s) = Inr (upper s)"
| "py_upper upper _ = Inl (Raised (SemPy AttributeError))"

definition prompt_part :: "pystr \<times> json \<Rightarrow> pystr res" where
  "prompt_part = (\<lambda>(k, v).
     case v of
       JStr s \<Rightarrow> Inr (k @ str '': '' @ s)
     | _ \<Rightarrow> bindr (json_dumps True (str '', '') (str '': '') v) (\<lambda>t. Inr (k @ str '': '' @ t)))"

definition observation_to_request ::
  "(pystr \<Rightarrow> pystr) \<Rightarrow> model_observation \<Rightarrow> pystr \<Rightarrow> aicl_grammar option \<Rightarrow> model_request adapted" where
  "observation_to_request upper obs name gr =
     bindr (if j_true (ob_task obs) then py_upper upper (ob_task obs) else Inr (str ''GENERATE'')) (\<lambda>task.
     bindr (py_get (ob_inputs obs) ''text'' JNull) (\<lambda>text.
     bindr (py_items (ob_inputs obs)) (\<lambda>items.
     bindr (if j_true text
            then (case text of JStr s \<Rightarrow> Inr s | _ \<Rightarrow> Inl (Raised (SemPy PyTypeError)))
            else bindr (mapr (\<lambda>i. py (prompt_part i)) items) (\<lambda>parts. Inr (join_with [10] parts))) (\<lambda>prompt.
     bindr (if name \<noteq> [] then Inr (JStr name) else py_get (ob_context obs) ''model'' (JStr [])) (\<lambda>target_model.
       Inr \<lparr>rq_target_model = target_model, rq_task = JStr task, rq_prompt = JStr prompt, rq_inputs = ob_inputs obs,
            rq_params = ob_params obs, rq_max_tokens = JInt 512, rq_temperature = JFloat f64_0_7, rq_stop = JList [],
            rq_stream = JBool False,
            rq_grammar = (case gr of None \<Rightarrow> JNull | Some g \<Rightarrow> JStr (gr_bnf g)),
            rq_correlation_id = ob_trace_id obs, rq_deadline_ms = ob_deadline_ms obs, rq_metadata = ob_metadata obs\<rparr>)))))"

section \<open>From a result to a packet\<close>

definition result_symbols :: "(nat \<Rightarrow> bool) \<Rightarrow> model_result \<Rightarrow> symbol list res" where
  "result_symbols pr result =
     bindr (case mr_output result of
              JNull \<Rightarrow> Inr []
            | JObj d \<Rightarrow> bindr (to_binary_symbol (JObj d)) (\<lambda>s. Inr [s])
            | JStr t \<Rightarrow> bindr (to_binary_symbol (JStr t)) (\<lambda>s. Inr [s])
            | v \<Rightarrow> bindr (py_str pr v) (\<lambda>t. bindr (to_binary_symbol (JStr t)) (\<lambda>s. Inr [s]))) (\<lambda>output.
     bindr (if j_true (mr_error result) then bindr (to_binary_symbol (mr_error result)) (\<lambda>s. Inr [s]) else Inr []) (\<lambda>err.
       Inr (output @ err)))"

definition result_to_bytes ::
  "(nat \<Rightarrow> bool) \<Rightarrow> semantic_adapter \<Rightarrow> bytes \<Rightarrow> bytes \<Rightarrow> model_result \<Rightarrow> pystr \<Rightarrow> bytes option \<Rightarrow> bytes adapted" where
  "result_to_bytes pr self uuid_s mid result correlation_id session_id =
     (let opcode = (case mr_intent result of
                      None \<Rightarrow> 0x02
                    | Some i \<Rightarrow> (case map_of INTENT_TO_OPCODE i of None \<Rightarrow> 0x02 | Some c \<Rightarrow> c));
          sid = (case session_id of None \<Rightarrow> uuid_s | Some b \<Rightarrow> if b = [] then uuid_s else b) in
      bindr (py (result_symbols pr result)) (\<lambda>symbols.
      bindr (py (correlation_bytes (JStr correlation_id))) (\<lambda>corr_id.
      case mr_intent result of
        None \<Rightarrow> Inl (Raised (SemPy AttributeError))
      | Some i \<Rightarrow>
          bindr (py_mapping (mr_metadata result)) (\<lambda>extra.
          bindr (metadata_texts pr (dict_merge
            [(str ''semantic_intent'', JStr (intent_value i)), (str ''tokens_used'', mr_tokens_used result),
             (str ''latency_ms'', mr_latency_ms result)] extra)) (\<lambda>metadata.
          bindr (as_num (mr_confidence result)) (\<lambda>confidence.
          bindr (py (packet_post_init sid mid
            (default_packet
              \<lparr>pkt_flags := 0x0002, pkt_session_id := Some sid, pkt_message_id := Some mid,
               pkt_correlation_id := Some corr_id,
               pkt_origin := Some \<lparr>id_type = ad_identity_type self, id_name = ad_origin self, id_instance_id = 0\<rparr>,
               pkt_operation := opcode, pkt_intent := intent_value i, pkt_symbols := symbols,
               pkt_confidence := confidence, pkt_metadata := metadata\<rparr>))) (\<lambda>pkt.
          bindr (if j_true (mr_error result)
                 then bindr (as_text (mr_error result)) (\<lambda>m.
                   Inr (Some \<lparr>error_code = 0x0001, error_severity = 1, error_message = m, error_details = None\<rparr>))
                 else Inr None) (\<lambda>err.
            py (encode (pkt\<lparr>pkt_error_info := err\<rparr>) False))))))))) "

section \<open>Reading a model's output\<close>

definition plain_action :: "model_intent \<Rightarrow> model_action" where
  "plain_action i =
     \<lparr>ac_intent = Some i, ac_target = JStr [], ac_inputs = JObj [], ac_params = JObj [], ac_result = JObj [],
      ac_confidence = JFloat f64_one, ac_stream = JBool False, ac_cancel = JBool False, ac_correlation_id = JStr [],
      ac_deadline_ms = JInt 0, ac_metadata = JObj []\<rparr>"

text \<open>The fallback for output that is no JSON object.\<close>

definition action_of_text :: "(pystr \<Rightarrow> pystr) \<Rightarrow> pystr \<Rightarrow> model_action" where
  "action_of_text upper raw =
     (case find (\<lambda>i. sublist (intent_value i) (upper raw)) all_intents of
        Some i \<Rightarrow> (plain_action i)\<lparr>ac_inputs := JObj [(str ''text'', JStr raw)]\<rparr>
      | None \<Rightarrow> (plain_action RETURN_RESULT)\<lparr>ac_result := JObj [(str ''text'', JStr raw)]\<rparr>)"

definition parse_model_output :: "(pystr \<Rightarrow> pystr) \<Rightarrow> pystr \<Rightarrow> semantic_exn + model_action" where
  "parse_model_output upper text =
     (let raw = py_strip text in
      if raw = [] then Inl SemanticError
      else case json_loads raw of
          Inr (JObj d) \<Rightarrow> action_from_dict d
        | Inr _ \<Rightarrow> Inr (action_of_text upper raw)
        | Inl e \<Rightarrow> if e \<in> {JSONDecodeError, ValueError} then Inr (action_of_text upper raw) else Inl (SemPy e))"

end
