(* ===== verification/Adapter_Flow.thy ===== *)
theory Adapter_Flow
  imports Adapter
begin

text \<open>
  What passes through the adapter of \<^verbatim>\<open>aicl/semantic/adapter.py\<close>, end to end: an action to a packet, to bytes,
  to the observation and the request at the other side, and a model's text to an action. The library on
  top carries the layout lemmas of the codec over to the packets an adapter builds.
\<close>

section \<open>Symbols of an adapter: lemmas\<close>

definition made_symbol :: "symbol \<Rightarrow> bool" where
  "made_symbol s = (\<exists>v. to_binary_symbol v = Inr s)"

lemma mapr_element: "mapr f xs = Inr ys \<Longrightarrow> x \<in> set xs \<Longrightarrow> \<exists>y \<in> set ys. f x = Inr y"
  by (induction xs arbitrary: ys) (auto simp: res_simps)

text \<open>A symbol the adapter makes of a value encodes only if the value fits the wire.\<close>

lemma string_symbol_wf:
  "encode_symbol (Symbol S_STRING (VStr t)) = Inr bs \<Longrightarrow> length bs < 2 ^ 28 \<Longrightarrow> utf8_len_ok t"
  by (auto simp: utf8_len_ok.simps bindr_eq_Inr prefixed_def wire_simps split: if_splits)

lemma binary_symbol_wf:
  "to_binary_symbol v = Inr s \<Longrightarrow> encode_symbol s = Inr bs \<Longrightarrow> length bs < 2 ^ 28 \<Longrightarrow>
   wf_symbol s \<and> \<not> is_vendor_tag (sym_tag s)"
proof (induction v arbitrary: s bs)
  case (JList l)
  then obtain syms where syms: "mapr to_binary_symbol l = Inr syms" "s = Symbol S_LIST (VList syms)"
    by (auto simp: bindr_eq_Inr)
  with JList.prems(2) obtain bss where enc: "mapr encode_symbol syms = Inr bss" "length (concat bss) < length bs"
    by (auto simp: bindr_eq_Inr wire_simps)
  have "wf_symbol t" if t: "t \<in> set syms" for t
  proof -
    obtain x where x: "x \<in> set l" "to_binary_symbol x = Inr t"
      using mapr_result [OF syms(1) t] by blast
    obtain b where b: "b \<in> set bss" "encode_symbol t = Inr b" using mapr_element [OF enc(1) t] by blast
    then have "length b < 2 ^ 28" using length_member_concat [OF b(1)] enc(2) JList.prems(3) by linarith
    then show ?thesis using JList.IH [OF x b(2)] by simp
  qed
  moreover have "length syms < 2 ^ 28" using length_le_concat [OF enc(1)] enc(2) JList.prems(3) by linarith
  ultimately show ?case using syms(2) by (simp add: list_all_iff wire_simps is_vendor_tag_def)
qed (auto simp: bindr_eq_Inr wire_simps is_vendor_tag_def FIXED_STRUCT_def res_simps split: if_splits dest!: string_symbol_wf)

text \<open>What \<open>build_symbols\<close> and \<open>result_symbols\<close> put into a packet.\<close>

lemma up_mapr: "mapr (\<lambda>x. py (f x)) xs = Inr ys \<longleftrightarrow> mapr f xs = Inr ys"
  by (induction xs arbitrary: ys) (auto simp: bindr_eq_Inr)

lemma symbol_if_made: "symbol_if c v = Inr syms \<Longrightarrow> list_all made_symbol syms"
  by (auto simp: symbol_if_def bindr_eq_Inr made_symbol_def split: if_splits)

lemma mapr_made: "mapr (\<lambda>(k, v). py (to_binary_symbol v)) items = Inr syms \<Longrightarrow> list_all made_symbol syms"
  by (induction items arbitrary: syms) (auto simp: bindr_eq_Inr made_symbol_def)

lemma build_symbols_made: "build_symbols action = Inr syms \<Longrightarrow> list_all made_symbol syms"
  by (auto simp: build_symbols_def bindr_eq_Inr dest: symbol_if_made mapr_made)

lemma encoded_core:
  assumes "encode p checksum = Inr bs" "int (length bs) \<le> MAX_PACKET_SIZE" "list_all made_symbol (pkt_symbols p)"
  shows "core_operands p"
proof -
  from assms(1) obtain payload h t where pl: "build_payload p = Inr payload" "bs = h @ payload @ t" by (rule encode_shape)
  then obtain exts n ops where ops: "mapr encode_symbol (pkt_symbols p @ exts) = Inr ops" "payload = n @ concat ops"
    by (auto simp: build_payload_def append_extensions_def bindr_eq_Inr)
  have len: "length bs < 2 ^ 28" using assms(2) by (simp add: wire_simps)
  have "wf_symbol s \<and> \<not> is_vendor_tag (sym_tag s)" if s: "s \<in> set (pkt_symbols p)" for s
  proof -
    obtain b where b: "b \<in> set ops" "encode_symbol s = Inr b" using mapr_element [OF ops(1), of s] s by auto
    have "length b < 2 ^ 28" using length_member_concat [OF b(1)] ops(2) pl(2) len by simp
    moreover obtain v where "to_binary_symbol v = Inr s" using assms(3) s by (auto simp: list_all_iff made_symbol_def)
    ultimately show ?thesis using binary_symbol_wf b(2) by blast
  qed
  then show ?thesis by (simp add: core_operands_def list_all_iff)
qed

text \<open>The observation of a packet that arrives.\<close>

lemma packet_observed:
  assumes enc: "encode p checksum = Inr bs" and size: "int (length bs) \<le> MAX_PACKET_SIZE"
    and made: "list_all made_symbol (pkt_symbols p)" and md: "distinct (map fst (pkt_metadata p))"
    and sid: "pkt_session_id p = Some sid" "sid \<noteq> []"
  obtains v where "decode bs = Inr v" "view_symbols v = pkt_symbols p" "view_flags v = wire_flags p checksum"
    "view_to_observation v =
       Inr \<lparr>ob_task = JStr (pkt_intent p), ob_context = JObj [(str ''intent'', JStr (pkt_intent p))],
            ob_inputs = JObj [], ob_params = JObj [], ob_schema_id = JStr (pkt_schema_id p),
            ob_trace_id = JStr (bytes_hex sid),
            ob_origin = JStr (case pkt_origin p of None \<Rightarrow> [] | Some i \<Rightarrow> id_name i),
            ob_confidence = JFloat (pkt_confidence p), ob_deadline_ms = JInt (pkt_deadline_ms p),
            ob_metadata = JObj (map (\<lambda>(k, v). (k, JStr v)) (pkt_metadata p))\<rparr>"
proof -
  obtain v mid cid n where v: "decode bs = Inr v" "view_symbols v = pkt_symbols p"
    "view_hdr v = \<lparr>hdr_magic = MAGIC, hdr_version = pkt_version p, hdr_flags = wire_flags p checksum,
       hdr_message_id = mid, hdr_correlation_id = cid, hdr_deadline_ms = pkt_deadline_ms p,
       hdr_payload_length = n\<rparr>"
    and f: "\<forall>(tag, r) \<in> set (ext_fields p). r = Inr (view_ext_all v tag)"
    using decode_encoded [OF enc encoded_core [OF enc size made] size] by auto
  have "view_intent v = Inr (pkt_intent p)" "view_schema_id v = Inr (pkt_schema_id p)"
    unfolding view_intent_def view_schema_id_def by (rule text_read; use f in \<open>simp add: ext_fields_def\<close>)+
  moreover have "view_session_id v = pkt_session_id p"
    unfolding view_session_id_def by (rule ext_bytes_read) (use f sid in \<open>simp_all add: ext_fields_def\<close>)
  ultimately have "view_to_observation v =
       Inr \<lparr>ob_task = JStr (pkt_intent p), ob_context = JObj [(str ''intent'', JStr (pkt_intent p))],
            ob_inputs = JObj [], ob_params = JObj [], ob_schema_id = JStr (pkt_schema_id p),
            ob_trace_id = JStr (bytes_hex sid),
            ob_origin = JStr (case pkt_origin p of None \<Rightarrow> [] | Some i \<Rightarrow> id_name i),
            ob_confidence = JFloat (pkt_confidence p), ob_deadline_ms = JInt (pkt_deadline_ms p),
            ob_metadata = JObj (map (\<lambda>(k, v). (k, JStr v)) (pkt_metadata p))\<rparr>"
    using view_records_read(8) [OF f] view_scalars_read [OF f md] sid v(3)
    by (simp add: view_to_observation_def bindr_def view_deadline_ms_def)
  then show thesis using that v by (simp add: view_flags_def)
qed

text \<open>The fields of the packet of an action.\<close>

lemma distinct_merge: "distinct (map fst d) \<Longrightarrow> distinct (map fst (dict_merge d e))"
  unfolding dict_merge_def by (induction e arbitrary: d) (auto simp: distinct_update)

lemma metadata_keys: "metadata_texts pr d = Inr m \<Longrightarrow> map fst m = map fst d"
  unfolding metadata_texts_def by (induction d arbitrary: m) (auto simp: bindr_eq_Inr)

lemma post_init_given:
  "pkt_session_id p = Some sid \<Longrightarrow> pkt_message_id p = Some mid \<Longrightarrow> pkt_correlation_id p = Some cid \<Longrightarrow>
   packet_post_init u w p = Inr q \<Longrightarrow> q = p \<and> length sid = 16"
  by (cases p) (auto simp: packet_post_init_def Let_def split: if_splits)

lemma action_packet_fields:
  assumes "packet_of_action pr self sid mid i action = Inr p"
  shows "build_symbols action = Inr (pkt_symbols p)" "pkt_intent p = intent_value i" "pkt_session_id p = Some sid"
    "length sid = 16" "pkt_flags p = action_flags action" "as_num (ac_confidence action) = Inr (pkt_confidence p)"
    "as_int (ac_deadline_ms action) = Inr (pkt_deadline_ms p)" "pkt_schema_id p = []"
    "pkt_origin p = Some \<lparr>id_type = ad_identity_type self, id_name = ad_origin self, id_instance_id = 0\<rparr>"
    "adapter_tool action = Inr (pkt_tool_invocation p)" "adapter_model i action = Inr (pkt_model_invocation p)"
    "\<exists>m. ac_metadata action = JObj m \<and>
       metadata_texts pr (dict_merge [(str ''semantic_intent'', JStr (intent_value i))] m) = Inr (pkt_metadata p)"
    "distinct (map fst (pkt_metadata p))"
proof -
  let ?base = "\<lambda>corr targets opcode symbols conf dl md. default_packet
          \<lparr>pkt_flags := action_flags action, pkt_session_id := Some sid, pkt_message_id := Some mid,
           pkt_correlation_id := Some corr,
           pkt_origin := Some \<lparr>id_type = ad_identity_type self, id_name = ad_origin self, id_instance_id = 0\<rparr>,
           pkt_targets := targets, pkt_operation := opcode, pkt_intent := intent_value i, pkt_symbols := symbols,
           pkt_confidence := conf, pkt_deadline_ms := dl, pkt_metadata := md\<rparr>"
  obtain symbols corr targets conf dl m md q tool model opcode where
    b: "build_symbols action = Inr symbols" "as_num (ac_confidence action) = Inr conf"
      "as_int (ac_deadline_ms action) = Inr dl" "py_mapping (ac_metadata action) = Inr m"
      "metadata_texts pr (dict_merge [(str ''semantic_intent'', JStr (intent_value i))] m) = Inr md"
      "packet_post_init sid mid (?base corr targets opcode symbols conf dl md) = Inr q"
      "adapter_tool action = Inr tool" "adapter_model i action = Inr model"
      "p = q\<lparr>pkt_tool_invocation := tool, pkt_model_invocation := model\<rparr>"
    using assms unfolding packet_of_action_def Let_def by (auto simp: bindr_eq_Inr)
  have q: "q = ?base corr targets opcode symbols conf dl md" "length sid = 16"
    using post_init_given [OF _ _ _ b(6)] by simp_all
  have "ac_metadata action = JObj m" using b(4) by (cases "ac_metadata action") simp_all
  moreover have "distinct (map fst md)"
    using distinct_merge [of "[(str ''semantic_intent'', JStr (intent_value i))]" m] metadata_keys [OF b(5)] by simp
  ultimately show "build_symbols action = Inr (pkt_symbols p)" "pkt_intent p = intent_value i" "pkt_session_id p = Some sid"
    "length sid = 16" "pkt_flags p = action_flags action" "as_num (ac_confidence action) = Inr (pkt_confidence p)"
    "as_int (ac_deadline_ms action) = Inr (pkt_deadline_ms p)" "pkt_schema_id p = []"
    "pkt_origin p = Some \<lparr>id_type = ad_identity_type self, id_name = ad_origin self, id_instance_id = 0\<rparr>"
    "adapter_tool action = Inr (pkt_tool_invocation p)" "adapter_model i action = Inr (pkt_model_invocation p)"
    "\<exists>m. ac_metadata action = JObj m \<and>
       metadata_texts pr (dict_merge [(str ''semantic_intent'', JStr (intent_value i))] m) = Inr (pkt_metadata p)"
    "distinct (map fst (pkt_metadata p))"
    using b q by (simp_all add: default_packet_def)
qed

lemma action_to_packet_Inr:
  assumes "action_to_packet pr self sid mid action = Inr p"
  obtains i g where "ac_intent action = Some i" "action_validate action = Inr []"
    "check_outbound (ad_gate self) action = Inr g" "allowed g" "packet_of_action pr self sid mid i action = Inr p"
  using assms by (auto simp: action_to_packet_def bindr_eq_Inr split: if_splits option.splits)

section \<open>A tool call for the concrete instances\<close>

definition sample_adapter :: semantic_adapter where
  "sample_adapter = semantic_adapter_init (str ''m'') None 4"

definition sample_call :: model_action where
  "sample_call = (plain_action CALL_TOOL)\<lparr>ac_target := JStr (str ''a''), ac_inputs := JObj [(str ''text'', JStr (str ''hi''))],
     ac_params := JObj [(str ''tool_name'', JStr (str ''t''))], ac_stream := JBool True\<rparr>"

definition sample_call_packet :: packet where
  "sample_call_packet = default_packet
     \<lparr>pkt_flags := 0x81, pkt_session_id := Some (replicate 16 1), pkt_message_id := Some (replicate 16 2),
      pkt_correlation_id := Some (replicate 16 0),
      pkt_origin := Some \<lparr>id_type = 4, id_name = str ''m'', id_instance_id = 0\<rparr>, pkt_targets := [str ''a''],
      pkt_operation := 0x41, pkt_intent := str ''CALL_TOOL'',
      pkt_symbols := [Symbol S_STRING (VStr (str ''hi'')), Symbol S_STRING (VStr (str (''{'' @ [CHR 0x22] @ ''tool_name'' @ [CHR 0x22] @ '':'' @ [CHR 0x22] @ ''t'' @ [CHR 0x22] @ ''}'')))],
      pkt_tool_invocation := Some \<lparr>tool_name = str ''t'', tool_parameters_json = str ''{}'', tool_timeout_ms = 5000\<rparr>,
      pkt_metadata := [(str ''semantic_intent'', str ''CALL_TOOL'')]\<rparr>"

lemma sample_call_valid: "action_validate sample_call = Inr []"
  by (simp add: sample_call_def plain_action_def action_validate_def bindr_def unit_one err_if_def needs_target_def str_def
      del: in_unit.simps)

lemma sample_call_to_packet:
  "action_to_packet pr sample_adapter (replicate 16 1) (replicate 16 2) sample_call = Inr sample_call_packet"
  unfolding action_to_packet_def sample_call_valid
  by (simp add: sample_call_def plain_action_def sample_adapter_def semantic_adapter_init_def allow_all_gate_def gate_passes_def
      packet_of_action_def build_symbols_def py_get_def symbol_if_def j_get_def str_eq json_string_def json_char_def
      correlation_bytes_def metadata_texts_def dict_merge_def py_str_def packet_post_init_def action_flags_def
      adapter_tool_def adapter_model_def INTENT_TO_OPCODE_def sample_call_packet_def default_packet_def Let_def str_def)

lemma sample_call_wf: "wf_packet sample_call_packet"
  by (simp add: sample_call_packet_def default_packet_def wf_packet_def wf_records_def u_ok_def FIXED_STRUCT_def encodable_def
      scalar_def text_ok_def utf8_ascii str_def utf8_len_ok.simps)

lemma sample_call_payload: "\<exists>pl. build_payload sample_call_packet = Inr pl \<and> length pl < 1000"
  by (simp add: build_payload_def append_extensions_def ext_fields_def sample_call_packet_def default_packet_def
    ext_when_def enc_names_def utf8_ascii enc_tool_invocation_def struct_pack_def pack_u_def ext_symbol_def encode_varint_small
    prefixed_def FIXED_STRUCT_def is_vendor_tag_def py_bytes.simps str_def identity_to_bytes_def enc_metadata_def enc_metadata_entry_def)

lemma sample_call_bytes:
  obtains bs where "action_to_bytes pr sample_adapter (replicate 16 1) (replicate 16 2) sample_call checksum = Inr bs"
    "int (length bs) \<le> MAX_PACKET_SIZE"
proof -
  obtain pl where pl: "build_payload sample_call_packet = Inr pl" "length pl < 1000" using sample_call_payload by blast
  obtain bs where "encode sample_call_packet checksum = Inr bs" "length bs < 1100"
    using encode_total [OF sample_call_wf pl(1), of checksum] pl(2) by (auto split: if_splits)
  then show thesis using that by (simp add: action_to_bytes_def sample_call_to_packet wire_simps)
qed

section \<open>Further facts\<close>

text \<open>
  An action that streams is sent with the bit 0x0080, which the constants name \<^verbatim>\<open>FLAG_COMPRESSED\<close>, and
  without the bit of a stream chunk.
\<close>

lemma streaming_action_flags:
  assumes "action_to_bytes pr self sid mid action checksum = Inr bs" "int (length bs) \<le> MAX_PACKET_SIZE"
    and "j_true (ac_stream action)"
  shows "\<exists>v. decode bs = Inr v \<and> \<not> is_stream_chunk v \<and> view_flags v AND FLAG_COMPRESSED \<noteq> 0"
proof -
  obtain p where p: "action_to_packet pr self sid mid action = Inr p" "encode p checksum = Inr bs"
    using assms(1) by (auto simp: action_to_bytes_def bindr_eq_Inr)
  from p(1) obtain i where i: "packet_of_action pr self sid mid i action = Inr p"
    by (rule action_to_packet_Inr)
  note f = action_packet_fields [OF i]
  have ne: "sid \<noteq> []" using f(4) by auto
  obtain v where "decode bs = Inr v" "view_flags v = wire_flags p checksum"
    by (rule packet_observed [OF p(2) assms(2) build_symbols_made [OF f(1)] f(13) f(3) ne])
  moreover have "wire_flags p checksum = action_flags action \<or> wire_flags p checksum = action_flags action OR FLAG_HAS_TRAILER"
    using f(5) by (simp add: wire_flags_def)
  ultimately show ?thesis
    using assms(3) by (auto simp: is_stream_chunk_def action_flags_def Let_def split: if_splits)
qed

text \<open>No AICL-SL text has a symbol of a boolean: the test for a number comes first and a bool passes it.\<close>

lemma sl_input_prefixes: "fst ` set (sl_input v) \<subseteq> {str ''S'', str ''N'', str ''J''}"
  by (cases v) (simp_all add: sl_input_def)

lemma sl_prefixes: "build_sl_symbols action = Inr syms \<Longrightarrow> fst ` set syms \<subseteq> {str ''S'', str ''N'', str ''J''}"
  using sl_input_prefixes by (fastforce simp: build_sl_symbols_def bindr_eq_Inr split: if_splits)

text \<open>
  A result arrives the same way: the intent as the task, the confidence, the metadata with the counts; the
  output is an operand of the packet, the message of the error its error record, and neither is in the
  observation.
\<close>

lemma made_symbol_text: "made_symbol (Symbol S_STRING (VStr t))" "to_binary_symbol v = Inr s \<Longrightarrow> made_symbol s"
  unfolding made_symbol_def by (rule exI [of _ "JStr t"], simp) blast

lemma result_symbols_made: "result_symbols pr r = Inr syms \<Longrightarrow> list_all made_symbol syms"
  by (auto simp: result_symbols_def bindr_eq_Inr split: json.splits if_splits intro: made_symbol_text
      simp del: to_binary_symbol.simps)

lemma result_arrives:
  assumes "result_to_bytes pr self uuid_s mid r corr None = Inr bs" "int (length bs) \<le> MAX_PACKET_SIZE"
    and "ad_gate other = allow_all_gate"
  shows "\<exists>i ob v c. mr_intent r = Some i \<and> bytes_to_observation other bs = Inr ob \<and> decode bs = Inr v \<and>
    ob_task ob = JStr (intent_value i) \<and> ob_origin ob = JStr (ad_origin self) \<and> ob_trace_id ob = JStr (bytes_hex uuid_s) \<and>
    as_num (mr_confidence r) = Inr c \<and> ob_confidence ob = JFloat c \<and> ob_inputs ob = JObj [] \<and>
    result_symbols pr r = Inr (view_symbols v) \<and> is_response v"
proof -
  obtain i symbols corr_id opcode extra md conf q err where b: "mr_intent r = Some i" "result_symbols pr r = Inr symbols"
    "as_num (mr_confidence r) = Inr conf"
    "metadata_texts pr (dict_merge [(str ''semantic_intent'', JStr (intent_value i)), (str ''tokens_used'', mr_tokens_used r),
             (str ''latency_ms'', mr_latency_ms r)] extra) = Inr md"
    "packet_post_init uuid_s mid (default_packet
       \<lparr>pkt_flags := 0x0002, pkt_session_id := Some uuid_s, pkt_message_id := Some mid, pkt_correlation_id := Some corr_id,
        pkt_origin := Some \<lparr>id_type = ad_identity_type self, id_name = ad_origin self, id_instance_id = 0\<rparr>,
        pkt_operation := opcode, pkt_intent := intent_value i, pkt_symbols := symbols, pkt_confidence := conf,
        pkt_metadata := md\<rparr>) = Inr q"
    "encode (q\<lparr>pkt_error_info := err\<rparr>) False = Inr bs"
    using assms(1) by (auto simp: result_to_bytes_def bindr_eq_Inr Let_def split: option.splits)
  let ?p = "q\<lparr>pkt_error_info := err\<rparr>"
  have q: "q = default_packet
       \<lparr>pkt_flags := 0x0002, pkt_session_id := Some uuid_s, pkt_message_id := Some mid, pkt_correlation_id := Some corr_id,
        pkt_origin := Some \<lparr>id_type = ad_identity_type self, id_name = ad_origin self, id_instance_id = 0\<rparr>,
        pkt_operation := opcode, pkt_intent := intent_value i, pkt_symbols := symbols, pkt_confidence := conf,
        pkt_metadata := md\<rparr>" "length uuid_s = 16"
    using post_init_given [OF _ _ _ b(5)] by simp_all
  have "distinct (map fst md)" using distinct_merge metadata_keys [OF b(4)] by (simp add: str_eq distinct_merge)
  then have "list_all made_symbol (pkt_symbols ?p)" "distinct (map fst (pkt_metadata ?p))" "pkt_session_id ?p = Some uuid_s"
    "uuid_s \<noteq> []"
    using q result_symbols_made [OF b(2)] by auto
  then obtain v where "decode bs = Inr v" "view_symbols v = pkt_symbols ?p" "view_flags v = wire_flags ?p False"
    "view_to_observation v =
       Inr \<lparr>ob_task = JStr (pkt_intent ?p), ob_context = JObj [(str ''intent'', JStr (pkt_intent ?p))],
            ob_inputs = JObj [], ob_params = JObj [], ob_schema_id = JStr (pkt_schema_id ?p),
            ob_trace_id = JStr (bytes_hex uuid_s),
            ob_origin = JStr (case pkt_origin ?p of None \<Rightarrow> [] | Some i \<Rightarrow> id_name i),
            ob_confidence = JFloat (pkt_confidence ?p), ob_deadline_ms = JInt (pkt_deadline_ms ?p),
            ob_metadata = JObj (map (\<lambda>(k, v). (k, JStr v)) (pkt_metadata ?p))\<rparr>"
    using packet_observed [OF b(6) assms(2)] by metis
  then show ?thesis
    using b(1-3) q assms(3)
    by (auto simp: bytes_to_observation_def bindr_def allow_all_gate_def gate_passes_def is_response_def wire_flags_def)
qed

lemma result_to_bytes_ungated:
  "result_to_bytes pr (set_gate g self) sid mid r corr session = result_to_bytes pr self sid mid r corr session"
proof -
  have "ad_origin (set_gate g self) = ad_origin self" "ad_identity_type (set_gate g self) = ad_identity_type self"
    by (simp_all add: set_gate_def)
  then show ?thesis unfolding result_to_bytes_def by presburger
qed

section \<open>Properties\<close>

text \<open>
  C13. Actions going out and packets coming in. No bytes of an action leave an adapter unless validation
  accepts the action and the gate allows it, and no observation comes in but of bytes that decode and
  that the gate allows; an action or a packet the gate refuses is a \<^verbatim>\<open>SemanticError\<close>, whatever else is
  wrong with it. The gate does not reach results: \<^verbatim>\<open>result_to_bytes\<close> sends the same bytes whatever the gate.
\<close>

theorem gate_enforced:
  "(\<forall>bs. action_to_bytes pr self sid mid action checksum = Inr bs \<longrightarrow>
      action_validate action = Inr [] \<and> (\<exists>g. check_outbound (ad_gate self) action = Inr g \<and> allowed g)) \<and>
   (\<forall>g. action_validate action = Inr [] \<and> check_outbound (ad_gate self) action = Inr g \<and> \<not> allowed g \<longrightarrow>
      action_to_bytes pr self sid mid action checksum = Inl (Raised SemanticError)) \<and>
   (\<forall>ob. bytes_to_observation self data = Inr ob \<longrightarrow>
      (\<exists>pv g. decode data = Inr pv \<and> check_inbound (ad_gate self) pv = Inr g \<and> allowed g \<and>
         packet_view_to_observation self pv = Inr ob)) \<and>
   (\<forall>pv g. decode data = Inr pv \<and> check_inbound (ad_gate self) pv = Inr g \<and> \<not> allowed g \<longrightarrow>
      bytes_to_observation self data = Inl SemanticError) \<and>
   result_to_bytes pr (set_gate g self) sid mid r corr session = result_to_bytes pr self sid mid r corr session"
  by (auto simp: action_to_bytes_def bytes_to_observation_def packet_view_to_observation_def bindr_eq_Inr
      action_to_packet_def result_to_bytes_ungated elim!: action_to_packet_Inr split: if_splits)

definition closed_gate :: gate where
  "closed_gate = \<lparr>check_outbound = \<lambda>action. Inr (gate_passes\<lparr>allowed := False\<rparr>), check_inbound = \<lambda>pv. Inr (gate_passes\<lparr>allowed := False\<rparr>)\<rparr>"

theorem gate_enforced_witness:
  "action_to_bytes (\<lambda>_. False) (set_gate closed_gate sample_adapter) [] [] sample_call True = Inl (Raised SemanticError)"
  using gate_enforced [of "\<lambda>_. False" "set_gate closed_gate sample_adapter" "[]" "[]" sample_call True "[]"]
  by (simp add: sample_call_valid set_gate_def closed_gate_def gate_passes_def)

text \<open>
  C12. What of an action arrives at another adapter whose gate is open: the intent as the task, the sender's
  name and session, confidence, deadline and the texts of the metadata. The inputs, parameters and the
  result are in the packet as operands, but the observation made of it has neither inputs nor
  parameters, and the request made of that has an empty prompt.
\<close>

theorem action_arrives:
  assumes "action_to_bytes pr self sid mid action checksum = Inr bs" "int (length bs) \<le> MAX_PACKET_SIZE"
    and "ad_gate other = allow_all_gate"
  shows "\<exists>i ob c n m texts v. ac_intent action = Some i \<and> bytes_to_observation other bs = Inr ob \<and>
    ob_task ob = JStr (intent_value i) \<and> ob_origin ob = JStr (ad_origin self) \<and> ob_trace_id ob = JStr (bytes_hex sid) \<and>
    as_num (ac_confidence action) = Inr c \<and> ob_confidence ob = JFloat c \<and>
    as_int (ac_deadline_ms action) = Inr n \<and> ob_deadline_ms ob = JInt n \<and>
    ac_metadata action = JObj m \<and>
    metadata_texts pr (dict_merge [(str ''semantic_intent'', JStr (intent_value i))] m) = Inr texts \<and>
    ob_metadata ob = JObj (map (\<lambda>(k, t). (k, JStr t)) texts) \<and>
    decode bs = Inr v \<and> build_symbols action = Inr (view_symbols v) \<and>
    ob_inputs ob = JObj [] \<and> ob_params ob = JObj [] \<and>
    observation_to_request upper ob name gr = Inr
      \<lparr>rq_target_model = JStr name, rq_task = JStr (upper (intent_value i)), rq_prompt = JStr [], rq_inputs = JObj [],
       rq_params = JObj [], rq_max_tokens = JInt 512, rq_temperature = JFloat f64_0_7, rq_stop = JList [],
       rq_stream = JBool False, rq_grammar = (case gr of None \<Rightarrow> JNull | Some g \<Rightarrow> JStr (gr_bnf g)),
       rq_correlation_id = ob_trace_id ob, rq_deadline_ms = JInt n, rq_metadata = ob_metadata ob\<rparr>"
proof -
  obtain p where p: "action_to_packet pr self sid mid action = Inr p" "encode p checksum = Inr bs"
    using assms(1) by (auto simp: action_to_bytes_def bindr_eq_Inr)
  from p(1) obtain i where i: "ac_intent action = Some i" "packet_of_action pr self sid mid i action = Inr p"
    by (rule action_to_packet_Inr)
  note f = action_packet_fields [OF i(2)]
  have ne: "sid \<noteq> []" using f(4) by auto
  obtain v where v: "decode bs = Inr v" "view_symbols v = pkt_symbols p" "view_flags v = wire_flags p checksum"
    "view_to_observation v =
       Inr \<lparr>ob_task = JStr (pkt_intent p), ob_context = JObj [(str ''intent'', JStr (pkt_intent p))],
            ob_inputs = JObj [], ob_params = JObj [], ob_schema_id = JStr (pkt_schema_id p),
            ob_trace_id = JStr (bytes_hex sid),
            ob_origin = JStr (case pkt_origin p of None \<Rightarrow> [] | Some i \<Rightarrow> id_name i),
            ob_confidence = JFloat (pkt_confidence p), ob_deadline_ms = JInt (pkt_deadline_ms p),
            ob_metadata = JObj (map (\<lambda>(k, v). (k, JStr v)) (pkt_metadata p))\<rparr>"
    by (rule packet_observed [OF p(2) assms(2) build_symbols_made [OF f(1)] f(13) f(3) ne])
  have "intent_value i \<noteq> []" by (cases i) (simp_all add: str_def)
  then show ?thesis
    using i(1) f v assms(3)
    by (auto simp: bytes_to_observation_def bindr_def allow_all_gate_def gate_passes_def observation_to_request_def
        py_get_def j_get_def str_eq)
qed

text \<open>An upper case for the examples: that of the ASCII letters.\<close>

definition ascii_upper :: "pystr \<Rightarrow> pystr" where
  "ascii_upper = map (\<lambda>c. if 97 \<le> c \<and> c \<le> 122 then c - 32 else c)"

theorem action_arrives_witness:
  "\<exists>bs ob v q. action_to_bytes (\<lambda>_. False) sample_adapter (replicate 16 1) (replicate 16 2) sample_call True = Inr bs \<and>
     bytes_to_observation sample_adapter bs = Inr ob \<and> ob_task ob = JStr (str ''CALL_TOOL'') \<and>
     decode bs = Inr v \<and> hd (view_symbols v) = Symbol S_STRING (VStr (str ''hi'')) \<and>
     observation_to_request ascii_upper ob [] None = Inr q \<and> rq_prompt q = JStr []"
proof -
  obtain bs where bs: "action_to_bytes (\<lambda>_. False) sample_adapter (replicate 16 1) (replicate 16 2) sample_call True = Inr bs"
    "int (length bs) \<le> MAX_PACKET_SIZE" by (rule sample_call_bytes)
  have "ad_gate sample_adapter = allow_all_gate" by (simp add: sample_adapter_def semantic_adapter_init_def)
  moreover have "build_symbols sample_call = Inr (pkt_symbols sample_call_packet)"
    using action_packet_fields(1) [of "\<lambda>_. False" sample_adapter] sample_call_to_packet [of "\<lambda>_. False"] by (blast elim: action_to_packet_Inr)
  then have "build_symbols sample_call = Inr vs \<Longrightarrow> hd vs = Symbol S_STRING (VStr (str ''hi''))" for vs
    by (auto simp: sample_call_packet_def)
  moreover have "ac_intent sample_call = Some i \<Longrightarrow> intent_value i = str ''CALL_TOOL''" for i
    by (auto simp: sample_call_def plain_action_def)
  ultimately show ?thesis using bs(1) action_arrives [OF bs, of sample_adapter ascii_upper "[]" None] by fastforce
qed

text \<open>
  C21. A tool or a model call is sent only if the text of its parameters fits the one byte the wire has for
  its length: 255 bytes of UTF-8, like the name. The parameters of a model call are the whole dict of
  the action.
\<close>

theorem call_parameters_bounded:
  assumes "action_to_bytes pr self sid mid action checksum = Inr bs" "ac_params action = JObj ps"
  shows "(ac_intent action = Some CALL_TOOL \<longrightarrow> (\<forall>name. j_get ps (str ''tool_name'') JNull = JStr name \<and> name \<noteq> [] \<longrightarrow>
      (\<exists>t. json_dumps True (str '', '') (str '': '') (j_get ps (str ''parameters'') (JObj [])) = Inr t \<and>
         text_ok 1 t \<and> text_ok 1 name))) \<and>
    (ac_intent action = Some CALL_MODEL \<longrightarrow>
      (\<exists>t target. json_dumps True (str '', '') (str '': '') (JObj ps) = Inr t \<and> text_ok 1 t \<and>
         ac_target action = JStr target \<and> text_ok 1 target))"
proof -
  obtain p where p: "action_to_packet pr self sid mid action = Inr p" "encode p checksum = Inr bs"
    using assms(1) by (auto simp: action_to_bytes_def bindr_eq_Inr)
  from p(1) obtain i where i: "ac_intent action = Some i" "action_validate action = Inr []"
    "packet_of_action pr self sid mid i action = Inr p"
    by (rule action_to_packet_Inr)
  note f = action_packet_fields [OF i(3)]
  obtain payload where "build_payload p = Inr payload" using p(2) by (rule encode_shape)
  then have ext: "\<exists>raws. r = Inr raws" if "(tag, r) \<in> set (ext_fields p)" for tag r
    using that mapr_element by (fastforce simp: build_payload_def append_extensions_def bindr_eq_Inr)
  have tool: "text_ok 1 (tool_name t) \<and> text_ok 1 (tool_parameters_json t)" if "Some t = pkt_tool_invocation p" for t
    using ext [of EXT_TOOL_INVOCATION "ext_opt enc_tool_invocation (pkt_tool_invocation p)"] that [symmetric]
    by (auto simp: ext_fields_def enc_tool_invocation_def bindr_eq_Inr struct_pack_Inr text_ok_def u_ok_def pack_u_def split: if_splits)
  have model: "text_ok 1 (model_name t) \<and> text_ok 1 (model_parameters_json t)" if "Some t = pkt_model_invocation p" for t
    using ext [of EXT_MODEL_INVOCATION "ext_opt enc_model_invocation (pkt_model_invocation p)"] that [symmetric]
    by (auto simp: ext_fields_def enc_model_invocation_def bindr_eq_Inr struct_pack_Inr text_ok_def u_ok_def pack_u_def split: if_splits)
  have target: "j_true (ac_target action)" if "i = CALL_MODEL"
    using i(1,2) that by (auto simp: action_validate_def bindr_eq_Inr err_if_def needs_target_def split: if_splits)
  have as_text: "v = JStr t" if "as_text v = Inr t" for v t using that by (cases v) simp_all
  have "\<exists>t target. json_dumps True (str '', '') (str '': '') (JObj ps) = Inr t \<and> text_ok 1 t \<and>
      ac_target action = JStr target \<and> text_ok 1 target" if cm: "i = CALL_MODEL"
  proof -
    obtain n tk js ms where t: "json_dumps True (str '', '') (str '': '') (JObj ps) = Inr js"
      "as_text (ac_target action) = Inr n"
      "Some \<lparr>model_name = n, model_task = tk, model_parameters_json = js, model_timeout_ms = ms\<rparr> = pkt_model_invocation p"
      using target [OF cm] f(11) assms(2) cm
      by (auto simp: adapter_model_def bindr_eq_Inr simp del: json_dumps.simps)
    then show ?thesis using model [OF t(3)] as_text [OF t(2)] t(1) by simp
  qed
  moreover have "\<exists>t. json_dumps True (str '', '') (str '': '') (j_get ps (str ''parameters'') (JObj [])) = Inr t \<and>
      text_ok 1 t \<and> text_ok 1 name" if "i = CALL_TOOL" "j_get ps (str ''tool_name'') JNull = JStr name" "name \<noteq> []" for name
    using that f(10) assms(2) i(1)
    by (auto simp: adapter_tool_def py_get_def bindr_eq_Inr simp del: json_dumps.simps dest!: tool)
  ultimately show ?thesis using i(1) by auto
qed

lemma json_string_letters: "concat (map (json_char True) (replicate n 97)) = replicate n 97"
  by (induction n) (simp_all add: json_char_def)

theorem call_parameters_bounded_witness:
  "\<forall>bs. action_to_bytes (\<lambda>_. False) sample_adapter (replicate 16 1) (replicate 16 2)
     (sample_call\<lparr>ac_params := JObj [(str ''tool_name'', JStr (str ''t'')),
        (str ''parameters'', JStr (replicate 300 97))]\<rparr>) False \<noteq> Inr bs"
proof (rule allI, rule notI)
  fix bs
  assume a: "action_to_bytes (\<lambda>_. False) sample_adapter (replicate 16 1) (replicate 16 2)
     (sample_call\<lparr>ac_params := JObj [(str ''tool_name'', JStr (str ''t'')),
        (str ''parameters'', JStr (replicate 300 97))]\<rparr>) False = Inr bs"
  have "utf8_encode (34 # replicate 300 97 @ [34]) = Inr (map byte_of (34 # replicate 300 97 @ [34]))"
    by (rule utf8_ascii) (simp add: list_all_iff)
  then have "\<not> text_ok 1 (json_string True (replicate 300 97))"
    by (simp only: json_string_def json_string_letters text_ok_def u_ok_def) simp
  then show False
    using call_parameters_bounded [OF a]
    by (auto simp: sample_call_def plain_action_def j_get_def str_eq str_def)
qed

text \<open>
  C14. The JSON text of an action with fields of the annotated types, with any separators and with white
  space around it, is read as that action: a model that writes what \<^verbatim>\<open>to_dict\<close> gives is understood.
\<close>

theorem parse_written_action:
  assumes "typed_action a" "action_to_dict a = Inr d" "wf_json (JObj d)" "json_dumps ascii isep ksep (JObj d) = Inr t"
    and "separator 44 isep" "separator 58 ksep" "list_all is_space l" "list_all is_space r"
  shows "parse_model_output upper (l @ t @ r) = Inr a"
proof -
  obtain u where t: "t = 123 # u @ [125]" using assms(4) by (auto simp: bindr_eq_Inr)
  have drop: "dropWhile is_space (ws @ c # x) = c # x" if "list_all is_space ws" "\<not> is_space c" for ws c x
    using that by (induction ws) simp_all
  have ns: "\<not> is_space 123" "\<not> is_space 125" by (simp_all add: is_space_def)
  have "dropWhile is_space (l @ t @ r) = t @ r" using drop [OF assms(7) ns(1)] t by simp
  moreover have "dropWhile is_space (rev (t @ r)) = rev t"
    using drop [of "rev r" 125 "rev u @ [123]"] ns(2) assms(8) t by simp
  ultimately have strip: "py_strip (l @ t @ r) = t" by (simp add: py_strip_def strip_by_def)
  have "bindr (action_to_dict a) action_from_dict = Inr a"
    using action_from_to action_norm_typed [OF assms(1)] assms(1) by (auto simp: typed_action_def)
  then have "action_from_dict d = Inr a" using assms(2) by simp
  then show ?thesis
    using json_loads_dumps [OF assms(3,5,6,4)] strip t by (simp add: parse_model_output_def)
qed

theorem parse_written_action_witness:
  "\<exists>t. json_dumps True (str '', '') (str '': '') (JObj sample_dict) = Inr t \<and>
     parse_model_output ascii_upper (10 # t @ [32, 10]) = Inr sample_action"
proof -
  have t: "typed_action sample_action" and d: "action_to_dict sample_action = Inr sample_dict"
    by (simp_all add: sample_action_def typed_action_def sample_dict_def action_to_dict_def)
  have "wf_json (JObj sample_dict)"
    by (simp add: sample_dict_def action_to_dict_def sample_action_def put_if_def encodable_def scalar_def str_def
        f64_eq_refl dec.simps)
  moreover from this obtain u where "json_dumps True (str '', '') (str '': '') (JObj sample_dict) = Inr u"
    using wf_json_dumps by blast
  ultimately show ?thesis
    using parse_written_action [OF t d, of True "str '', ''" "str '': ''" u "[10]" "[32, 10]" ascii_upper]
    by (simp add: separator_def is_ws_def is_space_def str_def)
qed

lemma find_first:
  "find P xs = Some i \<Longrightarrow> i \<in> set xs \<and> P i \<and> (\<forall>j \<in> set (takeWhile (\<lambda>x. x \<noteq> i) xs). \<not> P j)"
  by (induction xs) (auto split: if_splits)

lemma all_intents_all: "i \<in> set all_intents"
  by (cases i) (simp_all add: all_intents_def)

lemma parse_cases:
  assumes "py_strip out \<noteq> []"
  shows "parse_model_output upper out =
    (if \<exists>d. json_loads (py_strip out) = Inr (JObj d)
     then action_from_dict (THE d. json_loads (py_strip out) = Inr (JObj d))
     else Inr (action_of_text upper (py_strip out)))"
  using assms json_loads_errors [of "py_strip out"]
  by (auto simp: parse_model_output_def Let_def split: sum.splits json.splits)

text \<open>
  C15. What any text is taken for. Only two texts are refused, each with a \<^verbatim>\<open>SemanticError\<close>: white space
  alone, and a JSON object whose intent is none of the enumeration. Any other JSON object becomes the
  action with exactly the values of its keys, and the default of a field whose key is missing. Every text
  that is no JSON object becomes an action that carries it whole, with every other field at its
  default: as input of the first intent, in the order of the enumeration, whose name occurs in
  its upper case, or else as result of \<^verbatim>\<open>RETURN_RESULT\<close>.
\<close>

theorem parse_outcome:
  "(\<forall>e. parse_model_output upper out = Inl e \<longleftrightarrow>
      e = SemanticError \<and>
      (py_strip out = [] \<or>
       (\<exists>d. json_loads (py_strip out) = Inr (JObj d) \<and> intent_of (j_get d (str ''intent'') (JStr [])) = None))) \<and>
   (\<forall>d i. py_strip out \<noteq> [] \<and> json_loads (py_strip out) = Inr (JObj d) \<and>
        intent_of (j_get d (str ''intent'') (JStr [])) = Some i \<longrightarrow>
      parse_model_output upper out = Inr
        \<lparr>ac_intent = Some i, ac_target = j_get d (str ''target'') (JStr []),
         ac_inputs = j_get d (str ''inputs'') (JObj []), ac_params = j_get d (str ''params'') (JObj []),
         ac_result = j_get d (str ''result'') (JObj []),
         ac_confidence = j_get d (str ''confidence'') (JFloat f64_one),
         ac_stream = j_get d (str ''stream'') (JBool False), ac_cancel = j_get d (str ''cancel'') (JBool False),
         ac_correlation_id = j_get d (str ''correlation_id'') (JStr []),
         ac_deadline_ms = j_get d (str ''deadline_ms'') (JInt 0),
         ac_metadata = j_get d (str ''metadata'') (JObj [])\<rparr>) \<and>
   (py_strip out \<noteq> [] \<and> (\<nexists>d. json_loads (py_strip out) = Inr (JObj d)) \<longrightarrow>
      (if \<exists>j. sublist (intent_value j) (upper (py_strip out))
       then \<exists>i. sublist (intent_value i) (upper (py_strip out)) \<and>
              (\<forall>j \<in> set (takeWhile (\<lambda>x. x \<noteq> i) all_intents). \<not> sublist (intent_value j) (upper (py_strip out))) \<and>
              parse_model_output upper out =
                Inr ((plain_action i)\<lparr>ac_inputs := JObj [(str ''text'', JStr (py_strip out))]\<rparr>)
       else parse_model_output upper out =
              Inr ((plain_action RETURN_RESULT)\<lparr>ac_result := JObj [(str ''text'', JStr (py_strip out))]\<rparr>)))"
proof -
  let ?raw = "py_strip out"
  have from_dict: "action_from_dict d = Inl e \<longleftrightarrow> e = SemanticError \<and> intent_of (j_get d (str ''intent'') (JStr [])) = None" for d e
    by (auto simp: action_from_dict_def split: option.splits)
  have "(parse_model_output upper out = Inl e) =
      (e = SemanticError \<and> (?raw = [] \<or>
         (\<exists>d. json_loads ?raw = Inr (JObj d) \<and> intent_of (j_get d (str ''intent'') (JStr [])) = None)))" for e
    using parse_cases [of out upper] from_dict by (cases "?raw = []") (auto simp: parse_model_output_def)
  moreover have "if \<exists>j. sublist (intent_value j) (upper ?raw)
       then \<exists>i. sublist (intent_value i) (upper ?raw) \<and>
            (\<forall>j \<in> set (takeWhile (\<lambda>x. x \<noteq> i) all_intents). \<not> sublist (intent_value j) (upper ?raw)) \<and>
            action_of_text upper ?raw = (plain_action i)\<lparr>ac_inputs := JObj [(str ''text'', JStr ?raw)]\<rparr>
       else action_of_text upper ?raw = (plain_action RETURN_RESULT)\<lparr>ac_result := JObj [(str ''text'', JStr ?raw)]\<rparr>"
  proof (cases "find (\<lambda>i. sublist (intent_value i) (upper ?raw)) all_intents")
    case None
    then have "\<nexists>j. sublist (intent_value j) (upper ?raw)" using all_intents_all by (auto simp: find_None_iff)
    then show ?thesis using None by (simp add: action_of_text_def)
  next
    case (Some i)
    then show ?thesis using find_first [OF Some] by (auto simp: action_of_text_def)
  qed
  moreover have "parse_model_output upper out = action_from_dict d" if "?raw \<noteq> []" "json_loads ?raw = Inr (JObj d)" for d
    using that by (simp add: parse_model_output_def)
  moreover have "parse_model_output upper out = Inr (action_of_text upper ?raw)"
    if "?raw \<noteq> []" "\<nexists>d. json_loads ?raw = Inr (JObj d)"
    using parse_cases [OF that(1), of upper] that(2) by simp
  ultimately show ?thesis by (simp add: action_from_dict_def)
qed

theorem parse_outcome_witness:
  "\<exists>a. parse_model_output id (str '' done: FILTER '') = Inr a \<and> ac_intent a = Some FILTER \<and>
     ac_inputs a = JObj [(str ''text'', JStr (str ''done: FILTER''))]"
proof -
  let ?t = "str ''done: FILTER''"
  have strip: "py_strip (str '' done: FILTER '') = ?t"
    by (simp add: py_strip_def strip_by_def str_def is_space_def)
  have json: "json_loads ?t = Inl JSONDecodeError"
    by (simp add: json_loads_def json_decode_def str_def is_ws_def scan_word_def json_words_def scan_number_def ascii_digit_def
        scan_value.simps(2) [of 24, simplified])
  have occurs: "sublist (intent_value j) ?t \<longleftrightarrow> j = FILTER" for j
    by (cases j) (simp_all add: str_def sublist_Cons_right)
  have "?t \<noteq> []" by (simp add: str_def)
  then show ?thesis
    using parse_outcome [of id "str '' done: FILTER ''"] strip json occurs by (auto simp: plain_action_def)
qed

end
