(* ===== verification/Fast_Codec.thy ===== *)
theory Fast_Codec
  imports Semantic_Types
begin

text \<open>
  \<^verbatim>\<open>aicl/semantic/fast_codec.py\<close>: actions as a flat sequence of sections, strings and compact JSON behind
  two-byte lengths. The fields of an action are JSON values of any type, so the encoder is modelled with
  what the interpreter raises where a field does not fit. The call of \<^verbatim>\<open>uuid.uuid4().bytes\<close> is an argument.
  Shown: what comes back of an encoded action, and that decoding any bytes ends with an action or with
  one of a few exceptions.
\<close>

section \<open>Tables\<close>

definition FAST_CODEC_VERSION :: int where "FAST_CODEC_VERSION = 0x01"

definition INTENT_BYTE :: "(model_intent \<times> int) list" where
  "INTENT_BYTE =
    [(CLASSIFY, 0x01), (GENERATE, 0x02), (REASON, 0x03), (EMBED, 0x04), (RANK, 0x05), (SUMMARIZE, 0x06),
     (SYNTHESIZE, 0x07), (VERIFY, 0x08), (EXTRACT, 0x09), (TRANSFORM, 0x0A), (PLAN, 0x0B), (EVALUATE, 0x0C),
     (CALL_MODEL, 0x10), (CALL_TOOL, 0x11), (READ_MEMORY, 0x20), (WRITE_MEMORY, 0x21), (DELETE_MEMORY, 0x22),
     (INDEX_QUERY, 0x23), (INDEX_UPSERT, 0x24), (ROUTE, 0x30), (FILTER, 0x31), (RETURN_RESULT, 0x40),
     (STREAM_RESULT, 0x41), (CANCEL, 0xFF)]"

definition BYTE_TO_INTENT :: "(int \<times> model_intent) list" where
  "BYTE_TO_INTENT = rev (map (\<lambda>(k, v). (v, k)) INTENT_BYTE)"

definition FAST_FLAG_STREAM :: int where "FAST_FLAG_STREAM = 0x01"
definition FAST_FLAG_CANCEL :: int where "FAST_FLAG_CANCEL = 0x02"
definition FAST_FLAG_HAS_PARAMS :: int where "FAST_FLAG_HAS_PARAMS = 0x04"
definition FAST_FLAG_HAS_RESULT :: int where "FAST_FLAG_HAS_RESULT = 0x08"
definition FAST_FLAG_HAS_METADATA :: int where "FAST_FLAG_HAS_METADATA = 0x10"

unbundle bit_operations_syntax

section \<open>Sections\<close>

definition encode_str16 :: "json \<Rightarrow> bytes res" where
  "encode_str16 value =
     (case value of
        JStr s \<Rightarrow> bindr (utf8_encode s) (\<lambda>b. bindr (pack_u 2 (int (length b))) (\<lambda>h. Inr (h @ b)))
      | _ \<Rightarrow> Inl AttributeError)"

definition decode_str16 :: "bytes \<Rightarrow> nat \<Rightarrow> (json \<times> nat) res" where
  "decode_str16 data pos =
     bindr (unpack_from_u 2 data pos) (\<lambda>n.
       let p = pos + 2; e = p + nat n in
       bindr (utf8_decode (slice data p e)) (\<lambda>s. Inr (JStr s, e)))"

definition encode_json_small :: "json \<Rightarrow> bytes res" where
  "encode_json_small obj =
     (if \<not> j_true obj then pack_u 2 0
      else
        bindr (json_dumps False (str '','') (str '':'') obj) (\<lambda>t.
        bindr (utf8_encode t) (\<lambda>b.
        bindr (pack_u 2 (int (length b))) (\<lambda>h. Inr (h @ b)))))"

definition decode_json_small :: "bytes \<Rightarrow> nat \<Rightarrow> (json \<times> nat) res" where
  "decode_json_small data pos =
     bindr (unpack_from_u 2 data pos) (\<lambda>n.
       let p = pos + 2; e = p + nat n in
       if n = 0 then Inr (JObj [], p)
       else bindr (json_loads_bytes (slice data p e)) (\<lambda>v. Inr (v, e)))"

text \<open>\<^verbatim>\<open>parts.append(...)\<close> for each part in turn and \<^verbatim>\<open>b"".join(parts)\<close>; a part appended under a condition is no bytes otherwise.\<close>

definition join_parts :: "bytes res list \<Rightarrow> bytes res" where
  "join_parts ps = bindr (mapr (\<lambda>p. p) ps) (\<lambda>bs. Inr (concat bs))"

definition part_if :: "bool \<Rightarrow> bytes res \<Rightarrow> bytes res" where
  "part_if c p = (if c then p else Inr [])"

text \<open>\<^verbatim>\<open>v & 0xFFFFFFFF\<close> and \<^verbatim>\<open>int(v * 1000)\<close>; a string times a number is that many copies of it.\<close>

fun mask32 :: "json \<Rightarrow> int res" where
  "mask32 (JInt n) = Inr (n AND 0xFFFFFFFF)"
| "mask32 (JBool b) = Inr (if b then 1 else 0)"
| "mask32 _ = Inl PyTypeError"

fun int_x1000 :: "json \<Rightarrow> int res" where
  "int_x1000 (JFloat x) = f64_trunc (f64_times x 1000)"
| "int_x1000 (JInt n) = Inr (n * 1000)"
| "int_x1000 (JBool b) = Inr (if b then 1000 else 0)"
| "int_x1000 (JStr s) = py_int 10 (concat (replicate 1000 s))"
| "int_x1000 _ = Inl PyTypeError"

definition fast_conf :: "json \<Rightarrow> int res" where
  "fast_conf v = bindr (int_x1000 v) (\<lambda>n. Inr (min n 65535))"

definition fast_corr :: "json \<Rightarrow> bytes res" where
  "fast_corr v =
     (if j_true v then (case v of JStr s \<Rightarrow> uuid_parse s | _ \<Rightarrow> Inl AttributeError) else Inr (replicate 16 0))"

definition fast_flags :: "model_action \<Rightarrow> int" where
  "fast_flags a =
     (if j_true (ac_stream a) then FAST_FLAG_STREAM else 0) OR
     (if j_true (ac_cancel a) then FAST_FLAG_CANCEL else 0) OR
     (if j_true (ac_params a) then FAST_FLAG_HAS_PARAMS else 0) OR
     (if j_true (ac_result a) then FAST_FLAG_HAS_RESULT else 0) OR
     (if j_true (ac_metadata a) then FAST_FLAG_HAS_METADATA else 0)"

section \<open>FastCodec\<close>

definition fast_intent_byte :: "model_intent option \<Rightarrow> int" where
  "fast_intent_byte i =
     (case i of None \<Rightarrow> 0x00 | Some i' \<Rightarrow> (case map_of INTENT_BYTE i' of None \<Rightarrow> 0x00 | Some c \<Rightarrow> c))"

definition fast_encode_action :: "bytes \<Rightarrow> model_action \<Rightarrow> bytes res" where
  "fast_encode_action uuid4 a =
     join_parts
      [Inr [of_int FAST_CODEC_VERSION, of_int (fast_intent_byte (ac_intent a)), of_int (fast_flags a)],
       Inr uuid4,
       encode_str16 (ac_target a),
       encode_json_small (ac_inputs a),
       part_if (j_true (ac_params a)) (encode_json_small (ac_params a)),
       part_if (j_true (ac_result a)) (encode_json_small (ac_result a)),
       fast_corr (ac_correlation_id a),
       bindr (mask32 (ac_deadline_ms a)) (pack_u 4),
       bindr (fast_conf (ac_confidence a)) (pack_u 2),
       part_if (j_true (ac_metadata a)) (encode_json_small (ac_metadata a))]"

text \<open>A section that is there only when its flag is set.\<close>

definition json_if :: "bool \<Rightarrow> bytes \<Rightarrow> nat \<Rightarrow> (json \<times> nat) res" where
  "json_if c data pos = (if c then decode_json_small data pos else Inr (JObj [], pos))"

definition fast_decode_action :: "bytes \<Rightarrow> semantic_exn + model_action" where
  "fast_decode_action data =
     (if length data < 3 then Inl (SemPy StructError)
      else
        let version = uint (data ! 0); intent_byte = uint (data ! 1); flags = uint (data ! 2) in
        if version \<noteq> FAST_CODEC_VERSION then Inl SemanticError
        else case map_of BYTE_TO_INTENT intent_byte of
          None \<Rightarrow> Inl SemanticError
        | Some intent \<Rightarrow>
            sem
             (bindr (decode_str16 data (3 + 16)) (\<lambda>(target, p1).
              bindr (decode_json_small data p1) (\<lambda>(inputs, p2).
              bindr (json_if (flags AND FAST_FLAG_HAS_PARAMS \<noteq> 0) data p2) (\<lambda>(params, p3).
              bindr (json_if (flags AND FAST_FLAG_HAS_RESULT \<noteq> 0) data p3) (\<lambda>(result, p4).
              let corr_bytes = slice data p4 (p4 + 16); p5 = p4 + 16 in
              bindr (if corr_bytes \<noteq> replicate 16 0 then uuid_text corr_bytes else Inr []) (\<lambda>correlation_id.
              bindr (unpack_from_u 4 data p5) (\<lambda>deadline_ms.
              bindr (unpack_from_u 2 data (p5 + 4)) (\<lambda>conf_int.
              bindr (json_if (flags AND FAST_FLAG_HAS_METADATA \<noteq> 0) data (p5 + 4 + 2)) (\<lambda>(metadata, _).
                Inr \<lparr>ac_intent = Some intent, ac_target = target, ac_inputs = inputs, ac_params = params,
                     ac_result = result, ac_confidence = JFloat (f64_quot (nat conf_int) 1000),
                     ac_stream = JBool (flags AND FAST_FLAG_STREAM \<noteq> 0),
                     ac_cancel = JBool (flags AND FAST_FLAG_CANCEL \<noteq> 0),
                     ac_correlation_id = JStr correlation_id, ac_deadline_ms = JInt deadline_ms,
                     ac_metadata = metadata\<rparr>))))))))))"

definition fast_measure_bytes :: "bytes \<Rightarrow> model_action \<Rightarrow> nat res" where
  "fast_measure_bytes uuid4 a = bindr (fast_encode_action uuid4 a) (\<lambda>b. Inr (length b))"

section \<open>Sections: laws\<close>

text \<open>The strings and dicts whose section fits the two-byte length.\<close>

definition fits16 :: "bytes res \<Rightarrow> bool" where
  "fits16 r = (case r of Inl e \<Rightarrow> False | Inr b \<Rightarrow> length b < 65536)"

definition str16_ok :: "json \<Rightarrow> bool" where
  "str16_ok v = (case v of JStr s \<Rightarrow> fits16 (utf8_encode s) | _ \<Rightarrow> False)"

definition json16_ok :: "json \<Rightarrow> bool" where
  "json16_ok v =
     (is_obj v \<and> wf_json v \<and> fits16 (bindr (json_dumps False (str '','') (str '':'') v) utf8_encode))"

lemma fits16_Inr: "fits16 r \<longleftrightarrow> (\<exists>b. r = Inr b \<and> length b < 65536)"
  by (auto simp: fits16_def split: sum.splits)

interpretation str16: wire_codec encode_str16 decode_str16 str16_ok
proof unfold_locales
  show "str16_ok x \<Longrightarrow> \<exists>bs. encode_str16 x = Inr bs" for x
    by (auto simp: str16_ok_def fits16_Inr encode_str16_def pack_u_def split: json.splits)
  show "decode_str16 data pos = Inr (x, pos + length bs)"
    if ok: "str16_ok x" and e: "encode_str16 x = Inr bs" and h: "has_at data pos bs" for x bs data pos
  proof -
    from ok e obtain s b hd where x: "x = JStr s" "utf8_encode s = Inr b" "pack_u 2 (int (length b)) = Inr hd" "bs = hd @ b"
      by (auto simp: str16_ok_def encode_str16_def bindr_eq_Inr split: json.splits)
    have l: "length hd = 2" by (rule pack_u_length [OF x(3)])
    from h x(4) l have h2: "has_at data pos hd" "has_at data (pos + 2) b" by (simp_all add: has_at_append)
    show ?thesis
      using unpack_from_u_at [OF h2(1) l] unpack_pack_u [OF x(3)] has_at_sliceD [OF h2(2)] utf8_decode_encode [OF x(2)] x l
      by (simp add: decode_str16_def add.assoc)
  qed
qed

lemma json16_dumped:
  assumes "json16_ok v"
  obtains t b where "json_dumps False (str '','') (str '':'') v = Inr t" "utf8_encode t = Inr b" "length b < 65536"
    "json_loads_bytes b = Inr v" "b \<noteq> []"
proof -
  have sep: "str '','' = [44]" "str '':'' = [58]" by (simp_all add: str_def)
  from assms have wf: "wf_json v" by (simp add: json16_ok_def)
  then obtain t b where t: "json_dumps False [44] [58] v = Inr t" "utf8_encode t = Inr b" "json_loads_bytes b = Inr v"
    using json_bytes_roundtrip by blast
  have "t \<noteq> []" using dumps_start [OF t(1)] by (auto simp: value_start_def)
  then have "b \<noteq> []" by (rule utf8_encode_nonempty [OF t(2)])
  with t assms show ?thesis by (intro that) (auto simp: json16_ok_def fits16_Inr sep)
qed

lemma json16_encodes:
  assumes "json16_ok v" "j_true v"
  obtains b h where "encode_json_small v = Inr (h @ b)" "pack_u 2 (int (length b)) = Inr h" "json_loads_bytes b = Inr v" "b \<noteq> []"
proof -
  obtain t b where t: "json_dumps False (str '','') (str '':'') v = Inr t" "utf8_encode t = Inr b" "length b < 65536"
    "json_loads_bytes b = Inr v" "b \<noteq> []" by (rule json16_dumped [OF assms(1)])
  then obtain h where "pack_u 2 (int (length b)) = Inr h" by (auto simp: pack_u_def)
  with t assms(2) show ?thesis by (intro that) (simp_all add: encode_json_small_def)
qed

lemma json16_empty: "json16_ok v \<Longrightarrow> \<not> j_true v \<Longrightarrow> v = JObj []"
  by (cases v) (auto simp: json16_ok_def)

interpretation json16: wire_codec encode_json_small decode_json_small json16_ok
proof unfold_locales
  show "\<exists>bs. encode_json_small x = Inr bs" if "json16_ok x" for x
  proof (cases "j_true x")
    case True
    show ?thesis by (rule json16_encodes [OF that True]) blast
  qed (simp add: encode_json_small_def pack_u_def)
  show "decode_json_small data pos = Inr (x, pos + length bs)"
    if ok: "json16_ok x" and e: "encode_json_small x = Inr bs" and h: "has_at data pos bs" for x bs data pos
  proof (cases "j_true x")
    case False
    then have p: "pack_u 2 0 = Inr bs" using e by (simp add: encode_json_small_def)
    have l: "length bs = 2" by (rule pack_u_length [OF p])
    show ?thesis using json16_empty [OF ok False] unpack_from_u_at [OF h l] unpack_pack_u [OF p] l
      by (simp add: decode_json_small_def)
  next
    case True
    obtain b hd where b: "bs = hd @ b" "pack_u 2 (int (length b)) = Inr hd" "json_loads_bytes b = Inr x" "b \<noteq> []"
      using json16_encodes [OF ok True] e by (metis Inr_inject)
    have l: "length hd = 2" by (rule pack_u_length [OF b(2)])
    from h b(1) l have h2: "has_at data pos hd" "has_at data (pos + 2) b" by (simp_all add: has_at_append)
    show ?thesis
      using unpack_from_u_at [OF h2(1) l] unpack_pack_u [OF b(2)] has_at_sliceD [OF h2(2)] b l
      by (simp add: decode_json_small_def add.assoc)
  qed
qed

text \<open>An optional section, with the flag that says whether it is there.\<close>

lemma part_if_encodes: "json16_ok v \<Longrightarrow> \<exists>b. part_if (j_true v) (encode_json_small v) = Inr b"
  using json16.enc_total by (simp add: part_if_def)

lemma json_if_at:
  assumes "json16_ok v" "part_if (j_true v) (encode_json_small v) = Inr b" "has_at data pos b"
  shows "json_if (j_true v) data pos = Inr (v, pos + length b)"
  using assms json16.dec_enc json16_empty by (auto simp: json_if_def part_if_def split: if_splits)

lemma join_parts_simps:
  "join_parts [] = Inr []" "join_parts (p # ps) = bindr p (\<lambda>b. bindr (join_parts ps) (\<lambda>bs. Inr (b @ bs)))"
  by (simp_all add: join_parts_def bindr_def split: sum.splits)

section \<open>Actions\<close>

lemma intent_byte_inverse:
  "map_of BYTE_TO_INTENT (fast_intent_byte (Some i)) = Some i" "0 \<le> fast_intent_byte (Some i)" "fast_intent_byte (Some i) < 256"
  by (cases i; simp add: BYTE_TO_INTENT_def INTENT_BYTE_def fast_intent_byte_def)+

lemmas fast_flag_defs = FAST_FLAG_STREAM_def FAST_FLAG_CANCEL_def FAST_FLAG_HAS_PARAMS_def FAST_FLAG_HAS_RESULT_def
  FAST_FLAG_HAS_METADATA_def

lemma fast_flags_bits:
  "0 \<le> fast_flags a" "fast_flags a < 256"
  "fast_flags a AND FAST_FLAG_STREAM \<noteq> 0 \<longleftrightarrow> j_true (ac_stream a)"
  "fast_flags a AND FAST_FLAG_CANCEL \<noteq> 0 \<longleftrightarrow> j_true (ac_cancel a)"
  "fast_flags a AND FAST_FLAG_HAS_PARAMS \<noteq> 0 \<longleftrightarrow> j_true (ac_params a)"
  "fast_flags a AND FAST_FLAG_HAS_RESULT \<noteq> 0 \<longleftrightarrow> j_true (ac_result a)"
  "fast_flags a AND FAST_FLAG_HAS_METADATA \<noteq> 0 \<longleftrightarrow> j_true (ac_metadata a)"
  unfolding fast_flags_def fast_flag_defs
  by (cases "j_true (ac_stream a)"; cases "j_true (ac_cancel a)"; cases "j_true (ac_params a)"; cases "j_true (ac_result a)";
      cases "j_true (ac_metadata a)"; simp)+

text \<open>The actions whose fields both flat formats can carry: the annotated types, sections that fit, a confidence that is not negative.\<close>

definition fast_fields :: "model_action \<Rightarrow> bool" where
  "fast_fields a =
     (typed_action a \<and> str16_ok (ac_target a) \<and> json16_ok (ac_inputs a) \<and> json16_ok (ac_params a) \<and>
      json16_ok (ac_result a) \<and> json16_ok (ac_metadata a) \<and>
      (case fast_conf (ac_confidence a) of Inl e \<Rightarrow> False | Inr k \<Rightarrow> 0 \<le> k))"

definition fast_codable :: "model_action \<Rightarrow> bool" where
  "fast_codable a = (fast_fields a \<and> (case fast_corr (ac_correlation_id a) of Inl e \<Rightarrow> False | Inr c \<Rightarrow> True))"

text \<open>What comes back: the id in its canonical form (none for the zero id), the deadline modulo \<open>2\<^sup>3\<^sup>2\<close>, the confidence in thousandths.\<close>

definition corr_image :: "json \<Rightarrow> json" where
  "corr_image v =
     (case fast_corr v of
        Inl e \<Rightarrow> v
      | Inr c \<Rightarrow> if c = replicate 16 0 then JStr [] else (case uuid_text c of Inl e \<Rightarrow> v | Inr t \<Rightarrow> JStr t))"

definition conf_image :: "json \<Rightarrow> json" where
  "conf_image v = (case fast_conf v of Inl e \<Rightarrow> v | Inr k \<Rightarrow> JFloat (f64_quot (nat k) 1000))"

definition deadline_image :: "json \<Rightarrow> json" where
  "deadline_image v = (case mask32 v of Inl e \<Rightarrow> v | Inr n \<Rightarrow> JInt n)"

definition fast_image :: "model_action \<Rightarrow> model_action" where
  "fast_image a =
     a\<lparr>ac_correlation_id := corr_image (ac_correlation_id a), ac_deadline_ms := deadline_image (ac_deadline_ms a),
       ac_confidence := conf_image (ac_confidence a)\<rparr>"

lemma uuid_parse_length: "uuid_parse s = Inr b \<Longrightarrow> length b = 16"
  by (auto simp: uuid_parse_def res_simps split: if_splits)

lemma fast_corr_length: "fast_corr v = Inr c \<Longrightarrow> length c = 16"
  by (auto simp: fast_corr_def dest: uuid_parse_length split: if_splits json.splits)

lemma corr_text:
  assumes "fast_corr v = Inr c"
  obtains t where "(if c \<noteq> replicate 16 0 then uuid_text c else Inr []) = Inr t" "corr_image v = JStr t"
  using fast_corr_length [OF assms] assms that by (cases "c = replicate 16 0") (auto simp: corr_image_def uuid_text_def Let_def)

lemma corr_image_same:
  assumes "fast_corr v = Inr c"
  shows "fast_corr (corr_image v) = Inr c"
proof (cases "c = replicate 16 0")
  case True
  then show ?thesis using assms by (simp add: corr_image_def) (simp add: fast_corr_def)
next
  case False
  obtain t where t: "uuid_text c = Inr t" using fast_corr_length [OF assms] by (simp add: uuid_text_def Let_def)
  then have "t \<noteq> []" by (auto simp: uuid_text_def Let_def split: if_splits)
  with t False assms uuid_parse_text [OF t] show ?thesis by (simp add: corr_image_def) (simp add: fast_corr_def)
qed

lemma mask32_pack: "is_int v \<Longrightarrow> \<exists>n b. mask32 v = Inr n \<and> pack_u 4 n = Inr b"
proof (cases v)
  case (JInt n)
  have "n AND 0xFFFFFFFF = n mod 2 ^ 32"
    using take_bit_eq_mask [of 32 n] by (simp add: mask_eq_exp_minus_1 take_bit_eq_mod)
  then show ?thesis using JInt by (simp add: pack_u_def)
qed simp_all

lemma fast_conf_pack:
  assumes "fast_conf v = Inr k" "0 \<le> k"
  shows "\<exists>b. pack_u 2 k = Inr b"
  using assms by (auto simp: fast_conf_def res_simps pack_u_def)

text \<open>The parts of an encoded action.\<close>

definition fast_layout :: "bytes \<Rightarrow> bytes \<Rightarrow> model_action \<Rightarrow> bytes \<Rightarrow> bool" where
  "fast_layout uuid4 cb a wire =
     (\<exists>i hdr tb ib pb rb db kb mb n k.
        wire = hdr @ uuid4 @ tb @ ib @ pb @ rb @ cb @ db @ kb @ mb \<and> length hdr = 3 \<and> ac_intent a = Some i \<and>
        uint (hdr ! 0) = FAST_CODEC_VERSION \<and> uint (hdr ! 1) = fast_intent_byte (Some i) \<and> uint (hdr ! 2) = fast_flags a \<and>
        encode_str16 (ac_target a) = Inr tb \<and> encode_json_small (ac_inputs a) = Inr ib \<and>
        part_if (j_true (ac_params a)) (encode_json_small (ac_params a)) = Inr pb \<and>
        part_if (j_true (ac_result a)) (encode_json_small (ac_result a)) = Inr rb \<and>
        part_if (j_true (ac_metadata a)) (encode_json_small (ac_metadata a)) = Inr mb \<and>
        mask32 (ac_deadline_ms a) = Inr n \<and> pack_u 4 n = Inr db \<and>
        fast_conf (ac_confidence a) = Inr k \<and> pack_u 2 k = Inr kb)"

lemma fast_encodes:
  assumes "fast_codable a"
  obtains cb wire where "fast_encode_action uuid4 a = Inr wire" "fast_corr (ac_correlation_id a) = Inr cb"
    "fast_layout uuid4 cb a wire"
proof -
  from assms have ty: "typed_action a" and ok: "str16_ok (ac_target a)" "json16_ok (ac_inputs a)" "json16_ok (ac_params a)"
    "json16_ok (ac_result a)" "json16_ok (ac_metadata a)" by (simp_all add: fast_codable_def fast_fields_def)
  from ty obtain i where i: "ac_intent a = Some i" by (auto simp: typed_action_def)
  from assms obtain cb k where corr: "fast_corr (ac_correlation_id a) = Inr cb"
    and conf: "fast_conf (ac_confidence a) = Inr k" "0 \<le> k" by (auto simp: fast_codable_def fast_fields_def split: sum.splits)
  have "is_int (ac_deadline_ms a)" using ty by (simp add: typed_action_def)
  from mask32_pack [OF this] obtain n db where dl: "mask32 (ac_deadline_ms a) = Inr n" "pack_u 4 n = Inr db" by blast
  obtain kb where kb: "pack_u 2 k = Inr kb" using fast_conf_pack [OF conf] by blast
  obtain tb ib where tb: "encode_str16 (ac_target a) = Inr tb" and ib: "encode_json_small (ac_inputs a) = Inr ib"
    using str16.enc_total [OF ok(1)] json16.enc_total [OF ok(2)] by blast
  obtain pb rb mb where pb: "part_if (j_true (ac_params a)) (encode_json_small (ac_params a)) = Inr pb"
    and rb: "part_if (j_true (ac_result a)) (encode_json_small (ac_result a)) = Inr rb"
    and mb: "part_if (j_true (ac_metadata a)) (encode_json_small (ac_metadata a)) = Inr mb"
    using part_if_encodes ok by metis
  obtain hdr where hdr: "hdr = [of_int FAST_CODEC_VERSION, of_int (fast_intent_byte (Some i)), of_int (fast_flags a) :: byte]" by simp
  let ?wire = "hdr @ uuid4 @ tb @ ib @ pb @ rb @ cb @ db @ kb @ mb"
  have "fast_encode_action uuid4 a = Inr ?wire"
    unfolding fast_encode_action_def by (simp add: join_parts_simps i tb ib pb rb corr dl conf(1) kb mb hdr)
  moreover have "length hdr = 3" "uint (hdr ! 0) = FAST_CODEC_VERSION" "uint (hdr ! 1) = fast_intent_byte (Some i)"
    "uint (hdr ! 2) = fast_flags a"
    using fast_flags_bits(1,2) [of a] intent_byte_inverse(2,3) [of i] by (simp_all add: hdr FAST_CODEC_VERSION_def)
  then have "fast_layout uuid4 cb a ?wire"
    unfolding fast_layout_def using i tb ib pb rb mb dl conf(1) kb by blast
  ultimately show ?thesis using corr that by blast
qed

text \<open>
  C17. Every action the format can carry is encoded, and decoding the bytes gives the action back, with its
  correlation id in canonical form, its deadline modulo 2^32 and its confidence in thousandths; the
  sixteen random bytes do not matter, and the id that comes back denotes the same UUID.
\<close>

theorem fast_codec_roundtrip:
  assumes "fast_codable a" "length uuid4 = 16"
  shows "\<exists>wire. fast_encode_action uuid4 a = Inr wire \<and> fast_decode_action wire = Inr (fast_image a) \<and>
    fast_corr (ac_correlation_id (fast_image a)) = fast_corr (ac_correlation_id a)"
proof -
  obtain cb wire where enc: "fast_encode_action uuid4 a = Inr wire" and corr: "fast_corr (ac_correlation_id a) = Inr cb"
    and lay: "fast_layout uuid4 cb a wire" by (rule fast_encodes [OF assms(1)])
  obtain i hdr tb ib pb rb db kb mb n k where w: "wire = hdr @ uuid4 @ tb @ ib @ pb @ rb @ cb @ db @ kb @ mb" "length hdr = 3"
      "ac_intent a = Some i" "uint (hdr ! 0) = FAST_CODEC_VERSION" "uint (hdr ! 1) = fast_intent_byte (Some i)"
      "uint (hdr ! 2) = fast_flags a" and
    tb: "encode_str16 (ac_target a) = Inr tb" and ib: "encode_json_small (ac_inputs a) = Inr ib" and
    pb: "part_if (j_true (ac_params a)) (encode_json_small (ac_params a)) = Inr pb" and
    rb: "part_if (j_true (ac_result a)) (encode_json_small (ac_result a)) = Inr rb" and
    mb: "part_if (j_true (ac_metadata a)) (encode_json_small (ac_metadata a)) = Inr mb" and
    dl: "mask32 (ac_deadline_ms a) = Inr n" "pack_u 4 n = Inr db" and
    kb: "fast_conf (ac_confidence a) = Inr k" "pack_u 2 k = Inr kb"
    using lay unfolding fast_layout_def by blast
  from assms(1) have ty: "typed_action a" and ok: "str16_ok (ac_target a)" "json16_ok (ac_inputs a)" "json16_ok (ac_params a)"
    "json16_ok (ac_result a)" "json16_ok (ac_metadata a)" by (simp_all add: fast_codable_def fast_fields_def)
  have len: "length cb = 16" "length db = 4" "length kb = 2"
    using fast_corr_length [OF corr] pack_u_length [OF dl(2)] pack_u_length [OF kb(2)] by simp_all
  let ?p1 = "19 + length tb"
  let ?p2 = "?p1 + length ib"
  let ?p3 = "?p2 + length pb"
  let ?p4 = "?p3 + length rb"
  have "has_at wire 0 wire" by simp
  then have at: "has_at wire 19 tb" "has_at wire ?p1 ib" "has_at wire ?p2 pb" "has_at wire ?p3 rb" "has_at wire ?p4 cb"
    "has_at wire (?p4 + 16) db" "has_at wire (?p4 + 16 + 4) kb" "has_at wire (?p4 + 16 + 4 + 2) mb"
    using len w(2) assms(2) by (subst (asm) (2) w(1), simp add: has_at_append add.assoc)+
  have hd: "uint (wire ! 0) = FAST_CODEC_VERSION" "uint (wire ! 1) = fast_intent_byte (Some i)" "uint (wire ! 2) = fast_flags a"
    "\<not> length wire < 3" using w by (simp_all add: nth_append)
  obtain ct where ct: "(if cb \<noteq> replicate 16 0 then uuid_text cb else Inr []) = Inr ct" "corr_image (ac_correlation_id a) = JStr ct"
    by (rule corr_text [OF corr])
  have typed: "JBool (j_true (ac_stream a)) = ac_stream a" "JBool (j_true (ac_cancel a)) = ac_cancel a"
    using ty by (simp_all add: typed_action_def or_default_typed)
  note rd = str16.dec_enc [OF ok(1) tb at(1)] json16.dec_enc [OF ok(2) ib at(2)] json_if_at [OF ok(3) pb at(3)]
    json_if_at [OF ok(4) rb at(4)] has_at_slice_eq [OF at(5) len(1)] unpack_from_u_at [OF at(6) len(2)] unpack_from_u_at [OF at(7) len(3)]
    json_if_at [OF ok(5) mb at(8)]
  have "fast_decode_action wire = Inr (fast_image a)"
    unfolding fast_decode_action_def Let_def hd fast_flags_bits intent_byte_inverse(1)
    using w(3) typed dl(1) kb(1) rd ct unpack_pack_u [OF dl(2)] unpack_pack_u [OF kb(2)] hd(4)
    by (cases a) (auto simp: fast_image_def deadline_image_def conf_image_def add.assoc)
  then show ?thesis using enc corr corr_image_same [OF corr] by (auto simp: fast_image_def)
qed

text \<open>1.0 is a thousand thousandths.\<close>

lemma sample_conf: "fast_conf (JFloat f64_one) = Inr 1000" "f64_quot 1000 1000 = f64_one"
proof -
  let ?k = "0x408F400000000000 :: f64"
  note defs = f64_exp_def f64_frac_def f64_sign_def f64_mant_def f64_scale_def f64_num_def f64_den_def f64_finite_def f64_mag_def
    f64_nan_def
  have one: "f64_finite f64_one" "f64_sign f64_one = 0" "f64_num f64_one = 2 ^ 52" "f64_den f64_one = 2 ^ 52" "f64_mag f64_one = 0x3FF0000000000000"
    by (simp_all add: defs f64_one_def)
  have k: "f64_finite ?k" "\<not> f64_nan ?k" "f64_sign ?k = 0" "f64_num ?k = 1000 * 2 ^ 43" "f64_den ?k = 2 ^ 43" "f64_mag ?k = 0x408F400000000000"
    by (simp_all add: defs)
  have "f64_bits (2 ^ 52 * 1000) (2 ^ 52) = f64_mag ?k" by (rule f64_bits_exact [OF k(1)]) (simp_all add: k)
  then have "f64_times f64_one 1000 = ?k" by (simp add: f64_times_def one f64_of_ratio_def mk_f64_def k(6))
  then show "fast_conf (JFloat f64_one) = Inr 1000" by (simp add: fast_conf_def f64_trunc_def k)
  have "f64_bits 1000 1000 = f64_mag f64_one" by (rule f64_bits_exact [OF one(1)]) (simp_all add: one)
  then show "f64_quot 1000 1000 = f64_one" by (simp add: f64_quot_def f64_of_ratio_def mk_f64_def one(5)) (simp add: f64_one_def)
qed

lemma sample_action_fields: "fast_fields sample_action"
proof -
  have sep: "str '','' = [44]" "str '':'' = [58]" by (simp_all add: str_def)
  have json: "json_dumps False (str '','') (str '':'') (JObj [(str ''text'', JStr (str ''hi''))]) = Inr (str ''{\"text\":\"hi\"}'')"
    "json_dumps False (str '','') (str '':'') (JObj []) = Inr (str ''{}'')"
    by (simp_all add: sep str_def json_string_def json_char_def)
  have utf: "utf8_encode (str s) = Inr (map byte_of (str s))" if "list_all (\<lambda>c. of_char c < (0x80 :: nat)) s" for s
    using that by (intro utf8_ascii) (simp add: str_def list_all_iff)
  show ?thesis
    using sample_conf json utf by (simp add: fast_fields_def sample_action_def typed_action_def str16_ok_def json16_ok_def fits16_def
        encodable_def scalar_def) (simp add: str_def scalar_def)
qed

lemma sample_image: "fast_image sample_action = sample_action"
  by (simp add: fast_image_def sample_action_def corr_image_def conf_image_def deadline_image_def fast_corr_def sample_conf)

theorem fast_codec_roundtrip_witness:
  "\<exists>wire. fast_encode_action (replicate 16 7) sample_action = Inr wire \<and> fast_decode_action wire = Inr sample_action"
proof -
  have "fast_codable sample_action" using sample_action_fields by (simp add: fast_codable_def sample_action_def fast_corr_def)
  from fast_codec_roundtrip [OF this, of "replicate 16 7"] sample_image show ?thesis
    by (metis length_replicate)
qed

section \<open>Decoding arbitrary bytes\<close>

definition fast_decode_exns :: "exn set" where
  "fast_decode_exns = {StructError, UnicodeDecodeError, JSONDecodeError, ValueError}"

lemma decode_str16_outcome: "outcome fast_decode_exns (\<lambda>(v, p). is_str v) (decode_str16 data pos)"
  by (rule outcomeI)
    (auto simp: decode_str16_def unpack_from_u_def res_simps Let_def fast_decode_exns_def dest: utf8_decode_errors split: if_splits)

lemma decode_json_small_outcome: "outcome fast_decode_exns (\<lambda>_. True) (decode_json_small data pos)"
  by (rule outcomeI)
    (auto simp: decode_json_small_def unpack_from_u_def res_simps Let_def fast_decode_exns_def
      dest: json_loads_bytes_errors split: if_splits)

lemma json_if_outcome: "outcome fast_decode_exns (\<lambda>_. True) (json_if c data pos)"
  using decode_json_small_outcome [of data pos] by (simp add: json_if_def)

lemma unpack_outcome: "outcome {StructError} (\<lambda>v. 0 \<le> v \<and> v < 256 ^ n) (unpack_from_u n data pos)"
proof (cases "pos + n \<le> length data")
  case True
  then have len: "length (slice data pos (pos + n)) = n" by simp
  then have "int (be_val (slice data pos (pos + n))) < 256 ^ n"
    using be_val_bound [of "slice data pos (pos + n)"] by (metis of_nat_less_iff of_nat_numeral of_nat_power)
  with True show ?thesis by (simp add: unpack_from_u_def unpack_u_def)
qed (simp add: unpack_from_u_def)

lemma unpack_fast_outcome: "outcome fast_decode_exns (\<lambda>v. 0 \<le> v \<and> v < 256 ^ n) (unpack_from_u n data pos)"
  by (rule outcome_mono [OF unpack_outcome]) (simp_all add: fast_decode_exns_def)

lemma outcome_sem: "outcome E P r \<Longrightarrow> outcome (SemPy ` E) P (sem r)"
  by (cases r) auto

text \<open>The actions the decoder makes.\<close>

definition decoded_action :: "model_action \<Rightarrow> bool" where
  "decoded_action a =
     (ac_intent a \<noteq> None \<and> is_str (ac_target a) \<and> is_bool (ac_stream a) \<and> is_bool (ac_cancel a) \<and>
      is_str (ac_correlation_id a) \<and>
      (case ac_deadline_ms a of JInt n \<Rightarrow> 0 \<le> n \<and> n < 2 ^ 32 | _ \<Rightarrow> False) \<and>
      (\<exists>k \<le> 65535. ac_confidence a = JFloat (f64_quot k 1000)))"

text \<open>
  C18. Decoding any bytes ends: with an action whose intent is a member, whose target and id are strings,
  whose deadline fits 32 bits and whose confidence is a number of thousandths up to 65.535, or with
  one of five exceptions; the bound on the calls of the JSON scanner is never met.
\<close>

theorem fast_decode_ends:
  "outcome {SemanticError, SemPy StructError, SemPy UnicodeDecodeError, SemPy JSONDecodeError, SemPy ValueError}
     decoded_action (fast_decode_action data)"
proof -
  let ?E = "{SemanticError, SemPy StructError, SemPy UnicodeDecodeError, SemPy JSONDecodeError, SemPy ValueError}"
  have uuid: "outcome fast_decode_exns (\<lambda>_. True) (if c then uuid_text b else Inr [])" for c b
    by (simp add: uuid_text_def Let_def fast_decode_exns_def)
  have k: "\<exists>m \<le> 65535. f64_quot (nat k) 1000 = f64_quot m 1000" if "0 \<le> k" "k < 65536" for k
    using that by (intro exI [of _ "nat k"]) auto
  have E: "outcome fast_decode_exns P r \<Longrightarrow> outcome ?E P (sem r)" for P and r :: "model_action res"
    by (drule outcome_sem, erule outcome_mono) (auto simp: fast_decode_exns_def)
  show ?thesis
    unfolding fast_decode_action_def Let_def
    by (auto split: option.splits prod.splits intro!: E outcome_bindr [OF decode_str16_outcome]
      outcome_bindr [OF decode_json_small_outcome] outcome_bindr [OF json_if_outcome] outcome_bindr [OF uuid]
      outcome_bindr [OF unpack_fast_outcome] k simp: decoded_action_def nat_le_iff)
qed

end
