(* ===== verification/Fast_Action_Codec.thy ===== *)
theory Fast_Action_Codec
  imports Fast_Codec
begin

text \<open>
  \<^verbatim>\<open>aicl/semantic/fast_action_codec.py\<close>: the second flat format, with message ids from a counter of the
  process. The counter is the state; it is passed in and out. The helpers for strings and JSON are
  the module's own copies of those of \<^verbatim>\<open>fast_codec.py\<close> and are shown to agree with them. Shown: the round
  trip, which needs a correlation id of sixteen bytes; that the encoder accepts others and what
  becomes of them; that message ids never repeat.
\<close>

unbundle bit_operations_syntax

section \<open>Tables\<close>

definition FA_VERSION :: int where "FA_VERSION = 0x02"

definition FA_INTENT_TO_BYTE :: "(model_intent \<times> int) list" where
  "FA_INTENT_TO_BYTE =
    [(CLASSIFY, 0x43), (GENERATE, 0x46), (REASON, 0x44), (EMBED, 0x42), (RANK, 0x47), (SUMMARIZE, 0x48),
     (SYNTHESIZE, 0x49), (VERIFY, 0x4A), (EXTRACT, 0x4B), (TRANSFORM, 0x4C), (PLAN, 0x4D), (EVALUATE, 0x4E),
     (CALL_MODEL, 0x40), (CALL_TOOL, 0x41), (READ_MEMORY, 0x20), (WRITE_MEMORY, 0x21), (DELETE_MEMORY, 0x22),
     (INDEX_QUERY, 0x23), (INDEX_UPSERT, 0x24), (ROUTE, 0x03), (FILTER, 0x04), (RETURN_RESULT, 0x11),
     (STREAM_RESULT, 0x12), (CANCEL, 0x09)]"

definition FA_BYTE_TO_INTENT :: "(int \<times> model_intent) list" where
  "FA_BYTE_TO_INTENT = rev (map (\<lambda>(k, v). (v, k)) FA_INTENT_TO_BYTE)"

definition FA_FLAG_REQUEST :: int where "FA_FLAG_REQUEST = 0x0001"
definition FA_FLAG_STREAM :: int where "FA_FLAG_STREAM = 0x0004"
definition FA_FLAG_CANCEL :: int where "FA_FLAG_CANCEL = 0x0020"
definition FA_FLAG_HAS_PARAMS :: int where "FA_FLAG_HAS_PARAMS = 0x0100"
definition FA_FLAG_HAS_RESULT :: int where "FA_FLAG_HAS_RESULT = 0x0200"
definition FA_FLAG_HAS_METADATA :: int where "FA_FLAG_HAS_METADATA = 0x0400"

section \<open>Message ids\<close>

text \<open>\<^verbatim>\<open>_AtomicCounter.next\<close>, under its lock: the new count, which is also returned.\<close>

definition counter_next :: "nat \<Rightarrow> nat \<times> nat" where
  "counter_next n = (n + 1, n + 1)"

definition make_message_id :: "nat \<Rightarrow> nat \<times> bytes res" where
  "make_message_id counter =
     (let (counter', n) = counter_next counter in
      (counter', if n < 2 ^ 64 then Inr (replicate 8 0 @ le_bytes 8 n) else Inl OverflowError))"

section \<open>Sections\<close>

definition fa_encode_str16 :: "json \<Rightarrow> bytes res" where
  "fa_encode_str16 value =
     (case value of
        JStr s \<Rightarrow> bindr (utf8_encode s) (\<lambda>b. bindr (pack_u 2 (int (length b))) (\<lambda>h. Inr (h @ b)))
      | _ \<Rightarrow> Inl AttributeError)"

definition fa_decode_str16 :: "bytes \<Rightarrow> nat \<Rightarrow> (json \<times> nat) res" where
  "fa_decode_str16 data pos =
     bindr (unpack_from_u 2 data pos) (\<lambda>n.
       let p = pos + 2; e = p + nat n in
       bindr (utf8_decode (slice data p e)) (\<lambda>s. Inr (JStr s, e)))"

definition fa_encode_json_small :: "json \<Rightarrow> bytes res" where
  "fa_encode_json_small obj =
     (if \<not> j_true obj then Inr [0, 0]
      else
        bindr (json_dumps False (str '','') (str '':'') obj) (\<lambda>t.
        bindr (utf8_encode t) (\<lambda>b.
        bindr (pack_u 2 (int (length b))) (\<lambda>h. Inr (h @ b)))))"

definition fa_decode_json_small :: "bytes \<Rightarrow> nat \<Rightarrow> (json \<times> nat) res" where
  "fa_decode_json_small data pos =
     bindr (unpack_from_u 2 data pos) (\<lambda>n.
       let p = pos + 2; e = p + nat n in
       if n = 0 then Inr (JObj [], p)
       else bindr (json_loads_bytes (slice data p e)) (\<lambda>v. Inr (v, e)))"

text \<open>\<^verbatim>\<open>struct.pack("<...")\<close> and \<^verbatim>\<open>struct.unpack_from("<...")\<close>.\<close>

definition pack_le :: "nat \<Rightarrow> int \<Rightarrow> bytes res" where
  "pack_le n v = bindr (pack_u n v) (\<lambda>b. Inr (rev b))"

definition unpack_from_le :: "nat \<Rightarrow> bytes \<Rightarrow> nat \<Rightarrow> int res" where
  "unpack_from_le n data pos =
     (if pos + n \<le> length data then Inr (unpack_u (rev (slice data pos (pos + n)))) else Inl StructError)"

definition fa_corr :: "json \<Rightarrow> bytes res" where
  "fa_corr v =
     (if j_true v then (case v of JStr s \<Rightarrow> bytes_fromhex (py_replace [45] [] s) | _ \<Rightarrow> Inl AttributeError)
      else Inr (replicate 16 0))"

definition fa_flags :: "model_action \<Rightarrow> int" where
  "fa_flags a =
     FA_FLAG_REQUEST OR
     (if j_true (ac_stream a) then FA_FLAG_STREAM else 0) OR
     (if j_true (ac_cancel a) then FA_FLAG_CANCEL else 0) OR
     (if j_true (ac_params a) then FA_FLAG_HAS_PARAMS else 0) OR
     (if j_true (ac_result a) then FA_FLAG_HAS_RESULT else 0) OR
     (if j_true (ac_metadata a) then FA_FLAG_HAS_METADATA else 0)"

definition fa_intent_byte :: "model_intent option \<Rightarrow> int" where
  "fa_intent_byte i =
     (case i of None \<Rightarrow> 0x00 | Some i' \<Rightarrow> (case map_of FA_INTENT_TO_BYTE i' of None \<Rightarrow> 0x00 | Some c \<Rightarrow> c))"

section \<open>FastActionEncoder\<close>

record fast_action_encoder =
  fae_origin :: pystr
  fae_session_id :: bytes

text \<open>\<^verbatim>\<open>session_id or _make_message_id()\<close>: a missing or empty id is made from the counter.\<close>

definition fast_action_encoder_init :: "pystr \<Rightarrow> bytes option \<Rightarrow> nat \<Rightarrow> nat \<times> fast_action_encoder res" where
  "fast_action_encoder_init origin session_id counter =
     (case session_id of
        Some (b # bs) \<Rightarrow> (counter, Inr \<lparr>fae_origin = origin, fae_session_id = b # bs\<rparr>)
      | _ \<Rightarrow>
          let (counter', mid) = make_message_id counter in
          (counter', bindr mid (\<lambda>m. Inr \<lparr>fae_origin = origin, fae_session_id = m\<rparr>)))"

definition fast_action_encode :: "fast_action_encoder \<Rightarrow> model_action \<Rightarrow> nat \<Rightarrow> nat \<times> bytes res" where
  "fast_action_encode self a counter =
     (let (counter', mid) = make_message_id counter in
      (counter',
       join_parts
        [bindr (pack_le 4 (fa_flags a)) (\<lambda>f. Inr (of_int FA_VERSION # of_int (fa_intent_byte (ac_intent a)) # f)),
         Inr (fae_session_id self),
         mid,
         fa_corr (ac_correlation_id a),
         fa_encode_str16 (ac_target a),
         fa_encode_json_small (ac_inputs a),
         part_if (j_true (ac_params a)) (fa_encode_json_small (ac_params a)),
         part_if (j_true (ac_result a)) (fa_encode_json_small (ac_result a)),
         bindr (mask32 (ac_deadline_ms a)) (pack_le 4),
         bindr (fast_conf (ac_confidence a)) (pack_le 2),
         part_if (j_true (ac_metadata a)) (fa_encode_json_small (ac_metadata a))]))"

text \<open>The pushing function is an argument that changes a state of its own.\<close>

definition encode_to_ring ::
  "fast_action_encoder \<Rightarrow> model_action \<Rightarrow> (bytes \<Rightarrow> 's \<Rightarrow> 's \<times> 'b res) \<Rightarrow> nat \<times> 's \<Rightarrow> (nat \<times> 's) \<times> 'b res" where
  "encode_to_ring self a ring_push_fn = (\<lambda>(counter, st).
     let (counter', wire) = fast_action_encode self a counter in
     (case wire of
        Inl e \<Rightarrow> ((counter', st), Inl e)
      | Inr w \<Rightarrow> let (st', r) = ring_push_fn w st in ((counter', st'), r)))"

section \<open>FastActionDecoder\<close>

definition fa_json_if :: "bool \<Rightarrow> bytes \<Rightarrow> nat \<Rightarrow> (json \<times> nat) res" where
  "fa_json_if c data pos = (if c then fa_decode_json_small data pos else Inr (JObj [], pos))"

definition fast_action_decode :: "bytes \<Rightarrow> semantic_exn + model_action" where
  "fast_action_decode data =
     (if length data < 6 then Inl (SemPy StructError)
      else
        let version = uint (data ! 0); intent_byte = uint (data ! 1); flags = unpack_u (rev (slice data 2 6)) in
        if version \<noteq> FA_VERSION then Inl SemanticError
        else case map_of FA_BYTE_TO_INTENT intent_byte of
          None \<Rightarrow> Inl SemanticError
        | Some intent \<Rightarrow>
            let pos = 6 + 16 + 16;
                corr_bytes = slice data pos (pos + 16);
                correlation_id = (if corr_bytes \<noteq> replicate 16 0 then bytes_hex corr_bytes else [])
            in sem
             (bindr (fa_decode_str16 data (pos + 16)) (\<lambda>(target, p1).
              bindr (fa_decode_json_small data p1) (\<lambda>(inputs, p2).
              bindr (fa_json_if (flags AND FA_FLAG_HAS_PARAMS \<noteq> 0) data p2) (\<lambda>(params, p3).
              bindr (fa_json_if (flags AND FA_FLAG_HAS_RESULT \<noteq> 0) data p3) (\<lambda>(result, p4).
              bindr (unpack_from_le 4 data p4) (\<lambda>deadline_ms.
              bindr (unpack_from_le 2 data (p4 + 4)) (\<lambda>conf_int.
              bindr (fa_json_if (flags AND FA_FLAG_HAS_METADATA \<noteq> 0) data (p4 + 4 + 2)) (\<lambda>(metadata, _).
                Inr \<lparr>ac_intent = Some intent, ac_target = target, ac_inputs = inputs, ac_params = params,
                     ac_result = result, ac_confidence = JFloat (f64_quot (nat conf_int) 1000),
                     ac_stream = JBool (flags AND FA_FLAG_STREAM \<noteq> 0),
                     ac_cancel = JBool (flags AND FA_FLAG_CANCEL \<noteq> 0),
                     ac_correlation_id = JStr correlation_id, ac_deadline_ms = JInt deadline_ms,
                     ac_metadata = metadata\<rparr>)))))))))"

section \<open>The copies of the helpers\<close>

lemma fa_helpers:
  "fa_encode_str16 = encode_str16" "fa_decode_str16 = decode_str16" "fa_encode_json_small = encode_json_small"
  "fa_decode_json_small = decode_json_small" "fa_json_if = json_if"
  by (simp_all add: fun_eq_iff fa_encode_str16_def encode_str16_def fa_decode_str16_def decode_str16_def
      fa_encode_json_small_def encode_json_small_def fa_decode_json_small_def decode_json_small_def fa_json_if_def json_if_def
      pack_u_def numeral_2_eq_2 byte_of_def)

lemma pack_le_length: "pack_le n v = Inr b \<Longrightarrow> length b = n"
  by (auto simp: pack_le_def res_simps)

lemma unpack_le_at: "has_at data pos b \<Longrightarrow> pack_le n v = Inr b \<Longrightarrow> unpack_from_le n data pos = Inr v"
proof -
  assume h: "has_at data pos b" and p: "pack_le n v = Inr b"
  then obtain c where c: "pack_u n v = Inr c" "b = rev c" by (auto simp: pack_le_def bindr_eq_Inr)
  moreover have "length b = n" by (rule pack_le_length [OF p])
  ultimately show ?thesis using has_at_slice_eq [OF h] has_at_bound [OF h] unpack_pack_u [OF c(1)] by (simp add: unpack_from_le_def)
qed

section \<open>Encoding and decoding\<close>

lemma fa_intent_byte_inverse:
  "map_of FA_BYTE_TO_INTENT (fa_intent_byte (Some i)) = Some i" "0 \<le> fa_intent_byte (Some i)" "fa_intent_byte (Some i) < 256"
  by (cases i; simp add: FA_BYTE_TO_INTENT_def FA_INTENT_TO_BYTE_def fa_intent_byte_def)+

lemmas fa_flag_defs = FA_FLAG_REQUEST_def FA_FLAG_STREAM_def FA_FLAG_CANCEL_def FA_FLAG_HAS_PARAMS_def
  FA_FLAG_HAS_RESULT_def FA_FLAG_HAS_METADATA_def

lemma fa_flags_bits:
  "0 \<le> fa_flags a" "fa_flags a < 2 ^ 32"
  "fa_flags a AND FA_FLAG_STREAM \<noteq> 0 \<longleftrightarrow> j_true (ac_stream a)"
  "fa_flags a AND FA_FLAG_CANCEL \<noteq> 0 \<longleftrightarrow> j_true (ac_cancel a)"
  "fa_flags a AND FA_FLAG_HAS_PARAMS \<noteq> 0 \<longleftrightarrow> j_true (ac_params a)"
  "fa_flags a AND FA_FLAG_HAS_RESULT \<noteq> 0 \<longleftrightarrow> j_true (ac_result a)"
  "fa_flags a AND FA_FLAG_HAS_METADATA \<noteq> 0 \<longleftrightarrow> j_true (ac_metadata a)"
  unfolding fa_flags_def fa_flag_defs
  by (cases "j_true (ac_stream a)"; cases "j_true (ac_cancel a)"; cases "j_true (ac_params a)"; cases "j_true (ac_result a)";
      cases "j_true (ac_metadata a)"; simp)+

lemma pack_le_total: "0 \<le> v \<Longrightarrow> v < 256 ^ n \<Longrightarrow> \<exists>b. pack_le n v = Inr b"
  by (simp add: pack_le_def pack_u_def)

definition fa_image :: "model_action \<Rightarrow> model_action" where
  "fa_image a =
     a\<lparr>ac_correlation_id :=
         (case fa_corr (ac_correlation_id a) of
            Inl e \<Rightarrow> ac_correlation_id a
          | Inr c \<Rightarrow> JStr (if c \<noteq> replicate 16 0 then bytes_hex c else [])),
       ac_deadline_ms := deadline_image (ac_deadline_ms a), ac_confidence := conf_image (ac_confidence a)\<rparr>"

text \<open>The parts of an encoded action.\<close>

definition fa_layout :: "bytes \<Rightarrow> bytes \<Rightarrow> bytes \<Rightarrow> bytes \<Rightarrow> bytes \<Rightarrow> model_action \<Rightarrow> bytes \<Rightarrow> bool" where
  "fa_layout hdr sid mid cb rest a wire =
     (wire = hdr @ sid @ mid @ cb @ rest \<and> length hdr = 6 \<and> length mid = 16 \<and>
      (\<exists>i tb ib pb rb db kb mb n k.
         ac_intent a = Some i \<and> uint (hdr ! 0) = FA_VERSION \<and> uint (hdr ! 1) = fa_intent_byte (Some i) \<and>
         unpack_u (rev (drop 2 hdr)) = fa_flags a \<and> rest = tb @ ib @ pb @ rb @ db @ kb @ mb \<and>
         encode_str16 (ac_target a) = Inr tb \<and> encode_json_small (ac_inputs a) = Inr ib \<and>
         part_if (j_true (ac_params a)) (encode_json_small (ac_params a)) = Inr pb \<and>
         part_if (j_true (ac_result a)) (encode_json_small (ac_result a)) = Inr rb \<and>
         part_if (j_true (ac_metadata a)) (encode_json_small (ac_metadata a)) = Inr mb \<and>
         mask32 (ac_deadline_ms a) = Inr n \<and> pack_le 4 n = Inr db \<and>
         fast_conf (ac_confidence a) = Inr k \<and> pack_le 2 k = Inr kb))"

lemma fa_encodes:
  assumes "fast_fields a" "fa_corr (ac_correlation_id a) = Inr cb" "counter + 1 < 2 ^ 64"
  obtains hdr rest wire where "fast_action_encode self a counter = (counter + 1, Inr wire)"
    "fa_layout hdr (fae_session_id self) (replicate 8 0 @ le_bytes 8 (counter + 1)) cb rest a wire"
proof -
  from assms(1) have ty: "typed_action a" and ok: "str16_ok (ac_target a)" "json16_ok (ac_inputs a)" "json16_ok (ac_params a)"
    "json16_ok (ac_result a)" "json16_ok (ac_metadata a)" by (simp_all add: fast_fields_def)
  from ty obtain i where i: "ac_intent a = Some i" by (auto simp: typed_action_def)
  from assms(1) obtain k where conf: "fast_conf (ac_confidence a) = Inr k" "0 \<le> k"
    by (auto simp: fast_fields_def split: sum.splits)
  have "is_int (ac_deadline_ms a)" using ty by (simp add: typed_action_def)
  from mask32_pack [OF this] obtain n db where dl: "mask32 (ac_deadline_ms a) = Inr n" "pack_le 4 n = Inr db"
    by (auto simp: pack_le_def)
  obtain kb where kb: "pack_le 2 k = Inr kb" using fast_conf_pack [OF conf] by (auto simp: pack_le_def)
  obtain tb ib where tb: "encode_str16 (ac_target a) = Inr tb" and ib: "encode_json_small (ac_inputs a) = Inr ib"
    using str16.enc_total [OF ok(1)] json16.enc_total [OF ok(2)] by blast
  obtain pb rb mb where pb: "part_if (j_true (ac_params a)) (encode_json_small (ac_params a)) = Inr pb"
    and rb: "part_if (j_true (ac_result a)) (encode_json_small (ac_result a)) = Inr rb"
    and mb: "part_if (j_true (ac_metadata a)) (encode_json_small (ac_metadata a)) = Inr mb"
    using part_if_encodes ok by metis
  obtain fb where fb: "pack_le 4 (fa_flags a) = Inr fb" using pack_le_total [of "fa_flags a" 4] fa_flags_bits(1,2) [of a] by auto
  then have fl: "length fb = 4" "unpack_u (rev fb) = fa_flags a"
    by (auto simp: pack_le_def bindr_eq_Inr unpack_pack_u dest: pack_u_length)
  let ?hdr = "of_int FA_VERSION # of_int (fa_intent_byte (Some i)) # fb"
  let ?mid = "replicate 8 0 @ le_bytes 8 (counter + 1)"
  let ?wire = "?hdr @ fae_session_id self @ ?mid @ cb @ tb @ ib @ pb @ rb @ db @ kb @ mb"
  have "fast_action_encode self a counter = (counter + 1, Inr ?wire)"
    unfolding fast_action_encode_def make_message_id_def counter_next_def
    using assms(3) by (simp add: join_parts_simps fa_helpers i fb tb ib pb rb assms(2) dl conf(1) kb mb)
  moreover have "fa_layout ?hdr (fae_session_id self) ?mid cb (tb @ ib @ pb @ rb @ db @ kb @ mb) a ?wire"
    unfolding fa_layout_def using fl i tb ib pb rb mb dl conf(1) kb fa_intent_byte_inverse(2,3) [of i]
    by (auto simp: FA_VERSION_def)
  ultimately show ?thesis by (rule that)
qed

text \<open>No message is longer than its ids, fifteen bytes and five sections of at most 65537.\<close>

lemma encode_str16_length: "encode_str16 v = Inr b \<Longrightarrow> length b \<le> 65537"
  by (auto simp: encode_str16_def res_simps byte_of_def split: json.splits)

lemma encode_json_small_length: "encode_json_small v = Inr b \<Longrightarrow> length b \<le> 65537"
  by (auto simp: encode_json_small_def res_simps byte_of_def split: if_splits)

lemma fa_layout_length:
  assumes "fa_layout hdr sid mid cb rest a wire"
  shows "length wire \<le> length sid + length cb + 327713"
proof -
  obtain tb ib pb rb db kb mb n k where r: "wire = hdr @ sid @ mid @ cb @ tb @ ib @ pb @ rb @ db @ kb @ mb" "length hdr = 6"
      "length mid = 16" "pack_le 4 n = Inr db" "pack_le 2 k = Inr kb"
    and p: "encode_str16 (ac_target a) = Inr tb" "encode_json_small (ac_inputs a) = Inr ib"
      "part_if (j_true (ac_params a)) (encode_json_small (ac_params a)) = Inr pb"
      "part_if (j_true (ac_result a)) (encode_json_small (ac_result a)) = Inr rb"
      "part_if (j_true (ac_metadata a)) (encode_json_small (ac_metadata a)) = Inr mb"
    using assms unfolding fa_layout_def by blast
  have opt: "length b \<le> 65537" if "part_if c (encode_json_small v) = Inr b" for c v b
    using that by (auto simp: part_if_def dest: encode_json_small_length split: if_splits)
  show ?thesis using encode_str16_length [OF p(1)] encode_json_small_length [OF p(2)] opt [OF p(3)] opt [OF p(4)] opt [OF p(5)]
      pack_le_length [OF r(4)] pack_le_length [OF r(5)] r(2,3) by (simp add: r(1))
qed

lemma fast_action_decodes:
  assumes "fast_fields a" "fa_corr (ac_correlation_id a) = Inr cb" "length cb = 16"
    and "length (fae_session_id self) = 16" "counter + 1 < 2 ^ 64"
  shows "\<exists>wire. fast_action_encode self a counter = (counter + 1, Inr wire) \<and>
    fast_action_decode wire = Inr (fa_image a) \<and> slice wire 22 38 = replicate 8 0 @ le_bytes 8 (counter + 1)"
proof -
  obtain hdr rest wire where enc: "fast_action_encode self a counter = (counter + 1, Inr wire)"
    and lay: "fa_layout hdr (fae_session_id self) (replicate 8 0 @ le_bytes 8 (counter + 1)) cb rest a wire"
    by (rule fa_encodes [OF assms(1,2,5)])
  let ?sid = "fae_session_id self" and ?mid = "replicate 8 0 @ le_bytes 8 (counter + 1)"
  obtain i tb ib pb rb db kb mb n k where
    w: "wire = hdr @ ?sid @ ?mid @ cb @ rest" "length hdr = 6" "ac_intent a = Some i" "uint (hdr ! 0) = FA_VERSION"
      "uint (hdr ! 1) = fa_intent_byte (Some i)" "unpack_u (rev (drop 2 hdr)) = fa_flags a"
      "rest = tb @ ib @ pb @ rb @ db @ kb @ mb" and
    tb: "encode_str16 (ac_target a) = Inr tb" and ib: "encode_json_small (ac_inputs a) = Inr ib" and
    pb: "part_if (j_true (ac_params a)) (encode_json_small (ac_params a)) = Inr pb" and
    rb: "part_if (j_true (ac_result a)) (encode_json_small (ac_result a)) = Inr rb" and
    mb: "part_if (j_true (ac_metadata a)) (encode_json_small (ac_metadata a)) = Inr mb" and
    dl: "mask32 (ac_deadline_ms a) = Inr n" "pack_le 4 n = Inr db" and
    kb: "fast_conf (ac_confidence a) = Inr k" "pack_le 2 k = Inr kb"
    using lay unfolding fa_layout_def by blast
  from assms(1) have ty: "typed_action a" and ok: "str16_ok (ac_target a)" "json16_ok (ac_inputs a)" "json16_ok (ac_params a)"
    "json16_ok (ac_result a)" "json16_ok (ac_metadata a)" by (simp_all add: fast_fields_def)
  let ?p1 = "54 + length tb"
  let ?p2 = "?p1 + length ib"
  let ?p3 = "?p2 + length pb"
  let ?p4 = "?p3 + length rb"
  have "has_at wire 0 wire" by simp
  then have at: "has_at wire 22 ?mid" "has_at wire 38 cb" "has_at wire 54 tb" "has_at wire ?p1 ib" "has_at wire ?p2 pb"
    "has_at wire ?p3 rb" "has_at wire ?p4 db" "has_at wire (?p4 + 4) kb" "has_at wire (?p4 + 4 + 2) mb"
    using w(2) assms(3,4) pack_le_length [OF dl(2)] pack_le_length [OF kb(2)]
    by (subst (asm) (2) w(1), simp add: w(7) has_at_append add.assoc)+
  have hd: "uint (wire ! 0) = FA_VERSION" "uint (wire ! 1) = fa_intent_byte (Some i)"
    "unpack_u (rev (slice wire 2 6)) = fa_flags a" "\<not> length wire < 6"
    using w by (simp_all add: nth_append slice_def)
  have typed: "JBool (j_true (ac_stream a)) = ac_stream a" "JBool (j_true (ac_cancel a)) = ac_cancel a"
    using ty by (simp_all add: typed_action_def or_default_typed)
  note rd = str16.dec_enc [OF ok(1) tb at(3)] json16.dec_enc [OF ok(2) ib at(4)] json_if_at [OF ok(3) pb at(5)]
    json_if_at [OF ok(4) rb at(6)] has_at_slice_eq [OF at(2) assms(3)] unpack_le_at [OF at(7) dl(2)]
    unpack_le_at [OF at(8) kb(2)] json_if_at [OF ok(5) mb at(9)]
  have "fast_action_decode wire = Inr (fa_image a)"
    unfolding fast_action_decode_def Let_def hd fa_flags_bits fa_intent_byte_inverse(1) fa_helpers
    using w(3) typed dl(1) kb(1) rd hd(4) assms(2)
    by (cases a) (auto simp: fa_image_def deadline_image_def conf_image_def add.assoc)
  moreover have "slice wire 22 38 = ?mid" using has_at_slice_eq [OF at(1)] by simp
  ultimately show ?thesis using enc by blast
qed

text \<open>
  C19. With a correlation id of sixteen bytes, or none, the second flat format round trips: the bytes decode to
  the action, with its id as plain hexadecimal digits (none for the zero id), its deadline modulo 2^32
  and its confidence in thousandths. The counter moves on by one, and its new value is the message id.
\<close>

theorem fast_action_roundtrip:
  assumes "fast_fields a" "fa_corr (ac_correlation_id a) = Inr cb" "length cb = 16"
    and "length (fae_session_id self) = 16" "counter + 1 < 2 ^ 64"
  shows "\<exists>wire. fast_action_encode self a counter = (counter + 1, Inr wire) \<and>
    fast_action_decode wire = Inr (fa_image a) \<and> slice wire 22 38 = replicate 8 0 @ le_bytes 8 (counter + 1)"
  by (rule fast_action_decodes [OF assms])

definition sample_encoder :: fast_action_encoder where
  "sample_encoder = \<lparr>fae_origin = str ''model'', fae_session_id = replicate 16 1\<rparr>"

theorem fast_action_roundtrip_witness:
  "\<exists>wire. fast_action_encode sample_encoder sample_action 0 = (1, Inr wire) \<and> fast_action_decode wire = Inr sample_action"
proof -
  have corr: "fa_corr (ac_correlation_id sample_action) = Inr (replicate 16 0)" by (simp add: fa_corr_def sample_action_def)
  have image: "fa_image sample_action = sample_action"
    using corr by (simp add: fa_image_def sample_action_def conf_image_def deadline_image_def sample_conf)
  have "length (fae_session_id sample_encoder) = 16" by (simp add: sample_encoder_def)
  from fast_action_roundtrip [OF sample_action_fields corr _ this, of 0] image show ?thesis by auto
qed

section \<open>Correlation ids of another length\<close>

lemma decoded_id_length:
  assumes "fast_action_decode wire = Inr a"
  shows "ac_correlation_id a = JStr [] \<or> (\<exists>t. ac_correlation_id a = JStr t \<and> length t = 32)"
proof -
  from assms obtain i where "length wire \<ge> 6" "map_of FA_BYTE_TO_INTENT (uint (wire ! 1)) = Some i"
    by (auto simp: fast_action_decode_def Let_def split: if_splits option.splits)
  with assms obtain tp where d: "fa_decode_str16 wire 54 = Inr tp"
    and c: "ac_correlation_id a = JStr (if slice wire 38 54 \<noteq> replicate 16 0 then bytes_hex (slice wire 38 54) else [])"
    by (auto simp: fast_action_decode_def Let_def bindr_eq_Inr split: if_splits)
  from d have "56 \<le> length wire" by (auto simp: fa_decode_str16_def unpack_from_u_def bindr_eq_Inr split: if_splits)
  with c show ?thesis by simp
qed

text \<open>
  The second format does not check the length of the correlation id: an id of any other even number of
  hexadecimal digits is encoded too, but no decoding of those bytes gives that id back.
\<close>

theorem fast_action_id_lost:
  assumes "fast_fields a" "fa_corr (ac_correlation_id a) = Inr cb" "length cb \<noteq> 16" "cb \<noteq> []" "counter + 1 < 2 ^ 64"
  shows "\<exists>wire. fast_action_encode self a counter = (counter + 1, Inr wire) \<and>
    (\<nexists>a'. fast_action_decode wire = Inr a' \<and> ac_correlation_id a' = JStr (bytes_hex cb))"
proof -
  obtain hdr rest wire where enc: "fast_action_encode self a counter = (counter + 1, Inr wire)"
    by (rule fa_encodes [OF assms(1,2,5)])
  have len: "bytes_hex cb \<noteq> []" "length (bytes_hex cb) \<noteq> 32"
    using assms(3,4) length_bytes_hex [of cb] by (metis length_0_conv mult_eq_0_iff zero_neq_numeral, simp)
  have False if "fast_action_decode wire = Inr a'" "ac_correlation_id a' = JStr (bytes_hex cb)" for a'
    using decoded_id_length [OF that(1)] that(2) len by auto
  with enc show ?thesis by blast
qed

theorem fast_action_id_lost_witness:
  "\<exists>wire. fast_action_encode sample_encoder (sample_action\<lparr>ac_correlation_id := JStr (str ''ab'')\<rparr>) 0 = (1, Inr wire) \<and>
     (\<nexists>a'. fast_action_decode wire = Inr a' \<and> ac_correlation_id a' = JStr (str ''ab''))"
proof -
  have f: "fast_fields (sample_action\<lparr>ac_correlation_id := JStr (str ''ab'')\<rparr>)"
    using sample_action_fields by (simp add: fast_fields_def typed_action_def)
  have c: "fa_corr (JStr (str ''ab'')) = Inr [0xAB]"
    by (simp add: fa_corr_def py_replace_remove str_def ascii_space_def hex_val_def byte_of_def)
  have h: "bytes_hex [0xAB] = str ''ab''" by (simp add: bytes_hex_def byte_hex_def hex_digit_def str_def)
  have "fa_corr (ac_correlation_id (sample_action\<lparr>ac_correlation_id := JStr (str ''ab'')\<rparr>)) = Inr [0xAB]" using c by simp
  from fast_action_id_lost [OF f this, of 0 sample_encoder] show ?thesis by (simp only: h) simp
qed

section \<open>Message ids\<close>

text \<open>A run of calls of one encoder: the counter at the end and the results.\<close>

fun encode_many :: "fast_action_encoder \<Rightarrow> model_action list \<Rightarrow> nat \<Rightarrow> nat \<times> bytes res list" where
  "encode_many self [] counter = (counter, [])"
| "encode_many self (a # as) counter =
     (let (c, r) = fast_action_encode self a counter; (c', rs) = encode_many self as c in (c', r # rs))"

text \<open>The message ids of the calls that returned.\<close>

definition sent_ids :: "bytes res list \<Rightarrow> bytes list" where
  "sent_ids rs = concat (map (\<lambda>r. case r of Inl e \<Rightarrow> [] | Inr w \<Rightarrow> [slice w 22 38]) rs)"

lemma fast_action_encode_id:
  assumes "fast_action_encode self a counter = (c, Inr w)" "length (fae_session_id self) = 16"
  shows "slice w 22 38 = replicate 8 0 @ le_bytes 8 (counter + 1) \<and> counter + 1 < 2 ^ 64"
proof -
  from assms(1) obtain fb rest where f: "pack_le 4 (fa_flags a) = Inr fb" "counter + 1 < 2 ^ 64"
    "w = (of_int FA_VERSION # of_int (fa_intent_byte (ac_intent a)) # fb) @ fae_session_id self @
       (replicate 8 0 @ le_bytes 8 (counter + 1)) @ rest"
    by (auto simp: fast_action_encode_def make_message_id_def counter_next_def join_parts_simps bindr_eq_Inr
        split: if_splits)
  have "slice (x @ s @ m @ r) 22 38 = m" if "length x = 6" "length s = 16" "length m = 16" for x s m r :: bytes
    using that by (simp add: slice_def)
  from this [of "of_int FA_VERSION # of_int (fa_intent_byte (ac_intent a)) # fb" "fae_session_id self"
      "replicate 8 0 @ le_bytes 8 (counter + 1)" rest] f(2) pack_le_length [OF f(1)] assms(2)
  show ?thesis unfolding f(3) by simp
qed

lemma fast_action_encode_counter: "fst (fast_action_encode self a counter) = counter + 1"
  by (simp add: fast_action_encode_def make_message_id_def counter_next_def)

lemma counter_id_inj:
  assumes "replicate 8 0 @ le_bytes 8 m = replicate 8 0 @ le_bytes 8 n" "m < 2 ^ 64" "n < 2 ^ 64"
  shows "m = n"
proof -
  have "le_bytes 8 m = le_bytes 8 n" using assms(1) by simp
  then have "le_val (le_bytes 8 m) = le_val (le_bytes 8 n)" by simp
  then show ?thesis using assms(2,3) by simp
qed

lemma encode_many_ids:
  assumes "length (fae_session_id self) = 16"
  shows "fst (encode_many self as counter) = counter + length as \<and> distinct (sent_ids (snd (encode_many self as counter))) \<and>
    (\<forall>m \<in> set (sent_ids (snd (encode_many self as counter))). \<exists>n > counter. n < 2 ^ 64 \<and> m = replicate 8 0 @ le_bytes 8 n)"
proof (induction as arbitrary: counter)
  case (Cons a as)
  obtain r where r: "fast_action_encode self a counter = (counter + 1, r)"
    using fast_action_encode_counter [of self a counter] by (metis prod.collapse)
  obtain c' rs where rs: "encode_many self as (counter + 1) = (c', rs)" by fastforce
  note ih = Cons.IH [of "counter + 1", unfolded rs fst_conv snd_conv]
  show ?case
  proof (cases r)
    case (Inl e)
    then show ?thesis using ih r rs by (auto simp: sent_ids_def) (metis Suc_lessD)
  next
    case (Inr w)
    have id: "slice w 22 38 = replicate 8 0 @ le_bytes 8 (counter + 1)" "counter + 1 < 2 ^ 64"
      using fast_action_encode_id [OF r [unfolded Inr] assms] by simp_all
    have "slice w 22 38 \<notin> set (sent_ids rs)"
    proof
      assume "slice w 22 38 \<in> set (sent_ids rs)"
      then obtain n where "n > counter + 1" "n < 2 ^ 64" "slice w 22 38 = replicate 8 0 @ le_bytes 8 n" using ih by blast
      with counter_id_inj [of "counter + 1" n] id show False by simp
    qed
    moreover have "sent_ids (Inr w # rs) = slice w 22 38 # sent_ids rs" by (simp add: sent_ids_def)
    ultimately show ?thesis using ih r rs Inr id by (auto intro: Suc_lessD)
  qed
qed (simp add: sent_ids_def)

text \<open>
  C20. Over any run of calls of an encoder the counter counts the calls, failed ones included, and no two
  messages that are sent carry the same id.
\<close>

theorem fast_action_ids_distinct:
  assumes "length (fae_session_id self) = 16"
  shows "fst (encode_many self as counter) = counter + length as \<and> distinct (sent_ids (snd (encode_many self as counter)))"
  using encode_many_ids [OF assms] by blast

theorem fast_action_ids_distinct_witness:
  "fst (encode_many sample_encoder [sample_action, sample_action] 0) = 2 \<and>
   distinct (sent_ids (snd (encode_many sample_encoder [sample_action, sample_action] 0)))"
  using fast_action_ids_distinct [of sample_encoder "[sample_action, sample_action]" 0] by (simp add: sample_encoder_def)

end
