(* ===== verification/Formatter.thy ===== *)
theory Formatter
  imports Codec_Api Py_Convert
begin

text \<open>
  \<^verbatim>\<open>aicl/sl/formatter.py\<close>: the text shown for a packet, its symbols, its flags and its vendor operands.
  The text of bytes and of strings inside values is that of \<^verbatim>\<open>repr\<close>, whose table of printable characters
  is the argument \<open>pr\<close>. Shown: every packet the encoder produced can be shown, and what the list of flags
  says of a checksum.
\<close>

section \<open>Texts of values\<close>

text \<open>\<^verbatim>\<open>f"{n:0wx}"\<close>: at least \<open>w\<close> characters with the sign.\<close>

fun hex_len :: "nat \<Rightarrow> nat" where
  "hex_len n = (if n < 16 then 1 else Suc (hex_len (n div 16)))"

declare hex_len.simps [simp del]

definition hex_format :: "nat \<Rightarrow> int \<Rightarrow> pystr" where
  "hex_format w n =
     (let m = nat \<bar>n\<bar>; v = (if n < 0 then w - 1 else w)
      in (if n < 0 then [45] else []) @ hex_width (max v (hex_len m)) m)"

text \<open>\<^verbatim>\<open>repr\<close> of bytes.\<close>

definition repr_byte :: "nat \<Rightarrow> byte \<Rightarrow> pystr" where
  "repr_byte q b =
     (let c = unat b in
      if c = q \<or> c = 92 then [92, c]
      else if c = 9 then [92, 116] else if c = 10 then [92, 110] else if c = 13 then [92, 114]
      else if c < 32 \<or> 127 \<le> c then [92, 120] @ hex_width 2 c
      else [c])"

definition repr_bytes :: "bytes \<Rightarrow> pystr" where
  "repr_bytes bs =
     (let q = (if 39 \<in> set bs \<and> 34 \<notin> set bs then 34 else 39)
      in 98 # q # concat (map (repr_byte q) bs) @ [q])"

text \<open>\<^verbatim>\<open>repr\<close> of the value of a symbol, and of a symbol.\<close>

fun repr_value :: "(nat \<Rightarrow> bool) \<Rightarrow> pyval \<Rightarrow> pystr res"
  and repr_symbol :: "(nat \<Rightarrow> bool) \<Rightarrow> symbol \<Rightarrow> pystr res" where
  "repr_value pr VNone = Inr (str ''None'')"
| "repr_value pr (VBool b) = Inr (if b then str ''True'' else str ''False'')"
| "repr_value pr (VInt n) = json_int n"
| "repr_value pr (VFloat x) = Inr (f64_repr x)"
| "repr_value pr (VStr s) = Inr (repr_str pr s)"
| "repr_value pr (VBytes b) = Inr (repr_bytes b)"
| "repr_value pr (VTuple t) =
     bindr (mapr json_int t) (\<lambda>ts.
       Inr (40 # join_with (str '', '') ts @ (if length ts = 1 then str '',)'' else [41])))"
| "repr_value pr (VList l) =
     bindr (mapr (repr_symbol pr) l) (\<lambda>ts. Inr (91 # join_with (str '', '') ts @ [93]))"
| "repr_value pr (VDict d) =
     bindr (mapr (\<lambda>(k, s). bindr (repr_symbol pr s) (\<lambda>t. Inr (repr_str pr k @ str '': '' @ t))) d)
       (\<lambda>ts. Inr (123 # join_with (str '', '') ts @ [125]))"
| "repr_symbol pr (Symbol tag v) =
     bindr (repr_value pr v) (\<lambda>t.
       Inr (str ''Symbol(tag=0x'' @ hex_format 2 tag @ str '', value='' @ t @ str '')''))"

section \<open>Symbols\<close>

definition tag_name :: "int \<Rightarrow> pystr" where
  "tag_name tag =
     (case map_of SYMBOL_TYPE_NAMES tag of
        Some n \<Rightarrow> str n
      | None \<Rightarrow> if is_vendor_tag tag then str ''vendor:0x'' @ hex_format 2 tag else str ''0x'' @ hex_format 2 tag)"

text \<open>
  \<^verbatim>\<open>format_symbol\<close>; iterating the value of a list symbol that holds no list of symbols fails at once or at
  its first element.
\<close>

fun format_symbol :: "(nat \<Rightarrow> bool) \<Rightarrow> symbol \<Rightarrow> pystr res" where
  "format_symbol pr (Symbol tag (VList items)) =
     (if tag = S_LIST then
        bindr (mapr (format_symbol pr) items) (\<lambda>ts. Inr (tag_name tag @ 91 # join_with (str '', '') ts @ [93]))
      else bindr (repr_value pr (VList items)) (\<lambda>t. Inr (tag_name tag @ 58 # t)))"
| "format_symbol pr (Symbol tag v) =
     (if tag = S_LIST then
        (if \<not> py_true v then Inr (tag_name tag @ str ''[]'')
         else if py_len v = None then Inl PyTypeError else Inl AttributeError)
      else case v of
          VStr s \<Rightarrow> Inr (tag_name tag @ 58 # 34 # s @ [34])
        | VNone \<Rightarrow> Inr (tag_name tag)
        | _ \<Rightarrow> bindr (repr_value pr v) (\<lambda>t. Inr (tag_name tag @ 58 # t)))"

section \<open>Flags\<close>

definition flag_if :: "int \<Rightarrow> int \<Rightarrow> string \<Rightarrow> pystr list" where
  "flag_if flags b name = (if flags AND b \<noteq> 0 then [str name] else [])"

definition flag_parts :: "int \<Rightarrow> pystr list" where
  "flag_parts flags =
     flag_if flags FLAG_REQUEST ''REQUEST'' @
     flag_if flags FLAG_RESPONSE ''RESPONSE'' @
     flag_if flags FLAG_STREAM_CHUNK ''STREAM_CHUNK'' @
     flag_if flags FLAG_STREAM_END ''STREAM_END'' @
     flag_if flags FLAG_ERROR ''ERROR'' @
     flag_if flags FLAG_CANCEL ''CANCEL'' @
     flag_if flags FLAG_HEARTBEAT ''HEARTBEAT'' @
     flag_if flags FLAG_COMPRESSED ''COMPRESSED'' @
     flag_if flags FLAG_ENCRYPTED ''ENCRYPTED'' @
     flag_if flags FLAG_TRACED ''TRACED'' @
     flag_if flags FLAG_PRIORITY_HIGH ''PRIORITY_HIGH'' @
     flag_if flags FLAG_PRIORITY_LOW ''PRIORITY_LOW'' @
     flag_if flags FLAG_EXTENDED ''EXTENDED'' @
     flag_if flags FLAG_HAS_BUFFER_REF ''HAS_BUFFER_REF'' @
     flag_if flags FLAG_FROZEN ''FROZEN'' @
     flag_if flags FLAG_HAS_TRAILER ''HAS_TRAILER''"

definition flag_names :: "int \<Rightarrow> pystr" where
  "flag_names flags =
     (let parts = flag_parts flags in if parts \<noteq> [] then join_with (str ''|'') parts else str ''none'')"

section \<open>Packets\<close>

definition line_if :: "bool \<Rightarrow> pystr \<Rightarrow> pystr list" where
  "line_if c l = (if c then [l] else [])"

definition identity_text :: "(nat \<Rightarrow> bool) \<Rightarrow> identity \<Rightarrow> pystr" where
  "identity_text pr i =
     str ''Identity(id_type='' @ dec_int (id_type i) @ str '', name='' @ repr_str pr (id_name i) @
     str '', instance_id='' @ dec_int (id_instance_id i) @ str '')''"

definition symbol_lines :: "(nat \<Rightarrow> bool) \<Rightarrow> pystr \<Rightarrow> string \<Rightarrow> symbol list \<Rightarrow> pystr list res" where
  "symbol_lines pr pad title syms =
     (if syms = [] then Inr []
      else bindr (mapr (format_symbol pr) syms) (\<lambda>ts. Inr ((pad @ str title) # map (\<lambda>t. pad @ str ''  '' @ t) ts)))"

text \<open>The lines in the order the code appends them; each property of the view is read, and may raise, in turn.\<close>

definition header_lines :: "(nat \<Rightarrow> bool) \<Rightarrow> pystr \<Rightarrow> packet_view \<Rightarrow> pystr list" where
  "header_lines pr pad view =
     [pad @ [0x2500, 0x2500] @ str '' AICL-BIN Packet '' @ [0x2500, 0x2500],
      pad @ str ''magic:     '' @ repr_bytes (take 4 (view_raw view)),
      pad @ str ''version:   0x'' @ hex_format 4 (view_version view),
      pad @ str ''flags:     0x'' @ hex_format 4 (view_flags view) @ str ''  '' @ flag_names (view_flags view)] @
     (case view_session_id view of
        None \<Rightarrow> []
      | Some b \<Rightarrow> line_if (b \<noteq> []) (pad @ str ''session:   '' @ bytes_hex b)) @
     [pad @ str ''message:   '' @ bytes_hex (view_message_id view),
      pad @ str ''correlation: '' @ bytes_hex (view_correlation_id view),
      pad @ str ''deadline:  '' @ dec_int (view_deadline_ms view) @ str ''ms'',
      pad @ str ''payload:   '' @ dec_int (view_payload_length view) @ str '' bytes'']"

definition route_lines :: "(nat \<Rightarrow> bool) \<Rightarrow> pystr \<Rightarrow> packet_view \<Rightarrow> pystr list res" where
  "route_lines pr pad view =
     bindr (view_origin view) (\<lambda>origin.
     bindr (view_targets view) (\<lambda>targets.
     bindr (view_intent view) (\<lambda>intent.
     bindr (symbol_lines pr pad ''symbols:'' (view_symbols view)) (\<lambda>symbols.
     bindr (view_response_symbols view) (\<lambda>rs.
     bindr (symbol_lines pr pad ''response_symbols:'' rs) (\<lambda>responses.
     bindr (view_confidence view) (\<lambda>confidence.
     bindr (view_capabilities view) (\<lambda>capabilities.
       let op = view_operation view;
           op_name = (case map_of OPERATION_NAMES op of Some n \<Rightarrow> str n | None \<Rightarrow> str ''0x'' @ hex_format 2 op)
       in Inr
         ((case origin of None \<Rightarrow> [] | Some i \<Rightarrow> [pad @ str ''origin:    '' @ identity_text pr i]) @
          line_if (targets \<noteq> []) (pad @ str ''targets:   '' @ join_with (str '', '') targets) @
          [pad @ str ''operation: [0x'' @ hex_format 2 op @ str ''] '' @ op_name] @
          line_if (intent \<noteq> []) (pad @ str ''intent:    '' @ intent) @ symbols @ responses @
          line_if (\<not> f64_eq confidence f64_one) (pad @ str ''confidence: '' @ f64_fixed4 confidence) @
          line_if (view_priority view \<noteq> 128) (pad @ str ''priority:  '' @ dec_int (view_priority view)) @
          line_if (capabilities \<noteq> []) (pad @ str ''capabilities: '' @ join_with (str '', '') capabilities)))))))))) "

definition detail_lines :: "pystr \<Rightarrow> packet_view \<Rightarrow> pystr list res" where
  "detail_lines pad view =
     bindr (view_schema_id view) (\<lambda>schema_id.
     bindr (view_error_info view) (\<lambda>err.
     bindr (view_metadata view) (\<lambda>metadata.
       Inr
         ((case view_qos view of
             None \<Rightarrow> []
           | Some q \<Rightarrow> [pad @ str ''qos:       pc='' @ dec_int (priority_class q) @ str '' rel='' @ dec_int (reliability q) @
                        str '' ord='' @ dec_int (ordering q)]) @
          (case view_stream_id view of
             None \<Rightarrow> []
           | Some b \<Rightarrow> line_if (b \<noteq> []) (pad @ str ''stream_id: '' @ bytes_hex b)) @
          (case view_partial_result view of
             None \<Rightarrow> []
           | Some b \<Rightarrow> line_if (b \<noteq> []) (pad @ str ''partial:   '' @ repr_bytes (take 40 b) @ str ''...'')) @
          line_if (schema_id \<noteq> []) (pad @ str ''schema_id: '' @ schema_id) @
          (case err of
             None \<Rightarrow> []
           | Some e \<Rightarrow>
               (pad @ str ''error:     ['' @ dec_int (error_code e) @ str ''] '' @ error_message e) #
               (case error_details e of
                  None \<Rightarrow> []
                | Some d \<Rightarrow> line_if (d \<noteq> []) (pad @ str ''  details: '' @ d))) @
          (case view_backpressure view of
             None \<Rightarrow> []
           | Some bp \<Rightarrow> [pad @ str ''backpressure: qd='' @ dec_int (queue_depth bp) @ str ''/'' @ dec_int (max_queue bp)]) @
          (if metadata = [] then []
           else (pad @ str ''metadata:'') # map (\<lambda>(k, v). pad @ str ''  '' @ k @ str '': '' @ v) metadata)))))"

definition format_view :: "(nat \<Rightarrow> bool) \<Rightarrow> packet_view \<Rightarrow> int \<Rightarrow> pystr res" where
  "format_view pr view indent =
     (let pad = concat (replicate (nat indent) (str ''  '')) in
      bindr (route_lines pr pad view) (\<lambda>route.
      bindr (detail_lines pad view) (\<lambda>details.
        Inr (join_with [10] (header_lines pr pad view @ route @ details)))))"

definition format_packet :: "(nat \<Rightarrow> bool) \<Rightarrow> bytes \<Rightarrow> int \<Rightarrow> pystr res" where
  "format_packet pr data indent = bindr (decode data) (\<lambda>v. format_view pr v indent)"

section \<open>Vendor operands\<close>

definition EXT_NAMES :: "(int \<times> string) list" where
  "EXT_NAMES =
    [(EXT_SESSION_ID, ''SESSION_ID''), (EXT_ORIGIN, ''ORIGIN''), (EXT_TARGETS, ''TARGETS''), (EXT_INTENT, ''INTENT''),
     (EXT_RESPONSE_SYMBOLS, ''RESPONSE_SYMBOLS''), (EXT_CONFIDENCE, ''CONFIDENCE''), (EXT_PRIORITY, ''PRIORITY''),
     (EXT_CAPABILITIES, ''CAPABILITIES''), (EXT_QOS, ''QOS''), (EXT_SECURITY, ''SECURITY''),
     (EXT_TRACE_ENTRY, ''TRACE_ENTRY''), (EXT_CHUNK_INFO, ''CHUNK_INFO''), (EXT_BLOB_REF, ''BLOB_REF''),
     (EXT_BACKPRESSURE, ''BACKPRESSURE''), (EXT_ERROR_INFO, ''ERROR_INFO''), (EXT_ACK_INFO, ''ACK_INFO''),
     (EXT_TARGET_CAPS, ''TARGET_CAPS''), (EXT_SCHEMA_ID, ''SCHEMA_ID''), (EXT_STREAM_ID, ''STREAM_ID''),
     (EXT_PARTIAL_RESULT, ''PARTIAL_RESULT''), (EXT_MODEL_INVOCATION, ''MODEL_INVOCATION''),
     (EXT_TOOL_INVOCATION, ''TOOL_INVOCATION''), (EXT_METADATA, ''METADATA'')]"

definition format_tlv :: "(nat \<Rightarrow> bool) \<Rightarrow> int \<Rightarrow> bytes \<Rightarrow> pystr" where
  "format_tlv pr ext_tag data =
     (let name = (case map_of EXT_NAMES ext_tag of Some n \<Rightarrow> str n | None \<Rightarrow> str ''VENDOR_0x'' @ hex_format 2 ext_tag);
          hex = name @ str '': '' @ take 40 (bytes_hex data)
      in if length data \<le> 16 then
           (case utf8_decode data of Inr s \<Rightarrow> name @ str '': '' @ repr_str pr s | Inl e \<Rightarrow> hex)
         else hex)"

section \<open>Lemmas\<close>

lemma json_int_small: "\<bar>n\<bar> < 2 ^ 64 \<Longrightarrow> \<exists>t. json_int n = Inr t"
proof -
  assume "\<bar>n\<bar> < 2 ^ 64"
  then have "nat \<bar>n\<bar> < 10 ^ Suc 19" by simp
  from length_dec [OF this] show ?thesis by (simp add: json_int_def)
qed

lemma wf_value_int: "wf_value tag (VInt n) \<Longrightarrow> \<bar>n\<bar> < 2 ^ 64"
  by (auto simp: FIXED_STRUCT_def split: if_splits)

lemma mapr_returns: "(\<And>x. x \<in> set xs \<Longrightarrow> \<exists>y. f x = Inr y) \<Longrightarrow> \<exists>ys. mapr f xs = Inr ys"
  by (induction xs) fastforce+

lemma repr_total:
  "wf_value tag v \<Longrightarrow> \<exists>t. repr_value pr v = Inr t" and repr_symbol_total: "wf_symbol s \<Longrightarrow> \<exists>t. repr_symbol pr s = Inr t"
proof (induction v and s arbitrary: tag)
  case (VInt n)
  then show ?case using json_int_small wf_value_int by fastforce
next
  case (VTuple t)
  then have "\<exists>y. json_int n = Inr y" if "n \<in> set t" for n
    using that json_int_small [of n] by (auto split: list.splits)
  then show ?case using mapr_returns [of t json_int] by auto
next
  case (VList l)
  then have "\<exists>y. repr_symbol pr x = Inr y" if "x \<in> set l" for x using that by (auto simp: list_all_iff)
  then show ?case using mapr_returns [of l "repr_symbol pr"] by auto
next
  case (VDict d)
  let ?f = "\<lambda>(k, s). bindr (repr_symbol pr s) (\<lambda>t. Inr (repr_str pr k @ str '': '' @ t))"
  have "\<exists>y. ?f kv = Inr y" if "kv \<in> set d" for kv
  proof -
    obtain k x where kv: "kv = (k, x)" by fastforce
    with that VDict obtain t where "repr_symbol pr x = Inr t" by (fastforce simp: list_all_iff)
    then show ?thesis by (simp add: kv)
  qed
  then show ?case using mapr_returns [of d ?f] by auto
next
  case (Symbol tag v)
  then show ?case by fastforce
qed simp_all

lemma format_symbol_total: "wf_symbol s \<Longrightarrow> \<exists>t. format_symbol pr s = Inr t"
proof (induction pr s rule: format_symbol.induct [case_names items none bool int float str bytes tuple dict])
  case (items pr tag xs)
  then have "\<exists>y. format_symbol pr x = Inr y" if "x \<in> set xs" for x using that by (auto simp: list_all_iff)
  then show ?case using items mapr_returns [of xs "format_symbol pr"] by auto
next
  case (int pr tag n)
  then show ?case using repr_total [of tag "VInt n" pr] by (auto simp: FIXED_STRUCT_def split: if_splits)
next
  case (tuple pr tag t)
  then show ?case using repr_total [of tag "VTuple t" pr] by auto
next
  case (dict pr tag d)
  then show ?case using repr_total [of tag "VDict d" pr] by auto
qed (auto simp: FIXED_STRUCT_def is_vendor_tag_def split: if_splits)

section \<open>Properties\<close>

text \<open>The two names of the bit 0x0100 are listed together: whatever carries a checksum is shown as encrypted.\<close>

lemma flag_parts_trailer: "str ''ENCRYPTED'' \<in> set (flag_parts f) \<longleftrightarrow> str ''HAS_TRAILER'' \<in> set (flag_parts f)"
  by (simp add: flag_parts_def flag_if_def str_eq)

text \<open>
  C22. Every packet that the encoder produced from fields the wire format carries can be shown at any
  indentation: no property the text reads raises. The text starts with the title line and holds the
  lines of the header, with the names of the flags that were set and the identifiers in hexadecimal.
\<close>

theorem encoded_packet_shown:
  assumes "encode p checksum = Inr bs" "core_operands p" "int (length bs) \<le> MAX_PACKET_SIZE" "plain_packet p"
  shows "\<exists>v rest. decode bs = Inr v \<and>
    format_packet pr bs indent = Inr (join_with [10]
      (header_lines pr (concat (replicate (nat indent) (str ''  ''))) v @ rest)) \<and>
    view_flags v = wire_flags p checksum \<and> Some (view_message_id v) = pkt_message_id p"
proof -
  obtain v where v: "decode bs = Inr v" "view_symbols v = pkt_symbols p"
    "view_flags v = wire_flags p checksum" "Some (view_message_id v) = pkt_message_id p"
    and f: "\<forall>(tag, r) \<in> set (ext_fields p). r = Inr (view_ext_all v tag)"
    using decode_encoded [OF assms(1-3)] by (auto simp: view_flags_def view_message_id_def)
  have "\<exists>ls. symbol_lines pr pad title syms = Inr ls" if "list_all wf_symbol syms" for pad title syms
    using that mapr_returns [of syms "format_symbol pr"] format_symbol_total by (auto simp: symbol_lines_def list_all_iff)
  note syms = this
  have "\<exists>ls. route_lines pr pad v = Inr ls" for pad
  proof -
    obtain a where "symbol_lines pr pad ''symbols:'' (pkt_symbols p) = Inr a"
      using syms core_operandsD(1) [OF assms(2)] by blast
    moreover obtain b where "symbol_lines pr pad ''response_symbols:'' (pkt_response_symbols p) = Inr b"
      using syms assms(4) unfolding plain_packet_def by blast
    ultimately show ?thesis
      using view_names_read [OF f assms(4)] view_records_read(8) [OF f] view_scalars_read(1) [OF f] assms(4) v(2)
      by (simp add: route_lines_def plain_packet_def Let_def)
  qed
  moreover have "\<exists>ls. detail_lines pad v = Inr ls" for pad
    using view_names_read [OF f assms(4)] view_records_read [OF f] view_scalars_read [OF f] assms(4)
    by (simp add: detail_lines_def plain_packet_def bindr_def)
  ultimately obtain route details where
    "route_lines pr (concat (replicate (nat indent) (str ''  ''))) v = Inr route"
    "detail_lines (concat (replicate (nat indent) (str ''  ''))) v = Inr details" by blast
  then have "format_packet pr bs indent = Inr (join_with [10]
      (header_lines pr (concat (replicate (nat indent) (str ''  ''))) v @ route @ details))"
    using v(1) by (simp add: format_packet_def format_view_def Let_def)
  then show ?thesis using v by blast
qed

theorem encoded_packet_shown_witness:
  "\<exists>bs t. encode sample_packet True = Inr bs \<and> format_packet (\<lambda>_. False) bs 0 = Inr t"
proof -
  obtain bs where bs: "encode sample_packet True = Inr bs" "int (length bs) \<le> MAX_PACKET_SIZE"
    by (rule sample_encodes)
  from encoded_packet_shown [OF bs(1) sample_core(1) bs(2) sample_core(2)] bs(1) show ?thesis by blast
qed

end
