(* ===== verification/Core_Codec.thy ===== *)
theory Core_Codec
  imports Codec_Api Native
begin

text \<open>
  The native core that the SDK loads: \<^verbatim>\<open>decode\<close> and \<^verbatim>\<open>to_packet\<close> of \<^verbatim>\<open>core-rust/src/codec.rs\<close> with the
  operands of \<^verbatim>\<open>operand.rs\<close> and the status codes of \<^verbatim>\<open>ffi.rs\<close>. A panic is an outcome of its own; behind the C
  interface it ends the process. Memory and stack are unlimited here: a count read from a packet reserves room for
  as many operands, and every level of nesting takes a frame of the stack. The CRC of the crate \<^verbatim>\<open>crc32fast\<close> is an
  argument, its big-endian reads (\<^verbatim>\<open>byteorder\<close>) are those of \<^verbatim>\<open>struct\<close>. Shown: which packets that the Python codec
  encodes the core reads, with the same fields and operands, and with which error it refuses the others (a payload over
  its limit, the trailer flag without a trailer, an opcode that is not assigned); and exactly which bytes make it panic.
\<close>

unbundle bit_operations_syntax

section \<open>Outcomes\<close>

text \<open>
  The error codes of \<^verbatim>\<open>error.rs\<close> that decoding uses. \<open>NestedTooDeep\<close> stands for the bound of the model's recursion
  and is shown never to be returned.
\<close>

datatype error_code =
    BadHeader | Truncated | BadChecksum | UnknownOpcode | InvalidUtf8 | InvalidBool | PayloadTooLarge
  | VarintOverflow | UnsupportedVersion | TrailingBytes | NestedTooDeep

datatype core_exn = CoreError error_code | Panic

type_synonym 'a core = "core_exn + 'a"

text \<open>\<^verbatim>\<open>aicl_error_code::from\<close>.\<close>

definition status_of :: "error_code \<Rightarrow> int" where
  "status_of e =
     (case e of
        BadHeader \<Rightarrow> 1 | UnsupportedVersion \<Rightarrow> 2 | Truncated \<Rightarrow> 3 | BadChecksum \<Rightarrow> 4 | PayloadTooLarge \<Rightarrow> 5
      | UnknownOpcode \<Rightarrow> 6 | InvalidBool \<Rightarrow> 15 | InvalidUtf8 \<Rightarrow> 16 | VarintOverflow \<Rightarrow> 17 | TrailingBytes \<Rightarrow> 18
      | NestedTooDeep \<Rightarrow> 100)"

section \<open>Operands\<close>

datatype operand_type =
    T_I8 | T_I16 | T_I32 | T_I64 | T_U8 | T_U16 | T_U32 | T_U64 | T_F32 | T_F64 | T_Bool | T_Str | T_Bytes
  | T_Uuid | T_Handle | T_Ref | T_BufRef | T_List | T_Map | T_Null | T_TsMs | T_DurationMs | T_Vendor byte

text \<open>\<^verbatim>\<open>OperandType::from_u8\<close>: a reserved tag is taken for Null.\<close>

definition OPERAND_TYPES :: "(byte \<times> operand_type) list" where
  "OPERAND_TYPES =
    [(0x01, T_I8), (0x02, T_I16), (0x03, T_I32), (0x04, T_I64), (0x05, T_U8), (0x06, T_U16), (0x07, T_U32),
     (0x08, T_U64), (0x09, T_F32), (0x0A, T_F64), (0x10, T_Bool), (0x11, T_Str), (0x12, T_Bytes), (0x13, T_Uuid),
     (0x14, T_Handle), (0x15, T_Ref), (0x16, T_BufRef), (0x17, T_List), (0x18, T_Map), (0x19, T_Null),
     (0x1A, T_TsMs), (0x1B, T_DurationMs)]"

definition operand_type_from_u8 :: "byte \<Rightarrow> operand_type" where
  "operand_type_from_u8 v =
     (case map_of OPERAND_TYPES v of
        Some t \<Rightarrow> t
      | None \<Rightarrow> if 0x80 \<le> uint v then T_Vendor v else T_Null)"

text \<open>
  \<^verbatim>\<open>Operand\<close>. A map is a \<^verbatim>\<open>BTreeMap\<close>; decoding only inserts into it, so that an association list updated by key
  represents it, in any order. Floats are their bits.
\<close>

datatype operand =
    Op_I8 "8 word" | Op_I16 "16 word" | Op_I32 "32 word" | Op_I64 "64 word"
  | Op_U8 "8 word" | Op_U16 "16 word" | Op_U32 "32 word" | Op_U64 "64 word"
  | Op_F32 f32 | Op_F64 f64 | Op_Bool bool | Op_Str pystr | Op_Bytes bytes | Op_Uuid bytes
  | Op_Handle "64 word" | Op_Ref "16 word" | Op_BufRef "64 word" "32 word" "32 word"
  | Op_List "operand list" | Op_Map "(pystr \<times> operand) list" | Op_Null
  | Op_TsMs "64 word" | Op_DurationMs "32 word" | Op_Vendor byte bytes

section \<open>Decoding operands\<close>

text \<open>\<^verbatim>\<open>&data[pos..]\<close>.\<close>

definition tail_from :: "bytes \<Rightarrow> nat \<Rightarrow> bytes core" where
  "tail_from data pos = (if pos \<le> length data then Inr (drop pos data) else Inl Panic)"

text \<open>\<^verbatim>\<open>decode_varint\<close>, with the number of bytes consumed.\<close>

fun core_varint_loop :: "bytes \<Rightarrow> nat \<Rightarrow> 32 word \<Rightarrow> nat \<Rightarrow> (32 word \<times> nat) core" where
  "core_varint_loop [] i v shift = Inl (CoreError Truncated)"
| "core_varint_loop (b # bs) i v shift =
     (if i \<ge> 4 then Inl (CoreError VarintOverflow)
      else
        let v' = v OR push_bit shift (ucast (b AND 0x7F)) in
        if b AND 0x80 = 0 then Inr (v', i + 1) else core_varint_loop bs (i + 1) v' (shift + 7))"

definition core_varint :: "bytes \<Rightarrow> (32 word \<times> nat) core" where
  "core_varint data = core_varint_loop data 0 0 0"

definition need_bytes :: "bytes \<Rightarrow> nat \<Rightarrow> nat \<Rightarrow> unit core" where
  "need_bytes data pos n = (if length data < pos + n then Inl (CoreError Truncated) else Inr ())"

definition from_utf8 :: "bytes \<Rightarrow> pystr core" where
  "from_utf8 bs = (case utf8_decode bs of Inl _ \<Rightarrow> Inl (CoreError InvalidUtf8) | Inr s \<Rightarrow> Inr s)"

definition be_word :: "bytes \<Rightarrow> 'a::len word" where
  "be_word bs = of_nat (be_val bs)"

text \<open>
  The index of a nested operand, \<^verbatim>\<open>idx * 1000 + i\<close> on 32 bits: with overflow checks, as in a debug build, an
  overflow panics, otherwise it wraps.
\<close>

definition child_idx :: "bool \<Rightarrow> nat \<Rightarrow> nat \<Rightarrow> nat core" where
  "child_idx checks idx i =
     (if checks \<and> 2 ^ 32 \<le> idx * 1000 + i then Inl Panic else Inr ((idx * 1000 + i) mod 2 ^ 32))"

text \<open>\<^verbatim>\<open>for i in 0..count\<close>, with the running position.\<close>

primrec core_loop :: "(nat \<Rightarrow> nat \<Rightarrow> 'e + 'a \<times> nat) \<Rightarrow> nat \<Rightarrow> nat \<Rightarrow> nat \<Rightarrow> 'e + 'a list \<times> nat" where
  "core_loop f 0 i pos = Inr ([], pos)"
| "core_loop f (Suc n) i pos =
     bindr (f i pos) (\<lambda>(x, p). bindr (core_loop f n (i + 1) p) (\<lambda>(xs, q). Inr (x # xs, q)))"

definition operand_at :: "(bytes \<Rightarrow> nat \<Rightarrow> (operand \<times> nat) core) \<Rightarrow> bytes \<Rightarrow> nat \<Rightarrow> nat \<Rightarrow> (operand \<times> nat) core" where
  "operand_at rec data idx pos =
     bindr (tail_from data pos) (\<lambda>d. bindr (rec d idx) (\<lambda>(x, c). Inr (x, pos + c)))"

text \<open>A run of bytes behind its length: the bytes and the position after them.\<close>

definition counted_bytes :: "bytes \<Rightarrow> nat \<Rightarrow> (bytes \<times> nat) core" where
  "counted_bytes data pos =
     bindr (tail_from data pos) (\<lambda>d.
     bindr (core_varint d) (\<lambda>(n, consumed).
       let p = pos + consumed; e = p + unat n in
       bindr (need_bytes data p (unat n)) (\<lambda>_. Inr (slice data p e, e))))"

definition entry_at ::
  "(bytes \<Rightarrow> nat \<Rightarrow> (operand \<times> nat) core) \<Rightarrow> bool \<Rightarrow> bytes \<Rightarrow> nat \<Rightarrow> nat \<Rightarrow> nat \<Rightarrow> ((pystr \<times> operand) \<times> nat) core" where
  "entry_at rec checks data idx i pos =
     bindr (counted_bytes data pos) (\<lambda>(kb, p).
     bindr (from_utf8 kb) (\<lambda>key.
     bindr (child_idx checks idx i) (\<lambda>j.
     bindr (operand_at rec data j p) (\<lambda>(v, q). Inr ((key, v), q)))))"

definition fixed_operand :: "nat \<Rightarrow> (bytes \<Rightarrow> operand) \<Rightarrow> bytes \<Rightarrow> (operand \<times> nat) core" where
  "fixed_operand n mk data = bindr (need_bytes data 1 n) (\<lambda>_. Inr (mk (slice data 1 (1 + n)), 1 + n))"

text \<open>
  The body of \<^verbatim>\<open>decode_operand\<close>, with its recursive calls as the argument \<open>rec\<close>. (The last arm of the source, for
  tags of no type, cannot be reached.)
\<close>

definition core_operand_step ::
  "(bytes \<Rightarrow> nat \<Rightarrow> (operand \<times> nat) core) \<Rightarrow> bool \<Rightarrow> bytes \<Rightarrow> nat \<Rightarrow> (operand \<times> nat) core" where
  "core_operand_step rec checks data idx =
     (if data = [] then Inl (CoreError Truncated)
      else case operand_type_from_u8 (data ! 0) of
        T_Null \<Rightarrow> Inr (Op_Null, 1)
      | T_I8 \<Rightarrow> fixed_operand 1 (\<lambda>b. Op_I8 (be_word b)) data
      | T_I16 \<Rightarrow> fixed_operand 2 (\<lambda>b. Op_I16 (be_word b)) data
      | T_I32 \<Rightarrow> fixed_operand 4 (\<lambda>b. Op_I32 (be_word b)) data
      | T_I64 \<Rightarrow> fixed_operand 8 (\<lambda>b. Op_I64 (be_word b)) data
      | T_U8 \<Rightarrow> fixed_operand 1 (\<lambda>b. Op_U8 (be_word b)) data
      | T_U16 \<Rightarrow> fixed_operand 2 (\<lambda>b. Op_U16 (be_word b)) data
      | T_U32 \<Rightarrow> fixed_operand 4 (\<lambda>b. Op_U32 (be_word b)) data
      | T_U64 \<Rightarrow> fixed_operand 8 (\<lambda>b. Op_U64 (be_word b)) data
      | T_F32 \<Rightarrow> fixed_operand 4 (\<lambda>b. Op_F32 (be_word b)) data
      | T_F64 \<Rightarrow> fixed_operand 8 (\<lambda>b. Op_F64 (be_word b)) data
      | T_Bool \<Rightarrow>
          bindr (need_bytes data 1 1) (\<lambda>_.
            if uint (data ! 1) > 1 then Inl (CoreError InvalidBool) else Inr (Op_Bool (data ! 1 \<noteq> 0), 2))
      | T_Str \<Rightarrow> bindr (counted_bytes data 1) (\<lambda>(raw, e). bindr (from_utf8 raw) (\<lambda>s. Inr (Op_Str s, e)))
      | T_Bytes \<Rightarrow> bindr (counted_bytes data 1) (\<lambda>(raw, e). Inr (Op_Bytes raw, e))
      | T_Uuid \<Rightarrow> fixed_operand 16 Op_Uuid data
      | T_Handle \<Rightarrow> fixed_operand 8 (\<lambda>b. Op_Handle (be_word b)) data
      | T_Ref \<Rightarrow> fixed_operand 2 (\<lambda>b. Op_Ref (be_word b)) data
      | T_BufRef \<Rightarrow>
          fixed_operand 16 (\<lambda>b. Op_BufRef (be_word (slice b 0 8)) (be_word (slice b 8 12)) (be_word (slice b 12 16))) data
      | T_List \<Rightarrow>
          bindr (tail_from data 1) (\<lambda>d. bindr (core_varint d) (\<lambda>(n, consumed).
          bindr (core_loop (\<lambda>i p. bindr (child_idx checks idx i) (\<lambda>j. operand_at rec data j p)) (unat n) 0 (1 + consumed))
            (\<lambda>(items, e). Inr (Op_List items, e))))
      | T_Map \<Rightarrow>
          bindr (tail_from data 1) (\<lambda>d. bindr (core_varint d) (\<lambda>(n, consumed).
          bindr (core_loop (entry_at rec checks data idx) (unat n) 0 (1 + consumed))
            (\<lambda>(kvs, e). Inr (Op_Map (dict_of kvs), e))))
      | T_TsMs \<Rightarrow> fixed_operand 8 (\<lambda>b. Op_TsMs (be_word b)) data
      | T_DurationMs \<Rightarrow> fixed_operand 4 (\<lambda>b. Op_DurationMs (be_word b)) data
      | T_Vendor v \<Rightarrow> bindr (counted_bytes data 1) (\<lambda>(raw, e). Inr (Op_Vendor v raw, e)))"

text \<open>Every level of nesting consumes a byte: as many levels as there are bytes, and one more, are enough.\<close>

primrec core_operand_levels :: "nat \<Rightarrow> bool \<Rightarrow> bytes \<Rightarrow> nat \<Rightarrow> (operand \<times> nat) core" where
  "core_operand_levels 0 checks data idx = Inl (CoreError NestedTooDeep)"
| "core_operand_levels (Suc n) checks data idx = core_operand_step (core_operand_levels n checks) checks data idx"

definition core_operand :: "bool \<Rightarrow> bytes \<Rightarrow> nat \<Rightarrow> (operand \<times> nat) core" where
  "core_operand checks data idx = core_operand_levels (Suc (length data)) checks data idx"

text \<open>The operands of a payload: \<^verbatim>\<open>decode_operand(&payload[pos..], i)\<close> for every \<^verbatim>\<open>i\<close> below the count.\<close>

definition payload_count :: "bytes \<Rightarrow> (32 word \<times> nat) core" where
  "payload_count payload = bindr (tail_from payload 1) core_varint"

definition payload_operands_core :: "bool \<Rightarrow> bytes \<Rightarrow> (operand list \<times> nat) core" where
  "payload_operands_core checks payload =
     bindr (payload_count payload) (\<lambda>(count, varint_len).
       core_loop (operand_at (core_operand checks) payload) (unat count) 0 (1 + varint_len))"

section \<open>The same values\<close>

text \<open>What an operand of the core is as a symbol of the Python codec.\<close>

fun symbol_of :: "operand \<Rightarrow> symbol" where
  "symbol_of (Op_I8 w) = Symbol S_I8 (VInt (sint w))"
| "symbol_of (Op_I16 w) = Symbol S_I16 (VInt (sint w))"
| "symbol_of (Op_I32 w) = Symbol S_I32 (VInt (sint w))"
| "symbol_of (Op_I64 w) = Symbol S_I64 (VInt (sint w))"
| "symbol_of (Op_U8 w) = Symbol S_U8 (VInt (uint w))"
| "symbol_of (Op_U16 w) = Symbol S_U16 (VInt (uint w))"
| "symbol_of (Op_U32 w) = Symbol S_U32 (VInt (uint w))"
| "symbol_of (Op_U64 w) = Symbol S_U64 (VInt (uint w))"
| "symbol_of (Op_F32 w) = Symbol S_F32 (VFloat (f32_to_f64 w))"
| "symbol_of (Op_F64 w) = Symbol S_F64 (VFloat w)"
| "symbol_of (Op_Bool b) = Symbol S_BOOL (VBool b)"
| "symbol_of (Op_Str s) = Symbol S_STRING (VStr s)"
| "symbol_of (Op_Bytes b) = Symbol S_BYTES (VBytes b)"
| "symbol_of (Op_Uuid b) = Symbol S_UUID (VBytes b)"
| "symbol_of (Op_Handle w) = Symbol S_HANDLE (VInt (uint w))"
| "symbol_of (Op_Ref w) = Symbol S_REF (VInt (uint w))"
| "symbol_of (Op_BufRef i f n) = Symbol S_BUF_REF (VTuple [uint i, uint f, uint n])"
| "symbol_of (Op_List xs) = Symbol S_LIST (VList (map symbol_of xs))"
| "symbol_of (Op_Map d) = Symbol S_MAP (VDict (map (\<lambda>(k, x). (k, symbol_of x)) d))"
| "symbol_of Op_Null = Symbol S_NULL VNone"
| "symbol_of (Op_TsMs w) = Symbol S_TS_MS (VInt (sint w))"
| "symbol_of (Op_DurationMs w) = Symbol S_DURATION_MS (VInt (uint w))"
| "symbol_of (Op_Vendor v b) = Symbol (uint v) (VBytes b)"

text \<open>A result of the core stands for a symbol and a number of bytes; with overflow checks it may be a panic.\<close>

definition reads :: "bool \<Rightarrow> ('a \<Rightarrow> 'b) \<Rightarrow> ('a \<times> nat) core \<Rightarrow> 'b \<Rightarrow> nat \<Rightarrow> bool" where
  "reads checks f r s n = ((\<exists>x. r = Inr (x, n) \<and> f x = s) \<or> checks \<and> r = Inl Panic)"

lemma readsI: "r = Inr (x, n) \<Longrightarrow> f x = s \<Longrightarrow> reads checks f r s n"
  by (simp add: reads_def)

lemma core_varint_loop_reads:
  assumes "decode_varint_loop k data pos v shift = Inr (v', p)" "i + k = 4"
  shows "core_varint_loop (drop pos data) i (word_of_int v) shift = Inr (word_of_int v', i + (p - pos)) \<and> pos < p"
  using assms
proof (induction k arbitrary: pos v shift i)
  case (Suc k)
  let ?b = "data ! pos"
  from Suc.prems(1) have pos: "pos < length data" by (cases "length data \<le> pos") (simp_all add: decode_varint_loop.simps)
  then have drop: "drop pos data = ?b # drop (pos + 1) data" by (simp add: Cons_nth_drop_Suc)
  have bits: "word_of_int (v OR push_bit shift (uint ?b AND 0x7F)) = word_of_int v OR push_bit shift (ucast (?b AND 0x7F) :: 32 word)"
    by (simp only: word_wi_log_defs(3) [symmetric] of_int_push_bit ucast_eq uint_and) simp
  have more: "?b AND 0x80 = 0 \<longleftrightarrow> uint ?b AND 0x80 = 0"
    by (simp add: word_uint_eq_iff uint_and)
  show ?case
  proof (cases "uint ?b AND 0x80 = 0")
    case True
    then show ?thesis using Suc.prems pos bits more by (auto simp: drop Let_def decode_varint_loop.simps)
  next
    case False
    then have "decode_varint_loop k data (pos + 1) (v OR push_bit shift (uint ?b AND 0x7F)) (shift + 7) = Inr (v', p)"
      using Suc.prems(1) pos by (simp add: Let_def decode_varint_loop.simps)
    from Suc.IH [OF this, of "i + 1"] Suc.prems(2) show ?thesis
      using False more bits by (auto simp: drop Let_def)
  qed
qed (simp add: decode_varint_loop.simps)

lemma core_varint_reads:
  "decode_varint data pos = Inr (v, p) \<Longrightarrow> core_varint (drop pos data) = Inr (word_of_int v, p - pos)"
  using core_varint_loop_reads [of 4 data pos 0 0 v p 0] by (simp add: decode_varint_def core_varint_def)

lemma core_varint_nat:
  assumes "decode_varint data pos = Inr (v, p)"
  shows "core_varint (drop pos data) = Inr (word_of_int v, p - pos)" "unat (word_of_int v :: 32 word) = nat v"
    "pos < p" "p \<le> length data"
  using core_varint_reads [OF assms] decode_varint_bounds [OF assms]
  by (auto simp: varint_ok_def unat_eq_nat_uint uint_word_of_int)


lemma reads_bindr:
  assumes "reads checks f r s n" "\<And>x. r = Inr (x, n) \<Longrightarrow> f x = s \<Longrightarrow> reads checks g (h (x, n)) t m"
  shows "reads checks g (bindr r h) t m"
  using assms by (auto simp: reads_def)

lemma tail_from_le: "pos \<le> length data \<Longrightarrow> tail_from data pos = Inr (drop pos data)"
  by (simp add: tail_from_def)

lemma slice_drop: "slice (drop k data) a b = slice data (k + a) (k + b)"
  by (simp add: slice_def add.commute)

lemma reads_child:
  assumes "\<And>j. reads checks f (h j) s n"
  shows "reads checks f (bindr (child_idx checks idx i) h) s n"
proof (cases "child_idx checks idx i")
  case (Inl e)
  then show ?thesis by (auto simp: reads_def child_idx_def split: if_splits)
qed (use assms in simp)

text \<open>
  The decoders of operands and of map entries of the Python codec, at an absolute position, and those of the
  core, on the rest of the buffer from \<open>k\<close> on.
\<close>

definition same_reading ::
  "bool \<Rightarrow> bytes \<Rightarrow> nat \<Rightarrow> ('a \<Rightarrow> 'b) \<Rightarrow> (nat \<Rightarrow> ('b \<times> nat) res) \<Rightarrow> (nat \<Rightarrow> nat \<Rightarrow> ('a \<times> nat) core) \<Rightarrow> bool" where
  "same_reading checks data k f d c =
     (\<forall>p s q i. k < p \<longrightarrow> d p = Inr (s, q) \<longrightarrow> p < q \<and> q \<le> length data \<and> reads checks f (c i (p - k)) s (q - k))"

lemma same_readingD:
  "same_reading checks data k f d c \<Longrightarrow> k < p \<Longrightarrow> d p = Inr (s, q) \<Longrightarrow>
     p < q \<and> q \<le> length data \<and> reads checks f (c i (p - k)) s (q - k)"
  by (simp add: same_reading_def)

lemma core_loop_reads:
  assumes "same_reading checks data k f d c" "repeat_dec d n p = Inr (xs, q)" "k < p" "p \<le> length data"
  shows "reads checks (map f) (core_loop c n i (p - k)) xs (q - k) \<and> p \<le> q \<and> q \<le> length data"
  using assms(2-)
proof (induction n arbitrary: p i xs)
  case 0
  then show ?case by (auto simp: reads_def)
next
  case (Suc n)
  then obtain x p' ys where d: "d p = Inr (x, p')" "repeat_dec d n p' = Inr (ys, q)" "xs = x # ys"
    by (auto simp: bindr_eq_Inr)
  from same_readingD [OF assms(1) Suc.prems(2) d(1)] have here: "p < p'" "p' \<le> length data"
    "reads checks f (c i (p - k)) x (p' - k)" by auto
  from Suc.IH [OF d(2), of "i + 1"] here Suc.prems(2) have rest: "reads checks (map f) (core_loop c n (i + 1) (p' - k)) ys (q - k)"
    "p' \<le> q" "q \<le> length data" by auto
  from here(3) have "reads checks (map f) (core_loop c (Suc n) i (p - k)) xs (q - k)"
    unfolding core_loop.simps
    by (rule reads_bindr) (use rest(1) in \<open>auto simp: reads_def d(3)\<close>)
  with here rest show ?case by simp
qed

lemma counted_bytes_reads:
  assumes "take_prefixed data pos = Inr (raw, e)" "k \<le> pos" "pos \<le> length data"
  shows "counted_bytes (drop k data) (pos - k) = Inr (raw, e - k)"
proof -
  from assms(1) obtain len p where d: "decode_varint data pos = Inr (len, p)"
    and e: "e = p + nat len" "e \<le> length data" and raw: "raw = slice data p e"
    by (auto simp: take_prefixed_def res_simps Let_def split: if_splits)
  note v = core_varint_nat [OF d]
  have "counted_bytes (drop k data) (pos - k) = Inr (slice (drop k data) (p - k) (e - k), e - k)"
    unfolding counted_bytes_def using assms v e
    by (simp add: tail_from_le Let_def need_bytes_def)
  then show ?thesis using assms(2) v(3) e(1) raw by (simp add: slice_drop)
qed

text \<open>Decoders of operands that agree behind position \<open>k\<close>.\<close>

definition same_operands ::
  "bool \<Rightarrow> bytes \<Rightarrow> nat \<Rightarrow> (nat \<Rightarrow> (symbol \<times> nat) res) \<Rightarrow> (bytes \<Rightarrow> nat \<Rightarrow> (operand \<times> nat) core) \<Rightarrow> bool" where
  "same_operands checks data k rec crec =
     (\<forall>p s q i. k < p \<longrightarrow> rec p = Inr (s, q) \<longrightarrow> p < q \<and> q \<le> length data \<and> reads checks symbol_of (crec (drop p data) i) s (q - p))"

lemma operand_at_reads:
  assumes "same_operands checks data k rec crec" "k < p" "p \<le> length data" "rec p = Inr (s, q)"
  shows "p < q \<and> q \<le> length data \<and> reads checks symbol_of (operand_at crec (drop k data) j (p - k)) s (q - k)"
proof -
  from assms have r: "p < q" "q \<le> length data" "reads checks symbol_of (crec (drop p data) j) s (q - p)"
    by (auto simp: same_operands_def)
  then show ?thesis using assms(2,3)
    by (auto simp: operand_at_def tail_from_le reads_def)
qed

lemma same_list:
  assumes "same_operands checks data k rec crec"
  shows "same_reading checks data k symbol_of rec
    (\<lambda>i p. bindr (child_idx checks idx i) (\<lambda>j. operand_at crec (drop k data) j p))"
  unfolding same_reading_def
proof (intro allI impI)
  fix p s q i
  assume a: "k < p" "rec p = Inr (s, q)"
  then have "p < q" "q \<le> length data" using assms by (auto simp: same_operands_def)
  moreover from this have "p \<le> length data" by simp
  ultimately show "p < q \<and> q \<le> length data \<and>
      reads checks symbol_of (bindr (child_idx checks idx i) (\<lambda>j. operand_at crec (drop k data) j (p - k))) s (q - k)"
    using operand_at_reads [OF assms a(1) _ a(2)] by (blast intro: reads_child)
qed

lemma same_entries:
  assumes "same_operands checks data k rec crec"
  shows "same_reading checks data k (\<lambda>(key, x). (key, symbol_of x)) (decode_entry rec data) (entry_at crec checks (drop k data) idx)"
  unfolding same_reading_def
proof (intro allI impI)
  fix p s q i
  assume a: "k < p" "decode_entry rec data p = Inr (s, q)"
  then obtain kb p' key item where d: "take_prefixed data p = Inr (kb, p')" "utf8_decode kb = Inr key"
    "rec p' = Inr (item, q)" "s = (key, item)"
    by (auto simp: decode_entry_def bindr_eq_Inr)
  from take_prefixed_bounds [OF d(1)] have p: "p < p'" "p' \<le> length data" by auto
  have c: "counted_bytes (drop k data) (p - k) = Inr (kb, p' - k)"
    by (rule counted_bytes_reads [OF d(1)]) (use a(1) p in auto)
  have "k < p'" using a(1) p by simp
  note r = operand_at_reads [OF assms this p(2) d(3)]
  let ?f = "\<lambda>(key, x). (key, symbol_of x)"
  have "reads checks ?f (bindr (operand_at crec (drop k data) j (p' - k)) (\<lambda>(v, q). Inr ((key, v), q))) s (q - k)" for j
    using r [of j] by (auto simp: reads_def d(4))
  then have "reads checks ?f (entry_at crec checks (drop k data) idx i (p - k)) s (q - k)"
    by (auto simp: entry_at_def c from_utf8_def d(2) intro: reads_child)
  then show "p < q \<and> q \<le> length data \<and> reads checks ?f (entry_at crec checks (drop k data) idx i (p - k)) s (q - k)"
    using r [of 0] p(1) by simp
qed


text \<open>Words read from bytes.\<close>

lemma uint_be_word:
  assumes "LENGTH('a::len) = 8 * length bs"
  shows "uint (be_word bs :: 'a word) = unpack_u bs"
proof -
  have "be_val bs < 2 ^ LENGTH('a)" using be_val_bound [of bs] assms by (simp add: power_mult)
  then show ?thesis by (simp add: be_word_def unpack_u_def uint_nat unat_of_nat)
qed

lemma sint_be_word:
  assumes "LENGTH('a::len) = 8 * length bs" "bs \<noteq> []"
  shows "sint (be_word bs :: 'a word) = unpack_s bs"
proof -
  let ?u = "unpack_u bs" and ?n = "8 * length bs - 1"
  have n: "8 * length bs = Suc ?n" using assms(2) by (cases bs) simp_all
  have m: "256 ^ length bs = (2 :: int) ^ Suc ?n" using power_mult [of "2 :: int" 8 "length bs"] n by simp
  have u: "0 \<le> ?u" "?u < 2 ^ Suc ?n" using unpack_u_range [of bs] m by simp_all
  have "sint (be_word bs :: 'a word) = signed_take_bit ?n ?u"
    by (simp only: sint_uint uint_be_word [OF assms(1)] assms(1) One_nat_def)
  also have "\<dots> = (?u + 2 ^ ?n) mod 2 ^ Suc ?n - 2 ^ ?n"
    by (simp only: signed_take_bit_eq_take_bit_shift take_bit_eq_mod)
  also have "\<dots> = (if ?u < 2 ^ ?n then ?u else ?u - 2 ^ Suc ?n)"
  proof (cases "?u < 2 ^ ?n")
    case False
    then have "(?u - 2 ^ ?n + 2 ^ Suc ?n) mod 2 ^ Suc ?n = ?u - 2 ^ ?n"
      using u by (simp only: mod_add_self2) (simp add: mod_pos_pos_trivial)
    then show ?thesis using False by (simp add: add.commute)
  qed (use u in \<open>simp add: mod_pos_pos_trivial\<close>)
  also have "\<dots> = unpack_s bs"
    by (simp add: unpack_s_def unpack_u_def Let_def m)
  finally show ?thesis .
qed

text \<open>The two tables of tags agree.\<close>

lemma uint_byte_eq: "uint t = n \<Longrightarrow> t = word_of_int n" for t :: byte
  by (metis word_of_int_uint)

lemma operand_types:
  "uint t = S_I8 \<Longrightarrow> operand_type_from_u8 t = T_I8" "uint t = S_I16 \<Longrightarrow> operand_type_from_u8 t = T_I16"
  "uint t = S_I32 \<Longrightarrow> operand_type_from_u8 t = T_I32" "uint t = S_I64 \<Longrightarrow> operand_type_from_u8 t = T_I64"
  "uint t = S_U8 \<Longrightarrow> operand_type_from_u8 t = T_U8" "uint t = S_U16 \<Longrightarrow> operand_type_from_u8 t = T_U16"
  "uint t = S_U32 \<Longrightarrow> operand_type_from_u8 t = T_U32" "uint t = S_U64 \<Longrightarrow> operand_type_from_u8 t = T_U64"
  "uint t = S_F32 \<Longrightarrow> operand_type_from_u8 t = T_F32" "uint t = S_F64 \<Longrightarrow> operand_type_from_u8 t = T_F64"
  "uint t = S_TS_MS \<Longrightarrow> operand_type_from_u8 t = T_TsMs" "uint t = S_DURATION_MS \<Longrightarrow> operand_type_from_u8 t = T_DurationMs"
  "uint t = S_BOOL \<Longrightarrow> operand_type_from_u8 t = T_Bool" "uint t = S_STRING \<Longrightarrow> operand_type_from_u8 t = T_Str"
  "uint t = S_BYTES \<Longrightarrow> operand_type_from_u8 t = T_Bytes" "uint t = S_UUID \<Longrightarrow> operand_type_from_u8 t = T_Uuid"
  "uint t = S_HANDLE \<Longrightarrow> operand_type_from_u8 t = T_Handle" "uint t = S_REF \<Longrightarrow> operand_type_from_u8 t = T_Ref"
  "uint t = S_BUF_REF \<Longrightarrow> operand_type_from_u8 t = T_BufRef" "uint t = S_LIST \<Longrightarrow> operand_type_from_u8 t = T_List"
  "uint t = S_MAP \<Longrightarrow> operand_type_from_u8 t = T_Map" "uint t = S_NULL \<Longrightarrow> operand_type_from_u8 t = T_Null"
  by (drule uint_byte_eq, simp add: operand_type_from_u8_def OPERAND_TYPES_def)+

lemma operand_type_vendor: "is_vendor_tag (uint t) \<Longrightarrow> operand_type_from_u8 t = T_Vendor t"
  by (auto simp: operand_type_from_u8_def OPERAND_TYPES_def is_vendor_tag_def)

lemma be_word_floats: "unpack_f bs = f32_to_f64 (be_word bs)" "unpack_d bs = be_word bs"
  by (simp_all add: be_word_def unpack_f_def unpack_d_def)

lemma fixed_operand_Cons: "length bs = n \<Longrightarrow> fixed_operand n mk (t # bs @ rest) = Inr (mk bs, 1 + n)"
  by (simp add: fixed_operand_def need_bytes_def slice_def)

lemma fixed_struct_Cons:
  assumes "map_of FIXED_STRUCT (uint t) = Some fm" "length bs = calcsize fm"
  shows "\<exists>x. core_operand_step crec checks (t # bs @ rest) idx = Inr (x, 1 + calcsize fm) \<and>
    symbol_of x = Symbol (uint t) (unpack_fmt fm bs)"
proof -
  have "bs \<noteq> []" using assms(2) FIXED_STRUCT_size [OF assms(1)] by auto
  then show ?thesis
    using assms
    by (auto simp: FIXED_STRUCT_def core_operand_step_def operand_types fixed_operand_Cons [of bs]
        uint_be_word sint_be_word be_word_floats split: if_splits)
qed

lemma dict_of_map: "dict_of (map (\<lambda>(k, x). (k, f x)) kvs) = map (\<lambda>(k, x). (k, f x)) (dict_of kvs)"
proof -
  let ?g = "\<lambda>(k, x). (k, f x)"
  have upd: "AList.update k (f v) (map ?g d) = map ?g (AList.update k v d)" for k v d
    by (induction d) auto
  have "fold (\<lambda>(k, v) d. AList.update k v d) (map ?g kvs) (map ?g d) = map ?g (fold (\<lambda>(k, v) d. AList.update k v d) kvs d)" for d
    by (induction kvs arbitrary: d) (auto simp: upd)
  from this [of "[]"] show ?thesis by (simp add: dict_of_def)
qed

lemma list_reads:
  assumes rec: "same_operands checks data k rec crec" and d: "decode_varint data (k + 1) = Inr (count, p)"
    and r: "repeat_dec rec (nat count) p = Inr (items, q)"
  shows "reads checks symbol_of
    (bindr (tail_from (drop k data) 1) (\<lambda>d. bindr (core_varint d) (\<lambda>(n, consumed).
     bindr (core_loop (\<lambda>i p. bindr (child_idx checks idx i) (\<lambda>j. operand_at crec (drop k data) j p)) (unat n) 0 (1 + consumed))
       (\<lambda>(items, e). Inr (Op_List items, e))))) (Symbol S_LIST (VList items)) (q - k)"
proof -
  note v = core_varint_nat [OF d]
  have p: "k < p" "1 + (p - (k + 1)) = p - k" using v(3) by simp_all
  from core_loop_reads [OF same_list [OF rec] r p(1) v(4), of idx 0] p(2) v show ?thesis
    by (auto simp: tail_from_le reads_def)
qed

lemma map_reads:
  assumes rec: "same_operands checks data k rec crec" and d: "decode_varint data (k + 1) = Inr (count, p)"
    and r: "repeat_dec (decode_entry rec data) (nat count) p = Inr (kvs, q)"
  shows "reads checks symbol_of
    (bindr (tail_from (drop k data) 1) (\<lambda>d. bindr (core_varint d) (\<lambda>(n, consumed).
     bindr (core_loop (entry_at crec checks (drop k data) idx) (unat n) 0 (1 + consumed))
       (\<lambda>(kvs, e). Inr (Op_Map (dict_of kvs), e))))) (Symbol S_MAP (VDict (dict_of kvs))) (q - k)"
proof -
  note v = core_varint_nat [OF d]
  have p: "k < p" "1 + (p - (k + 1)) = p - k" using v(3) by simp_all
  from core_loop_reads [OF same_entries [OF rec] r p(1) v(4), of idx 0] p(2) v show ?thesis
    by (auto simp: tail_from_le reads_def dict_of_map)
qed

lemma counted_reads:
  assumes "take_prefixed data (k + 1) = Inr (raw, e)" "k < length data"
  shows "counted_bytes (drop k data) 1 = Inr (raw, e - k)"
  using counted_bytes_reads [OF assms(1), of k] assms(2) by simp

lemma core_step_reads:
  assumes rec: "same_operands checks data k rec crec" and d: "decode_step rec data k = Inr (s, q)"
  shows "reads checks symbol_of (core_operand_step crec checks (drop k data) idx) s (q - k)"
proof -
  let ?t = "data ! k" and ?tag = "uint (data ! k)"
  have k: "k < length data" using d by (cases "k < length data") (simp_all add: decode_step_def)
  then have ne: "drop k data \<noteq> []" and hd: "drop k data ! 0 = ?t" by simp_all
  have split: "drop k data = ?t # slice data (k + 1) (k + 1 + n) @ drop (k + 1 + n) data" if "k + 1 + n \<le> length data" for n
    using k append_take_drop_id [of n "drop (Suc k) data"] by (simp add: slice_def Cons_nth_drop_Suc [symmetric] add.commute)
  have len: "length (slice data (k + 1) (k + 1 + n)) = n" if "k + 1 + n \<le> length data" for n using that by simp
  have fixed: "fixed_operand n mk (drop k data) = Inr (mk (slice data (k + 1) (k + 1 + n)), 1 + n)" if "k + 1 + n \<le> length data" for n mk
    by (subst split [OF that]) (rule fixed_operand_Cons [OF len [OF that]])
  show ?thesis
  proof (cases "map_of FIXED_STRUCT ?tag")
    case (Some fm)
    with d k have b: "k + 1 + calcsize fm \<le> length data" "q = k + 1 + calcsize fm"
      "s = Symbol ?tag (unpack_fmt fm (slice data (k + 1) (k + 1 + calcsize fm)))"
      by (auto simp: decode_step_def Let_def split: if_splits)
    from fixed_struct_Cons [OF Some len [OF b(1)], of crec checks "drop (k + 1 + calcsize fm) data" idx]
    show ?thesis unfolding split [OF b(1), symmetric] by (auto simp: reads_def b(2,3))
  next
    case None
    note step = d [unfolded decode_step_def Let_def None option.case]
    consider (bool) "?tag = S_BOOL" | (str) "?tag = S_STRING" | (bytes) "?tag = S_BYTES" | (uuid) "?tag = S_UUID"
      | (handle) "?tag = S_HANDLE" | (ref) "?tag = S_REF" | (buf) "?tag = S_BUF_REF" | (list) "?tag = S_LIST"
      | (map) "?tag = S_MAP" | (null) "?tag = S_NULL" | (vendor) "is_vendor_tag ?tag"
      using step by (auto split: if_splits)
    then show ?thesis
    proof cases
      case bool
      then have b: "k + 1 < length data" "uint (data ! (k + 1)) \<le> 1" "q = k + 2" "s = Symbol S_BOOL (VBool (uint (data ! (k + 1)) \<noteq> 0))"
        using step k by (auto split: if_splits)
      with k show ?thesis
        by (auto simp: core_operand_step_def ne hd operand_types(13) [OF bool] need_bytes_def reads_def uint_0_iff)
    next
      case str
      then obtain raw t where r: "take_prefixed data (k + 1) = Inr (raw, q)" "utf8_decode raw = Inr t" "s = Symbol S_STRING (VStr t)"
        using step k by (auto simp: bindr_eq_Inr)
      with k show ?thesis
        by (simp add: core_operand_step_def ne hd operand_types(14) [OF str] counted_reads [OF r(1) k, unfolded One_nat_def] from_utf8_def reads_def)
    next
      case bytes
      then obtain raw where r: "take_prefixed data (k + 1) = Inr (raw, q)" "s = Symbol S_BYTES (VBytes raw)"
        using step k by (auto simp: bindr_eq_Inr)
      with k show ?thesis
        by (simp add: core_operand_step_def ne hd operand_types(15) [OF bytes] counted_reads [OF r(1) k, unfolded One_nat_def] reads_def)
    next
      case uuid
      then have b: "k + 1 + 16 \<le> length data" "q = k + 1 + 16" "s = Symbol S_UUID (VBytes (slice data (k + 1) (k + 1 + 16)))"
        using step k by (auto split: if_splits)
      with k show ?thesis
        by (simp only: core_operand_step_def hd operand_types(16) [OF uuid] fixed [OF b(1)]) (use k in \<open>simp add: reads_def b\<close>)
    next
      case handle
      then have b: "k + 1 + 8 \<le> length data" "q = k + 1 + 8" "s = Symbol S_HANDLE (VInt (unpack_u (slice data (k + 1) (k + 1 + 8))))"
        using step k by (auto split: if_splits)
      have "uint (be_word (slice data (k + 1) (k + 1 + 8)) :: 64 word) = unpack_u (slice data (k + 1) (k + 1 + 8))"
        by (rule uint_be_word) (use b(1) in simp)
      with k show ?thesis
        by (simp only: core_operand_step_def hd operand_types(17) [OF handle] fixed [OF b(1)]) (use k in \<open>simp add: b(2,3) reads_def\<close>)
    next
      case ref
      then have b: "k + 1 + 2 \<le> length data" "q = k + 1 + 2" "s = Symbol S_REF (VInt (unpack_u (slice data (k + 1) (k + 1 + 2))))"
        using step k by (auto split: if_splits)
      have "uint (be_word (slice data (k + 1) (k + 1 + 2)) :: 16 word) = unpack_u (slice data (k + 1) (k + 1 + 2))"
        by (rule uint_be_word) (use b(1) in simp)
      with k show ?thesis
        by (simp only: core_operand_step_def hd operand_types(18) [OF ref] fixed [OF b(1)]) (use k in \<open>simp add: b(2,3) reads_def\<close>)
    next
      case buf
      then have b: "k + 1 + 16 \<le> length data" "q = k + 1 + 16"
        "s = Symbol S_BUF_REF (VTuple [unpack_u (slice data (k + 1) (k + 1 + 8)), unpack_u (slice data (k + 1 + 8) (k + 1 + 12)),
               unpack_u (slice data (k + 1 + 12) (k + 1 + 16))])"
        using step k by (auto split: if_splits)
      let ?b = "slice data (k + 1) (k + 1 + 16)"
      have sl: "slice ?b 0 8 = slice data (k + 1) (k + 1 + 8)" "slice ?b 8 12 = slice data (k + 1 + 8) (k + 1 + 12)"
        "slice ?b 12 16 = slice data (k + 1 + 12) (k + 1 + 16)" by (simp_all add: slice_slice)
      have "uint (be_word (slice ?b 0 8) :: 64 word) = unpack_u (slice ?b 0 8)" "uint (be_word (slice ?b 8 12) :: 32 word) = unpack_u (slice ?b 8 12)"
        "uint (be_word (slice ?b 12 16) :: 32 word) = unpack_u (slice ?b 12 16)"
        by (rule uint_be_word; use b(1) in simp)+
      with k show ?thesis
        by (simp only: core_operand_step_def hd operand_types(19) [OF buf] fixed [OF b(1)] b(2,3) sl [symmetric]) (use k in \<open>simp add: reads_def b\<close>)
    next
      case list
      then obtain count p items where r: "decode_varint data (k + 1) = Inr (count, p)" "repeat_dec rec (nat count) p = Inr (items, q)"
        "s = Symbol S_LIST (VList items)" using step k by (auto simp: bindr_eq_Inr)
      from list_reads [OF rec r(1,2), of idx] show ?thesis
        by (simp only: core_operand_step_def hd operand_types(20) [OF list] r(3)) (use k in simp)
    next
      case map
      then obtain count p kvs where r: "decode_varint data (k + 1) = Inr (count, p)"
        "repeat_dec (decode_entry rec data) (nat count) p = Inr (kvs, q)" "s = Symbol S_MAP (VDict (dict_of kvs))"
        using step k by (auto simp: bindr_eq_Inr)
      from map_reads [OF rec r(1,2), of idx] show ?thesis
        by (simp only: core_operand_step_def hd operand_types(21) [OF map] r(3)) (use k in simp)
    next
      case null
      then have "q = k + 1" "s = Symbol S_NULL VNone" using step k by auto
      with k show ?thesis by (simp add: core_operand_step_def ne hd operand_types(22) [OF null] reads_def)
    next
      case vendor
      then obtain raw where r: "take_prefixed data (k + 1) = Inr (raw, q)" "s = Symbol ?tag (VBytes raw)"
        using step k by (auto simp: bindr_eq_Inr is_vendor_tag_def)
      with k show ?thesis
        by (simp add: core_operand_step_def ne hd operand_type_vendor [OF vendor] counted_reads [OF r(1) k, unfolded One_nat_def] reads_def)
    qed
  qed
qed


lemma levels_reads:
  "decode_symbol_levels n data k = Inr (s, q) \<Longrightarrow>
     reads checks symbol_of (core_operand_levels n checks (drop k data) idx) s (q - k)"
proof (induction n arbitrary: k s q idx)
  case (Suc n)
  have "same_operands checks data k (decode_symbol_levels n data) (core_operand_levels n checks)"
    unfolding same_operands_def using Suc.IH by (auto dest: decode_symbol_levels_bounds)
  then show ?case using Suc.prems core_step_reads by simp
qed simp

text \<open>Where the Python codec reads an operand, the core reads the same, of as many bytes.\<close>

lemma core_operand_reads:
  assumes "decode_symbol data k = Inr (s, q)"
  shows "reads checks symbol_of (core_operand checks (drop k data) idx) s (q - k)"
proof -
  have "k < length data" using assms by (cases "k < length data") (simp_all add: decode_symbol_unfold [of data k] decode_step_def)
  then have "decode_symbol_levels (Suc (length data)) data k = decode_symbol_levels (Suc (length data - k)) data k"
    by (intro decode_symbol_levels_enough) simp_all
  then show ?thesis using levels_reads [of "Suc (length data - k)" data k s q checks idx] assms
    by (simp add: decode_symbol_def core_operand_def)
qed

lemma payload_operands_reads:
  assumes "decode_varint payload 1 = Inr (count, p)" "repeat_dec (decode_symbol payload) (nat count) p = Inr (syms, q)"
  shows "reads checks (map symbol_of) (payload_operands_core checks payload) syms q"
proof -
  have len: "1 \<le> length payload" using decode_varint_bounds [OF assms(1)] by simp
  have v: "core_varint (drop 1 payload) = Inr (word_of_int count, p - 1)" "unat (word_of_int count :: 32 word) = nat count"
    "1 < p" "p \<le> length payload" by (rule core_varint_nat [OF assms(1)])+
  have "same_reading checks payload 0 symbol_of (decode_symbol payload) (operand_at (core_operand checks) payload)"
    unfolding same_reading_def
  proof (intro allI impI)
    fix p s q i
    assume a: "decode_symbol payload p = Inr (s, q)"
    from decode_symbol_bounds [OF a] have "p < q" "q \<le> length payload" by auto
    with core_operand_reads [OF a, of checks i] show "p < q \<and> q \<le> length payload \<and>
        reads checks symbol_of (operand_at (core_operand checks) payload i (p - 0)) s (q - 0)"
      by (auto simp: operand_at_def tail_from_le reads_def)
  qed
  from core_loop_reads [OF this assms(2), of 0] v len show ?thesis
    by (auto simp: payload_operands_core_def payload_count_def tail_from_le)
qed

section \<open>Packets\<close>

text \<open>\<^verbatim>\<open>AiclOpcode::from_u8\<close>; an opcode is represented by its byte.\<close>

definition OPCODES :: "byte list" where
  "OPCODES =
    [0x00, 0x01, 0x02, 0x03, 0x04, 0x05, 0x06, 0x07, 0x08, 0x09, 0x0A, 0x10, 0x11, 0x12, 0x13,
     0x20, 0x21, 0x22, 0x23, 0x24, 0x30, 0x31, 0x32, 0x40, 0x41, 0x42, 0x43, 0x44, 0x45, 0x46,
     0x50, 0x51, 0x52, 0x60, 0x61, 0x62]"

definition opcode_from_u8 :: "byte \<Rightarrow> byte option" where
  "opcode_from_u8 v = (if v \<in> set OPCODES \<or> 0xF0 \<le> uint v then Some v else None)"

abbreviation (input) MAX_PAYLOAD_SIZE :: nat where "MAX_PAYLOAD_SIZE \<equiv> 16777216"

text \<open>\<^verbatim>\<open>AiclCodec::validate_header\<close>; \<open>crc\<close> is the checksum of the crate.\<close>

definition core_validate :: "(bytes \<Rightarrow> int) \<Rightarrow> bool \<Rightarrow> nat \<Rightarrow> bool \<Rightarrow> bytes \<Rightarrow> unit core" where
  "core_validate crc checks max_payload check_crc data =
     (if length data < 56 then Inl (CoreError BadHeader)
      else if slice data 0 4 \<noteq> MAGIC then Inl (CoreError BadHeader)
      else if be_val (slice data 4 6) div 256 \<noteq> 1 then Inl (CoreError UnsupportedVersion)
      else if unpack_u (slice data 52 56) \<noteq> crc (slice data 0 52) then Inl (CoreError BadHeader)
      else
        let flags = unpack_u (slice data 6 8); payload_len = be_val (slice data 44 48); total = 56 + payload_len;
            has_trailer = (flags AND 0x0100 \<noteq> 0) in
        if payload_len > max_payload then Inl (CoreError PayloadTooLarge)
        else if length data < total then Inl (CoreError Truncated)
        else if has_trailer \<and> length data < total + 4 then Inl (CoreError Truncated)
        else if has_trailer \<and> check_crc \<and> unpack_u (slice data total (total + 4)) \<noteq> crc (slice data 0 total)
          then Inl (CoreError BadChecksum)
        else if length data \<le> 56 then Inl Panic
        else if opcode_from_u8 (data ! 56) = None then Inl (CoreError UnknownOpcode)
        else
          let payload = slice data 56 total in
          if payload = [] then Inl (CoreError Truncated)
          else
            bindr (payload_operands_core checks payload) (\<lambda>(_, pos).
              if pos \<noteq> length payload then Inl (CoreError TrailingBytes) else Inr ()))"

record core_view =
  cv_data :: bytes
  cv_payload_offset :: nat
  cv_payload_length :: nat
  cv_has_trailer :: bool
  cv_flags :: int

definition codec_decode :: "(bytes \<Rightarrow> int) \<Rightarrow> bool \<Rightarrow> nat \<Rightarrow> bool \<Rightarrow> bytes \<Rightarrow> core_view core" where
  "codec_decode crc checks max_payload check_crc data =
     bindr (core_validate crc checks max_payload check_crc data) (\<lambda>_.
       let flags = unpack_u (slice data 6 8) in
       Inr \<lparr>cv_data = data, cv_payload_offset = 56, cv_payload_length = be_val (slice data 44 48),
            cv_has_trailer = (flags AND 0x0100 \<noteq> 0), cv_flags = flags\<rparr>)"

definition cv_payload :: "core_view \<Rightarrow> bytes" where
  "cv_payload v = slice (cv_data v) (cv_payload_offset v) (cv_payload_offset v + cv_payload_length v)"

definition cv_operand_count :: "core_view \<Rightarrow> nat core" where
  "cv_operand_count v =
     (if cv_payload v = [] then Inr 0 else bindr (payload_count (cv_payload v)) (\<lambda>(count, _). Inr (unat count)))"

record aicl_packet =
  ap_opcode :: byte
  ap_flags :: int
  ap_message_id :: "bytes option"
  ap_correlation_id :: bytes
  ap_deadline_ms :: int
  ap_operands :: "operand list"

text \<open>\<^verbatim>\<open>PacketView::to_packet\<close>.\<close>

definition cv_to_packet :: "bool \<Rightarrow> core_view \<Rightarrow> aicl_packet core" where
  "cv_to_packet checks v =
     (let data = cv_data v in
      case opcode_from_u8 (data ! 56) of
        None \<Rightarrow> Inl (CoreError UnknownOpcode)
      | Some opcode \<Rightarrow>
          bindr (payload_operands_core checks (cv_payload v)) (\<lambda>(operands, _).
            Inr \<lparr>ap_opcode = opcode, ap_flags = unpack_u (slice data 6 8), ap_message_id = Some (slice data 8 24),
                 ap_correlation_id = slice data 24 40, ap_deadline_ms = unpack_u (slice data 40 44),
                 ap_operands = operands\<rparr>))"

definition decode_to_packet :: "(bytes \<Rightarrow> int) \<Rightarrow> bool \<Rightarrow> nat \<Rightarrow> bool \<Rightarrow> bytes \<Rightarrow> aicl_packet core" where
  "decode_to_packet crc checks max_payload check_crc data =
     bindr (codec_decode crc checks max_payload check_crc data) (cv_to_packet checks)"

text \<open>
  \<^verbatim>\<open>aicl_decode\<close> of \<^verbatim>\<open>ffi.rs\<close> on a context of \<^verbatim>\<open>aicl_context_new\<close>, with the three accessors of the view it gives. None is
  the end of the process by a panic.
\<close>

definition aicl_decode :: "(bytes \<Rightarrow> int) \<Rightarrow> bool \<Rightarrow> bytes \<Rightarrow> (int + native_view) option" where
  "aicl_decode crc checks data =
     (case codec_decode crc checks MAX_PAYLOAD_SIZE True data of
        Inl Panic \<Rightarrow> None
      | Inl (CoreError e) \<Rightarrow> Some (Inl (status_of e))
      | Inr v \<Rightarrow>
          Some (Inr \<lparr>nv_opcode = uint (cv_data v ! 56), nv_flags = unpack_u (slice (cv_data v) 6 8),
                     nv_operand_count = (case cv_operand_count v of Inr n \<Rightarrow> int n | Inl _ \<Rightarrow> 0)\<rparr>))"


section \<open>Where decoding can end\<close>

text \<open>
  The outcome of a decoder that started inside a buffer: a position between \<open>lo\<close> and \<open>hi\<close>, or an error that is
  neither the bound of the model nor, without overflow checks, a panic.
\<close>

definition within :: "bool \<Rightarrow> nat \<Rightarrow> nat \<Rightarrow> ('a \<times> nat) core \<Rightarrow> bool" where
  "within checks lo hi r =
     (case r of
        Inl e \<Rightarrow> e \<noteq> CoreError NestedTooDeep \<and> (e = Panic \<longrightarrow> checks)
      | Inr (x, p) \<Rightarrow> lo \<le> p \<and> p \<le> hi)"

lemma within_Inl [simp]: "within checks lo hi (Inl e) \<longleftrightarrow> e \<noteq> CoreError NestedTooDeep \<and> (e = Panic \<longrightarrow> checks)"
  and within_Inr [simp]: "within checks lo hi (Inr (x, p)) \<longleftrightarrow> lo \<le> p \<and> p \<le> hi"
  by (simp_all add: within_def)

lemma within_bindr:
  assumes "within checks lo hi r" "\<And>x p. lo \<le> p \<Longrightarrow> p \<le> hi \<Longrightarrow> within checks lo' hi' (h (x, p))"
  shows "within checks lo' hi' (bindr r h)"
  using assms by (cases r) auto

lemma within_mono: "within checks lo hi r \<Longrightarrow> lo' \<le> lo \<Longrightarrow> hi \<le> hi' \<Longrightarrow> within checks lo' hi' r"
  by (cases r) auto

lemma core_varint_loop_within: "within checks i (i + length data) (core_varint_loop data i v shift)"
proof (induction data i v shift rule: core_varint_loop.induct)
  case (2 b bs i v shift)
  then show ?case by (auto simp: Let_def intro: within_mono)
qed simp

lemma core_varint_within: "within checks 0 (length data) (core_varint data)"
  using core_varint_loop_within [of checks 0 data 0 0] by (simp add: core_varint_def)

lemma counted_bytes_within: "pos \<le> length data \<Longrightarrow> within checks pos (length data) (counted_bytes data pos)"
  unfolding counted_bytes_def
  by (simp add: tail_from_le) (rule within_bindr [OF core_varint_within], auto simp: Let_def need_bytes_def)

lemma child_idx_within:
  "(\<And>j. within checks lo hi (h j)) \<Longrightarrow> within checks lo hi (bindr (child_idx checks idx i) h)"
  by (auto simp: child_idx_def)

lemma core_loop_within:
  assumes "\<And>i p. lo \<le> p \<Longrightarrow> p \<le> hi \<Longrightarrow> within checks lo hi (f i p)"
  shows "lo \<le> pos \<Longrightarrow> pos \<le> hi \<Longrightarrow> within checks lo hi (core_loop f n i pos)"
proof (induction n arbitrary: i pos)
  case (Suc n)
  then show ?case by (auto intro!: within_bindr [OF assms] within_bindr [OF Suc.IH])
qed simp

lemma operand_at_within:
  assumes "\<And>d j. length d < length data \<Longrightarrow> within checks 1 (length d) (rec d j)" "1 \<le> pos" "pos \<le> length data"
  shows "within checks pos (length data) (operand_at rec data j pos)"
proof (cases "data = []")
  case False
  then have "length (drop pos data) < length data" using assms(2,3) by (cases data) simp_all
  from assms(1) [OF this, of j] show ?thesis
    by (auto simp: operand_at_def tail_from_le assms(3) intro!: within_bindr)
qed (use assms in simp)

lemma entry_at_within:
  assumes "\<And>d j. length d < length data \<Longrightarrow> within checks 1 (length d) (rec d j)" "1 \<le> pos" "pos \<le> length data"
  shows "within checks pos (length data) (entry_at rec checks data idx i pos)"
proof -
  have op: "within checks pos (length data) (bindr (operand_at rec data j p) (\<lambda>(v, q). Inr ((key, v), q)))"
    if "pos \<le> p" "p \<le> length data" for p j key
    by (rule within_bindr [OF operand_at_within [OF assms(1)]]) (use that assms(2) in auto)
  show ?thesis unfolding entry_at_def
    by (rule within_bindr [OF counted_bytes_within [OF assms(3)]])
      (auto simp: from_utf8_def split: sum.split intro!: child_idx_within op)
qed

lemma counted_loop_within:
  assumes "\<And>i p. 1 \<le> p \<Longrightarrow> p \<le> length data \<Longrightarrow> within checks 1 (length data) (f i p)" "1 \<le> length data"
  shows "within checks 1 (length data)
    (bindr (tail_from data 1) (\<lambda>d. bindr (core_varint d) (\<lambda>(n, c).
     bindr (core_loop f (unat n) 0 (1 + c)) (\<lambda>(xs, e). Inr (mk xs, e)))))"
proof -
  have "within checks 1 (length data) (bindr (core_loop f n 0 (1 + c)) (\<lambda>(xs, e). Inr (mk xs, e)))"
    if "1 + c \<le> length data" for n c
    by (rule within_bindr [OF core_loop_within [OF assms(1)]]) (use that in auto)
  then show ?thesis using assms(2)
    by (auto simp: tail_from_le intro!: within_bindr [OF core_varint_within])
qed

lemma core_step_within:
  assumes "\<And>d j. length d < length data \<Longrightarrow> within checks 1 (length d) (rec d j)"
  shows "within checks 1 (length data) (core_operand_step rec checks data idx)"
proof (cases "data = []")
  case False
  then have len: "1 \<le> length data" by (cases data) simp_all
  have fixed: "within checks 1 (length data) (fixed_operand n mk data)" for n mk
    by (simp add: fixed_operand_def need_bytes_def)
  have counted: "within checks 1 (length data) (bindr (counted_bytes data 1) h)"
    if "\<And>x p. 1 \<le> p \<Longrightarrow> p \<le> length data \<Longrightarrow> within checks 1 (length data) (h (x, p))" for h :: "bytes \<times> nat \<Rightarrow> (operand \<times> nat) core"
    by (rule within_bindr [OF counted_bytes_within [OF len]]) (rule that)
  have items: "within checks 1 (length data) (bindr (child_idx checks idx i) (\<lambda>j. operand_at rec data j p))"
    if "1 \<le> p" "p \<le> length data" for i p
    by (intro child_idx_within within_mono [OF operand_at_within [OF assms that]]) (use that(1) in simp_all)
  have entries: "within checks 1 (length data) (entry_at rec checks data idx i p)" if "1 \<le> p" "p \<le> length data" for i p
    by (rule within_mono [OF entry_at_within [OF assms that]]) (use that(1) in simp_all)
  have str: "within checks 1 (length data)
      (bindr (counted_bytes data 1) (\<lambda>(raw, e). bindr (from_utf8 raw) (\<lambda>s. Inr (Op_Str s, e))))"
    by (rule counted) (auto simp: from_utf8_def split: sum.split)
  have raw: "within checks 1 (length data) (bindr (counted_bytes data 1) (\<lambda>(raw, e). Inr (mk raw, e)))"
    for mk :: "bytes \<Rightarrow> operand" by (rule counted) auto
  note loops = counted_loop_within [where f = "\<lambda>i p. bindr (child_idx checks idx i) (\<lambda>j. operand_at rec data j p)" and mk = Op_List, OF _ len]
    counted_loop_within [where f = "entry_at rec checks data idx" and mk = "\<lambda>kvs. Op_Map (dict_of kvs)", OF _ len]
  show ?thesis
    using False len fixed str raw loops items entries
    by (cases "operand_type_from_u8 (data ! 0)") (auto simp: core_operand_step_def need_bytes_def simp del: One_nat_def)
qed (simp add: core_operand_step_def)

lemma core_operand_within: "within checks 1 (length data) (core_operand checks data idx)"
proof -
  have "length data < n \<Longrightarrow> within checks 1 (length data) (core_operand_levels n checks data idx)" for n
  proof (induction n arbitrary: data idx)
    case (Suc n)
    have "within checks 1 (length data) (core_operand_step (core_operand_levels n checks) checks data idx)"
      by (rule core_step_within) (use Suc in simp)
    then show ?case by simp
  qed simp
  then show ?thesis unfolding core_operand_def by blast
qed

lemma payload_operands_within:
  assumes "payload \<noteq> []"
  shows "within checks 1 (length payload) (payload_operands_core checks payload)"
proof -
  have len: "1 \<le> length payload" using assms by (cases payload) simp_all
  have "within checks 1 (length payload) (core_loop (operand_at (core_operand checks) payload) n 0 (1 + c))"
    if "1 + c \<le> length payload" for n c
  proof (rule core_loop_within)
    show "within checks 1 (length payload) (operand_at (core_operand checks) payload i p)" if "1 \<le> p" "p \<le> length payload" for i p
      using operand_at_within [OF core_operand_within that] that(1) by (rule within_mono) simp
  qed (use that in auto)
  then show ?thesis using len
    by (auto simp: payload_operands_core_def payload_count_def tail_from_le intro!: within_bindr [OF core_varint_within])
qed


text \<open>The two tables of opcodes are the same.\<close>

lemma opcode_tables: "opcode_from_u8 v = (if is_assigned (uint v) then Some v else None)"
proof -
  have "v \<in> set OPCODES \<longleftrightarrow> uint v \<in> uint ` set OPCODES" by (simp add: inj_image_mem_iff inj_on_def word_uint_eq_iff)
  also have "uint ` set OPCODES = fst ` set OPERATION_NAMES" by (simp add: OPCODES_def OPERATION_NAMES_def)
  finally show ?thesis using uint_bounded [of v] by (simp add: opcode_from_u8_def is_assigned_def is_vendor_op_def)
qed

lemma core_validate_all:
  assumes crc: "\<And>bs. crc bs = crc32 bs" and enc: "encode p checksum = Inr bs" and wf: "list_all wf_symbol (pkt_symbols p)"
  obtains payload mid cid operands where
    "core_validate crc checks MAX_PAYLOAD_SIZE True bs =
       (if length payload > MAX_PAYLOAD_SIZE then Inl (CoreError PayloadTooLarge)
        else if \<not> checksum \<and> pkt_flags p AND FLAG_HAS_TRAILER \<noteq> 0 then Inl (CoreError Truncated)
        else if \<not> is_assigned (pkt_operation p AND 0xFF) then Inl (CoreError UnknownOpcode)
        else bindr (payload_operands_core checks payload) (\<lambda>(_, pos).
          if pos \<noteq> length payload then Inl (CoreError TrailingBytes) else Inr ()))"
    "build_payload p = Inr payload" "length bs = 56 + length payload + (if checksum then 4 else 0)"
    "slice bs 56 (56 + be_val (slice bs 44 48)) = payload"
    "unpack_u (slice bs 6 8) = wire_flags p checksum" "slice bs 8 24 = mid" "pkt_message_id p = Some mid"
    "slice bs 24 40 = cid" "pkt_correlation_id p = Some cid" "unpack_u (slice bs 40 44) = pkt_deadline_ms p"
    "append_extensions p (pkt_symbols p) = Inr operands"
    "length payload \<le> MAX_PAYLOAD_SIZE \<longrightarrow> uint (bs ! 56) = pkt_operation p AND 0xFF \<and>
      reads checks (map symbol_of) (payload_operands_core checks payload) operands (length payload)"
proof -
  from enc obtain payload mid cid header trailer where parts:
    "build_payload p = Inr payload" "pkt_message_id p = Some mid" "pkt_correlation_id p = Some cid"
    "pack_header (pkt_version p) (wire_flags p checksum) mid cid (pkt_deadline_ms p) (int (length payload)) = Inr header"
    and bs: "bs = header @ payload @ trailer"
    and t: "if checksum then pack_u 4 (crc32 (header @ payload)) = Inr trailer else trailer = []"
    by (rule encode_shape)
  have len: "length header = 56" using pack_header_length [OF parts(4)] by simp
  have tlen: "length trailer = (if checksum then 4 else 0)" using t by (auto simp: pack_u_length split: if_splits)
  have blen: "length bs = 56 + length payload + length trailer" using bs len by simp
  obtain operands where app: "append_extensions p (pkt_symbols p) = Inr operands"
    using parts(1) by (auto simp: build_payload_def bindr_eq_Inr)
  have mc: "length mid = 16" "length cid = 16" "pkt_version p = 0x0100" using parts(4) by (auto simp: pack_header_Inr)
  from parts(4) obtain vb fb db pb cb where at: "has_at header 0 MAGIC" "has_at header 4 vb" "has_at header 6 fb"
    "has_at header 8 mid" "has_at header 24 cid" "has_at header 40 db" "has_at header 44 pb" "has_at header 52 cb"
    "pack_u 2 (pkt_version p) = Inr vb" "pack_u 2 (wire_flags p checksum) = Inr fb" "pack_u 4 (pkt_deadline_ms p) = Inr db"
    "pack_u 4 (int (length payload)) = Inr pb" "pack_u 4 (crc32 (slice header 0 52)) = Inr cb"
    by (rule pack_header_layout)
  have sl: "slice bs a b = slice header a b" if "b \<le> 56" for a b using that len bs by (simp add: slice_append_left)
  have fields: "slice bs 0 4 = MAGIC" "slice bs 8 24 = mid" "slice bs 24 40 = cid" "unpack_u (slice bs 4 6) = pkt_version p"
    "unpack_u (slice bs 6 8) = wire_flags p checksum" "unpack_u (slice bs 40 44) = pkt_deadline_ms p"
    "unpack_u (slice bs 44 48) = int (length payload)" "unpack_u (slice bs 52 56) = crc32 (slice bs 0 52)"
    using has_at_slice_eq [OF at(1), of 4] has_at_slice_eq [OF at(4), of 16] has_at_slice_eq [OF at(5), of 16] mc
      unpack_u_layout [OF at(2,9)] unpack_u_layout [OF at(3,10)] unpack_u_layout [OF at(6,11)] unpack_u_layout [OF at(7,12)]
      unpack_u_layout [OF at(8,13)] by (simp_all add: sl)
  have nums: "be_val (slice bs 4 6) = 256" "be_val (slice bs 44 48) = length payload"
    using fields(4,7) mc(3) by (simp_all add: unpack_u_def)
  have pay: "slice bs 56 (56 + length payload) = payload" "slice bs 0 (56 + length payload) = header @ payload"
    using bs len by (simp_all add: slice_def)
  have read: "1 < length payload \<and> uint (bs ! 56) = pkt_operation p AND 0xFF \<and>
      reads checks (map symbol_of) (payload_operands_core checks payload) operands (length payload)"
    if "length payload \<le> MAX_PAYLOAD_SIZE"
  proof -
    have l28: "length payload < 2 ^ 28" using that by simp
    obtain es p1 where ops: "payload ! 0 = of_int (pkt_operation p AND 0xFF)" "1 < length payload"
      "decode_varint (payload @ []) 1 = Inr (int (length (pkt_symbols p @ es)), p1)"
      "repeat_dec (decode_symbol (payload @ [])) (length (pkt_symbols p @ es)) p1 = Inr (pkt_symbols p @ es, length payload)"
      "append_extensions p (pkt_symbols p) = Inr (pkt_symbols p @ es)"
      by (rule payload_operands [OF parts(1) wf l28, where rest = "[]"])
    have "0 \<le> pkt_operation p AND 0xFF" "pkt_operation p AND 0xFF < 256"
      using take_bit_eq_mask [of 8 "pkt_operation p"] by (simp_all add: take_bit_eq_mod mask_eq_exp_minus_1)
    moreover have "payload \<noteq> []" using ops(2) by auto
    ultimately have op: "uint (bs ! 56) = pkt_operation p AND 0xFF"
      using ops(1) bs len by (simp add: nth_append uint_word_of_int)
    have "reads checks (map symbol_of) (payload_operands_core checks payload) (pkt_symbols p @ es) (length payload)"
      by (rule payload_operands_reads [of payload "int (length (pkt_symbols p @ es))" p1])
        (use ops(3,4) in \<open>simp_all only: append_Nil2 nat_int\<close>)
    with op ops(2,5) app show ?thesis by simp
  qed
  have trailer: "wire_flags p checksum AND 0x0100 \<noteq> 0 \<longleftrightarrow> checksum \<or> pkt_flags p AND FLAG_HAS_TRAILER \<noteq> 0"
  proof (cases checksum)
    case True
    have "(pkt_flags p OR 0x0100) AND 0x0100 = 0x0100"
      by (rule bit_eqI) (auto simp only: bit_and_iff bit_or_iff)
    with True show ?thesis by (simp add: wire_flags_def)
  qed (simp add: wire_flags_def)
  have tsum: "unpack_u (slice bs (56 + length payload) (56 + length payload + 4)) = crc32 (header @ payload)" if checksum
    using that t bs len by (auto simp: slice_def unpack_pack_u tlen)
  have whole: "length bs = 56 + length payload + (if checksum then 4 else 0)" using blen tlen by simp
  have "core_validate crc checks MAX_PAYLOAD_SIZE True bs =
       (if length payload > MAX_PAYLOAD_SIZE then Inl (CoreError PayloadTooLarge)
        else if \<not> checksum \<and> pkt_flags p AND FLAG_HAS_TRAILER \<noteq> 0 then Inl (CoreError Truncated)
        else if \<not> is_assigned (pkt_operation p AND 0xFF) then Inl (CoreError UnknownOpcode)
        else bindr (payload_operands_core checks payload) (\<lambda>(_, pos).
          if pos \<noteq> length payload then Inl (CoreError TrailingBytes) else Inr ()))"
  proof (cases "length payload > MAX_PAYLOAD_SIZE")
    case True
    then show ?thesis using whole by (simp add: core_validate_def crc fields nums)
  next
    case False
    then have r: "1 < length payload" "uint (bs ! 56) = pkt_operation p AND 0xFF" using read by simp_all
    show ?thesis
    proof (cases checksum)
      case True
      with False r tsum whole show ?thesis
        by (auto simp: core_validate_def crc fields nums trailer pay opcode_tables Let_def)
    next
      case no_sum: False
      then have "wire_flags p checksum = pkt_flags p" by (simp add: wire_flags_def)
      with no_sum False r whole show ?thesis
        by (auto simp: core_validate_def crc fields nums pay opcode_tables Let_def)
    qed
  qed
  with whole read nums(2) pay(1) fields parts(1-3) app show thesis by (intro that) auto
qed

lemma core_validate_encoded:
  assumes "\<And>bs. crc bs = crc32 bs" "encode p checksum = Inr bs" "list_all wf_symbol (pkt_symbols p)"
    and "int (length bs) \<le> MAX_PACKET_SIZE" "checksum \<or> pkt_flags p AND FLAG_HAS_TRAILER = 0"
  obtains payload operands where
    "core_validate crc checks MAX_PAYLOAD_SIZE True bs =
       (if \<not> is_assigned (pkt_operation p AND 0xFF) then Inl (CoreError UnknownOpcode)
        else bindr (payload_operands_core checks payload) (\<lambda>(_, pos).
          if pos \<noteq> length payload then Inl (CoreError TrailingBytes) else Inr ()))"
    "slice bs 56 (56 + be_val (slice bs 44 48)) = payload" "uint (bs ! 56) = pkt_operation p AND 0xFF"
    "unpack_u (slice bs 6 8) = wire_flags p checksum" "append_extensions p (pkt_symbols p) = Inr operands"
    "reads checks (map symbol_of) (payload_operands_core checks payload) operands (length payload)"
proof -
  obtain payload mid cid operands where c: "core_validate crc checks MAX_PAYLOAD_SIZE True bs =
       (if length payload > MAX_PAYLOAD_SIZE then Inl (CoreError PayloadTooLarge)
        else if \<not> checksum \<and> pkt_flags p AND FLAG_HAS_TRAILER \<noteq> 0 then Inl (CoreError Truncated)
        else if \<not> is_assigned (pkt_operation p AND 0xFF) then Inl (CoreError UnknownOpcode)
        else bindr (payload_operands_core checks payload) (\<lambda>(_, pos).
          if pos \<noteq> length payload then Inl (CoreError TrailingBytes) else Inr ()))"
    "build_payload p = Inr payload" "length bs = 56 + length payload + (if checksum then 4 else 0)"
    "slice bs 56 (56 + be_val (slice bs 44 48)) = payload"
    "unpack_u (slice bs 6 8) = wire_flags p checksum" "slice bs 8 24 = mid" "pkt_message_id p = Some mid"
    "slice bs 24 40 = cid" "pkt_correlation_id p = Some cid" "unpack_u (slice bs 40 44) = pkt_deadline_ms p"
    "append_extensions p (pkt_symbols p) = Inr operands"
    "length payload \<le> MAX_PAYLOAD_SIZE \<longrightarrow> uint (bs ! 56) = pkt_operation p AND 0xFF \<and>
      reads checks (map symbol_of) (payload_operands_core checks payload) operands (length payload)"
    by (rule core_validate_all [OF assms(1-3)])
  have n: "\<not> length payload > MAX_PAYLOAD_SIZE" "\<not> (\<not> checksum \<and> pkt_flags p AND FLAG_HAS_TRAILER \<noteq> 0)"
    using assms(4,5) c(3) by auto
  have "uint (bs ! 56) = pkt_operation p AND 0xFF"
    "reads checks (map symbol_of) (payload_operands_core checks payload) operands (length payload)"
    using c(12) n(1) by simp_all
  with c(4,5,11) c(1) [unfolded if_not_P [OF n(1)] if_not_P [OF n(2)]] show thesis by (intro that)
qed

lemma core_loop_length: "core_loop f n i pos = Inr (xs, q) \<Longrightarrow> length xs = n"
  by (induction n arbitrary: i pos xs) (auto simp: bindr_eq_Inr)

text \<open>What the SDK's view of an encoded packet shows, without overflow checks.\<close>

lemma encoded_view:
  assumes "\<And>bs. crc bs = crc32 bs" "encode p checksum = Inr bs" "list_all wf_symbol (pkt_symbols p)"
    and "int (length bs) \<le> MAX_PACKET_SIZE" "checksum \<or> pkt_flags p AND FLAG_HAS_TRAILER = 0"
    and "is_assigned (pkt_operation p AND 0xFF)" "append_extensions p (pkt_symbols p) = Inr operands"
  shows "aicl_decode crc False bs =
    Some (Inr \<lparr>nv_opcode = pkt_operation p AND 0xFF, nv_flags = wire_flags p checksum, nv_operand_count = int (length operands)\<rparr>)"
proof -
  obtain payload ops where c: "core_validate crc False MAX_PAYLOAD_SIZE True bs =
       (if \<not> is_assigned (pkt_operation p AND 0xFF) then Inl (CoreError UnknownOpcode)
        else bindr (payload_operands_core False payload) (\<lambda>(_, pos).
          if pos \<noteq> length payload then Inl (CoreError TrailingBytes) else Inr ()))"
    "slice bs 56 (56 + be_val (slice bs 44 48)) = payload" "uint (bs ! 56) = pkt_operation p AND 0xFF"
    "unpack_u (slice bs 6 8) = wire_flags p checksum"
    and o: "append_extensions p (pkt_symbols p) = Inr ops"
    and r: "reads False (map symbol_of) (payload_operands_core False payload) ops (length payload)"
    by (rule core_validate_encoded [OF assms(1-5)])
  from r obtain xs where xs: "payload_operands_core False payload = Inr (xs, length payload)" "map symbol_of xs = ops"
    by (auto simp: reads_def)
  then obtain n k where n: "payload_count payload = Inr (n, k)" "unat n = length xs"
    by (auto simp: payload_operands_core_def bindr_eq_Inr dest!: core_loop_length)
  have "payload \<noteq> []" using n(1) by (auto simp: payload_count_def tail_from_def)
  moreover have "length xs = length operands" using xs(2) o assms(7) by auto
  ultimately show ?thesis
    using xs(1) n assms(6) by (simp add: aicl_decode_def codec_decode_def c cv_operand_count_def cv_payload_def Let_def)
qed

section \<open>Where the two implementations differ\<close>

text \<open>The core takes an operand with a reserved tag for Null; the Python codec refuses it.\<close>

lemma reserved_tag_read:
  assumes "0x1B < uint t" "uint t < 0x80"
  shows "core_operand checks (t # rest) idx = Inr (Op_Null, 1) \<and> decode_symbol (t # rest) 0 = Inl SymbolError"
proof
  have "operand_type_from_u8 t = T_Null" using assms by (auto simp: operand_type_from_u8_def OPERAND_TYPES_def)
  then show "core_operand checks (t # rest) idx = Inr (Op_Null, 1)" by (simp add: core_operand_def core_operand_step_def)
  show "decode_symbol (t # rest) 0 = Inl SymbolError"
    using assms by (subst decode_symbol_unfold) (auto simp: decode_step_def FIXED_STRUCT_def is_vendor_tag_def Let_def)
qed

text \<open>
  Four lists inside each other, as an operand that is not the first, overflow the index: a core with overflow
  checks panics where the Python codec and a core without them read the operand.
\<close>

definition nested_lists :: bytes where
  "nested_lists = [0x17, 1, 0x17, 1, 0x17, 1, 0x17, 1, 0x19]"

lemma nested_lists_panic:
  "core_operand True nested_lists 1 = Inl Panic"
  "core_operand False nested_lists 1 =
     Inr (Op_List [Op_List [Op_List [Op_List [Op_Null]]]], 9)"
  by (simp_all add: nested_lists_def core_operand_def core_operand_step_def operand_type_from_u8_def OPERAND_TYPES_def
      tail_from_def core_varint_def operand_at_def child_idx_def)

text \<open>
  A header without a payload is a packet for the Python codec, of the opcode NOP and without operands; the core panics
  on it, with and without overflow checks.
\<close>

lemma empty_payload:
  assumes "pack_header 0x0100 flags mid cid deadline 0 = Inr bs" "flags AND 0x0100 = 0"
  shows "\<exists>v. decode bs = Inr v \<and> view_operation v = 0 \<and> view_symbols v = [] \<and> aicl_decode crc32 checks bs = None"
proof -
  from assms(1) have len: "length bs = 56" by (rule pack_header_length)
  then have whole: "slice bs 0 56 = bs" by (simp add: slice_def)
  from assms(1) obtain vb fb db pb cb where at: "has_at bs 0 MAGIC" "has_at bs 4 vb" "has_at bs 6 fb"
    "has_at bs 8 mid" "has_at bs 24 cid" "has_at bs 40 db" "has_at bs 44 pb" "has_at bs 52 cb"
    "pack_u 2 0x0100 = Inr vb" "pack_u 2 flags = Inr fb" "pack_u 4 deadline = Inr db"
    "pack_u 4 0 = Inr pb" "pack_u 4 (crc32 (slice bs 0 52)) = Inr cb"
    by (rule pack_header_layout)
  have f: "slice bs 0 4 = MAGIC" "unpack_u (slice bs 4 6) = 0x0100" "unpack_u (slice bs 6 8) = flags" "unpack_u (slice bs 44 48) = 0"
    "unpack_u (slice bs 52 56) = crc32 (slice bs 0 52)"
    using has_at_slice_eq [OF at(1), of 4] unpack_u_layout [OF at(2,9)] unpack_u_layout [OF at(3,10)] unpack_u_layout [OF at(7,12)]
      unpack_u_layout [OF at(8,13)] by simp_all
  then have n: "be_val (slice bs 4 6) = 256" "be_val (slice bs 44 48) = 0" by (simp_all add: unpack_u_def)
  have "aicl_decode crc32 checks bs = None"
    using len f n assms(2) by (simp add: aicl_decode_def codec_decode_def core_validate_def)
  moreover have valid: "validate_header (slice bs 0 56) = Inr ()" using validate_pack_header [OF assms(1)] whole by simp
  have "decode bs = view_init bs 56 56" using decode_body [OF valid, of 0] len f(4) by simp
  moreover have "unpack_header bs = Inr \<lparr>hdr_magic = MAGIC, hdr_version = 0x0100, hdr_flags = flags, hdr_message_id = mid,
      hdr_correlation_id = cid, hdr_deadline_ms = deadline, hdr_payload_length = 0\<rparr>"
    using unpack_pack_header [OF assms(1), of "[]"] by simp
  then have "\<exists>v. view_init bs 56 56 = Inr v \<and> view_operation v = 0 \<and> view_symbols v = []"
    by (simp add: view_init_def whole)
  ultimately show ?thesis by auto
qed

text \<open>
  The status codes for a Bool, a string, a varint and left-over bytes that are not well formed have no name in the
  SDK's table.
\<close>

lemma status_unnamed:
  "native_error_name (status_of InvalidBool) = str ''UNKNOWN(15)''"
  "native_error_name (status_of InvalidUtf8) = str ''UNKNOWN(16)''"
  "native_error_name (status_of VarintOverflow) = str ''UNKNOWN(17)''"
  "native_error_name (status_of TrailingBytes) = str ''UNKNOWN(18)''"
  by (simp_all add: native_error_name_def status_of_def STATUS_NAMES_def dec_int_def dec.simps str_def)

text \<open>What the SDK's model of the core leaves open is this core, where it does not panic.\<close>

definition core_rest :: "(bytes \<Rightarrow> int) \<Rightarrow> bool \<Rightarrow> bytes \<Rightarrow> int + native_view" where
  "core_rest crc checks data = (case aicl_decode crc checks data of None \<Rightarrow> Inl 100 | Some r \<Rightarrow> r)"

lemma core_decode_is_core:
  assumes "aicl_decode crc checks data = Some r"
  shows "core_decode (core_rest crc checks) data = r"
proof -
  have magic: "map byte_of (str ''AICL'') = MAGIC" by (simp add: MAGIC_def str_def byte_of_def)
  consider (short) "length data < 56" | (magic) "\<not> length data < 56" "slice data 0 4 \<noteq> MAGIC"
    | (version) "\<not> length data < 56" "slice data 0 4 = MAGIC" "be_val (slice data 4 6) div 256 \<noteq> 1"
    | (rest) "\<not> length data < 56" "slice data 0 4 = MAGIC" "be_val (slice data 4 6) div 256 = 1" by blast
  then show ?thesis
  proof cases
    case short
    then show ?thesis using assms by (simp add: core_decode_def aicl_decode_def codec_decode_def core_validate_def status_of_def)
  next
    case magic
    then show ?thesis using assms \<open>map byte_of (str ''AICL'') = MAGIC\<close>
      by (simp add: core_decode_def aicl_decode_def codec_decode_def core_validate_def status_of_def)
  next
    case version
    then show ?thesis using assms \<open>map byte_of (str ''AICL'') = MAGIC\<close>
      by (simp add: core_decode_def aicl_decode_def codec_decode_def core_validate_def status_of_def)
  next
    case rest
    then show ?thesis using assms \<open>map byte_of (str ''AICL'') = MAGIC\<close> by (simp add: core_decode_def core_rest_def)
  qed
qed

section \<open>Properties\<close>

text \<open>
  C6. What the native core does with each packet that the Python codec encodes (with well-formed operands, whatever
  the size): a payload over the core's limit of 16 MiB it refuses as too large; the flag 0x0100 without a checksum it
  takes for a trailer that is missing, and refuses the packet as truncated; an opcode that is not one of the
  protocol's it refuses as unknown. Every other packet it reads, with the same opcode, flags, ids and
  deadline, and operands of the same values, those of the rich fields included, where a map counts as the mapping it is.
  (A core built with overflow checks may panic on deep nesting instead.) The Python codec decodes
  what the core refuses for its flag or its opcode (C1).
\<close>

theorem core_reads_encoded:
  assumes "\<And>bs. crc bs = crc32 bs" "encode p checksum = Inr bs" "list_all wf_symbol (pkt_symbols p)"
  shows "\<exists>payload operands. build_payload p = Inr payload \<and> append_extensions p (pkt_symbols p) = Inr operands \<and>
    (let r = decode_to_packet crc checks MAX_PAYLOAD_SIZE True bs in
     if length payload > 16777216 then r = Inl (CoreError PayloadTooLarge)
     else if \<not> checksum \<and> pkt_flags p AND FLAG_HAS_TRAILER \<noteq> 0 then r = Inl (CoreError Truncated)
     else if \<not> is_assigned (pkt_operation p AND 0xFF) then r = Inl (CoreError UnknownOpcode)
     else checks \<and> r = Inl Panic \<or>
       (\<exists>k. r = Inr k \<and> uint (ap_opcode k) = pkt_operation p AND 0xFF \<and> ap_flags k = wire_flags p checksum \<and>
          ap_message_id k = pkt_message_id p \<and> Some (ap_correlation_id k) = pkt_correlation_id p \<and>
          ap_deadline_ms k = pkt_deadline_ms p \<and> map symbol_of (ap_operands k) = operands))"
proof -
  obtain payload mid cid operands where c: "core_validate crc checks MAX_PAYLOAD_SIZE True bs =
       (if length payload > MAX_PAYLOAD_SIZE then Inl (CoreError PayloadTooLarge)
        else if \<not> checksum \<and> pkt_flags p AND FLAG_HAS_TRAILER \<noteq> 0 then Inl (CoreError Truncated)
        else if \<not> is_assigned (pkt_operation p AND 0xFF) then Inl (CoreError UnknownOpcode)
        else bindr (payload_operands_core checks payload) (\<lambda>(_, pos).
          if pos \<noteq> length payload then Inl (CoreError TrailingBytes) else Inr ()))"
    and pl: "build_payload p = Inr payload"
    and "length bs = 56 + length payload + (if checksum then 4 else 0)"
    and f: "slice bs 56 (56 + be_val (slice bs 44 48)) = payload"
    "unpack_u (slice bs 6 8) = wire_flags p checksum" "slice bs 8 24 = mid" "pkt_message_id p = Some mid"
    "slice bs 24 40 = cid" "pkt_correlation_id p = Some cid" "unpack_u (slice bs 40 44) = pkt_deadline_ms p"
    and o: "append_extensions p (pkt_symbols p) = Inr operands"
    and r: "length payload \<le> MAX_PAYLOAD_SIZE \<longrightarrow> uint (bs ! 56) = pkt_operation p AND 0xFF \<and>
      reads checks (map symbol_of) (payload_operands_core checks payload) operands (length payload)"
    by (rule core_validate_all [OF assms])
  show ?thesis
  proof (cases "length payload > MAX_PAYLOAD_SIZE \<or> \<not> checksum \<and> pkt_flags p AND FLAG_HAS_TRAILER \<noteq> 0")
    case True
    with pl o show ?thesis by (auto simp: decode_to_packet_def codec_decode_def c Let_def)
  next
    case False
    then have n: "\<not> length payload > 16777216" "\<not> (\<not> checksum \<and> pkt_flags p AND FLAG_HAS_TRAILER \<noteq> 0)" by auto
    have "reads checks (map symbol_of) (payload_operands_core checks payload) operands (length payload)"
      "uint (bs ! 56) = pkt_operation p AND 0xFF" using False r by simp_all
    with pl o show ?thesis unfolding if_not_P [OF n(1)] if_not_P [OF n(2)] Let_def
      by (intro exI [of _ payload] exI [of _ operands])
        (auto simp: n decode_to_packet_def codec_decode_def c f cv_to_packet_def cv_payload_def opcode_tables reads_def Let_def)
  qed
qed

definition call_packet :: packet where
  "call_packet = sample_packet\<lparr>pkt_operation := OP_CLASSIFY\<rparr>"

theorem core_reads_encoded_witness:
  "\<exists>bs k. encode call_packet True = Inr bs \<and> decode_to_packet crc32 False MAX_PAYLOAD_SIZE True bs = Inr k \<and>
     ap_opcode k = 0x43 \<and> map symbol_of (take 2 (ap_operands k)) = [Symbol S_U8 (VInt 7), Symbol S_BOOL (VBool True)]"
proof -
  have wf: "wf_packet call_packet" using sample_wf by (simp add: call_packet_def wf_packet_def wf_records_def)
  obtain pl where pl: "build_payload sample_packet = Inr pl" "length pl = 47" using sample_payload by blast
  have "build_payload call_packet = bindr (build_payload sample_packet) (\<lambda>b. Inr (0x43 # tl b))"
    by (simp add: build_payload_def append_extensions_def ext_fields_def call_packet_def bindr_assoc)
  then have pl': "build_payload call_packet = Inr (0x43 # tl pl)" "length (0x43 # tl pl :: bytes) = 47" using pl by simp_all
  with encode_total [OF wf this(1), of True] obtain bs where bs: "encode call_packet True = Inr bs" "length bs = 107" by auto
  have syms: "pkt_symbols call_packet = [Symbol S_U8 (VInt 7), Symbol S_BOOL (VBool True)]" "pkt_operation call_packet = 0x43"
    by (simp_all add: call_packet_def sample_packet_def)
  have "list_all wf_symbol (pkt_symbols call_packet)" by (simp add: syms FIXED_STRUCT_def)
  from core_reads_encoded [of crc32, OF refl bs(1) this, of False] pl' obtain operands k where
    k: "append_extensions call_packet (pkt_symbols call_packet) = Inr operands"
    "decode_to_packet crc32 False MAX_PAYLOAD_SIZE True bs = Inr k" "uint (ap_opcode k) = 0x43" "map symbol_of (ap_operands k) = operands"
    by (auto simp: syms Let_def is_assigned_def OPERATION_NAMES_def)
  from k(1) have "take 2 operands = pkt_symbols call_packet" by (auto simp: append_extensions_def bindr_eq_Inr syms)
  with k(4) have "map symbol_of (take 2 (ap_operands k)) = pkt_symbols call_packet" by (simp flip: take_map)
  moreover have "ap_opcode k = 0x43" using uint_byte_eq [OF k(3)] by simp
  ultimately show ?thesis using bs(1) k(2) syms(1) by auto
qed

text \<open>
  C8. Memory and stack aside, decoding arbitrary bytes behind the C interface ends with a view or one of
  ten status codes, except that a core without overflow checks panics, and takes the process with it, on
  exactly the headers without a payload: 56 bytes with magic, major version and checksum in order, payload
  length zero and no trailer flag.
\<close>

theorem core_panics:
  "(aicl_decode crc False data = None \<longleftrightarrow>
      length data = 56 \<and> slice data 0 4 = MAGIC \<and> be_val (slice data 4 6) div 256 = 1 \<and>
      unpack_u (slice data 52 56) = crc (slice data 0 52) \<and> be_val (slice data 44 48) = 0 \<and>
      unpack_u (slice data 6 8) AND 0x0100 = 0) \<and>
   aicl_decode crc checks data \<in> {None} \<union> Some ` (Inl ` {1, 2, 3, 4, 5, 6, 15, 16, 17, 18} \<union> range Inr)"
proof -
  let ?pay = "slice data 56 (56 + be_val (slice data 44 48))"
  have ops: "?pay \<noteq> [] \<Longrightarrow> within c 1 (length ?pay) (payload_operands_core c ?pay)" for c
    by (rule payload_operands_within)
  then have nopanic: "?pay \<noteq> [] \<Longrightarrow> payload_operands_core False ?pay \<noteq> Inl Panic"
    and bound: "?pay \<noteq> [] \<Longrightarrow> payload_operands_core c ?pay \<noteq> Inl (CoreError NestedTooDeep)" for c
    by (metis within_Inl)+
  have pay: "length ?pay = be_val (slice data 44 48)" if "56 + be_val (slice data 44 48) \<le> length data" using that by simp
  have "aicl_decode crc False data = None \<longleftrightarrow> core_validate crc False MAX_PAYLOAD_SIZE True data = Inl Panic"
    by (auto simp: aicl_decode_def codec_decode_def bindr_eq_Inl Let_def split: sum.splits core_exn.splits)
  also have "\<dots> \<longleftrightarrow> length data = 56 \<and> slice data 0 4 = MAGIC \<and> be_val (slice data 4 6) div 256 = 1 \<and>
      unpack_u (slice data 52 56) = crc (slice data 0 52) \<and> be_val (slice data 44 48) = 0 \<and>
      unpack_u (slice data 6 8) AND 0x0100 = 0"
    using nopanic by (auto simp: core_validate_def Let_def bindr_eq_Inl split: if_splits)
  finally have "aicl_decode crc False data = None \<longleftrightarrow> \<dots>" .
  moreover have "core_validate crc checks MAX_PAYLOAD_SIZE True data \<noteq> Inl (CoreError NestedTooDeep)"
    using bound by (auto simp: core_validate_def Let_def bindr_eq_Inl split: if_splits)
  then have "aicl_decode crc checks data \<in> {None} \<union> Some ` (Inl ` {1, 2, 3, 4, 5, 6, 15, 16, 17, 18} \<union> range Inr)"
    by (auto simp: aicl_decode_def codec_decode_def bindr_eq_Inl Let_def status_of_def
        split: sum.splits core_exn.splits error_code.splits)
  ultimately show ?thesis by blast
qed

end
