(* ===== verification/Core_Encode.thy ===== *)
theory Core_Encode
  imports Core_Codec "HOL-Library.List_Lexorder"
begin

text \<open>
  The encoder of the native core: \<^verbatim>\<open>encode\<close> of \<^verbatim>\<open>core-rust/src/codec.rs\<close>. A \<^verbatim>\<open>BTreeMap\<close> is walked in the order of its
  keys; the crate \<^verbatim>\<open>uuid\<close> is an argument, the id it makes for a packet without one. Shown: what the core encodes
  it reads back, packet by packet, except for two kinds of packets it encodes wrongly.
\<close>

unbundle bit_operations_syntax

section \<open>Operands\<close>

text \<open>\<^verbatim>\<open>encode_varint\<close>, with the number of bytes its buffer has left.\<close>

primrec core_encode_varint_loop :: "nat \<Rightarrow> 32 word \<Rightarrow> bytes" where
  "core_encode_varint_loop 0 v = []"
| "core_encode_varint_loop (Suc k) v =
     (let more = v > 0x7F; b = (ucast v AND 0x7F) OR (if more then 0x80 else 0) in
      if \<not> more then [b] else b # core_encode_varint_loop k (drop_bit 7 v))"

definition core_encode_varint :: "32 word \<Rightarrow> bytes" where
  "core_encode_varint v = core_encode_varint_loop 4 v"

text \<open>\<^verbatim>\<open>op.kind().to_u8()\<close>.\<close>

fun operand_tag :: "operand \<Rightarrow> byte" where
  "operand_tag (Op_I8 _) = 0x01"
| "operand_tag (Op_I16 _) = 0x02"
| "operand_tag (Op_I32 _) = 0x03"
| "operand_tag (Op_I64 _) = 0x04"
| "operand_tag (Op_U8 _) = 0x05"
| "operand_tag (Op_U16 _) = 0x06"
| "operand_tag (Op_U32 _) = 0x07"
| "operand_tag (Op_U64 _) = 0x08"
| "operand_tag (Op_F32 _) = 0x09"
| "operand_tag (Op_F64 _) = 0x0A"
| "operand_tag (Op_Bool _) = 0x10"
| "operand_tag (Op_Str _) = 0x11"
| "operand_tag (Op_Bytes _) = 0x12"
| "operand_tag (Op_Uuid _) = 0x13"
| "operand_tag (Op_Handle _) = 0x14"
| "operand_tag (Op_Ref _) = 0x15"
| "operand_tag (Op_BufRef _ _ _) = 0x16"
| "operand_tag (Op_List _) = 0x17"
| "operand_tag (Op_Map _) = 0x18"
| "operand_tag Op_Null = 0x19"
| "operand_tag (Op_TsMs _) = 0x1A"
| "operand_tag (Op_DurationMs _) = 0x1B"
| "operand_tag (Op_Vendor t _) = t"

definition be_of :: "'a::len word \<Rightarrow> bytes" where
  "be_of w = be_bytes (LENGTH('a) div 8) (unat w)"

text \<open>The bytes of a \<^verbatim>\<open>String\<close>, which holds no surrogates.\<close>

definition str_bytes :: "pystr \<Rightarrow> bytes" where
  "str_bytes s = (case utf8_encode s of Inr b \<Rightarrow> b | Inl _ \<Rightarrow> [])"

text \<open>A run of bytes behind its length, which is cut to 32 bits.\<close>

definition put_counted :: "bytes \<Rightarrow> bytes" where
  "put_counted b = core_encode_varint (of_nat (length b)) @ b"

text \<open>\<^verbatim>\<open>encode_operand\<close>.\<close>

fun encode_operand :: "operand \<Rightarrow> bytes" where
  "encode_operand (Op_I8 w) = operand_tag (Op_I8 w) # be_of w"
| "encode_operand (Op_I16 w) = operand_tag (Op_I16 w) # be_of w"
| "encode_operand (Op_I32 w) = operand_tag (Op_I32 w) # be_of w"
| "encode_operand (Op_I64 w) = operand_tag (Op_I64 w) # be_of w"
| "encode_operand (Op_U8 w) = operand_tag (Op_U8 w) # be_of w"
| "encode_operand (Op_U16 w) = operand_tag (Op_U16 w) # be_of w"
| "encode_operand (Op_U32 w) = operand_tag (Op_U32 w) # be_of w"
| "encode_operand (Op_U64 w) = operand_tag (Op_U64 w) # be_of w"
| "encode_operand (Op_F32 w) = operand_tag (Op_F32 w) # be_of w"
| "encode_operand (Op_F64 w) = operand_tag (Op_F64 w) # be_of w"
| "encode_operand (Op_Bool b) = operand_tag (Op_Bool b) # [if b then 1 else 0]"
| "encode_operand (Op_Str s) = operand_tag (Op_Str s) # put_counted (str_bytes s)"
| "encode_operand (Op_Bytes b) = operand_tag (Op_Bytes b) # put_counted b"
| "encode_operand (Op_Uuid b) = operand_tag (Op_Uuid b) # b"
| "encode_operand (Op_Handle w) = operand_tag (Op_Handle w) # be_of w"
| "encode_operand (Op_Ref w) = operand_tag (Op_Ref w) # be_of w"
| "encode_operand (Op_BufRef i f n) = operand_tag (Op_BufRef i f n) # be_of i @ be_of f @ be_of n"
| "encode_operand (Op_List xs) =
     operand_tag (Op_List xs) # core_encode_varint (of_nat (length xs)) @ concat (map encode_operand xs)"
| "encode_operand (Op_Map d) =
     operand_tag (Op_Map d) # core_encode_varint (of_nat (length d)) @
       concat (map snd (sort_key fst (map (\<lambda>(k, x). (k, put_counted (str_bytes k) @ encode_operand x)) d)))"
| "encode_operand Op_Null = [operand_tag Op_Null]"
| "encode_operand (Op_TsMs w) = operand_tag (Op_TsMs w) # be_of w"
| "encode_operand (Op_DurationMs w) = operand_tag (Op_DurationMs w) # be_of w"
| "encode_operand (Op_Vendor t b) =
     operand_tag (Op_Vendor t b) # core_encode_varint (of_nat (length b)) @ [t] @ b"

section \<open>Packets\<close>

text \<open>
  \<^verbatim>\<open>AiclCodec::encode\<close>, an opcode being its byte. The flags are written as they are, and no trailer follows.
\<close>

definition core_payload :: "aicl_packet \<Rightarrow> bytes" where
  "core_payload p =
     ap_opcode p # core_encode_varint (of_nat (length (ap_operands p))) @ concat (map encode_operand (ap_operands p))"

definition core_encode :: "(bytes \<Rightarrow> int) \<Rightarrow> nat \<Rightarrow> bytes \<Rightarrow> aicl_packet \<Rightarrow> bytes core" where
  "core_encode crc max_payload fresh_id p =
     (let payload = core_payload p; payload_len = length payload mod 2 ^ 32 in
      if payload_len > max_payload then Inl (CoreError PayloadTooLarge)
      else
        let prefix = MAGIC @ be_bytes 2 0x0100 @ be_bytes 2 (nat (ap_flags p)) @
              (case ap_message_id p of Some i \<Rightarrow> i | None \<Rightarrow> fresh_id) @ ap_correlation_id p @
              be_bytes 4 (nat (ap_deadline_ms p)) @ be_bytes 4 payload_len @ [0, 0, 0, 0] in
        Inr (prefix @ be_bytes 4 (nat (crc prefix)) @ payload))"


section \<open>The core reads what it writes\<close>

text \<open>The numbers are those of the Python codec.\<close>

lemma core_encode_varint_python: "core_encode_varint_loop k v = encode_varint_loop k (uint v)"
proof (induction k arbitrary: v)
  case (Suc k)
  have more: "0x7F < v \<longleftrightarrow> 0x7F < uint v" by (simp add: word_less_alt)
  have low: "word_of_int (uint v AND 0x7F) = (ucast v AND 0x7F :: byte)"
    by (simp only: word_wi_log_defs(2) [symmetric] ucast_eq) simp
  have high: "word_of_int ((uint v AND 0x7F) OR 0x80) = (ucast v AND 0x7F) OR (0x80 :: byte)"
    by (simp only: word_wi_log_defs(3) [symmetric] low) simp
  have "uint (drop_bit 7 v) = drop_bit 7 (uint v)" by (simp add: drop_bit_eq_div uint_div_distrib)
  then show ?case using more Suc.IH [of "drop_bit 7 v"] by (simp add: encode_varint_loop.simps(2) Let_def low high)
qed simp

lemma core_varint_reads_back:
  assumes "unat v < 2 ^ 28"
  shows "core_varint (core_encode_varint v @ rest) = Inr (v, length (core_encode_varint v))"
proof -
  have "int (unat v) < int (2 ^ 28)" using assms by (simp only: of_nat_less_iff)
  then have ok: "varint_ok (uint v)" by (simp add: varint_ok_def)
  have enc: "encode_varint (uint v) = Inr (core_encode_varint v)"
    by (simp add: encode_varint_def core_encode_varint_def core_encode_varint_python)
  have "decode_varint (core_encode_varint v @ rest) 0 = Inr (uint v, 0 + length (core_encode_varint v))"
    by (rule decode_encode_varint [OF ok enc]) (rule has_at_prefix)
  from core_varint_reads [OF this] show ?thesis by simp
qed

lemma core_varint_small: "v \<le> 0x7F \<Longrightarrow> length (core_encode_varint v) = 1"
  by (simp add: core_encode_varint_def eval_nat_numeral Let_def)

text \<open>Lengths below \<open>2 ^ 28\<close> are read back.\<close>

lemma core_varint_count:
  assumes "n < 2 ^ 28"
  shows "core_varint (core_encode_varint (of_nat n) @ rest) = Inr (of_nat n, length (core_encode_varint (of_nat n)))"
    "unat (of_nat n :: 32 word) = n"
proof -
  show u: "unat (of_nat n :: 32 word) = n" using assms by (simp add: unat_of_nat)
  show "core_varint (core_encode_varint (of_nat n) @ rest) = Inr (of_nat n, length (core_encode_varint (of_nat n)))"
    using assms by (intro core_varint_reads_back) (simp add: u)
qed

lemma counted_bytes_put:
  assumes "drop pos data = put_counted b @ rest" "pos \<le> length data" "length b < 2 ^ 28"
  shows "counted_bytes data pos = Inr (b, pos + length (put_counted b))"
proof -
  let ?v = "core_encode_varint (of_nat (length b))"
  have d: "drop pos data = ?v @ b @ rest" using assms(1) by (simp add: put_counted_def)
  have "drop (pos + length ?v) data = b @ rest"
    using arg_cong [OF d, of "drop (length ?v)"] by (simp add: add.commute)
  moreover have "pos + length ?v + length b \<le> length data" using arg_cong [OF d, of length] assms(2) by simp
  moreover have "slice data (pos + length ?v) (pos + (length ?v + length b)) = b"
    using calculation(1) by (simp add: slice_def)
  ultimately show ?thesis
    by (simp add: counted_bytes_def tail_from_le assms(2) d core_varint_count [OF assms(3)] Let_def need_bytes_def put_counted_def add.assoc)
qed

lemma be_word_be_of: "LENGTH('a::len) mod 8 = 0 \<Longrightarrow> be_word (be_of (w :: 'a word)) = w"
proof -
  assume a: "LENGTH('a) mod 8 = 0"
  then have "8 * (LENGTH('a) div 8) = LENGTH('a)" by presburger
  then have "(256 :: nat) ^ (LENGTH('a) div 8) = 2 ^ LENGTH('a)" using power_mult [of "2 :: nat" 8 "LENGTH('a) div 8"] by simp
  then have "unat w < 256 ^ (LENGTH('a) div 8)" by simp
  then show ?thesis by (simp add: be_word_def be_of_def)
qed

lemma length_be_of [simp]: "length (be_of (w :: 'a::len word)) = LENGTH('a) div 8"
  by (simp add: be_of_def)

text \<open>
  Operands the encoder writes as the decoder reads them: lengths below \<open>2 ^ 28\<close>, ids of sixteen bytes, maps as their
  entries in the order of the keys, and no vendor operand.
\<close>

fun core_ok :: "operand \<Rightarrow> bool" where
  "core_ok (Op_Str s) = utf8_len_ok s"
| "core_ok (Op_Bytes b) = (length b < 2 ^ 28)"
| "core_ok (Op_Uuid b) = (length b = 16)"
| "core_ok (Op_List xs) = (length xs < 2 ^ 28 \<and> list_all core_ok xs)"
| "core_ok (Op_Map d) =
     (length d < 2 ^ 28 \<and> sorted_wrt (<) (map fst d) \<and> list_all (\<lambda>(k, x). utf8_len_ok k \<and> core_ok x) d)"
| "core_ok (Op_Vendor _ _) = False"
| "core_ok _ = True"

lemma str_bytes_ok:
  assumes "utf8_len_ok s"
  shows "length (str_bytes s) < 2 ^ 28" "from_utf8 (str_bytes s) = Inr s"
  using assms utf8_decode_encode by (auto simp: utf8_len_ok.simps str_bytes_def from_utf8_def split: sum.splits)

lemma core_loop_items:
  assumes "\<And>x r i p. x \<in> set xs \<Longrightarrow> drop p data = enc x @ r \<Longrightarrow> p \<le> length data \<Longrightarrow> f i p = Inr (x, p + length (enc x))"
  shows "drop pos data = concat (map enc xs) @ rest \<Longrightarrow> pos \<le> length data \<Longrightarrow>
    core_loop f (length xs) i pos = Inr (xs, pos + length (concat (map enc xs)))"
  using assms
proof (induction xs arbitrary: i pos)
  case (Cons x xs)
  from Cons.prems(1) have d: "drop pos data = enc x @ concat (map enc xs) @ rest" by simp
  have here: "f i pos = Inr (x, pos + length (enc x))" by (rule Cons.prems(3) [OF _ d Cons.prems(2)]) simp
  have nx: "drop (pos + length (enc x)) data = concat (map enc xs) @ rest"
    using arg_cong [OF d, of "drop (length (enc x))"] by (simp add: add.commute)
  have len: "pos + length (enc x) \<le> length data" using arg_cong [OF d, of length] Cons.prems(2) by simp
  have "core_loop f (length xs) (i + 1) (pos + length (enc x)) =
      Inr (xs, pos + length (enc x) + length (concat (map enc xs)))"
    by (rule Cons.IH [OF nx len]) (use Cons.prems(3) in auto)
  then show ?case by (simp add: here)
qed simp

text \<open>A decoder reads \<open>x\<close> from \<open>enc\<close>, whatever follows.\<close>

definition reads_back :: "(bytes \<Rightarrow> nat \<Rightarrow> (operand \<times> nat) core) \<Rightarrow> operand \<Rightarrow> bytes \<Rightarrow> bool" where
  "reads_back rec x enc = (\<forall>rest j. rec (enc @ rest) j = Inr (x, length enc))"

lemma operand_at_reads_back:
  "reads_back rec x enc \<Longrightarrow> drop p data = enc @ r \<Longrightarrow> p \<le> length data \<Longrightarrow> operand_at rec data j p = Inr (x, p + length enc)"
  by (simp add: operand_at_def tail_from_le reads_back_def)

lemma entry_at_reads_back:
  assumes "drop p data = (put_counted (str_bytes key) @ enc) @ r" "p \<le> length data" "utf8_len_ok key"
    and "reads_back rec x enc"
  shows "entry_at rec False data idx i p = Inr ((key, x), p + length (put_counted (str_bytes key) @ enc))"
proof -
  let ?k = "put_counted (str_bytes key)"
  have d: "drop p data = ?k @ enc @ r" using assms(1) by simp
  note s = str_bytes_ok [OF assms(3)]
  have nx: "drop (p + length ?k) data = enc @ r" using arg_cong [OF d, of "drop (length ?k)"] by (simp add: add.commute)
  have len: "p + length ?k \<le> length data" using arg_cong [OF d, of length] assms(2) by simp
  show ?thesis
    by (simp add: entry_at_def counted_bytes_put [OF d assms(2) s(1)] s(2) child_idx_def operand_at_reads_back [OF assms(4) nx len])
qed

lemma fixed_reads_back:
  "length bs = n \<Longrightarrow> mk bs = x \<Longrightarrow> fixed_operand n mk (t # bs @ rest) = Inr (x, 1 + n)"
  by (simp add: fixed_operand_Cons)

lemma operand_tag_types:
  "operand_type_from_u8 (operand_tag x) =
     (case x of
        Op_I8 _ \<Rightarrow> T_I8 | Op_I16 _ \<Rightarrow> T_I16 | Op_I32 _ \<Rightarrow> T_I32 | Op_I64 _ \<Rightarrow> T_I64 | Op_U8 _ \<Rightarrow> T_U8 | Op_U16 _ \<Rightarrow> T_U16
      | Op_U32 _ \<Rightarrow> T_U32 | Op_U64 _ \<Rightarrow> T_U64 | Op_F32 _ \<Rightarrow> T_F32 | Op_F64 _ \<Rightarrow> T_F64 | Op_Bool _ \<Rightarrow> T_Bool | Op_Str _ \<Rightarrow> T_Str
      | Op_Bytes _ \<Rightarrow> T_Bytes | Op_Uuid _ \<Rightarrow> T_Uuid | Op_Handle _ \<Rightarrow> T_Handle | Op_Ref _ \<Rightarrow> T_Ref | Op_BufRef _ _ _ \<Rightarrow> T_BufRef
      | Op_List _ \<Rightarrow> T_List | Op_Map _ \<Rightarrow> T_Map | Op_Null \<Rightarrow> T_Null | Op_TsMs _ \<Rightarrow> T_TsMs | Op_DurationMs _ \<Rightarrow> T_DurationMs
      | Op_Vendor t _ \<Rightarrow> operand_type_from_u8 t)"
  by (cases x) (simp_all add: operand_type_from_u8_def OPERAND_TYPES_def)

lemma list_reads_back:
  assumes "length xs < 2 ^ 28" "\<And>x. x \<in> set xs \<Longrightarrow> reads_back rec x (encode_operand x)"
  shows "reads_back (core_operand_step rec False) (Op_List xs) (encode_operand (Op_List xs))"
  unfolding reads_back_def
proof (intro allI)
  fix rest idx
  let ?v = "core_encode_varint (of_nat (length xs))" and ?items = "concat (map encode_operand xs)"
  let ?data = "0x17 # ?v @ ?items @ rest"
  let ?f = "\<lambda>i p. bindr (child_idx False idx i) (\<lambda>j. operand_at rec ?data j p)"
  note v = core_varint_count [OF assms(1)]
  have "core_loop ?f (length xs) 0 (1 + length ?v) = Inr (xs, 1 + length ?v + length ?items)"
    by (rule core_loop_items [where data = ?data and rest = rest])
      (simp_all add: child_idx_def operand_at_reads_back [OF assms(2)])
  then show "core_operand_step rec False (encode_operand (Op_List xs) @ rest) idx = Inr (Op_List xs, length (encode_operand (Op_List xs)))"
    using operand_tag_types [of "Op_List xs"] by (simp add: core_operand_step_def tail_from_le v)
qed

lemma encode_map_order:
  assumes "sorted_wrt (<) (map fst d)"
  shows "encode_operand (Op_Map d) = 0x18 # core_encode_varint (of_nat (length d)) @
    concat (map (\<lambda>(k, x). put_counted (str_bytes k) @ encode_operand x) d)"
proof -
  let ?e = "\<lambda>(k, x). (k, put_counted (str_bytes k) @ encode_operand x)"
  have "sorted (map fst (map ?e d))" using assms by (simp add: strict_sorted_iff comp_def split_def)
  then have "sort_key fst (map ?e d) = map ?e d" by (rule sort_key_id_if_sorted)
  then show ?thesis by (simp add: comp_def split_def)
qed

lemma map_reads_back:
  assumes "length d < 2 ^ 28" "sorted_wrt (<) (map fst d)" "\<And>k x. (k, x) \<in> set d \<Longrightarrow> utf8_len_ok k"
    and "\<And>k x. (k, x) \<in> set d \<Longrightarrow> reads_back rec x (encode_operand x)"
  shows "reads_back (core_operand_step rec False) (Op_Map d) (encode_operand (Op_Map d))"
  unfolding reads_back_def
proof (intro allI)
  fix rest idx
  let ?e = "\<lambda>(k, x). put_counted (str_bytes k) @ encode_operand x"
  let ?v = "core_encode_varint (of_nat (length d))" and ?items = "concat (map ?e d)"
  let ?data = "0x18 # ?v @ ?items @ rest"
  note v = core_varint_count [OF assms(1)]
  have dist: "distinct (map fst d)" using assms(2) by (simp add: strict_sorted_iff)
  note enc = encode_map_order [OF assms(2)]
  have "core_loop (entry_at rec False ?data idx) (length d) 0 (1 + length ?v) = Inr (d, 1 + length ?v + length ?items)"
  proof (rule core_loop_items [where data = ?data and rest = rest])
    fix kx r i p
    assume a: "kx \<in> set d" "drop p ?data = ?e kx @ r" "p \<le> length ?data"
    obtain k x where kx: "kx = (k, x)" by (cases kx)
    show "entry_at rec False ?data idx i p = Inr (kx, p + length (?e kx))"
      using entry_at_reads_back [of p ?data k "encode_operand x" r rec x idx i] a assms(3,4) by (simp add: kx)
  qed simp_all
  then show "core_operand_step rec False (encode_operand (Op_Map d) @ rest) idx = Inr (Op_Map d, length (encode_operand (Op_Map d)))"
    unfolding enc using operand_tag_types [of "Op_Map d"] dist by (simp add: core_operand_step_def tail_from_le v)
qed

lemma scalar_reads_back:
  "reads_back (core_operand_step rec False) x (encode_operand x)"
  if "core_ok x" "\<And>xs. x \<noteq> Op_List xs" "\<And>d. x \<noteq> Op_Map d"
proof -
  note type = operand_tag_types [of x]
  have buf: "slice (be_of i @ be_of f @ be_of n) 0 8 = be_of i" "slice (be_of i @ be_of f @ be_of n) 8 12 = be_of f"
    "slice (be_of i @ be_of f @ be_of n) 12 16 = be_of n" for i :: "64 word" and f n :: "32 word"
    by (simp_all add: slice_def)
  have counted: "counted_bytes (t # put_counted b @ rest) 1 = Inr (b, 1 + length (put_counted b))"
    if "length b < 2 ^ 28" for t b rest by (rule counted_bytes_put [OF _ _ that]) simp_all
  show ?thesis
  proof (cases x)
    case (Op_Str s)
    then show ?thesis using that(1) type counted [OF str_bytes_ok(1)] str_bytes_ok(2)
      by (simp add: reads_back_def core_operand_step_def)
  next
    case (Op_Bytes b)
    then show ?thesis using that(1) type counted by (simp add: reads_back_def core_operand_step_def)
  next
    case (Op_BufRef i f n)
    then show ?thesis using type fixed_reads_back [of "be_of i @ be_of f @ be_of n" 16]
      by (simp add: reads_back_def core_operand_step_def buf be_word_be_of)
  qed (use that type in \<open>simp_all add: reads_back_def core_operand_step_def fixed_reads_back be_word_be_of need_bytes_def\<close>)
qed

text \<open>Whatever bound covers the bytes, the operand is read back.\<close>

lemma encode_operand_nonempty: "encode_operand x \<noteq> []"
  by (cases x) simp_all

lemma encode_map_length:
  assumes "(k, x) \<in> set d"
  shows "length (encode_operand x) < length (encode_operand (Op_Map d))"
proof -
  let ?b = "put_counted (str_bytes k) @ encode_operand x"
  let ?kvs = "map (\<lambda>(k, x). (k, put_counted (str_bytes k) @ encode_operand x)) d"
  have "(k, ?b) \<in> set ?kvs" using assms by force
  then have "?b \<in> set (map snd (sort_key fst ?kvs))" by force
  from length_member_concat [OF this] show ?thesis by simp
qed

lemma levels_read_back:
  "core_ok x \<Longrightarrow> length (encode_operand x) \<le> n \<Longrightarrow> reads_back (core_operand_levels n False) x (encode_operand x)"
proof (induction n arbitrary: x)
  case 0
  then show ?case by (simp add: encode_operand_nonempty)
next
  case (Suc n)
  have "reads_back (core_operand_step (core_operand_levels n False) False) x (encode_operand x)"
  proof -
    consider (list) xs where "x = Op_List xs" | (map) d where "x = Op_Map d"
      | (scalar) "\<And>xs. x \<noteq> Op_List xs" "\<And>d. x \<noteq> Op_Map d" by blast
    then show ?thesis
    proof cases
      case (list xs)
      have "reads_back (core_operand_levels n False) y (encode_operand y)" if y: "y \<in> set xs" for y
      proof (rule Suc.IH)
        show "core_ok y" using Suc.prems(1) y by (simp add: list list_all_iff)
        have "length (encode_operand y) \<le> length (concat (map encode_operand xs))" by (rule length_member_concat) (use y in simp)
        then show "length (encode_operand y) \<le> n" using Suc.prems(2) by (simp add: list)
      qed
      with Suc.prems(1) show ?thesis unfolding list by (intro list_reads_back) (simp_all add: list)
    next
      case (map d)
      have "reads_back (core_operand_levels n False) y (encode_operand y)" if y: "(k, y) \<in> set d" for k y
      proof (rule Suc.IH)
        show "core_ok y" using Suc.prems(1) y by (auto simp: map list_all_iff)
        show "length (encode_operand y) \<le> n" using Suc.prems(2) encode_map_length [OF y] by (simp add: map del: encode_operand.simps)
      qed
      with Suc.prems(1) show ?thesis unfolding map by (intro map_reads_back) (auto simp: map list_all_iff)
    next
      case scalar
      then show ?thesis by (rule scalar_reads_back [OF Suc.prems(1)])
    qed
  qed
  then show ?case by (simp add: reads_back_def)
qed

lemma core_operand_reads_back:
  assumes "core_ok x"
  shows "reads_back (core_operand False) x (encode_operand x)"
  unfolding reads_back_def core_operand_def
proof (intro allI)
  fix rest idx
  have "length (encode_operand x) \<le> Suc (length (encode_operand x @ rest))" by simp
  from levels_read_back [OF assms this]
  show "core_operand_levels (Suc (length (encode_operand x @ rest))) False (encode_operand x @ rest) idx = Inr (x, length (encode_operand x))"
    by (simp only: reads_back_def)
qed

text \<open>
  A vendor operand is not: the decoder takes the tag that stands behind the length for the first byte of the data and
  leaves the last byte of the data over.
\<close>

lemma vendor_read_back:
  assumes "0x80 \<le> uint t" "length b < 2 ^ 28"
  shows "core_operand checks (encode_operand (Op_Vendor t b) @ rest) idx =
    Inr (Op_Vendor t (butlast (t # b)), length (encode_operand (Op_Vendor t b)) - 1)"
proof -
  let ?v = "core_encode_varint (of_nat (length b))"
  have split: "t # b = butlast (t # b) @ [last (t # b)]" by (rule append_butlast_last_id [symmetric]) simp
  then have enc: "encode_operand (Op_Vendor t b) @ rest = t # put_counted (butlast (t # b)) @ last (t # b) # rest"
    by (simp add: put_counted_def del: butlast.simps last.simps)
  have len: "length (encode_operand (Op_Vendor t b)) - 1 = 1 + length (put_counted (butlast (t # b)))"
    by (simp add: put_counted_def)
  have counted: "counted_bytes (t # put_counted (butlast (t # b)) @ last (t # b) # rest) 1 =
      Inr (butlast (t # b), 1 + length (put_counted (butlast (t # b))))"
    by (rule counted_bytes_put) (use assms(2) in simp_all)
  have "operand_type_from_u8 t = T_Vendor t"
    using assms(1) uint_bounded [of t] by (intro operand_type_vendor) (simp add: is_vendor_tag_def)
  then show ?thesis unfolding enc len core_operand_def core_operand_levels.simps core_operand_step_def
    by (simp add: counted [unfolded One_nat_def] del: butlast.simps last.simps)
qed

section \<open>Packets read back\<close>

lemma core_loop_snoc:
  "core_loop f (Suc n) i pos =
     bindr (core_loop f n i pos) (\<lambda>(xs, p). bindr (f (i + n) p) (\<lambda>(x, q). Inr (xs @ [x], q)))"
proof (induction n arbitrary: i pos)
  case 0
  show ?case by (cases "f i pos") auto
next
  case (Suc n)
  have "core_loop f (Suc (Suc n)) i pos = bindr (f i pos) (\<lambda>(x, p). bindr (core_loop f (Suc n) (i + 1) p) (\<lambda>(xs, q). Inr (x # xs, q)))"
    by (rule core_loop.simps(2))
  then show ?case unfolding Suc.IH [of "i + 1"] by (simp add: bindr_assoc split_def)
qed

text \<open>What is read of a payload whose last operand may be a vendor operand.\<close>

lemma core_items_read:
  assumes "list_all core_ok xs" "drop pos data = concat (map encode_operand xs) @ rest" "pos \<le> length data"
  shows "core_loop (operand_at (core_operand False) data) (length xs) i pos =
    Inr (xs, pos + length (concat (map encode_operand xs)))"
  by (rule core_loop_items [OF _ assms(2,3)])
    (rule operand_at_reads_back [OF core_operand_reads_back], use assms(1) in \<open>simp_all add: list_all_iff\<close>)

lemma payload_reads_back:
  assumes "list_all core_ok (ap_operands p)" "length (ap_operands p) < 2 ^ 28"
  shows "payload_operands_core False (core_payload p) = Inr (ap_operands p, length (core_payload p))"
  using core_items_read [OF assms(1), where data = "core_payload p" and rest = "[]" and i = 0
      and pos = "1 + length (core_encode_varint (of_nat (length (ap_operands p))))"]
  by (simp add: core_payload_def payload_operands_core_def payload_count_def tail_from_le core_varint_count [OF assms(2)])

lemma payload_vendor_read:
  assumes "list_all core_ok xs" "ap_operands p = xs @ [Op_Vendor t b]" "length xs < 2 ^ 28 - 1" "0x80 \<le> uint t" "length b < 2 ^ 28"
  shows "payload_operands_core False (core_payload p) =
    Inr (xs @ [Op_Vendor t (butlast (t # b))], length (core_payload p) - 1)"
proof -
  let ?v = "core_encode_varint (of_nat (Suc (length xs)))" and ?i = "concat (map encode_operand xs)"
  let ?pl = "core_payload p" and ?pos = "1 + length ?v"
  have pl: "?pl = ap_opcode p # ?v @ ?i @ encode_operand (Op_Vendor t b)" by (simp add: core_payload_def assms(2) del: of_nat_Suc)
  have n: "Suc (length xs) < 2 ^ 28" using assms(3) by simp
  have items: "core_loop (operand_at (core_operand False) ?pl) (length xs) 0 ?pos = Inr (xs, ?pos + length ?i)"
    by (rule core_items_read [OF assms(1)]) (simp_all add: pl del: encode_operand.simps of_nat_Suc)
  have d: "drop (?pos + length ?i) ?pl = encode_operand (Op_Vendor t b) @ []" by (simp add: pl del: encode_operand.simps of_nat_Suc)
  have tail: "tail_from ?pl (?pos + length ?i) = Inr (encode_operand (Op_Vendor t b) @ [])"
    by (simp only: tail_from_def d) (simp add: pl del: encode_operand.simps of_nat_Suc)
  have "operand_at (core_operand False) ?pl j (?pos + length ?i) = Inr (Op_Vendor t (butlast (t # b)), length ?pl - 1)" for j
    unfolding operand_at_def
    by (simp only: tail bindr_Inr vendor_read_back [OF assms(4,5)] prod.case)
      (simp add: pl del: butlast.simps of_nat_Suc)
  then show ?thesis
    using core_varint_count [OF n] items
    by (simp add: payload_operands_core_def payload_count_def tail_from_le core_loop_snoc pl del: of_nat_Suc core_loop.simps butlast.simps encode_operand.simps)
qed

text \<open>A packet the Rust types allow, with the id it is sent under, small enough for lengths of 32 bits.\<close>

definition core_packet_ok :: "bytes \<Rightarrow> aicl_packet \<Rightarrow> bool" where
  "core_packet_ok mid p =
     (0 \<le> ap_flags p \<and> ap_flags p < 2 ^ 16 \<and> 0 \<le> ap_deadline_ms p \<and> ap_deadline_ms p < 2 ^ 32 \<and>
      length mid = 16 \<and> length (ap_correlation_id p) = 16 \<and> opcode_from_u8 (ap_opcode p) \<noteq> None \<and>
      length (ap_operands p) < 2 ^ 28 \<and> length (core_payload p) < 2 ^ 32)"

definition sent_id :: "bytes \<Rightarrow> aicl_packet \<Rightarrow> bytes" where
  "sent_id fresh_id p = (case ap_message_id p of Some i \<Rightarrow> i | None \<Rightarrow> fresh_id)"

text \<open>What the decoder makes of an encoded packet, before it looks at the operands.\<close>

lemma core_decode_frame:
  assumes crc: "\<And>bs. 0 \<le> crc bs \<and> crc bs < 2 ^ 32" and enc: "core_encode crc max_payload fresh_id p = Inr bs"
    and ok: "core_packet_ok (sent_id fresh_id p) p"
  shows "decode_to_packet crc checks max_payload True bs =
    (if ap_flags p AND 0x0100 \<noteq> 0 then Inl (CoreError Truncated)
     else bindr (payload_operands_core checks (core_payload p)) (\<lambda>(ops, pos).
       if pos \<noteq> length (core_payload p) then Inl (CoreError TrailingBytes)
       else Inr (p\<lparr>ap_message_id := Some (sent_id fresh_id p), ap_operands := ops\<rparr>)))"
proof -
  let ?pl = "core_payload p" and ?mid = "sent_id fresh_id p" and ?cid = "ap_correlation_id p"
  let ?f = "be_bytes 2 (nat (ap_flags p))" and ?d = "be_bytes 4 (nat (ap_deadline_ms p))" and ?l = "be_bytes 4 (length ?pl)"
  let ?prefix = "MAGIC @ be_bytes 2 0x0100 @ ?f @ ?mid @ ?cid @ ?d @ ?l @ [0, 0, 0, 0]"
  let ?c = "be_bytes 4 (nat (crc ?prefix))"
  note o = ok [unfolded core_packet_ok_def]
  have max: "length ?pl \<le> max_payload" and bs: "bs = ?prefix @ ?c @ ?pl"
    using enc o by (auto simp: core_encode_def Let_def sent_id_def split: if_splits)
  have ids: "length ?mid = 16" "length ?cid = 16" using o by auto
  have len: "length bs = 56 + length ?pl" using ids by (simp add: bs)
  have "slice bs 0 4 = MAGIC" "slice bs 4 6 = be_bytes 2 0x0100" "slice bs 6 8 = ?f" "slice bs 8 24 = ?mid" "slice bs 24 40 = ?cid"
    "slice bs 40 44 = ?d" "slice bs 44 48 = ?l" "slice bs 52 56 = ?c" "slice bs 0 52 = ?prefix" "slice bs 56 (56 + length ?pl) = ?pl"
    using ids by (simp_all add: bs slice_def)
  moreover have "be_val (be_bytes 2 0x0100) = 256" "unpack_u ?f = ap_flags p" "unpack_u ?d = ap_deadline_ms p" "be_val ?l = length ?pl"
    "unpack_u ?c = crc ?prefix" using o crc [of ?prefix] by (auto simp: unpack_u_def nat_less_iff)
  moreover have "bs ! 56 = ap_opcode p" "?pl \<noteq> []" using ids by (simp_all add: bs core_payload_def nth_append)
  moreover obtain v where "opcode_from_u8 (ap_opcode p) = Some v" "v = ap_opcode p" using o by (auto simp: opcode_from_u8_def split: if_splits)
  ultimately show ?thesis
    using len max by (cases "payload_operands_core checks ?pl")
      (auto simp: decode_to_packet_def codec_decode_def core_validate_def cv_to_packet_def cv_payload_def Let_def)
qed

text \<open>A packet that ends in a vendor operand is encoded, but refused by the decoder.\<close>

lemma core_vendor_refused:
  assumes "\<And>bs. 0 \<le> crc bs \<and> crc bs < 2 ^ 32" "core_encode crc max_payload fresh_id p = Inr bs"
    and "core_packet_ok (sent_id fresh_id p) p" "ap_operands p = xs @ [Op_Vendor t b]" "list_all core_ok xs"
    and "0x80 \<le> uint t" "length b < 2 ^ 28" "ap_flags p AND 0x0100 = 0"
  shows "decode_to_packet crc False max_payload True bs = Inl (CoreError TrailingBytes)"
proof -
  have "length xs < 2 ^ 28 - 1" using assms(3,4) by (simp add: core_packet_ok_def)
  note r = payload_vendor_read [OF assms(5,4) this assms(6,7)]
  have "core_payload p \<noteq> []" by (simp add: core_payload_def)
  then show ?thesis unfolding core_decode_frame [OF assms(1-3)] r using assms(8) by (cases "core_payload p") simp_all
qed

text \<open>
  The native core reads back what it encodes: every packet without vendor operands and without the trailer
  flag, with the id it was sent under. A packet with the trailer flag it encodes without a trailer, and refuses it
  as truncated.
\<close>

theorem core_packet_roundtrip:
  assumes "\<And>bs. 0 \<le> crc bs \<and> crc bs < 2 ^ 32" "core_encode crc max_payload fresh_id p = Inr bs"
    and "core_packet_ok (sent_id fresh_id p) p" "list_all core_ok (ap_operands p)"
  shows "decode_to_packet crc False max_payload True bs =
    (if ap_flags p AND 0x0100 \<noteq> 0 then Inl (CoreError Truncated)
     else Inr (p\<lparr>ap_message_id := Some (sent_id fresh_id p)\<rparr>))"
proof -
  have "length (ap_operands p) < 2 ^ 28" using assms(3) by (simp add: core_packet_ok_def)
  with payload_reads_back [OF assms(4)] show ?thesis unfolding core_decode_frame [OF assms(1-3)] by simp
qed

definition core_sample :: aicl_packet where
  "core_sample =
     \<lparr>ap_opcode = 0x11, ap_flags = 2, ap_message_id = None, ap_correlation_id = replicate 16 1, ap_deadline_ms = 500,
      ap_operands = [Op_U16 7, Op_Map [(str ''a'', Op_List [Op_Null]), (str ''b'', Op_Bool True)]]\<rparr>"

lemma core_sample_ok:
  "core_packet_ok (sent_id (replicate 16 9) core_sample) core_sample" "list_all core_ok (ap_operands core_sample)"
proof -
  show "list_all core_ok (ap_operands core_sample)"
    by (simp add: core_sample_def str_def utf8_len_ok.simps utf8_encode_Cons utf8_char_def list_less_def)
  have "length (core_payload core_sample) = 16"
    by (simp add: core_sample_def core_payload_def str_def put_counted_def str_bytes_def utf8_encode_Cons utf8_char_def
        core_varint_small)
  then show "core_packet_ok (sent_id (replicate 16 9) core_sample) core_sample"
    by (simp add: core_packet_ok_def sent_id_def) (simp add: core_sample_def opcode_from_u8_def OPCODES_def)
qed

lemma core_sample_encodes:
  obtains bs where "core_encode crc32 MAX_PAYLOAD_SIZE (replicate 16 9) core_sample = Inr bs" "length bs = 72"
proof -
  have n: "length (core_payload core_sample) = 16"
    by (simp add: core_sample_def core_payload_def str_def put_counted_def str_bytes_def utf8_encode_Cons utf8_char_def
        core_varint_small)
  have "ap_message_id core_sample = None" "length (ap_correlation_id core_sample) = 16" by (simp_all add: core_sample_def)
  with n have "\<exists>bs. core_encode crc32 MAX_PAYLOAD_SIZE (replicate 16 9) core_sample = Inr bs \<and> length bs = 72"
    by (simp add: core_encode_def Let_def)
  then show thesis using that by blast
qed

theorem core_packet_roundtrip_witness:
  "\<exists>bs. core_encode crc32 MAX_PAYLOAD_SIZE (replicate 16 9) core_sample = Inr bs \<and>
     decode_to_packet crc32 False MAX_PAYLOAD_SIZE True bs = Inr (core_sample\<lparr>ap_message_id := Some (replicate 16 9)\<rparr>)"
proof -
  obtain bs where bs: "core_encode crc32 MAX_PAYLOAD_SIZE (replicate 16 9) core_sample = Inr bs" "length bs = 72"
    by (rule core_sample_encodes)
  have "0 \<le> crc32 x \<and> crc32 x < 2 ^ 32" for x using crc32_range by simp
  from core_packet_roundtrip [OF this bs(1) core_sample_ok] bs show ?thesis by (simp add: core_sample_def sent_id_def)
qed

end
