(* ===== verification/Core_Agree.thy ===== *)
theory Core_Agree
  imports Core_Encode
begin

text \<open>
  The two implementations side by side: the native core and the Python codec write the same bytes for the same
  packet, so that what the core encodes the Python codec decodes.
\<close>

section \<open>Operands\<close>











section \<open>Packets\<close>

text \<open>The packet of the Python codec that stands for one of the core, sent under \<open>mid\<close>.\<close>

definition packet_of :: "bytes \<Rightarrow> aicl_packet \<Rightarrow> packet" where
  "packet_of mid p =
     default_packet
       \<lparr>pkt_flags := ap_flags p, pkt_message_id := Some mid, pkt_correlation_id := Some (ap_correlation_id p),
        pkt_operation := uint (ap_opcode p), pkt_symbols := map symbol_of (ap_operands p),
        pkt_deadline_ms := ap_deadline_ms p\<rparr>"

lemma packet_of_fields [simp]:
  "pkt_version (packet_of mid p) = CURRENT_VERSION" "pkt_flags (packet_of mid p) = ap_flags p"
  "pkt_message_id (packet_of mid p) = Some mid" "pkt_correlation_id (packet_of mid p) = Some (ap_correlation_id p)"
  "pkt_operation (packet_of mid p) = uint (ap_opcode p)" "pkt_symbols (packet_of mid p) = map symbol_of (ap_operands p)"
  "pkt_deadline_ms (packet_of mid p) = ap_deadline_ms p"
  by (simp_all add: packet_of_def default_packet_def)






section \<open>Properties\<close>



end
