(* ===== verification/Spec2Isabelle.thy ===== *)
theory Spec2Isabelle
  imports Streaming Ring Transport Sdk_Runtime Adapter_Flow Fast_Action_Codec Formatter Core_Agree
begin

text \<open>
  AICL is a binary packet protocol between AI components with a Python reference implementation
  under \<^verbatim>\<open>src/aicl\<close>: the wire codec (\<^verbatim>\<open>bin\<close>), local transports (\<^verbatim>\<open>transport\<close>), a client SDK over a native core
  (\<^verbatim>\<open>sdk\<close>), semantic objects above the packets (\<^verbatim>\<open>semantic\<close>) and a textual form (\<^verbatim>\<open>sl\<close>). This library models
  the codec, the transports, the SDK, the semantic layer and the textual form, function by function, and
  beside them the codec of the native core (\<^verbatim>\<open>src/core-rust\<close>) that the SDK loads,
  and proves what makes them correct, or where they are not, what they do instead.

  \<^bold>\<open>How the parts interact.\<close> A \<^verbatim>\<open>Packet\<close> is turned into header, payload and optional trailer by
  \<^verbatim>\<open>codec_api.encode\<close>, the payload being an opcode, operands and vendor operands for the rich fields;
  \<^verbatim>\<open>codec_api.decode\<close> validates the bytes and gives a \<^verbatim>\<open>PacketView\<close>, and \<^verbatim>\<open>StreamingDecoder\<close> does so for a stream
  cut anywhere. Bytes travel through a shared memory ring between two processes or, in principle,
  through a \<^verbatim>\<open>TransportSession\<close> over a backend chosen by an address. The SDK's \<^verbatim>\<open>AICLRuntime\<close> finds the native
  library or falls back to HTTP, connects \<^verbatim>\<open>Model\<close> handles by capability, and a model sends
  instructions over the runtime's transport under a cancellation token. Above the packets,
  \<^verbatim>\<open>SemanticAdapter\<close> turns the JSON a language model writes under a grammar (\<^verbatim>\<open>ModelGrammar\<close>) into a checked
  action, the action into a packet, and a received packet into an observation, a prompt and again an
  action; two flat formats carry actions without the packet codec, straight through a ring;
  \<^verbatim>\<open>SLFormatter\<close> prints packets and their views.

  \<^bold>\<open>Theories, in the order of the code they model.\<close>
  \<^item> \<open>Prelude\<close>: exceptions as values (\<open>exn\<close>, results \<open>exn + 'a\<close>), byte strings and slices, the \<^verbatim>\<open>struct\<close> module;
    the interface \<open>wire_codec\<close> of every encoder/decoder pair. \<open>Py_Text\<close>, \<open>Py_Float\<close>, \<open>Py_Decimal\<close>: what the code
    uses of the interpreter: strings and UTF-8, binary64 and binary32, decimal numbers in strings.
    \<open>Py_Float_Text\<close>, \<open>Py_Json\<close>, \<open>Py_Convert\<close>: what the semantic layer uses besides: the shortest decimal text
    of a float and its reading, \<^verbatim>\<open>json.dumps\<close> and \<^verbatim>\<open>json.loads\<close>, and \<^verbatim>\<open>int\<close>, \<^verbatim>\<open>float\<close>, \<^verbatim>\<open>str\<close>, \<^verbatim>\<open>repr\<close> and \<^verbatim>\<open>uuid\<close>
    conversions; loads undoes dumps, also between other white space.
  \<^item> \<open>Varint\<close> (\<^verbatim>\<open>bin/varint.py\<close>), \<open>Wire_Constants\<close> (\<^verbatim>\<open>constants, ops, symbol_types, extension_tags, identity,
    errors\<close>), \<open>Header\<close> (\<^verbatim>\<open>header.py, validation.py\<close>, with CRC-32), \<open>Operands\<close> (\<^verbatim>\<open>operands.py\<close>), \<open>Packet\<close>
    (\<^verbatim>\<open>types.py, codec_packet.py\<close>), \<open>Packet_View\<close> (\<^verbatim>\<open>codec_view.py\<close>), \<open>Codec_Api\<close> (\<^verbatim>\<open>codec_api.py\<close>), \<open>Streaming\<close>
    (\<^verbatim>\<open>streaming.py\<close>): round trips at every level from the varint to the whole packet with all its
    extensions, but for the two records whose encoder and view disagree; totality of the decoders with the
    exact set of exceptions; detection of every single-byte corruption; behaviour on truncated packets;
    independence of how a stream is cut, for packets with operands of the core kinds that do not set
    the flag 0x0100 without a checksum (\<open>stream_packet\<close>), with what the limit of packets per call holds back.
  \<^item> \<open>Ring\<close> (\<^verbatim>\<open>transport/shared_memory_ring.py\<close>): the operations on the bytes of the segment, and the step
    relation \<open>ring_step\<close> with one step per memory access of producer and consumer. Its invariant gives
    first-in first-out order under every interleaving; the interface \<open>bounded_queue\<close> and its extension
    \<open>answering_queue\<close>, both interpreted on the ring, make it refine a plain list, call by call and with
    every exception. The waiting calls take the readings of the clock they compare with their deadline.
  \<^item> \<open>Address\<close>, \<open>Transport\<close> (\<^verbatim>\<open>transport/address.py, interface.py, exceptions.py, session.py, factory.py\<close>):
    which strings are addresses and which come back from their printed form; when a session sends;
    what the factory returns.
  \<^item> \<open>Sdk_Errors\<close>, \<open>Cancellation\<close>, \<open>Capabilities\<close>, \<open>Sdk_Result\<close>, \<open>Diagnostic\<close>, \<open>Native\<close>, \<open>Sdk_Transport\<close>, \<open>Sdk_Model\<close>,
    \<open>Sdk_Runtime\<close> (\<^verbatim>\<open>sdk/errors.py, _cancellation.py, capabilities.py, result.py, diagnostic.py, _ffi.py,
    transport.py, model.py, runtime.py\<close>): exactly-once callbacks of a token and the interface
    \<open>cancellation\<close> a model relies on, interpreted on the token, the null token and their sum; lookups of
    capabilities; one-pass streams; the frame of an instruction; every outcome of a call; uniqueness
    of message ids in results, chunks and frames sent; the runtime's invariant over the relation
    \<open>runtime_step\<close> of everything a client can do, one call after the other, additions to the shared set of
    capabilities included, with models in a heap because the client shares them.
  \<^item> \<open>Semantic_Types\<close> (\<^verbatim>\<open>semantic/types.py\<close>): actions, observations, requests and results over JSON values,
    their validation, which of them survive conversion to a dict and back, and which intents survive
    the opcode tables.
  \<^item> \<open>Fast_Codec\<close>, \<open>Fast_Action_Codec\<close> (\<^verbatim>\<open>semantic/fast_codec.py, fast_action_codec.py\<close>): the two flat formats
    of an action, their round trips with what each keeps of ids, deadline and confidence, the
    exceptions of decoding arbitrary bytes, message ids that never repeat.
  \<^item> \<open>Grammar\<close> (\<^verbatim>\<open>semantic/grammar.py\<close>): the BNF text, the JSON schema and the grammar objects, and a reading
    of the schemas, under which a schema admits what validation admits.
  \<^item> \<open>Adapter\<close>, \<open>Adapter_Flow\<close> (\<^verbatim>\<open>semantic/adapter.py\<close>): every method of the adapter, and what flows through
    them: the gate and validation stand before every action sent and the gate before every packet
    received (results are sent without either), what of an action arrives elsewhere, which texts are read
    as which actions, which parameters fit an operand.
  \<^item> \<open>Formatter\<close> (\<^verbatim>\<open>sl/formatter.py\<close>): the text of packets, views and operands; every packet the encoder made
    can be shown.
  \<^item> \<open>Core_Codec\<close>, \<open>Core_Encode\<close>, \<open>Core_Agree\<close> (\<^verbatim>\<open>core-rust/src/codec.rs, operand.rs, opcode.rs, ffi.rs\<close>): the codec of the
    native core in Rust, with panics as outcomes. It reads every packet the Python codec encodes, unless the payload
    is over its limit, the flag 0x0100 is set without a checksum or the opcode is not assigned, and writes
    the bytes the Python codec writes; on which bytes it panics, which of its own packets it refuses, and where
    the two differ.
  \<^item> This theory: what spans components: packets through encoder, ring and incremental decoder, actions
    through the second flat format and the ring, and calls through runtime, model, transport and
    native core.

  \<^bold>\<open>State and effects.\<close> Stateful objects are records passed in and out. Exceptions are left injections; a
  raise changes the state exactly as far as the code had come. Dicts are association lists in
  insertion order. Code outside the repository is an argument: the operating system's shared memory
  and clock, the file system and dynamic loader, the network, transport backends, the module system,
  how a client's object prints, the client's callbacks and gates, \<^verbatim>\<open>str.lower\<close> and \<^verbatim>\<open>str.upper\<close> beyond
  ASCII, the table of printable characters, fresh random ids and readings of the clock, and of the
  native core the CRC of the crate \<^verbatim>\<open>crc32fast\<close> and whether it is built with overflow checks. The response
  of the SDK's HTTP transport is read by a \<^verbatim>\<open>json.loads\<close> that is an argument too, since nothing there
  depends on it; in the semantic layer \<^verbatim>\<open>json\<close> is the modelled one.

  \<^bold>\<open>Bounds and termination.\<close> Every function is total. Loops recurse on data or have a termination
  measure. The operand decoder recurses at most once per byte left, so it gets one level more than
  there are bytes and is shown never to run out; the decoder of operand sequences consumes at least
  one byte per round. The scanner of JSON gets one level more than there are characters, and no text
  meets that bound. The core's decoder of operands gets one level more than it has bytes, too, and never
  meets its bound. Varints have four bytes at most. The waiting calls of the ring are given one entry per
  round, with the memory found and the reading of the clock; they answer \<open>None\<close> where the rounds given are
  over first, and are shown to end once a reading has passed the deadline. Integers wrap or are
  refused where the code's representation does so: \<^verbatim>\<open>struct\<close> fields, varints, 32-bit lengths of native
  buffers; the ring's indices are Python integers and unbounded.

  \<^bold>\<open>Not modelled.\<close> Messages of exceptions and \<^verbatim>\<open>__repr__\<close>; the interpreter's recursion limit and memory
  exhaustion; byte orders other than little-endian in native \<^verbatim>\<open>struct\<close> formats; memory models weaker
  than interleaving; what llama.cpp makes of a BNF text; of the native core all but its codec (its runtime,
  ring and dispatch) and the cores in C++. The SDK's theories keep what the core's decoder does behind the
  version check as an argument of which nothing is assumed; \<open>core_rest\<close> of \<open>Core_Codec\<close> is that argument as the
  core has it. Not modelled either are the branches
  of \<^verbatim>\<open>_packet_view_to_observation\<close> that expect pairs where a view holds bytes, which cannot run; the
  text of values no field of a packet holds. Benchmarks, examples and package initialisers hold no
  logic of the protocol.
\<close>

section \<open>From encoder to decoder through shared memory\<close>

text \<open>A message that fits a slot, pushed and popped.\<close>

lemma one_message_run:
  assumes "length b + SLOT_DATA_OFFSET \<le> ssz" "0 < cap" "cap < 2 ^ 64" "ssz \<le> 2 ^ 32"
    and "RING_HEADER_SIZE + cap * ssz \<le> length shm"
  obtains buf s where "ring_create shm cap ssz = Inr (ring_init cap ssz True, buf)"
    "(ring_step cap ssz)\<^sup>*\<^sup>* (rs_init buf) s" "rs_pushed s = [b]" "rs_popped s = [b]"
proof -
  have ssz: "SLOT_DATA_OFFSET \<le> ssz" using assms(1) by simp
  obtain buf where buf: "ring_create shm cap ssz = Inr (ring_init cap ssz True, buf)" and ok: "slots_ok cap ssz buf 0 0 []"
    using create_slots [OF assms(2,3) ssz assms(4,5)] by auto
  let ?p = "ring_init cap ssz True" and ?c = "ring_init cap ssz False"
  have geom: "capacity ?p = cap" "slot_size ?p = ssz" "write_idx ?p = 0" "capacity ?c = cap" "slot_size ?c = ssz" "read_idx ?c = 0"
    by (simp_all add: ring_init_def)
  have g: "ring_geom (capacity ?p) (slot_size ?p) buf" using slots_okD(1) [OF ok] geom by simp
  have free: "buf ! soff cap ssz 0 = 0" using slots_okD(6) [OF ok, of 0] assms(2) by simp
  obtain p' buf1 where push: "push_nowait ?p b buf = Inr (p', buf1)" and p': "write_idx p' = 1"
    using push_nowait_cases [OF g, of b] free geom assms(1) by auto
  let ?s1 = "(rs_init buf)\<lparr>rs_buf := buf1, rs_w := write_idx p', rs_pushed := rs_pushed (rs_init buf) @ [b]\<rparr>"
  have run1: "(ring_step cap ssz)\<^sup>*\<^sup>* (rs_init buf) ?s1"
    using push_nowait_run [of ?p "rs_init buf" b p' buf1] ring_inv_init [OF ok] push geom by (simp add: rs_init_def)
  have inv1: "ring_inv cap ssz ?s1" by (rule ring_inv_run [OF run1 ring_inv_init [OF ok]])
  then have ok1: "slots_ok cap ssz buf1 0 1 [b]" using p' by (simp add: ring_inv_def rs_init_def)
  have used: "buf1 ! soff cap ssz 0 = 1" using slots_okD(5) [OF ok1, of 0] by simp
  have g1: "ring_geom (capacity ?c) (slot_size ?c) buf1" using slots_okD(1) [OF ok1] geom by simp
  obtain d c' buf2 where pop: "pop_nowait ?c buf1 = Inr (d, c', buf2)"
    using pop_nowait_cases [OF g1] used geom by (simp add: Let_def)
  let ?s2 = "?s1\<lparr>rs_buf := buf2, rs_r := read_idx c', rs_popped := rs_popped ?s1 @ [d]\<rparr>"
  have "(ring_step cap ssz)\<^sup>*\<^sup>* ?s1 ?s2"
    using pop_nowait_run [of ?c ?s1 d c' buf2] inv1 pop geom by (simp add: rs_init_def)
  with run1 have run: "(ring_step cap ssz)\<^sup>*\<^sup>* (rs_init buf) ?s2" by (rule rtranclp_trans)
  have pp: "rs_pushed ?s2 = [b]" "rs_popped ?s2 = [d]" by (simp_all add: rs_init_def)
  with ring_run_fifo [OF buf assms(2) ssz assms(4,5) run] have "d = b" by auto
  with buf run pp show thesis by (intro that) auto
qed

text \<open>
  C4. Packets encoded by one process and pushed through the shared memory ring, one message each, to
  another that pops them and feeds them to the incremental decoder, with both running at the same
  time: at every moment the decoder has handed out exactly the views of the packets popped so far, in
  order, and at most the ring's capacity of packets is still under way. The packets are those of
  \<open>stream_packet\<close>: within the size limit, with operands of the core kinds (no vendor operands among
  them), and with the flag 0x0100 only under a checksum, since without one the decoder holds the
  packet back (\<open>stream_flag_stalls\<close>). The decoder hands out at least one packet per call.
\<close>

theorem packets_through_ring:
  assumes "ring_create shm cap ssz = Inr (r, buf)" "0 < cap" "SLOT_DATA_OFFSET \<le> ssz" "ssz \<le> 2 ^ 32"
    and "RING_HEADER_SIZE + cap * ssz \<le> length shm" "(ring_step cap ssz)\<^sup>*\<^sup>* (rs_init buf) s"
    and "list_all2 stream_packet ps (rs_pushed s)" "1 \<le> m"
  shows "\<exists>k vs. k \<le> length ps \<and> length ps - k \<le> cap \<and> rs_popped s = take k (rs_pushed s) \<and>
    map decode (take k (rs_pushed s)) = map Inr vs \<and>
    feed_all (streaming_init m) (rs_popped s) = (streaming_init m, Inr vs)"
proof -
  from ring_run_fifo [OF assms(1-6)] obtain between where
    b: "rs_pushed s = rs_popped s @ between" "length between \<le> cap" by blast
  let ?k = "length (rs_popped s)"
  have len: "length ps = ?k + length between" using list_all2_lengthD [OF assms(7)] b(1) by simp
  have "list_all2 stream_packet (take ?k ps) (rs_popped s)"
    using list_all2_takeI [OF assms(7), of ?k] b(1) by simp
  then obtain vs where vs: "list_all2 good_frame (rs_popped s) vs" "map decode (rs_popped s) = map Inr vs"
    by (rule stream_frames)
  have "feed_all (streaming_init m) (rs_popped s) = (streaming_init m, Inr vs)"
    using assms(8) by (intro feed_each [OF vs(1)]) (simp_all add: streaming_init_def)
  with b len vs(2) show ?thesis by (intro exI [of _ ?k] exI [of _ vs]) auto
qed

theorem packets_through_ring_witness:
  "\<exists>buf s b vs. encode sample_packet True = Inr b \<and> ring_create (replicate 260 0) 2 120 = Inr (ring_init 2 120 True, buf) \<and>
     (ring_step 2 120)\<^sup>*\<^sup>* (rs_init buf) s \<and> rs_popped s = [b] \<and>
     feed_all (streaming_init 16) (rs_popped s) = (streaming_init 16, Inr vs) \<and> length vs = 1"
proof -
  obtain b where b: "stream_packet (sample_packet, True) b" "encode sample_packet True = Inr b" "length b = 107"
    using sample_stream_packet [of True] by auto
  obtain buf s where run: "ring_create (replicate 260 0) 2 120 = Inr (ring_init 2 120 True, buf)"
    "(ring_step 2 120)\<^sup>*\<^sup>* (rs_init buf) s" "rs_pushed s = [b]" "rs_popped s = [b]"
    by (rule one_message_run [of b 120 2 "replicate 260 0"]) (simp_all add: b(3))
  have "\<exists>k vs. k \<le> length [(sample_packet, True)] \<and> length [(sample_packet, True)] - k \<le> 2 \<and>
      rs_popped s = take k (rs_pushed s) \<and> map decode (take k (rs_pushed s)) = map Inr vs \<and>
      feed_all (streaming_init 16) (rs_popped s) = (streaming_init 16, Inr vs)"
    by (rule packets_through_ring [OF run(1) _ _ _ _ run(2)]) (use b(1) run(3) in simp_all)
  then obtain k vs where k: "[b] = take k [b]" "map decode (take k [b]) = map Inr vs"
    "feed_all (streaming_init 16) (rs_popped s) = (streaming_init 16, Inr vs)" using run(3,4) by metis
  from k(1,2) have "length vs = 1" by (cases k) (auto dest: arg_cong [of _ _ length])
  then show ?thesis using b(2) run k(3) by metis
qed

section \<open>Actions through shared memory\<close>




section \<open>Runtimes with the native library\<close>

text \<open>
  A packet of the packet codec, within the core's limits and with an assigned opcode, is what the native transport
  takes: decoding it through the SDK gives a view with the packet's opcode, flags and number of operands, sending it succeeds, and each leaves a view in the core.
\<close>

lemma native_takes_packets:
  assumes "\<And>bs. crc bs = crc32 bs" "encode p checksum = Inr bs" "list_all wf_symbol (pkt_symbols p)"
    and "int (length bs) \<le> MAX_PACKET_SIZE" "checksum \<or> pkt_flags p AND FLAG_HAS_TRAILER = 0"
    and "is_assigned (pkt_operation p AND 0xFF)" "append_extensions p (pkt_symbols p) = Inr operands" "\<not> nt_closed t"
  shows "native_decode (core_rest crc False) bs t =
      (Inr \<lparr>nv_opcode = pkt_operation p AND 0xFF, nv_flags = wire_flags p checksum, nv_operand_count = int (length operands)\<rparr>,
       t\<lparr>nt_live_views := nt_live_views t + 1\<rparr>) \<and>
    native_send (core_rest crc False) bs t = (Inr (), t\<lparr>nt_live_views := nt_live_views t + 1\<rparr>)"
  using core_decode_is_core [OF encoded_view [OF assms(1-7)]] assms(8)
  by (simp add: native_decode_def native_send_def context_decode_def)

text \<open>
  C9. On a machine where the native library loads, no call through a runtime ever succeeds: whatever
  state was reached, and whatever the model, the instruction, its arguments and the cancellation
  token, the result holds an exception. (The frame a model builds is not one the native core
  accepts.)
\<close>

theorem native_runtime_never_succeeds:
  assumes "runtime_reachable low True http caps added rt"
  shows "\<not> sr_ok (fst (object_call w instruction timeout kwargs i rt))"
proof -
  have "transport_is_native (rt_transport rt)" using reachable_wf [OF assms] by (simp add: runtime_wf_def)
  then obtain t where "rt_transport rt = Native t" by (cases "rt_transport rt") simp_all
  then show ?thesis by (simp add: object_call_def case_prod_beta Let_def native_call_never_succeeds)
qed

theorem native_runtime_never_succeeds_witness:
  "\<exists>rt. runtime_init (Inr {}) False [] 0 None = Inr rt \<and>
     \<not> sr_ok (fst (object_call sample_world (str ''embed'') None [(str ''text'', ArgStr (str ''hi''))] 0
       (snd (connect ascii_lower (str ''embed'') [] None rt))))"
proof -
  obtain rt where rt: "runtime_init (Inr {}) False [] 0 None = Inr rt" "rt_native_available rt"
    by (simp add: runtime_init_def bindr_def)
  have "runtime_reachable ascii_lower True False None [] rt" using reach_init [OF rt(1)] rt(2) by simp
  from native_runtime_never_succeeds [OF reach_step [OF this step_connect]] rt(1) show ?thesis by blast
qed

end
